(* ===== verification/Prelude.thy ===== *)
theory Prelude
  imports Main "HOL-Library.Word" "HOL-Library.Char_ord"
begin

text \<open>
  Shared material of the development: the fixed-width ranges of C integer types, the C view
  of a byte (signed characters, digits, case folding), the decimal notation that the number
  printers and parsers are specified against, and generic list lemmas. The two collections
  hold the facts that the component theories hand to the simplifier as a group.
\<close>

named_theorems c_num "ranges of machine integers"
named_theorems buf_simps "reads and writes of buffers"

subsection \<open>Machine integers\<close>

abbreviation LLONG_MAX :: int where "LLONG_MAX \<equiv> 9223372036854775807"
abbreviation LLONG_MIN :: int where "LLONG_MIN \<equiv> - 9223372036854775808"
abbreviation ULLONG_MAX :: nat where "ULLONG_MAX \<equiv> 18446744073709551615"

definition in_ll :: "int \<Rightarrow> bool" where
  "in_ll x \<longleftrightarrow> LLONG_MIN \<le> x \<and> x \<le> LLONG_MAX"

text \<open>Reduction of a result to \<open>unsigned long long\<close>, and its conversion to \<open>long long\<close>.\<close>

definition wrap64 :: "nat \<Rightarrow> nat" where
  "wrap64 n = n mod 18446744073709551616"

definition to_ll :: "nat \<Rightarrow> int" where
  "to_ll n = (if int n \<le> LLONG_MAX then int n else int n - 18446744073709551616)"

lemma wrap64_id [simp]: "n \<le> ULLONG_MAX \<Longrightarrow> wrap64 n = n"
  by (simp add: wrap64_def)

lemma to_ll_id [simp]: "int n \<le> LLONG_MAX \<Longrightarrow> to_ll n = int n"
  by (simp add: to_ll_def)

text \<open>Signed wrap-around at 64 bits (the value an \<open>int\<close> result has once stored).\<close>

definition wrap_ll :: "int \<Rightarrow> int" where
  "wrap_ll x = (x + 9223372036854775808) mod 18446744073709551616 - 9223372036854775808"

lemma wrap_ll_id [simp]: "in_ll x \<Longrightarrow> wrap_ll x = x"
  by (simp add: wrap_ll_def in_ll_def)

lemma wrap_ll_in [simp]: "in_ll (wrap_ll x)"
proof -
  have "0 \<le> (x + 9223372036854775808) mod 18446744073709551616" by simp
  moreover have "(x + 9223372036854775808) mod 18446744073709551616 < 18446744073709551616" by simp
  ultimately show ?thesis by (simp add: wrap_ll_def in_ll_def)
qed

subsection \<open>Characters\<close>

abbreviation NUL :: char where "NUL \<equiv> CHR 0x00"

definition uchar :: "char \<Rightarrow> nat" where
  "uchar c = of_char c"

text \<open>\<open>char\<close> is signed on the platforms the program is built for.\<close>

definition schar :: "char \<Rightarrow> int" where
  "schar c = (let n = int (uchar c) in if n < 128 then n else n - 256)"

definition ctolower :: "int \<Rightarrow> int" where
  "ctolower c = (if 65 \<le> c \<and> c \<le> 90 then c + 32 else c)"

definition is_digit :: "char \<Rightarrow> bool" where
  "is_digit c \<longleftrightarrow> 48 \<le> uchar c \<and> uchar c \<le> 57"

definition digit_val :: "char \<Rightarrow> nat" where
  "digit_val c = uchar c - 48"

definition digit_chr :: "nat \<Rightarrow> char" where
  "digit_chr d = char_of (48 + d)"

lemma uchar_bound [simp]: "uchar c < 256"
  unfolding uchar_def using nat_of_char_less_256 [of c] by simp

lemma uchar_inject [simp]: "uchar a = uchar b \<longleftrightarrow> a = b"
  by (simp add: uchar_def)

lemma char_of_uchar [simp]: "char_of (uchar c) = c"
  by (simp add: uchar_def)

lemma uchar_digit_chr [simp]: "d < 10 \<Longrightarrow> uchar (digit_chr d) = 48 + d"
  by (simp add: uchar_def digit_chr_def)

lemma is_digit_digit_chr [simp]: "d < 10 \<Longrightarrow> is_digit (digit_chr d)"
  by (simp add: is_digit_def)

lemma digit_val_digit_chr [simp]: "d < 10 \<Longrightarrow> digit_val (digit_chr d) = d"
  by (simp add: digit_val_def)

lemma digit_chr_digit_val [simp]: "is_digit c \<Longrightarrow> digit_chr (digit_val c) = c"
  by (simp add: is_digit_def digit_val_def digit_chr_def)

lemma digit_val_bound [simp]: "is_digit c \<Longrightarrow> digit_val c < 10"
  by (auto simp: is_digit_def digit_val_def)

lemma digit_chr_inj: "a < 10 \<Longrightarrow> b < 10 \<Longrightarrow> digit_chr a = digit_chr b \<longleftrightarrow> a = b"
  by (metis digit_val_digit_chr)

lemma digit_chr_0 [simp]: "digit_chr 0 = CHR ''0''"
  by code_simp

lemma uchar_minus: "uchar (CHR ''-'') = 45"
  by (simp add: uchar_def)

lemma not_digit_minus [simp]: "\<not> is_digit (CHR ''-'')"
  by (simp add: is_digit_def uchar_minus)

lemma not_digit_NUL [simp]: "\<not> is_digit NUL"
  by (simp add: is_digit_def uchar_def)

lemma schar_inject [simp]: "schar a = schar b \<longleftrightarrow> a = b"
proof
  assume "schar a = schar b"
  then have "uchar a = uchar b"
    using uchar_bound [of a] uchar_bound [of b] unfolding schar_def Let_def
    by (simp split: if_splits del: uchar_bound uchar_inject)
  then show "a = b" by simp
qed simp

subsection \<open>Decimal notation\<close>

fun show_nat :: "nat \<Rightarrow> char list" where
  "show_nat n = (if n < 10 then [digit_chr n] else show_nat (n div 10) @ [digit_chr (n mod 10)])"

declare show_nat.simps [simp del]

definition show_int :: "int \<Rightarrow> char list" where
  "show_int x = (if x < 0 then CHR ''-'' # show_nat (nat (- x)) else show_nat (nat x))"

text \<open>The value of a digit string, most significant digit first.\<close>

definition digits_val :: "nat \<Rightarrow> char list \<Rightarrow> nat" where
  "digits_val a cs = foldl (\<lambda>v c. v * 10 + digit_val c) a cs"

lemma digits_val_simps [simp]:
  "digits_val a [] = a"
  "digits_val a (c # cs) = digits_val (a * 10 + digit_val c) cs"
  "digits_val a (cs @ ds) = digits_val (digits_val a cs) ds"
  by (simp_all add: digits_val_def)

lemma digits_val_ge: "a \<le> digits_val a cs"
proof (induction cs arbitrary: a)
  case (Cons c cs)
  have "a \<le> a * 10 + digit_val c" by simp
  also have "\<dots> \<le> digits_val (a * 10 + digit_val c) cs" by (rule Cons.IH)
  finally show ?case by simp
qed simp

lemma show_nat_small: "n < 10 \<Longrightarrow> show_nat n = [digit_chr n]"
  by (simp add: show_nat.simps)

lemma show_nat_big: "10 \<le> n \<Longrightarrow> show_nat n = show_nat (n div 10) @ [digit_chr (n mod 10)]"
  by (subst show_nat.simps) simp

lemma show_nat_100:
  assumes "100 \<le> n"
  shows "show_nat n = show_nat (n div 100) @ [digit_chr (n mod 100 div 10), digit_chr (n mod 10)]"
proof -
  have "n div 10 \<ge> 10" using assms by simp
  then have "show_nat (n div 10) = show_nat (n div 10 div 10) @ [digit_chr (n div 10 mod 10)]"
    by (rule show_nat_big)
  moreover have "n div 10 div 10 = n div 100" by (simp add: div_mult2_eq [symmetric])
  moreover have "n div 10 mod 10 = n mod 100 div 10"
    using mod_mult2_eq [of n 10 10] by simp
  ultimately show ?thesis using assms by (simp add: show_nat_big)
qed

lemma show_nat_digits: "c \<in> set (show_nat n) \<Longrightarrow> is_digit c"
proof (induction n rule: show_nat.induct)
  case (1 n)
  show ?case
  proof (cases "n < 10")
    case True
    with "1.prems" show ?thesis by (simp add: show_nat_small)
  next
    case False
    with "1.prems" have "c \<in> set (show_nat (n div 10)) \<or> c = digit_chr (n mod 10)"
      by (auto simp: show_nat_big)
    then show ?thesis
    proof
      assume "c \<in> set (show_nat (n div 10))"
      with False show ?thesis by (rule "1.IH")
    qed simp
  qed
qed

lemma show_nat_ne [simp]: "show_nat n \<noteq> []"
  by (subst show_nat.simps) simp

lemma digits_val_show_nat [simp]: "digits_val 0 (show_nat n) = n"
proof (induction n rule: show_nat.induct)
  case (1 n)
  then show ?case by (cases "n < 10") (simp_all add: show_nat_small show_nat_big)
qed

lemma show_nat_hd: "0 < n \<Longrightarrow> 0 < digit_val (hd (show_nat n))"
proof (induction n rule: show_nat.induct)
  case (1 n)
  then show ?case by (cases "n < 10") (simp_all add: show_nat_small show_nat_big)
qed

lemma digits_val_snoc_inv:
  assumes "d < 10" shows "(v * 10 + d) div 10 = v" "(v * 10 + d) mod 10 = (d::nat)"
  using assms by simp_all

text \<open>A digit string without a leading zero is the notation of its value.\<close>

lemma show_nat_digits_val:
  assumes "is_digit c" and "0 < digit_val c" and "\<forall>d \<in> set cs. is_digit d"
  shows "show_nat (digits_val (digit_val c) cs) = c # cs"
  using assms(3)
proof (induction cs rule: rev_induct)
  case Nil
  with assms(1) show ?case by (simp add: show_nat_small)
next
  case (snoc d ds)
  let ?v = "digits_val (digit_val c) ds"
  have v: "0 < ?v" using digits_val_ge [of "digit_val c" ds] assms(2) by linarith
  have d: "digit_val d < 10" using snoc.prems by simp
  have "10 \<le> ?v * 10 + digit_val d" using v by simp
  then have "show_nat (?v * 10 + digit_val d) = show_nat ?v @ [digit_chr (digit_val d)]"
    using show_nat_big [of "?v * 10 + digit_val d"] digits_val_snoc_inv [OF d, of ?v] by simp
  with snoc show ?case by simp
qed

subsection \<open>Lists and buffers\<close>

lemma list_update_id_out: "length xs \<le> i \<Longrightarrow> xs[i := x] = xs"
  by (rule list_update_beyond)

lemma take_Suc_update [buf_simps]: "i < length xs \<Longrightarrow> take (Suc i) (xs[i := x]) = take i xs @ [x]"
  by (simp add: take_Suc_conv_app_nth)

lemma drop_update_eq [buf_simps]: "i < length xs \<Longrightarrow> drop i (xs[i := x]) = x # drop (Suc i) xs"
  by (metis Cons_nth_drop_Suc drop_update_cancel length_list_update lessI nth_list_update_eq)

lemma take_append_length [buf_simps]: "length xs = n \<Longrightarrow> take n (xs @ ys) = xs"
  by simp

lemma drop_append_length [buf_simps]: "length xs = n \<Longrightarrow> drop n (xs @ ys) = ys"
  by simp

end
