(* ===== verification/Util.thy ===== *)
theory Util
  imports Prelude
begin

text \<open>
  Model of \<^verbatim>\<open>redis-2.8.19/src/util.c\<close>: the glob matcher behind KEYS, SCAN, PSUBSCRIBE and
  CONFIG GET, and the number printers and parsers that decide which strings Redis stores as
  integers. Buffers are lists of characters that include the terminating NUL; a read outside
  the buffer is undefined behaviour in C and is \<open>None\<close> here.
\<close>

definition rd :: "'a list \<Rightarrow> nat \<Rightarrow> 'a option" where
  "rd buf i = (if i < length buf then Some (buf ! i) else None)"

lemma rd_Some: "rd buf i = Some c \<longleftrightarrow> i < length buf \<and> buf ! i = c"
  by (auto simp: rd_def)

lemma rd_append [buf_simps]: "length xs = i \<Longrightarrow> rd (xs @ c # ys) i = Some c"
  by (auto simp: rd_def)

subsection \<open>\<open>stringmatchlen\<close>\<close>

definition chr_eq :: "bool \<Rightarrow> char \<Rightarrow> char \<Rightarrow> bool" where
  "chr_eq nocase a b =
     (if \<not> nocase then a = b else ctolower (schar a) = ctolower (schar b))"

text \<open>The range test of a bracket: the bounds are swapped first and folded afterwards.\<close>

definition in_range :: "bool \<Rightarrow> char \<Rightarrow> char \<Rightarrow> char \<Rightarrow> bool" where
  "in_range nocase a b x =
     (let start = schar a; en = schar b; c = schar x;
          lo = (if start > en then en else start);
          hi = (if start > en then start else en)
      in if nocase then ctolower lo \<le> ctolower c \<and> ctolower c \<le> ctolower hi
         else lo \<le> c \<and> c \<le> hi)"

text \<open>The \<open>while(1)\<close> loop over the members of a bracket; \<open>pattern\<close> is at index \<open>p\<close>.\<close>

function class_loop :: "char list \<Rightarrow> nat \<Rightarrow> int \<Rightarrow> char list \<Rightarrow> nat \<Rightarrow> bool \<Rightarrow> bool
    \<Rightarrow> (bool \<times> nat \<times> int) option" where
  "class_loop pat p pl str s nocase mt =
     (case rd pat p of None \<Rightarrow> None | Some c \<Rightarrow>
       if c = CHR 0x5C then
         (case rd pat (p + 1) of None \<Rightarrow> None | Some c1 \<Rightarrow>
           (case rd str s of None \<Rightarrow> None | Some d \<Rightarrow>
             class_loop pat (p + 2) (pl - 2) str s nocase (mt \<or> c1 = d)))
       else if c = CHR '']'' then Some (mt, p, pl)
       else if pl = 0 then Some (mt, p - 1, pl + 1)
       else
         (case rd pat (p + 1) of None \<Rightarrow> None | Some c1 \<Rightarrow>
           if c1 = CHR ''-'' \<and> pl \<ge> 3 then
             (case rd pat (p + 2) of None \<Rightarrow> None | Some c2 \<Rightarrow>
               (case rd str s of None \<Rightarrow> None | Some d \<Rightarrow>
                 class_loop pat (p + 3) (pl - 3) str s nocase (mt \<or> in_range nocase c c2 d)))
           else
             (case rd str s of None \<Rightarrow> None | Some d \<Rightarrow>
               class_loop pat (p + 1) (pl - 1) str s nocase (mt \<or> chr_eq nocase c d))))"
  by pat_completeness auto
termination
  by (relation "measure (\<lambda>(pat, p, _). length pat - p)") (auto simp: rd_Some)

declare class_loop.simps [simp del]

datatype elem = NoMatch | Matched nat int nat int

text \<open>The \<open>case '['\<close> of the switch.\<close>

definition match_class :: "char list \<Rightarrow> nat \<Rightarrow> int \<Rightarrow> char list \<Rightarrow> nat \<Rightarrow> int \<Rightarrow> bool
    \<Rightarrow> elem option" where
  "match_class pat p pl str s sl nocase =
     (case rd pat (p + 1) of None \<Rightarrow> None | Some c \<Rightarrow>
       (let neg = (c = CHR ''^'');
            p1 = (if neg then p + 2 else p + 1);
            pl1 = (if neg then pl - 2 else pl - 1)
        in case class_loop pat p1 pl1 str s nocase False of None \<Rightarrow> None
           | Some (mt, p2, pl2) \<Rightarrow>
               if (mt \<noteq> neg) then Some (Matched p2 pl2 (s + 1) (sl - 1))
               else Some NoMatch))"

text \<open>The \<open>default\<close> case: one character of the pattern against one of the string.\<close>

definition match_char :: "char list \<Rightarrow> nat \<Rightarrow> int \<Rightarrow> char list \<Rightarrow> nat \<Rightarrow> int \<Rightarrow> bool
    \<Rightarrow> elem option" where
  "match_char pat p pl str s sl nocase =
     (case rd pat p of None \<Rightarrow> None | Some c \<Rightarrow>
       (case rd str s of None \<Rightarrow> None | Some d \<Rightarrow>
         if chr_eq nocase c d then Some (Matched p pl (s + 1) (sl - 1)) else Some NoMatch))"

text \<open>One pass of the switch for everything but \<open>'*'\<close>.\<close>

definition match_elem :: "char list \<Rightarrow> nat \<Rightarrow> int \<Rightarrow> char \<Rightarrow> char list \<Rightarrow> nat \<Rightarrow> int \<Rightarrow> bool
    \<Rightarrow> elem option" where
  "match_elem pat p pl c str s sl nocase =
     (if c = CHR ''?'' then
        if sl = 0 then Some NoMatch else Some (Matched p pl (s + 1) (sl - 1))
      else if c = CHR ''['' then match_class pat p pl str s sl nocase
      else if c = CHR 0x5C \<and> pl \<ge> 2 then match_char pat (p + 1) (pl - 1) str s sl nocase
      else match_char pat p pl str s sl nocase)"

text \<open>\<open>while (pattern[1] == '*')\<close> and \<open>while (*pattern == '*')\<close>.\<close>

function skip_stars1 :: "char list \<Rightarrow> nat \<Rightarrow> int \<Rightarrow> (nat \<times> int) option" where
  "skip_stars1 pat p pl =
     (case rd pat (p + 1) of None \<Rightarrow> None | Some c \<Rightarrow>
        if c = CHR ''*'' then skip_stars1 pat (p + 1) (pl - 1) else Some (p, pl))"
  by pat_completeness auto
termination
  by (relation "measure (\<lambda>(pat, p, _). length pat - p)") (auto simp: rd_Some)

function skip_stars0 :: "char list \<Rightarrow> nat \<Rightarrow> int \<Rightarrow> (nat \<times> int) option" where
  "skip_stars0 pat p pl =
     (case rd pat p of None \<Rightarrow> None | Some c \<Rightarrow>
        if c = CHR ''*'' then skip_stars0 pat (p + 1) (pl - 1) else Some (p, pl))"
  by pat_completeness auto
termination
  by (relation "measure (\<lambda>(pat, p, _). length pat - p)") (auto simp: rd_Some)

declare skip_stars1.simps [simp del] skip_stars0.simps [simp del]

lemma class_loop_forward:
  "class_loop pat p pl str s nc mt = Some (mt', p', pl') \<Longrightarrow> p - 1 \<le> p'"
proof (induction pat p pl str s nc mt rule: class_loop.induct)
  case (1 pat p pl str s nc mt)
  show ?case
    using "1.prems" "1.IH" [simplified]
    by (auto simp: class_loop.simps [of pat p pl str s nc mt] split: option.splits if_splits; fastforce)
qed

lemma match_elem_forward:
  assumes "match_elem pat p pl c str s sl nc = Some (Matched p' pl' s' sl')"
  shows "p \<le> p'"
proof -
  have "p + 1 - 1 \<le> p'" if "class_loop pat (p + 1) a str s nc b = Some (m, p', q)" for a b m q
    using class_loop_forward [OF that] .
  moreover have "p + 2 - 1 \<le> p'" if "class_loop pat (p + 2) a str s nc b = Some (m, p', q)" for a b m q
    using class_loop_forward [OF that] .
  ultimately show ?thesis using assms
    by (fastforce simp: match_elem_def match_class_def match_char_def Let_def
        split: option.splits if_splits)
qed

lemma skip_stars1_forward:
  "skip_stars1 pat p pl = Some (p', pl') \<Longrightarrow> p \<le> p'"
proof (induction pat p pl rule: skip_stars1.induct)
  case (1 pat p pl)
  show ?case
    using "1.prems" "1.IH"
    by (simp add: skip_stars1.simps [of pat p pl] split: option.splits if_splits)
qed

text \<open>
  The matcher proper. \<open>star_loop\<close> is the \<open>while(stringLen)\<close> of \<open>'*'\<close>; advancing
  \<open>string\<close> beyond its buffer is undefined.
\<close>

function stringmatch_at :: "char list \<Rightarrow> nat \<Rightarrow> int \<Rightarrow> char list \<Rightarrow> nat \<Rightarrow> int \<Rightarrow> bool \<Rightarrow> bool option"
  and star_loop :: "char list \<Rightarrow> nat \<Rightarrow> int \<Rightarrow> char list \<Rightarrow> nat \<Rightarrow> int \<Rightarrow> bool \<Rightarrow> bool option"
where
  "stringmatch_at pat p pl str s sl nocase =
     (if pl = 0 then Some (sl = 0)
      else case rd pat p of None \<Rightarrow> None | Some c \<Rightarrow>
        if c = CHR ''*'' then
          (case skip_stars1 pat p pl of None \<Rightarrow> None | Some (p1, pl1) \<Rightarrow>
             if pl1 = 1 then Some True else star_loop pat p1 pl1 str s sl nocase)
        else
          (case match_elem pat p pl c str s sl nocase of None \<Rightarrow> None
           | Some NoMatch \<Rightarrow> Some False
           | Some (Matched p1 pl1 s1 sl1) \<Rightarrow>
               if sl1 = 0 then
                 (case skip_stars0 pat (p1 + 1) (pl1 - 1) of None \<Rightarrow> None
                  | Some (_, pl2) \<Rightarrow> Some (pl2 = 0))
               else stringmatch_at pat (p1 + 1) (pl1 - 1) str s1 sl1 nocase))"
| "star_loop pat p pl str s sl nocase =
     (if sl = 0 then Some False
      else if length pat \<le> p \<or> length str \<le> s then None
      else case stringmatch_at pat (p + 1) (pl - 1) str s sl nocase of None \<Rightarrow> None
        | Some True \<Rightarrow> Some True
        | Some False \<Rightarrow> star_loop pat p pl str (s + 1) (sl - 1) nocase)"
  by pat_completeness auto
termination
  by (relation "measures
      [\<lambda>x. case x of Inl (pat, p, _, str, s, _) \<Rightarrow> length pat - p | Inr (pat, p, _, str, s, _) \<Rightarrow> length pat - p,
       \<lambda>x. case x of Inl (pat, p, _, str, s, _) \<Rightarrow> length str - s | Inr (pat, p, _, str, s, _) \<Rightarrow> length str - s,
       \<lambda>x. case x of Inl _ \<Rightarrow> 1 | Inr _ \<Rightarrow> 0]")
    (auto simp: rd_Some dest!: skip_stars1_forward match_elem_forward)

declare stringmatch_at.simps [simp del] star_loop.simps [simp del]

text \<open>The call as the callers make it: both strings are NUL-terminated sds strings.\<close>

definition stringmatchlen :: "char list \<Rightarrow> char list \<Rightarrow> bool \<Rightarrow> bool option" where
  "stringmatchlen pattern str nocase =
     stringmatch_at (pattern @ [NUL]) 0 (int (length pattern)) (str @ [NUL]) 0 (int (length str)) nocase"

subsection \<open>\<open>memtoll\<close> and file names\<close>

definition ctolower_chr :: "char \<Rightarrow> char" where
  "ctolower_chr c = (if 65 \<le> uchar c \<and> uchar c \<le> 90 then char_of (uchar c + 32) else c)"

text \<open>\<open>strcasecmp(a,b) == 0\<close> of the C library.\<close>

definition strcaseeq :: "char list \<Rightarrow> char list \<Rightarrow> bool" where
  "strcaseeq a b \<longleftrightarrow> map ctolower_chr a = map ctolower_chr b"

text \<open>\<open>strtoll\<close> on an optional minus sign and digits: it saturates at the limits of the type.\<close>

definition strtoll :: "char list \<Rightarrow> int" where
  "strtoll cs = (case cs of [] \<Rightarrow> 0
     | c # ds \<Rightarrow> if c = CHR ''-'' then max LLONG_MIN (- int (digits_val 0 ds))
                else min LLONG_MAX (int (digits_val 0 cs)))"

text \<open>
  \<open>memtoll\<close>: the value and the error flag. The string argument is the C string without its
  NUL; the product is stored in a 64-bit variable.
\<close>

definition memtoll :: "char list \<Rightarrow> int \<times> bool" where
  "memtoll p =
     (let sign = (case p of [] \<Rightarrow> [] | c # _ \<Rightarrow> if c = CHR ''-'' then [c] else []);
          ds = takeWhile is_digit (drop (length sign) p);
          u = drop (length sign + length ds) p;
          digits = length sign + length ds;
          (mul, err) =
            (if u = [] \<or> strcaseeq u ''b'' then (1, False)
             else if strcaseeq u ''k'' then (1000, False)
             else if strcaseeq u ''kb'' then (1024, False)
             else if strcaseeq u ''m'' then (1000 * 1000, False)
             else if strcaseeq u ''mb'' then (1024 * 1024, False)
             else if strcaseeq u ''g'' then (1000 * 1000 * 1000, False)
             else if strcaseeq u ''gb'' then (1024 * 1024 * 1024, False)
             else (1, True))
      in if digits \<ge> 128 then (LLONG_MAX, True)
         else (wrap_ll (strtoll (take digits p) * mul), err))"

definition pathIsBaseName :: "char list \<Rightarrow> bool" where
  "pathIsBaseName path \<longleftrightarrow> CHR ''/'' \<notin> set path \<and> CHR 0x5C \<notin> set path"

subsection \<open>Printing numbers: \<open>digits10\<close> and \<open>ll2string\<close>\<close>

function digits10 :: "nat \<Rightarrow> nat" where
  "digits10 v =
     (if v < 10 then 1
      else if v < 100 then 2
      else if v < 1000 then 3
      else if v < 1000000000000 then
        if v < 100000000 then
          if v < 1000000 then
            if v < 10000 then 4 else 5 + (if v \<ge> 100000 then 1 else 0)
          else 7 + (if v \<ge> 10000000 then 1 else 0)
        else if v < 10000000000 then 9 + (if v \<ge> 1000000000 then 1 else 0)
        else 11 + (if v \<ge> 100000000000 then 1 else 0)
      else 12 + digits10 (v div 1000000000000))"
  by pat_completeness auto
termination
  by (relation "measure id") auto

declare digits10.simps [simp del]

definition digit_pairs :: "char list" where
  "digit_pairs =
     ''0001020304050607080910111213141516171819'' @
     ''2021222324252627282930313233343536373839'' @
     ''4041424344454647484950515253545556575859'' @
     ''6061626364656667686970717273747576777879'' @
     ''8081828384858687888990919293949596979899''"

text \<open>The digit loop of \<open>ll2string\<close> with the one or two digits that remain after it.\<close>

function ll2string_digits :: "nat \<Rightarrow> nat \<Rightarrow> char list \<Rightarrow> char list" where
  "ll2string_digits value next dst =
     (if value \<ge> 100 then
        let i = (value mod 100) * 2
        in ll2string_digits (value div 100) (next - 2)
             (dst[next := digit_pairs ! (i + 1), next - 1 := digit_pairs ! i])
      else if value < 10 then dst[next := digit_chr value]
      else
        let i = value * 2
        in dst[next := digit_pairs ! (i + 1), next - 1 := digit_pairs ! i])"
  by pat_completeness auto
termination
  by (relation "measure fst") auto

declare ll2string_digits.simps [simp del]

text \<open>The number of characters and the buffer afterwards; 0 when the buffer is too small.\<close>

definition ll2string :: "char list \<Rightarrow> nat \<Rightarrow> int \<Rightarrow> nat \<times> char list" where
  "ll2string dst dstlen svalue =
     (let (value, negative) =
        (if svalue < 0 then
           (if svalue \<noteq> LLONG_MIN then (nat (- svalue), 1::nat) else (nat LLONG_MAX + 1, 1))
         else (nat svalue, 0));
        len = digits10 value + negative
      in if len \<ge> dstlen then (0, dst)
         else
           let dst1 = ll2string_digits value (len - 1) (dst[len := NUL])
           in (len, if negative = 1 then dst1[0 := CHR ''-''] else dst1))"

subsection \<open>Parsing numbers: \<open>string2ll\<close> and \<open>string2l\<close>\<close>

text \<open>
  The digit loop: \<open>None\<close> on overflow, otherwise the value and the characters not used. The
  arithmetic is that of \<open>unsigned long long\<close>.
\<close>

fun string2ll_loop :: "nat \<Rightarrow> char list \<Rightarrow> (nat \<times> char list) option" where
  "string2ll_loop v [] = Some (v, [])"
| "string2ll_loop v (c # cs) =
     (if is_digit c then
        if v > ULLONG_MAX div 10 then None
        else let v1 = wrap64 (v * 10) in
          if v1 > ULLONG_MAX - digit_val c then None
          else string2ll_loop (wrap64 (v1 + digit_val c)) cs
      else Some (v, c # cs))"

definition string2ll :: "char list \<Rightarrow> int option" where
  "string2ll s =
     (if s = [] then None
      else if length s = 1 \<and> hd s = CHR ''0'' then Some 0
      else
        let negative = (hd s = CHR ''-'');
            r = (if negative then tl s else s)
        in case r of [] \<Rightarrow> None
           | c # cs \<Rightarrow>
             if is_digit c \<and> c \<noteq> CHR ''0'' then
               (case string2ll_loop (digit_val c) cs of None \<Rightarrow> None
                | Some (v, rest) \<Rightarrow>
                    if rest \<noteq> [] then None
                    else if negative then
                      if v > 9223372036854775808 then None
                      else Some (to_ll (wrap64 (18446744073709551616 - v)))
                    else if int v > LLONG_MAX then None
                    else Some (to_ll v))
             else if c = CHR ''0'' \<and> length s = 1 then Some 0
             else None)"

text \<open>\<open>long\<close> is 64 bits wide.\<close>

definition string2l :: "char list \<Rightarrow> int option" where
  "string2l s =
     (case string2ll s of None \<Rightarrow> None
      | Some v \<Rightarrow> if v < LLONG_MIN \<or> v > LLONG_MAX then None else Some v)"

end
