(* ===== verification/Util_Numbers.thy ===== *)
theory Util_Numbers
  imports Util
begin

text \<open>
  Correctness of the number printers and parsers of \<^theory_text>\<open>Util\<close>: \<open>digits10\<close> counts the
  digits of the decimal notation, \<open>ll2string\<close> writes that notation into its buffer, and
  \<open>string2ll\<close> accepts exactly the notations of the \<open>long long\<close> values.
\<close>

subsection \<open>The length of a decimal notation\<close>

lemma length_show_nat_step: "10 \<le> n \<Longrightarrow> length (show_nat n) = Suc (length (show_nat (n div 10)))"
  by (simp add: show_nat_big)

lemma length_show_nat_small [simp]: "n < 10 \<Longrightarrow> length (show_nat n) = 1"
  by (simp add: show_nat_small)

lemma length_show_nat_le: "length (show_nat n) \<le> Suc k \<longleftrightarrow> n < 10 ^ Suc k"
proof (induction k arbitrary: n)
  case 0
  have "\<not> length (show_nat n) \<le> Suc 0" if "10 \<le> n"
    using that show_nat_ne [of "n div 10"] by (simp add: length_show_nat_step del: show_nat_ne)
  then show ?case by (cases "n < 10") simp_all
next
  case (Suc k)
  show ?case
  proof (cases "n < 10")
    case True
    have "(10::nat) \<le> 10 ^ Suc (Suc k)" by simp
    with True have "n < 10 ^ Suc (Suc k)" by linarith
    with True show ?thesis by simp
  next
    case False
    then have "length (show_nat n) \<le> Suc (Suc k) \<longleftrightarrow> n div 10 < 10 ^ Suc k"
      using Suc.IH [of "n div 10"] by (simp add: length_show_nat_step)
    also have "\<dots> \<longleftrightarrow> n < 10 ^ Suc (Suc k)"
      by (simp add: div_less_iff_less_mult mult.commute)
    finally show ?thesis .
  qed
qed

lemma length_show_nat_eq:
  "n < 10 ^ Suc k \<Longrightarrow> 10 ^ k \<le> n \<Longrightarrow> 0 < k \<Longrightarrow> length (show_nat n) = Suc k"
  using length_show_nat_le [of n k] length_show_nat_le [of n "k - 1"] by simp

lemma length_show_nat_div: "10 ^ k \<le> n \<Longrightarrow> length (show_nat n) = k + length (show_nat (n div 10 ^ k))"
proof (induction k arbitrary: n)
  case (Suc k)
  have n: "10 * 10 ^ k \<le> n" using Suc.prems by simp
  then have "10 ^ k \<le> n div 10" by (simp add: less_eq_div_iff_mult_less_eq mult.commute)
  then have "length (show_nat (n div 10)) = k + length (show_nat (n div 10 div 10 ^ k))"
    by (rule Suc.IH)
  moreover have "10 \<le> n" using n by (metis le_trans mult_le_mono2 nat_mult_1_right one_le_numeral one_le_power)
  ultimately show ?case by (simp add: length_show_nat_step div_mult2_eq)
qed simp

lemma digits10_correct: "digits10 v = length (show_nat v)"
proof (induction v rule: digits10.induct)
  case (1 v)
  note E = length_show_nat_eq [of v]
  have "10 \<le> v \<Longrightarrow> v < 100 \<Longrightarrow> length (show_nat v) = 2"
    "100 \<le> v \<Longrightarrow> v < 1000 \<Longrightarrow> length (show_nat v) = 3"
    "1000 \<le> v \<Longrightarrow> v < 10000 \<Longrightarrow> length (show_nat v) = 4"
    "10000 \<le> v \<Longrightarrow> v < 100000 \<Longrightarrow> length (show_nat v) = 5"
    "100000 \<le> v \<Longrightarrow> v < 1000000 \<Longrightarrow> length (show_nat v) = 6"
    "1000000 \<le> v \<Longrightarrow> v < 10000000 \<Longrightarrow> length (show_nat v) = 7"
    "10000000 \<le> v \<Longrightarrow> v < 100000000 \<Longrightarrow> length (show_nat v) = 8"
    "100000000 \<le> v \<Longrightarrow> v < 1000000000 \<Longrightarrow> length (show_nat v) = 9"
    "1000000000 \<le> v \<Longrightarrow> v < 10000000000 \<Longrightarrow> length (show_nat v) = 10"
    "10000000000 \<le> v \<Longrightarrow> v < 100000000000 \<Longrightarrow> length (show_nat v) = 11"
    "100000000000 \<le> v \<Longrightarrow> v < 1000000000000 \<Longrightarrow> length (show_nat v) = 12"
    using E [of 1] E [of 2] E [of 3] E [of 4] E [of 5] E [of 6] E [of 7] E [of 8] E [of 9]
      E [of 10] E [of 11] by simp_all
  moreover have "1000000000000 \<le> v
      \<Longrightarrow> length (show_nat v) = 12 + length (show_nat (v div 1000000000000))"
    using length_show_nat_div [of 12 v] by simp
  ultimately show ?case
    using "1.IH" by (subst digits10.simps) (simp add: not_less)
qed

subsection \<open>\<open>ll2string\<close>\<close>

lemma digit_pairs_all:
  "list_all (\<lambda>n. digit_pairs ! (2 * n) = digit_chr (n div 10)
      \<and> digit_pairs ! (Suc (2 * n)) = digit_chr (n mod 10)) [0..<100]"
  by code_simp

lemma digit_pairs_nth:
  assumes "n < 100"
  shows "digit_pairs ! (2 * n) = digit_chr (n div 10)"
    and "digit_pairs ! (Suc (2 * n)) = digit_chr (n mod 10)"
  using digit_pairs_all assms by (simp_all add: list_all_iff)

lemma update_pair:
  assumes "Suc n \<le> m" "m < length dst" "n = m - 1"
  shows "dst[m := y, n := x] = take n dst @ [x, y] @ drop (Suc m) dst"
proof -
  have n: "n < length dst" "m = Suc n" using assms by auto
  then have "dst = take n dst @ dst ! n # dst ! m # drop (Suc m) dst"
    using assms(2) by (metis Cons_nth_drop_Suc id_take_nth_drop)
  then have "dst[m := y, n := x] = (take n dst @ dst ! n # dst ! m # drop (Suc m) dst)[m := y, n := x]"
    by simp
  also have "\<dots> = take n dst @ [x, y] @ drop (Suc m) dst"
    using n by (simp add: list_update_append)
  finally show ?thesis .
qed

lemma ll2string_digits_correct:
  assumes "length (show_nat v) \<le> Suc n" "n < length dst"
  shows "ll2string_digits v n dst
    = take (Suc n - length (show_nat v)) dst @ show_nat v @ drop (Suc n) dst"
  using assms
proof (induction v n dst rule: ll2string_digits.induct)
  case (1 v n dst)
  consider "v < 10" | "10 \<le> v" "v < 100" | "100 \<le> v" by linarith
  then show ?case
  proof cases
    case 1
    with "1.prems" show ?thesis
      by (simp add: ll2string_digits.simps show_nat_small upd_conv_take_nth_drop)
  next
    case 2
    have s: "show_nat v = [digit_chr (v div 10), digit_chr (v mod 10)]"
      using 2 by (simp add: show_nat_big show_nat_small)
    have "Suc (n - 1) \<le> n" using "1.prems"(1) s by simp
    then show ?thesis using 2 s digit_pairs_nth [of v] "1.prems" update_pair [of "n - 1" n dst]
      by (simp add: ll2string_digits.simps [of v] Let_def mult.commute [of _ 2] numeral_2_eq_2)
  next
    case 3
    let ?d = "dst[n := digit_pairs ! (v mod 100 * 2 + 1), n - 1 := digit_pairs ! (v mod 100 * 2)]"
    have s: "show_nat v = show_nat (v div 100) @ [digit_chr (v mod 100 div 10), digit_chr (v mod 10)]"
      using 3 by (rule show_nat_100)
    let ?k = "length (show_nat (v div 100))"
    have k: "0 < ?k" "?k + 2 \<le> Suc n" using "1.prems" s by auto
    have "v mod 100 mod 10 = v mod 10" by (simp add: mod_mod_cancel)
    then have d: "?d = take (n - 1) dst @ [digit_chr (v mod 100 div 10), digit_chr (v mod 10)]
        @ drop (Suc n) dst"
      using update_pair [of "n - 1" n dst] digit_pairs_nth [of "v mod 100"] k "1.prems"(2)
      by (simp add: mult.commute [of _ 2])
    have len: "?k \<le> Suc (n - 2)" "n - 2 < length ?d" using k "1.prems" by auto
    have IH: "ll2string_digits (v div 100) (n - 2) ?d
        = take (Suc (n - 2) - ?k) ?d @ show_nat (v div 100) @ drop (Suc (n - 2)) ?d"
      by (rule "1.IH" [OF 3 refl len])
    have n: "Suc (n - 2) = n - 1" using k by linarith
    have "take (n - 1 - ?k) ?d = take (n - 1 - ?k) dst"
      using d "1.prems"(2) by simp
    moreover have "drop (n - 1) ?d
        = [digit_chr (v mod 100 div 10), digit_chr (v mod 10)] @ drop (Suc n) dst"
      using d "1.prems"(2) by simp
    moreover have "Suc n - length (show_nat v) = n - 1 - ?k" using s by simp
    ultimately show ?thesis
      using IH 3 s n by (simp add: ll2string_digits.simps [of v] Let_def)
  qed
qed

lemma ll_magnitude:
  "(if v \<noteq> LLONG_MIN then (nat (- v), 1::nat) else (nat LLONG_MAX + 1, 1)) = (nat (- v), 1)"
  by simp

lemma ll2string_small:
  "in_ll v \<Longrightarrow> dstlen \<le> length (show_int v) \<Longrightarrow> ll2string dst dstlen v = (0, dst)"
  by (cases "v < 0") (simp_all add: ll2string_def ll_magnitude digits10_correct show_int_def Let_def)

lemma ll2string_write:
  assumes "length (show_nat v) \<le> l" "0 < l" "l < length dst"
  shows "ll2string_digits v (l - 1) (dst[l := NUL])
    = take (l - length (show_nat v)) dst @ show_nat v @ NUL # drop (Suc l) dst"
  using ll2string_digits_correct [of v "l - 1" "dst[l := NUL]"] assms
  by (simp add: drop_update_eq)

lemma ll2string_ok:
  assumes "in_ll v" "length (show_int v) < dstlen" "dstlen \<le> length dst"
  shows "ll2string dst dstlen v = (length (show_int v),
    show_int v @ NUL # drop (Suc (length (show_int v))) dst)"
proof (cases "v < 0")
  case True
  let ?n = "nat (- v)"
  let ?l = "length (show_nat ?n) + 1"
  have dst: "dst \<noteq> []" using assms by auto
  have "ll2string_digits ?n (?l - 1) (dst[?l := NUL]) = take 1 dst @ show_nat ?n @ NUL # drop (Suc ?l) dst"
    using assms True ll2string_write [of ?n ?l dst] by (simp add: show_int_def)
  then show ?thesis using True assms dst
    by (cases dst) (simp_all add: ll2string_def ll_magnitude digits10_correct show_int_def Let_def)
next
  case False
  let ?n = "nat v"
  have "ll2string_digits ?n (length (show_nat ?n) - 1) (dst[length (show_nat ?n) := NUL])
      = show_nat ?n @ NUL # drop (Suc (length (show_nat ?n))) dst"
    using assms False ll2string_write [of ?n "length (show_nat ?n)" dst] by (simp add: show_int_def)
  then show ?thesis using False assms
    by (simp add: ll2string_def digits10_correct show_int_def Let_def)
qed

subsection \<open>\<open>string2ll\<close>\<close>

lemma string2ll_loop_digits:
  "\<forall>d \<in> set cs. is_digit d \<Longrightarrow> digits_val v cs \<le> ULLONG_MAX
   \<Longrightarrow> string2ll_loop v cs = Some (digits_val v cs, [])"
proof (induction cs arbitrary: v)
  case (Cons c cs)
  let ?w = "v * 10 + digit_val c"
  have w: "?w \<le> ULLONG_MAX"
    using digits_val_ge [of ?w cs] Cons.prems(2) by (simp del: One_nat_def)
  have d: "digit_val c < 10" using Cons.prems(1) by simp
  have "v \<le> ULLONG_MAX div 10" using w by linarith
  moreover have "v * 10 \<le> ULLONG_MAX - digit_val c" using w d by linarith
  ultimately show ?case using Cons w by (simp add: Let_def)
qed simp

lemma string2ll_loop_inv:
  "string2ll_loop v cs = Some (w, []) \<Longrightarrow> v \<le> ULLONG_MAX
   \<Longrightarrow> (\<forall>d \<in> set cs. is_digit d) \<and> w = digits_val v cs \<and> w \<le> ULLONG_MAX"
proof (induction cs arbitrary: v)
  case (Cons c cs)
  from Cons.prems have d: "is_digit c" "v \<le> ULLONG_MAX div 10"
    "wrap64 (v * 10) \<le> ULLONG_MAX - digit_val c"
    and r: "string2ll_loop (wrap64 (wrap64 (v * 10) + digit_val c)) cs = Some (w, [])"
    by (simp_all add: Let_def split: if_splits)
  have dv: "digit_val c < 10" using d by simp
  have v10: "wrap64 (v * 10) = v * 10" using d(2) by simp
  then have "v * 10 + digit_val c \<le> ULLONG_MAX" using d(3) dv by linarith
  then show ?case using Cons.IH [of "v * 10 + digit_val c"] r v10 d(1) by simp
qed simp

lemma hd_show_nat: "0 < n \<Longrightarrow> \<exists>c cs. show_nat n = c # cs \<and> is_digit c \<and> 0 < digit_val c
    \<and> (\<forall>d \<in> set cs. is_digit d) \<and> digits_val (digit_val c) cs = n"
proof -
  assume n: "0 < n"
  obtain c cs where s: "show_nat n = c # cs" by (meson neq_Nil_conv show_nat_ne)
  have "is_digit c" "\<forall>d \<in> set cs. is_digit d" using show_nat_digits [of _ n] s by auto
  moreover have "0 < digit_val c" using show_nat_hd [OF n] s by simp
  moreover have "digits_val (digit_val c) cs = n" using digits_val_show_nat [of n] s by simp
  ultimately show ?thesis using s by blast
qed

lemma digit_not_zero: "is_digit c \<Longrightarrow> c \<noteq> CHR ''0'' \<longleftrightarrow> 0 < digit_val c"
proof
  assume "is_digit c" "c \<noteq> CHR ''0''"
  then show "0 < digit_val c"
    by (metis digit_chr_0 digit_chr_digit_val not_gr_zero)
next
  show "c \<noteq> CHR ''0''" if "0 < digit_val c"
    using that by (auto simp: digit_val_def uchar_def)
qed

lemma string2ll_show:
  assumes "in_ll v"
  shows "string2ll (show_int v) = Some v"
proof (cases "v = 0")
  case True
  then show ?thesis by (simp add: show_int_def show_nat_small string2ll_def)
next
  case False
  let ?n = "nat \<bar>v\<bar>"
  have n: "0 < ?n" "?n \<le> 9223372036854775808" using False assms by (auto simp: in_ll_def)
  obtain c cs where c: "show_nat ?n = c # cs" "is_digit c" "0 < digit_val c"
    "\<forall>d \<in> set cs. is_digit d" "digits_val (digit_val c) cs = ?n"
    using hd_show_nat [OF n(1)] by blast
  have loop: "string2ll_loop (digit_val c) cs = Some (?n, [])"
    using string2ll_loop_digits [of cs "digit_val c"] c n by simp
  have c0: "c \<noteq> CHR ''0''" using digit_not_zero [OF c(2)] c(3) by simp
  have cm: "c \<noteq> CHR ''-''" using c(2) not_digit_minus by blast
  show ?thesis
  proof (cases "v < 0")
    case True
    have "to_ll (wrap64 (18446744073709551616 - ?n)) = v"
      using True n assms by (auto simp: to_ll_def wrap64_def in_ll_def)
    then show ?thesis using True c c0 cm loop n
      by (simp add: show_int_def string2ll_def Let_def)
  next
    case nonneg: False
    then have "to_ll ?n = v" using assms by (simp add: in_ll_def)
    then show ?thesis using nonneg c c0 cm loop n assms
      by (simp add: show_int_def string2ll_def Let_def in_ll_def)
  qed
qed

lemma string2ll_accepts:
  assumes "string2ll s = Some v"
  shows "in_ll v \<and> s = show_int v"
proof (cases "length s = 1 \<and> hd s = CHR ''0''")
  case True
  then have "s = ''0''" by (cases s) auto
  with assms show ?thesis
    by (simp add: string2ll_def show_int_def show_nat_small in_ll_def)
next
  case z: False
  define r where "r = (if hd s = CHR ''-'' then tl s else s)"
  have ne: "s \<noteq> []" using assms by (auto simp: string2ll_def)
  then obtain a t where "s = a # t" by (cases s) auto
  with assms z obtain c cs w where r: "r = c # cs" "is_digit c" "c \<noteq> CHR ''0''"
    "string2ll_loop (digit_val c) cs = Some (w, [])"
    and neg: "hd s = CHR ''-'' \<Longrightarrow> w \<le> 9223372036854775808
       \<and> v = to_ll (wrap64 (18446744073709551616 - w))"
    and pos: "hd s \<noteq> CHR ''-'' \<Longrightarrow> int w \<le> LLONG_MAX \<and> v = to_ll w"
    by (auto simp: string2ll_def Let_def r_def split: list.splits if_splits option.splits)
  have dv: "0 < digit_val c" "digit_val c < 10" using r digit_not_zero [OF r(2)] by auto
  have w: "\<forall>d \<in> set cs. is_digit d" "w = digits_val (digit_val c) cs"
    using string2ll_loop_inv [OF r(4)] dv by auto
  have shw: "show_nat w = r" using show_nat_digits_val [OF r(2) dv(1) w(1)] w(2) r(1) by simp
  have w0: "0 < w" using digits_val_ge [of "digit_val c" cs] w(2) dv(1) by linarith
  show ?thesis
  proof (cases "hd s = CHR ''-''")
    case True
    have "v = - int w" using neg [OF True] w0 by (auto simp: to_ll_def wrap64_def)
    moreover have "s = CHR ''-'' # r" using True ne by (cases s) (simp_all add: r_def)
    ultimately show ?thesis using shw w0 neg [OF True] by (simp add: show_int_def in_ll_def)
  next
    case False
    have "v = int w" using pos [OF False] by simp
    then show ?thesis using shw False pos [OF False] by (simp add: show_int_def r_def in_ll_def)
  qed
qed

lemma string2ll_iff: "string2ll s = Some v \<longleftrightarrow> in_ll v \<and> s = show_int v"
  using string2ll_show string2ll_accepts by blast

lemma string2l_string2ll: "string2l s = string2ll s"
  by (auto simp: string2l_def in_ll_def dest: string2ll_accepts split: option.splits)

lemma show_int_inject: "in_ll a \<Longrightarrow> in_ll b \<Longrightarrow> show_int a = show_int b \<longleftrightarrow> a = b"
  using string2ll_show by (metis option.inject)

subsection \<open>Properties\<close>

lemma length_show_int: "in_ll v \<Longrightarrow> length (show_int v) \<le> 20"
proof -
  assume v: "in_ll v"
  have "nat \<bar>v\<bar> \<le> 9223372036854775808" using v by (cases "v < 0") (simp_all add: in_ll_def)
  also have "\<dots> < (10::nat) ^ Suc 18" by simp
  finally have "nat \<bar>v\<bar> < 10 ^ Suc 18" .
  then have "length (show_nat (nat \<bar>v\<bar>)) \<le> Suc 18" by (rule length_show_nat_le [THEN iffD2])
  then show ?thesis by (cases "v < 0") (simp_all add: show_int_def)
qed

text \<open>C38: \<open>ll2string\<close> returns the length of the decimal notation and leaves that notation and a
  NUL at the start of the buffer, the rest of the buffer unchanged; when the notation and its NUL
  do not fit, it returns 0 and writes nothing. This holds for every \<open>long long\<close>, the least one
  included.\<close>

theorem ll2string_correct:
  assumes "in_ll v" "dstlen \<le> length dst"
  shows "ll2string dst dstlen v =
    (if length (show_int v) < dstlen
     then (length (show_int v), show_int v @ NUL # drop (Suc (length (show_int v))) dst)
     else (0, dst))"
  using ll2string_ok [of v dstlen dst] ll2string_small [of v dstlen dst] assms by simp

theorem ll2string_correct_witness:
  "ll2string (replicate 5 NUL) 5 (-123) = (4, ''-123'' @ [NUL])"
proof -
  have "show_int (-123) = ''-123''" by code_simp
  then show ?thesis using ll2string_correct [of "-123" 5 "replicate 5 NUL"]
    by (simp add: in_ll_def eval_nat_numeral)
qed

text \<open>C37: the parser and the printer agree exactly. A string is accepted by \<open>string2ll\<close> with
  value \<open>v\<close> if and only if \<open>v\<close> is a \<open>long long\<close> and the string is what \<open>ll2string\<close> writes for
  \<open>v\<close> into a 32-byte buffer. So no leading zeros, plus signs, spaces, \<open>-0\<close> or out-of-range values are
  accepted, and a value stored as an integer prints back as the string it came from.\<close>

theorem string2ll_iff_ll2string:
  assumes "length dst = 32"
  shows "string2ll s = Some v \<longleftrightarrow>
    in_ll v \<and> s = take (fst (ll2string dst 32 v)) (snd (ll2string dst 32 v))"
proof (cases "in_ll v")
  case True
  then have "ll2string dst 32 v = (length (show_int v),
      show_int v @ NUL # drop (Suc (length (show_int v))) dst)"
    using ll2string_ok [of v 32 dst] length_show_int [of v] assms by simp
  then show ?thesis using True by (simp add: string2ll_iff)
next
  case False
  then show ?thesis by (simp add: string2ll_iff)
qed

theorem string2ll_iff_ll2string_witness:
  "string2ll ''-42'' = Some (-42)
   \<and> ''-42'' = take (fst (ll2string (replicate 32 NUL) 32 (-42))) (snd (ll2string (replicate 32 NUL) 32 (-42)))"
proof -
  have "string2ll ''-42'' = Some (-42)"
    by (simp add: string2ll_def is_digit_def uchar_def digit_val_def Let_def to_ll_def wrap64_def)
  then show ?thesis using string2ll_iff_ll2string [OF length_replicate, of "''-42''" "-42" NUL] by blast
qed

end
