(* ===== verification/Util_Glob.thy ===== *)
theory Util_Glob
  imports Util
begin

text \<open>
  What a glob pattern means, on tokens, and the proof that \<open>stringmatchlen\<close> computes it on the
  rendering of every well-formed token list, without leaving its buffers. The behaviour outside
  that fragment (an unterminated bracket, an empty subject against a bracket) is stated by
  separate theorems.
\<close>

subsection \<open>Patterns as tokens\<close>

datatype item = Ch char | Rg char char

datatype tok = Star | Any | Lit char | Cls bool "item list"

fun item_match :: "bool \<Rightarrow> item \<Rightarrow> char \<Rightarrow> bool" where
  "item_match nc (Ch c) d = (c = d)"
| "item_match nc (Rg a b) d = in_range nc a b d"

fun tok_match :: "bool \<Rightarrow> tok \<Rightarrow> char \<Rightarrow> bool" where
  "tok_match nc Star d = False"
| "tok_match nc Any d = True"
| "tok_match nc (Lit c) d = chr_eq nc c d"
| "tok_match nc (Cls neg is) d = (list_ex (\<lambda>i. item_match nc i d) is \<noteq> neg)"

fun glob :: "bool \<Rightarrow> tok list \<Rightarrow> char list \<Rightarrow> bool" where
  "glob nc [] s = (s = [])"
| "glob nc (Star # ts) [] = glob nc ts []"
| "glob nc (Star # ts) (c # cs) = (glob nc ts (c # cs) \<or> glob nc (Star # ts) cs)"
| "glob nc (t # ts) [] = False"
| "glob nc (t # ts) (c # cs) = (tok_match nc t c \<and> glob nc ts cs)"

fun render_item :: "item \<Rightarrow> char list" where
  "render_item (Ch c) = [CHR 0x5C, c]"
| "render_item (Rg a b) = [a, CHR ''-'', b]"

fun render_tok :: "tok \<Rightarrow> char list" where
  "render_tok Star = ''*''"
| "render_tok Any = ''?''"
| "render_tok (Lit c) = (if c \<in> set ''*?['' \<or> c = CHR 0x5C then [CHR 0x5C, c] else [c])"
| "render_tok (Cls neg is) =
     CHR ''['' # (if neg then ''^'' else []) @ concat (map render_item is) @ '']''"

definition render :: "tok list \<Rightarrow> char list" where
  "render ts = concat (map render_tok ts)"

fun wf_item :: "item \<Rightarrow> bool" where
  "wf_item (Ch c) = True"
| "wf_item (Rg a b) = (a \<noteq> CHR 0x5C \<and> a \<noteq> CHR '']'')"

fun caret_first :: "item list \<Rightarrow> bool" where
  "caret_first (Rg a b # is) = (a = CHR ''^'')"
| "caret_first _ = False"

fun wf_tok :: "tok \<Rightarrow> bool" where
  "wf_tok (Lit c) = (c \<noteq> NUL)"
| "wf_tok (Cls neg is) = (list_all wf_item is \<and> (neg \<or> \<not> caret_first is))"
| "wf_tok _ = True"

fun is_cls :: "tok \<Rightarrow> bool" where
  "is_cls (Cls _ _) = True"
| "is_cls _ = False"

lemma render_simps [simp]: "render [] = []" "render (t # ts) = render_tok t @ render ts"
  by (simp_all add: render_def)

lemma glob_Nil: "glob nc ts [] \<longleftrightarrow> set ts \<subseteq> {Star}"
proof (induction ts)
  case (Cons t ts)
  then show ?case by (cases t) auto
qed simp

lemma glob_Cons: "t \<noteq> Star \<Longrightarrow> glob nc (t # ts) (c # cs) \<longleftrightarrow> tok_match nc t c \<and> glob nc ts cs"
  by (cases t) auto

lemma glob_stars: "ts \<noteq> [] \<Longrightarrow> set ts \<subseteq> {Star} \<Longrightarrow> glob nc ts s"
proof (induction s arbitrary: ts)
  case Nil
  then show ?case by (simp add: glob_Nil)
next
  case (Cons c cs)
  then show ?case by (cases ts) auto
qed

lemma glob_Star_Star: "glob nc (Star # Star # ts) s = glob nc (Star # ts) s"
proof (induction s)
  case (Cons c cs)
  then show ?case by auto
qed simp

lemma glob_replicate: "glob nc (replicate (Suc k) Star @ ts) s = glob nc (Star # ts) s"
  by (induction k) (auto simp: glob_Star_Star)

subsection \<open>Reading a buffer at a position\<close>

lemma rd_drop: "drop p pat = c # cs \<Longrightarrow> rd pat p = Some c"
  by (metis hd_drop_conv_nth list.sel(1) drop_eq_Nil list.discI not_le rd_Some)

lemma drop_next: "drop p pat = c # cs \<Longrightarrow> drop (Suc p) pat = cs"
  by (metis drop_Suc list.sel(3) tl_drop)

lemma drop_next2: "drop p pat = c # d # cs \<Longrightarrow> drop (Suc (Suc p)) pat = cs"
  by (metis drop_next)

lemma drop_app: "drop p pat = xs @ ys \<Longrightarrow> drop (p + length xs) pat = ys"
  by (metis append_eq_conv_conj drop_drop add.commute)

lemma drop_stars:
  "drop p pat = replicate (Suc k) (CHR ''*'') @ c # r \<Longrightarrow> c \<noteq> CHR ''*''
   \<Longrightarrow> skip_stars1 pat p pl = Some (p + k, pl - int k)"
proof (induction k arbitrary: p pl)
  case 0
  then have "drop (Suc p) pat = c # r" using drop_next [of p pat] by simp
  with 0 show ?case by (simp add: skip_stars1.simps [of pat p] rd_drop)
next
  case (Suc k)
  then have d: "drop (Suc p) pat = replicate (Suc k) (CHR ''*'') @ c # r"
    using drop_next [of p pat] by simp
  then have "rd pat (Suc p) = Some (CHR ''*'')" by (simp add: rd_drop)
  then show ?case
    using Suc.IH [OF d Suc.prems(2)] by (simp add: skip_stars1.simps [of pat p])
qed

lemma drop_stars0:
  "drop p pat = replicate k (CHR ''*'') @ c # r \<Longrightarrow> c \<noteq> CHR ''*''
   \<Longrightarrow> skip_stars0 pat p pl = Some (p + k, pl - int k)"
proof (induction k arbitrary: p pl)
  case 0
  then show ?case by (simp add: skip_stars0.simps [of pat p] rd_drop)
next
  case (Suc k)
  then have "drop (Suc p) pat = replicate k (CHR ''*'') @ c # r" "rd pat p = Some (CHR ''*'')"
    using drop_next [of p pat] by (simp_all add: rd_drop)
  then show ?case
    using Suc.IH [of "Suc p"] Suc.prems(2) by (simp add: skip_stars0.simps [of pat p])
qed

text \<open>A token list begins with a run of stars.\<close>

lemma split_stars:
  obtains k ts' where "ts = replicate k Star @ ts'" "ts' = [] \<or> hd ts' \<noteq> Star"
proof -
  have "takeWhile (\<lambda>t. t = Star) ts = replicate (length (takeWhile (\<lambda>t. t = Star) ts)) Star"
    by (metis (mono_tags) replicate_eqI set_takeWhileD)
  then have "ts = replicate (length (takeWhile (\<lambda>t. t = Star) ts)) Star @ dropWhile (\<lambda>t. t = Star) ts"
    by (metis takeWhile_dropWhile_id)
  moreover have "dropWhile (\<lambda>t. t = Star) ts = [] \<or> hd (dropWhile (\<lambda>t. t = Star) ts) \<noteq> Star"
    using hd_dropWhile by blast
  ultimately show ?thesis by (rule that)
qed

lemma render_replicate [simp]: "render (replicate k Star @ ts) = replicate k (CHR ''*'') @ render ts"
  by (induction k) auto

lemma render_stars [simp]: "render (replicate k Star) = replicate k (CHR ''*'')"
  using render_replicate [of k "[]"] by simp

lemma render_nonstar:
  "ts = [] \<or> hd ts \<noteq> Star \<Longrightarrow> \<exists>c r. render ts @ [NUL] = c # r \<and> c \<noteq> CHR ''*''"
proof (cases ts)
  case (Cons t us)
  assume "ts = [] \<or> hd ts \<noteq> Star"
  with Cons show ?thesis by (cases t) auto
qed simp

lemma render_tok_ne: "render_tok t \<noteq> []"
  by (cases t) auto

lemma render_eq_Nil: "render ts = [] \<longleftrightarrow> ts = []"
  by (cases ts) (auto simp: render_tok_ne)

subsection \<open>Brackets\<close>

lemma class_loop_items:
  assumes "list_all wf_item is" and "rd str s = Some d"
    and "drop p pat = concat (map render_item is) @ CHR '']'' # r"
    and "int (length (concat (map render_item is))) + 1 \<le> pl"
  shows "class_loop pat p pl str s nc mt =
    Some (mt \<or> list_ex (\<lambda>i. item_match nc i d) is, p + length (concat (map render_item is)),
      pl - int (length (concat (map render_item is))))"
  using assms
proof (induction "is" arbitrary: p pl mt)
  case Nil
  then show ?case by (simp add: class_loop.simps [of pat p] rd_drop)
next
  case (Cons i js)
  show ?case
  proof (cases i)
    case (Ch c)
    have d2: "drop p pat = CHR 0x5C # c # concat (map render_item js) @ CHR '']'' # r"
      using Cons.prems Ch by simp
    note reads = rd_drop [OF d2] rd_drop [OF drop_next [OF d2]]
    show ?thesis
      using Cons.IH [of "p + 2" "pl - 2" "mt \<or> c = d"] Cons.prems Ch reads drop_next2 [OF d2]
      by (simp add: class_loop.simps [of pat p] disj_assoc)
  next
    case (Rg a b)
    have d3: "drop p pat = a # CHR ''-'' # b # concat (map render_item js) @ CHR '']'' # r"
      using Cons.prems Rg by simp
    have d3': "drop (p + 3) pat = concat (map render_item js) @ CHR '']'' # r"
      using drop_next [OF drop_next2 [OF d3]] by (simp add: eval_nat_numeral)
    note reads = rd_drop [OF d3] rd_drop [OF drop_next [OF d3]] rd_drop [OF drop_next2 [OF d3]]
    show ?thesis
      using Cons.IH [of "p + 3" "pl - 3" "mt \<or> in_range nc a b d"] Cons.prems Rg reads d3'
      by (simp add: class_loop.simps [of pat p] disj_assoc)
  qed
qed

lemma caret_first_hd:
  "\<not> caret_first is \<Longrightarrow> \<exists>c r'. concat (map render_item is) @ CHR '']'' # r = c # r' \<and> c \<noteq> CHR ''^''"
proof (cases "is")
  case (Cons i js)
  assume "\<not> caret_first is"
  with Cons show ?thesis by (cases i) auto
qed simp

lemma match_class_items:
  assumes wf: "wf_tok (Cls neg is)" and d: "rd str s = Some d"
    and pat: "drop p pat = render_tok (Cls neg is) @ r" and pl: "int (length (render_tok (Cls neg is))) \<le> pl"
  shows "match_class pat p pl str s sl nc =
    Some (if tok_match nc (Cls neg is) d
      then Matched (p + length (render_tok (Cls neg is)) - 1)
        (pl - int (length (render_tok (Cls neg is))) + 1) (s + 1) (sl - 1)
      else NoMatch)"
proof (cases neg)
  case True
  have p2: "drop p pat = CHR ''['' # CHR ''^'' # concat (map render_item is) @ CHR '']'' # r"
    using pat True by simp
  then show ?thesis
    using class_loop_items [OF _ d, of "is" "p + 2" pat r "pl - 2" nc False] wf pl True
      rd_drop [OF drop_next [OF p2]] drop_next2 [OF p2]
    by (simp add: match_class_def)
next
  case False
  have p1: "drop p pat = CHR ''['' # concat (map render_item is) @ CHR '']'' # r"
    using pat False by simp
  obtain c r' where c: "concat (map render_item is) @ CHR '']'' # r = c # r'" "c \<noteq> CHR ''^''"
    using caret_first_hd wf False by fastforce
  have "rd pat (Suc p) = Some c" using drop_next [OF p1] c(1) rd_drop by metis
  then show ?thesis
    using class_loop_items [OF _ d, of "is" "p + 1" pat r "pl - 1" nc False] wf pl False
      drop_next [OF p1] c(2)
    by (simp add: match_class_def)
qed

subsection \<open>One element of the pattern\<close>

lemma ctolower_schar_0: "ctolower (schar c) = 0 \<longleftrightarrow> c = NUL"
proof -
  have "schar NUL = 0" by (simp add: schar_def uchar_def)
  then have "schar c = 0 \<longleftrightarrow> c = NUL" using schar_inject [of c NUL] by simp
  then show ?thesis by (auto simp: ctolower_def split: if_splits)
qed

lemma chr_eq_NUL: "c \<noteq> NUL \<Longrightarrow> \<not> chr_eq nc c NUL"
  using ctolower_schar_0 [of c] ctolower_schar_0 [of NUL] by (auto simp: chr_eq_def)

lemma match_lit:
  assumes "drop p pat = render_tok (Lit c) @ r" "rd str s = Some d" "int (length (render_tok (Lit c))) \<le> pl"
  shows "match_elem pat p pl (hd (render_tok (Lit c))) str s sl nc =
    Some (if chr_eq nc c d
      then Matched (p + length (render_tok (Lit c)) - 1) (pl - int (length (render_tok (Lit c))) + 1)
        (s + 1) (sl - 1)
      else NoMatch)"
proof (cases "c \<in> set ''*?['' \<or> c = CHR 0x5C")
  case True
  then have "drop p pat = CHR 0x5C # c # r" using assms(1) by auto
  then have "rd pat (Suc p) = Some c" by (rule rd_drop [OF drop_next])
  then show ?thesis using True assms by (auto simp: match_elem_def match_char_def)
next
  case False
  then have "rd pat p = Some c" using assms(1) rd_drop [of p pat c r] by simp
  then show ?thesis using False assms by (auto simp: match_elem_def match_char_def)
qed

lemma match_elem_tok:
  assumes "wf_tok t" "t \<noteq> Star" "drop p pat = render_tok t @ r" "int (length (render_tok t)) \<le> pl"
    and "rd str s = Some d" "0 < sl"
  shows "match_elem pat p pl (hd (render_tok t)) str s sl nc =
    Some (if tok_match nc t d
      then Matched (p + length (render_tok t) - 1) (pl - int (length (render_tok t)) + 1) (s + 1) (sl - 1)
      else NoMatch)"
proof (cases t)
  case Any
  then show ?thesis using assms by (simp add: match_elem_def)
next
  case (Lit c)
  then show ?thesis using assms match_lit [of p pat c r str s d pl sl nc] by simp
next
  case (Cls neg js)
  then show ?thesis
    using assms match_class_items [of neg js str s d p pat r pl sl nc] by (simp add: match_elem_def)
qed (use assms in simp)

lemma match_elem_end:
  assumes "wf_tok t" "t \<noteq> Star" "\<not> is_cls t" "drop p pat = render_tok t @ r"
    and "int (length (render_tok t)) \<le> pl" "rd str s = Some NUL"
  shows "match_elem pat p pl (hd (render_tok t)) str s 0 nc = Some NoMatch"
proof (cases t)
  case Any
  then show ?thesis by (simp add: match_elem_def)
next
  case (Lit c)
  then show ?thesis
    using assms match_lit [of p pat c r str s NUL pl 0 nc] chr_eq_NUL [of c nc] by simp
qed (use assms in simp_all)

lemma render_tok_hd: "t \<noteq> Star \<Longrightarrow> hd (render_tok t) \<noteq> CHR ''*''"
  by (cases t) auto

subsection \<open>The whole pattern\<close>

lemma star_loop_glob:
  assumes tail: "\<And>s. s < length body \<Longrightarrow>
      stringmatch_at pat (p + 1) (pl - 1) (body @ [NUL]) s (int (length body) - int s) nc
        = Some (glob nc ts (drop s body))"
    and p: "p < length pat" and ts: "ts \<noteq> []" "hd ts \<noteq> Star" and s: "s \<le> length body"
  shows "star_loop pat p pl (body @ [NUL]) s (int (length body) - int s) nc
    = Some (glob nc (Star # ts) (drop s body))"
  using s
proof (induction "length body - s" arbitrary: s)
  case 0
  then have "s = length body" by simp
  moreover have "\<not> glob nc ts []" using ts by (cases ts) (auto simp: glob_Nil)
  ultimately show ?case by (simp add: star_loop.simps)
next
  case (Suc n)
  then have s: "s < length body" by simp
  then have d: "drop s body = body ! s # drop (Suc s) body" by (simp add: Cons_nth_drop_Suc)
  have "star_loop pat p pl (body @ [NUL]) (Suc s) (int (length body) - int (Suc s)) nc
      = Some (glob nc (Star # ts) (drop (Suc s) body))"
    using Suc.hyps(1) [of "Suc s"] Suc.hyps(2) s by simp
  then show ?case
    using tail [OF s] p s d by (auto simp: star_loop.simps [of pat p] algebra_simps split: bool.splits)
qed

lemma skip_rest:
  assumes "drop p pat = render ts @ [NUL]"
    and that: "pl2 = int (length (render (dropWhile (\<lambda>t. t = Star) ts)))"
  shows "\<exists>p2. skip_stars0 pat p (int (length (render ts))) = Some (p2, pl2)
    \<and> (pl2 = 0 \<longleftrightarrow> glob nc ts [])"
proof -
  obtain k ts' where ts: "ts = replicate k Star @ ts'" "ts' = [] \<or> hd ts' \<noteq> Star"
    by (rule split_stars)
  obtain c r where c: "render ts' @ [NUL] = c # r" "c \<noteq> CHR ''*''"
    using render_nonstar [OF ts(2)] by blast
  have dw: "dropWhile (\<lambda>t. t = Star) ts = ts'" using ts by (cases ts') (simp_all add: dropWhile_append)
  have "glob nc ts [] \<longleftrightarrow> ts' = []" using ts by (cases ts') (auto simp: glob_Nil)
  then show ?thesis
    using drop_stars0 [of p pat k c r "int (length (render ts))"] assms(1) ts(1) c that dw
    by (simp add: render_eq_Nil)
qed

text \<open>A pattern that begins with a star: the run of stars is skipped, the rest is searched for.\<close>

lemma stringmatch_star:
  assumes dp: "drop p pat = render (Star # us) @ [NUL]" and s: "s \<le> length body"
    and IH: "\<And>vs q s. length vs \<le> length us \<Longrightarrow> set vs \<subseteq> set us \<Longrightarrow> drop q pat = render vs @ [NUL]
      \<Longrightarrow> s < length body
      \<Longrightarrow> stringmatch_at pat q (int (length (render vs))) (body @ [NUL]) s (int (length body) - int s) nc
        = Some (glob nc vs (drop s body))"
  shows "stringmatch_at pat p (int (length (render (Star # us)))) (body @ [NUL]) s
      (int (length body) - int s) nc = Some (glob nc (Star # us) (drop s body))"
proof -
  obtain k vs where vs: "us = replicate k Star @ vs" "vs = [] \<or> hd vs \<noteq> Star"
    by (rule split_stars)
  obtain c r where c: "render vs @ [NUL] = c # r" "c \<noteq> CHR ''*''"
    using render_nonstar [OF vs(2)] by blast
  have ts: "Star # us = replicate (Suc k) Star @ vs" using vs(1) by simp
  have dk: "drop p pat = replicate (Suc k) (CHR ''*'') @ c # r"
    using dp c(1) vs(1) by simp
  have rd: "rd pat p = Some (CHR ''*'')" using dk rd_drop [of p pat] by simp
  note sk = drop_stars [OF dk c(2), of "int (length (render (Star # us)))"]
  have gl: "glob nc (Star # us) (drop s body) = glob nc (Star # vs) (drop s body)"
    unfolding ts by (rule glob_replicate)
  show ?thesis
  proof (cases "vs = []")
    case True
    then have "glob nc (Star # vs) (drop s body)" by (intro glob_stars) auto
    then show ?thesis using rd sk vs(1) gl True by (simp add: stringmatch_at.simps [of pat p])
  next
    case False
    have dv: "drop (p + k + 1) pat = render vs @ [NUL]"
      using drop_app [OF dk] c(1) by simp
    then have "drop (p + k + 1) pat \<noteq> []" by simp
    then have pk: "p + k < length pat" by simp
    have "star_loop pat (p + k) (int (length (render vs)) + 1) (body @ [NUL]) s
         (int (length body) - int s) nc = Some (glob nc (Star # vs) (drop s body))"
      by (rule star_loop_glob) (use IH [of vs "p + k + 1"] dv pk False vs s in simp_all)
    then show ?thesis using rd sk vs(1) gl False
      by (simp add: stringmatch_at.simps [of pat p] render_eq_Nil algebra_simps)
  qed
qed

text \<open>A pattern that begins with any other element, inside the subject and at its end.\<close>

lemma stringmatch_nonstar:
  assumes wf: "wf_tok t" "t \<noteq> Star" and dp: "drop p pat = render_tok t @ render us @ [NUL]"
    and s: "s < length body"
    and tail: "Suc s < length body \<Longrightarrow> stringmatch_at pat (p + length (render_tok t))
      (int (length (render us))) (body @ [NUL]) (Suc s) (int (length body) - int (Suc s)) nc
        = Some (glob nc us (drop (Suc s) body))"
  shows "stringmatch_at pat p (int (length (render (t # us)))) (body @ [NUL]) s
      (int (length body) - int s) nc = Some (glob nc (t # us) (drop s body))"
proof -
  obtain h x where hx: "render_tok t = h # x" by (meson neq_Nil_conv render_tok_ne)
  have rd: "rd pat p = Some h" using dp hx rd_drop [of p pat] by simp
  have h: "h \<noteq> CHR ''*''" using render_tok_hd [OF wf(2)] hx by simp
  let ?pl = "int (length (render (t # us)))" and ?sl = "int (length body) - int s"
  have pl: "int (length (render_tok t)) \<le> ?pl" by simp
  have rs: "rd (body @ [NUL]) s = Some (body ! s)" using s by (simp add: rd_def nth_append)
  have d: "drop s body = body ! s # drop (Suc s) body" using s by (simp add: Cons_nth_drop_Suc)
  note me = match_elem_tok [OF wf dp pl rs, of ?sl nc]
  note fold_simps = stringmatch_at.simps [of pat p] glob_Cons [OF wf(2)] d hx
  consider "\<not> tok_match nc t (body ! s)" | "tok_match nc t (body ! s)" "Suc s = length body"
    | "tok_match nc t (body ! s)" "Suc s < length body" using s by linarith
  then show ?thesis
  proof cases
    case 1
    then show ?thesis using me rd h s by (simp add: fold_simps)
  next
    case 2
    obtain p2 where "skip_stars0 pat (p + length (render_tok t)) (int (length (render us)))
        = Some (p2, int (length (render (dropWhile (\<lambda>t. t = Star) us))))"
      "int (length (render (dropWhile (\<lambda>t. t = Star) us))) = 0 \<longleftrightarrow> glob nc us []"
      using skip_rest [OF drop_app [OF dp] refl] by blast
    then show ?thesis using me rd h 2 by (simp add: fold_simps)
  next
    case 3
    then show ?thesis using me rd h s tail by (simp add: fold_simps algebra_simps)
  qed
qed

lemma stringmatch_end:
  assumes "wf_tok t" "t \<noteq> Star" "\<not> is_cls t" and dp: "drop p pat = render_tok t @ r"
  shows "stringmatch_at pat p (int (length (render (t # us)))) (body @ [NUL]) (length body) 0 nc
    = Some False"
proof -
  obtain h x where hx: "render_tok t = h # x" by (meson neq_Nil_conv render_tok_ne)
  have rd: "rd pat p = Some h" using dp hx rd_drop [of p pat] by simp
  have h: "h \<noteq> CHR ''*''" using render_tok_hd [OF assms(2)] hx by simp
  have "rd (body @ [NUL]) (length body) = Some NUL" by (simp add: rd_def)
  then show ?thesis
    using match_elem_end [OF assms(1-3) dp, of "int (length (render (t # us)))" "body @ [NUL]"] rd h hx
    by (simp add: stringmatch_at.simps [of pat p])
qed

lemma stringmatch_at_glob:
  assumes "list_all wf_tok ts" and "drop p pat = render ts @ [NUL]"
    and "s \<le> length body" and "s < length body \<or> \<not> list_ex is_cls ts"
  shows "stringmatch_at pat p (int (length (render ts))) (body @ [NUL]) s (int (length body) - int s) nc
    = Some (glob nc ts (drop s body))"
  using assms
proof (induction "length ts" arbitrary: ts p s rule: less_induct)
  case less
  show ?case
  proof (cases ts)
    case Nil
    then show ?thesis using less.prems by (simp add: stringmatch_at.simps)
  next
    case (Cons t us)
    have IH: "stringmatch_at pat q (int (length (render vs))) (body @ [NUL]) q' (int (length body) - int q') nc
        = Some (glob nc vs (drop q' body))"
      if "length vs \<le> length us" "set vs \<subseteq> set us" "drop q pat = render vs @ [NUL]" "q' < length body"
      for vs q q'
      by (rule less.hyps) (use that less.prems(1) Cons in \<open>auto simp: list_all_iff\<close>)
    show ?thesis
    proof (cases "t = Star")
      case True
      show ?thesis using stringmatch_star [of p pat us s body nc] IH less.prems Cons True by simp
    next
      case nonstar: False
      have dp: "drop p pat = render_tok t @ render us @ [NUL]" using less.prems(2) Cons by simp
      have wf: "wf_tok t" using less.prems(1) Cons by simp
      show ?thesis
      proof (cases "s < length body")
        case True
        show ?thesis
          unfolding Cons using stringmatch_nonstar [OF wf nonstar dp True]
            IH [of us "p + length (render_tok t)" "Suc s"] drop_app [OF dp] by simp
      next
        case False
        then have "s = length body" "\<not> is_cls t" using less.prems Cons by auto
        moreover have "\<not> glob nc (t # us) []" using nonstar by (auto simp: glob_Nil)
        ultimately show ?thesis
          using stringmatch_end [OF wf nonstar _ dp, of us body nc] Cons by simp
      qed
    qed
  qed
qed

lemma stringmatchlen_glob:
  assumes "list_all wf_tok ts" and "str \<noteq> [] \<or> \<not> list_ex is_cls ts"
  shows "stringmatchlen (render ts) str nc = Some (glob nc ts str)"
  using stringmatch_at_glob [of ts 0 "render ts @ [NUL]" 0 str nc] assms
  by (simp add: stringmatchlen_def)

subsection \<open>Properties\<close>




end
