(* ===== verification/Sds.thy ===== *)
theory Sds
  imports Prelude "HOL-Library.Monad_Syntax"
begin

text \<open>
  Model of \<^verbatim>\<open>redis-2.8.19/src/sds.c\<close>, the length-prefixed strings every other module stores
  its bytes in. The first part is the header and its buffer: an operation that would write
  outside the buffer, or whose \<open>assert\<close> fails, is \<open>None\<close>. Memory returned by the allocator has
  unspecified content: it is filled with the character \<open>g\<close>, a parameter of every operation that
  may reallocate. The second part is the functions that only build strings out of their
  arguments; they are given on contents.
\<close>

subsection \<open>The header\<close>

record sdshdr =
  len :: nat
  free :: nat
  buf :: "char list"

text \<open>\<open>len\<close> and \<open>free\<close> are \<open>unsigned int\<close>, the arguments of \<open>sdsrange\<close> are \<open>int\<close>.\<close>

definition u32 :: "nat \<Rightarrow> nat" where
  "u32 n = n mod 4294967296"

definition i32 :: "int \<Rightarrow> int" where
  "i32 x = (x + 2147483648) mod 4294967296 - 2147483648"

lemma u32_id [simp]: "n < 4294967296 \<Longrightarrow> u32 n = n"
  by (simp add: u32_def)

lemma i32_id [simp]: "- 2147483648 \<le> x \<Longrightarrow> x < 2147483648 \<Longrightarrow> i32 x = x"
  by (simp add: i32_def)

text \<open>\<open>memcpy\<close> and \<open>memmove\<close> into the buffer, and the store of one character.\<close>

definition mem_write :: "char list \<Rightarrow> nat \<Rightarrow> char list \<Rightarrow> char list option" where
  "mem_write b off xs =
     (if off + length xs \<le> length b
      then Some (take off b @ xs @ drop (off + length xs) b) else None)"

definition mem_set :: "char list \<Rightarrow> nat \<Rightarrow> char \<Rightarrow> char list option" where
  "mem_set b i c = (if i < length b then Some (b[i := c]) else None)"

definition SDS_MAX_PREALLOC :: nat where
  "SDS_MAX_PREALLOC = 1024 * 1024"

text \<open>\<open>strlen\<close>: the characters before the first NUL.\<close>

definition strlen :: "char list \<Rightarrow> nat" where
  "strlen b = length (takeWhile (\<lambda>c. c \<noteq> NUL) b)"

definition sdslen :: "sdshdr \<Rightarrow> nat" where
  "sdslen s = len s"

definition sdsavail :: "sdshdr \<Rightarrow> nat" where
  "sdsavail s = free s"

definition sdsnewlen :: "char list \<Rightarrow> sdshdr" where
  "sdsnewlen init = \<lparr>len = u32 (length init), free = 0, buf = init @ [NUL]\<rparr>"

definition sdsempty :: sdshdr where
  "sdsempty = sdsnewlen []"

definition sdsnew :: "char list \<Rightarrow> sdshdr" where
  "sdsnew init = sdsnewlen (take (strlen init) init)"

definition sdsdup :: "sdshdr \<Rightarrow> sdshdr" where
  "sdsdup s = sdsnewlen (take (sdslen s) (buf s))"

definition sdsupdatelen :: "sdshdr \<Rightarrow> sdshdr" where
  "sdsupdatelen s =
     (let reallen = strlen (buf s)
      in s\<lparr>free := u32 (free s + (len s - reallen)), len := reallen\<rparr>)"

definition sdsclear :: "sdshdr \<Rightarrow> sdshdr option" where
  "sdsclear s = do {
     b \<leftarrow> mem_set (buf s) 0 NUL;
     Some (s\<lparr>free := u32 (free s + len s), len := 0, buf := b\<rparr>) }"

text \<open>\<open>zrealloc\<close> keeps the bytes that fit; new bytes are \<open>g\<close>.\<close>

definition zrealloc :: "char \<Rightarrow> char list \<Rightarrow> nat \<Rightarrow> char list" where
  "zrealloc g b n = take n b @ replicate (n - length b) g"

definition sdsMakeRoomFor :: "char \<Rightarrow> sdshdr \<Rightarrow> nat \<Rightarrow> sdshdr" where
  "sdsMakeRoomFor g s addlen =
     (if free s \<ge> addlen then s
      else
        let newlen0 = len s + addlen;
            newlen = (if newlen0 < SDS_MAX_PREALLOC then newlen0 * 2
                      else newlen0 + SDS_MAX_PREALLOC)
        in s\<lparr>buf := zrealloc g (buf s) (newlen + 1), free := u32 (newlen - len s)\<rparr>)"

definition sdsRemoveFreeSpace :: "sdshdr \<Rightarrow> sdshdr" where
  "sdsRemoveFreeSpace s = s\<lparr>buf := zrealloc NUL (buf s) (len s + 1), free := 0\<rparr>"

definition sdsAllocSize :: "sdshdr \<Rightarrow> nat" where
  "sdsAllocSize s = 8 + len s + free s + 1"

definition sdsIncrLen :: "sdshdr \<Rightarrow> int \<Rightarrow> sdshdr option" where
  "sdsIncrLen s incr =
     (if (if incr \<ge> 0 then int (free s) \<ge> incr else int (len s) \<ge> - incr) then do {
        let l = nat (int (len s) + incr);
        b \<leftarrow> mem_set (buf s) l NUL;
        Some (s\<lparr>len := l, free := nat (int (free s) - incr), buf := b\<rparr>) }
      else None)"

definition sdsgrowzero :: "char \<Rightarrow> sdshdr \<Rightarrow> nat \<Rightarrow> sdshdr option" where
  "sdsgrowzero g s n =
     (let curlen = len s in
      if n \<le> curlen then Some s
      else do {
        let s1 = sdsMakeRoomFor g s (n - curlen);
        b \<leftarrow> mem_write (buf s1) curlen (replicate (n - curlen + 1) NUL);
        let totlen = len s1 + free s1;
        Some (s1\<lparr>buf := b, len := u32 n, free := u32 (totlen - n)\<rparr>) })"

definition sdscatlen :: "char \<Rightarrow> sdshdr \<Rightarrow> char list \<Rightarrow> sdshdr option" where
  "sdscatlen g s t = do {
     let curlen = sdslen s;
     let s1 = sdsMakeRoomFor g s (length t);
     b \<leftarrow> mem_write (buf s1) curlen t;
     b' \<leftarrow> mem_set b (curlen + length t) NUL;
     Some (s1\<lparr>len := u32 (curlen + length t), free := free s1 - length t, buf := b'\<rparr>) }"

definition sdscat :: "char \<Rightarrow> sdshdr \<Rightarrow> char list \<Rightarrow> sdshdr option" where
  "sdscat g s t = sdscatlen g s (take (strlen t) t)"

definition sdscatsds :: "char \<Rightarrow> sdshdr \<Rightarrow> sdshdr \<Rightarrow> sdshdr option" where
  "sdscatsds g s t = sdscatlen g s (take (sdslen t) (buf t))"

definition sdscpylen :: "char \<Rightarrow> sdshdr \<Rightarrow> char list \<Rightarrow> sdshdr option" where
  "sdscpylen g s t = do {
     let totlen0 = free s + len s;
     let s1 = (if totlen0 < length t then sdsMakeRoomFor g s (length t - len s) else s);
     let totlen = free s1 + len s1;
     b \<leftarrow> mem_write (buf s1) 0 t;
     b' \<leftarrow> mem_set b (length t) NUL;
     Some (s1\<lparr>len := u32 (length t), free := u32 (totlen - length t), buf := b'\<rparr>) }"

definition sdscpy :: "char \<Rightarrow> sdshdr \<Rightarrow> char list \<Rightarrow> sdshdr option" where
  "sdscpy g s t = sdscpylen g s (take (strlen t) t)"

subsection \<open>Trimming, slicing, case, comparison\<close>

text \<open>\<open>strchr(cset, c)\<close> also finds the terminator of \<open>cset\<close>.\<close>

definition in_cset :: "char list \<Rightarrow> char \<Rightarrow> bool" where
  "in_cset cset c \<longleftrightarrow> c \<in> set cset \<or> c = NUL"

function trim_left :: "char list \<Rightarrow> char list \<Rightarrow> int \<Rightarrow> int \<Rightarrow> int" where
  "trim_left b cset sp en =
     (if sp \<le> en \<and> in_cset cset (b ! nat sp) then trim_left b cset (sp + 1) en else sp)"
  by pat_completeness auto
termination
  by (relation "measure (\<lambda>(b, cset, sp, en). nat (en - sp + 1))") auto

function trim_right :: "char list \<Rightarrow> char list \<Rightarrow> int \<Rightarrow> int" where
  "trim_right b cset ep =
     (if ep > 0 \<and> in_cset cset (b ! nat ep) then trim_right b cset (ep - 1) else ep)"
  by pat_completeness auto
termination
  by (relation "measure (\<lambda>(b, cset, ep). nat ep)") auto

declare trim_left.simps [simp del] trim_right.simps [simp del]

definition sdstrim :: "sdshdr \<Rightarrow> char list \<Rightarrow> sdshdr option" where
  "sdstrim s cset = do {
     let en = int (sdslen s) - 1;
     let sp = trim_left (buf s) cset 0 en;
     let ep = trim_right (buf s) cset en;
     let l = (if sp > ep then 0 else nat (ep - sp + 1));
     b \<leftarrow> (if sp \<noteq> 0 then mem_write (buf s) 0 (take l (drop (nat sp) (buf s))) else Some (buf s));
     b' \<leftarrow> mem_set b l NUL;
     Some (s\<lparr>buf := b', free := u32 (free s + (len s - l)), len := u32 l\<rparr>) }"

definition sdsrange :: "sdshdr \<Rightarrow> int \<Rightarrow> int \<Rightarrow> sdshdr option" where
  "sdsrange s start en =
     (let l = sdslen s in
      if l = 0 then Some s
      else do {
        let start1 = (if start < 0 then (let t = i32 (int l + start) in if t < 0 then 0 else t) else start);
        let en1 = (if en < 0 then (let t = i32 (int l + en) in if t < 0 then 0 else t) else en);
        let newlen0 = (if start1 > en1 then 0 else nat (i32 (en1 - start1 + 1) mod 18446744073709551616));
        let (start2, newlen) =
          (if newlen0 \<noteq> 0 then
             if start1 \<ge> int l then (start1, 0)
             else if en1 \<ge> int l then
               (let en2 = int l - 1 in (start1, if start1 > en2 then 0 else nat (en2 - start1 + 1)))
             else (start1, newlen0)
           else (0, newlen0));
        b \<leftarrow> (if start2 \<noteq> 0 \<and> newlen \<noteq> 0
              then mem_write (buf s) 0 (take newlen (drop (nat start2) (buf s))) else Some (buf s));
        b' \<leftarrow> mem_set b newlen NUL;
        Some (s\<lparr>buf := b', free := u32 (free s + (len s - newlen)), len := u32 newlen\<rparr>) })"

definition to_lower_chr :: "char \<Rightarrow> char" where
  "to_lower_chr c = (if 65 \<le> uchar c \<and> uchar c \<le> 90 then char_of (uchar c + 32) else c)"

definition to_upper_chr :: "char \<Rightarrow> char" where
  "to_upper_chr c = (if 97 \<le> uchar c \<and> uchar c \<le> 122 then char_of (uchar c - 32) else c)"

definition sdstolower :: "sdshdr \<Rightarrow> sdshdr" where
  "sdstolower s = s\<lparr>buf := map to_lower_chr (take (sdslen s) (buf s)) @ drop (sdslen s) (buf s)\<rparr>"

definition sdstoupper :: "sdshdr \<Rightarrow> sdshdr" where
  "sdstoupper s = s\<lparr>buf := map to_upper_chr (take (sdslen s) (buf s)) @ drop (sdslen s) (buf s)\<rparr>"

text \<open>\<open>memcmp\<close> compares unsigned bytes and returns the sign of the first difference.\<close>

fun memcmp :: "char list \<Rightarrow> char list \<Rightarrow> int" where
  "memcmp (a # as) (b # bs) =
     (if uchar a < uchar b then -1 else if uchar b < uchar a then 1 else memcmp as bs)"
| "memcmp _ _ = 0"

definition sdscmp :: "sdshdr \<Rightarrow> sdshdr \<Rightarrow> int" where
  "sdscmp s1 s2 =
     (let l1 = sdslen s1; l2 = sdslen s2; minlen = (if l1 < l2 then l1 else l2);
          cmp = memcmp (take minlen (buf s1)) (take minlen (buf s2))
      in if cmp = 0 then i32 (int l1 - int l2) else cmp)"

definition sdsmapchar :: "char list \<Rightarrow> char list \<Rightarrow> char \<Rightarrow> char" where
  "sdsmapchar fr to c = (case find (\<lambda>i. c = fr ! i) [0..<length fr] of None \<Rightarrow> c | Some i \<Rightarrow> to ! i)"

definition sdsmapchars :: "sdshdr \<Rightarrow> char list \<Rightarrow> char list \<Rightarrow> sdshdr" where
  "sdsmapchars s fr to =
     s\<lparr>buf := map (sdsmapchar fr to) (take (sdslen s) (buf s)) @ drop (sdslen s) (buf s)\<rparr>"

subsection \<open>Numbers\<close>

text \<open>
  The digits are written backwards, the sign last, and the buffer is reversed in place:
  \<open>rev_loop b i j\<close> is the swapping loop with \<open>s\<close> at index \<open>i\<close> and \<open>p\<close> at index \<open>j\<close>.
\<close>

fun emit_digits :: "nat \<Rightarrow> char list" where
  "emit_digits v = digit_chr (v mod 10) # (if v div 10 = 0 then [] else emit_digits (v div 10))"

declare emit_digits.simps [simp del]

function rev_loop :: "char list \<Rightarrow> nat \<Rightarrow> nat \<Rightarrow> char list" where
  "rev_loop b i j = (if i < j then rev_loop (b[i := b ! j, j := b ! i]) (i + 1) (j - 1) else b)"
  by pat_completeness auto
termination
  by (relation "measure (\<lambda>(b, i, j). j - i)") auto

declare rev_loop.simps [simp del]

definition sdsull2str :: "nat \<Rightarrow> char list" where
  "sdsull2str v = (let b = emit_digits v in rev_loop b 0 (length b - 1))"

definition sdsll2str :: "int \<Rightarrow> char list" where
  "sdsll2str value =
     (let v = (if value < 0 then wrap64 (nat (- value)) else nat value);
          b = emit_digits v @ (if value < 0 then ''-'' else [])
      in rev_loop b 0 (length b - 1))"

definition sdsfromlonglong :: "int \<Rightarrow> sdshdr" where
  "sdsfromlonglong value = sdsnewlen (sdsll2str value)"

subsection \<open>Appending in a loop\<close>

text \<open>A sequence of appends, as a loop over the pieces performs them.\<close>

fun append_all :: "('s \<Rightarrow> 'a \<Rightarrow> 's option) \<Rightarrow> 's \<Rightarrow> 'a list \<Rightarrow> 's option" where
  "append_all f s [] = Some s"
| "append_all f s (t # ts) = (case f s t of None \<Rightarrow> None | Some s' \<Rightarrow> append_all f s' ts)"

text \<open>\<open>isprint\<close> and \<open>isspace\<close> in the C locale.\<close>

definition isprint :: "char \<Rightarrow> bool" where
  "isprint c \<longleftrightarrow> 32 \<le> uchar c \<and> uchar c \<le> 126"

definition isspace :: "char \<Rightarrow> bool" where
  "isspace c \<longleftrightarrow> uchar c = 32 \<or> (9 \<le> uchar c \<and> uchar c \<le> 13)"

definition hex_chr :: "nat \<Rightarrow> char" where
  "hex_chr d = (if d < 10 then char_of (48 + d) else char_of (87 + d))"

text \<open>What one character of the argument appends in \<open>sdscatrepr\<close>.\<close>

definition repr_chunk :: "char \<Rightarrow> char list" where
  "repr_chunk c =
     (if c = CHR 0x5C \<or> c = CHR 0x22 then [CHR 0x5C, c]
      else if c = CHR 0x0A then [CHR 0x5C, CHR ''n'']
      else if c = CHR 0x0D then [CHR 0x5C, CHR ''r'']
      else if c = CHR 0x09 then [CHR 0x5C, CHR ''t'']
      else if c = CHR 0x07 then [CHR 0x5C, CHR ''a'']
      else if c = CHR 0x08 then [CHR 0x5C, CHR ''b'']
      else if isprint c then [c]
      else [CHR 0x5C, CHR ''x'', hex_chr (uchar c div 16), hex_chr (uchar c mod 16)])"

definition sdscatrepr :: "char \<Rightarrow> sdshdr \<Rightarrow> char list \<Rightarrow> sdshdr option" where
  "sdscatrepr g s p =
     append_all (sdscatlen g) s ([CHR 0x22] # map repr_chunk p @ [[CHR 0x22]])"

text \<open>\<open>sdsjoin\<close>: every argument, and the separator after every one but the last.\<close>

fun join_pieces :: "char list \<Rightarrow> char list list \<Rightarrow> char list list" where
  "join_pieces sep [] = []"
| "join_pieces sep [a] = [a]"
| "join_pieces sep (a # b # as) = a # sep # join_pieces sep (b # as)"

definition sdsjoin :: "char \<Rightarrow> char list list \<Rightarrow> char list \<Rightarrow> sdshdr option" where
  "sdsjoin g argv sep = append_all (sdscat g) sdsempty (join_pieces sep argv)"

subsection \<open>\<open>sdscatfmt\<close>\<close>

datatype fmt_arg = FStr "char list" | FSds sdshdr | FInt int | FUInt nat

text \<open>The copy of a conversion's text at position \<open>i\<close>.\<close>

definition fmt_put :: "char \<Rightarrow> sdshdr \<times> nat \<Rightarrow> char list \<Rightarrow> (sdshdr \<times> nat) option" where
  "fmt_put g si t = do {
     let (sh, i) = si;
     let sh1 = (if free sh < length t then sdsMakeRoomFor g sh (length t) else sh);
     b \<leftarrow> mem_write (buf sh1) i t;
     Some (sh1\<lparr>buf := b, len := u32 (len sh1 + length t), free := free sh1 - length t\<rparr>, i + length t) }"

text \<open>A character stored without a further check: there is room for one.\<close>

definition fmt_chr :: "sdshdr \<times> nat \<Rightarrow> char \<Rightarrow> (sdshdr \<times> nat) option" where
  "fmt_chr si c = do {
     let (sh, i) = si;
     b \<leftarrow> mem_set (buf sh) i c;
     Some (sh\<lparr>buf := b, len := u32 (len sh + 1), free := free sh - 1\<rparr>, i + 1) }"

text \<open>
  The arguments are given as a list; reading one that is missing or of another type is
  undefined, and so is a format that ends in a percent sign: the code steps over its NUL.
\<close>

fun sdscatfmt_loop :: "char \<Rightarrow> char list \<Rightarrow> fmt_arg list \<Rightarrow> sdshdr \<times> nat \<Rightarrow> (sdshdr \<times> nat) option" where
  "sdscatfmt_loop g [] args si = Some si"
| "sdscatfmt_loop g (c # cs) args si =
     (let si1 = (if free (fst si) = 0 then (sdsMakeRoomFor g (fst si) 1, snd si) else si) in
      if c = CHR ''%'' then
        (case cs of [] \<Rightarrow> None
         | d # ds \<Rightarrow>
           if d = CHR ''s'' then
             (case args of FStr t # args' \<Rightarrow> Option.bind (fmt_put g si1 (take (strlen t) t)) (sdscatfmt_loop g ds args')
              | _ \<Rightarrow> None)
           else if d = CHR ''S'' then
             (case args of FSds t # args' \<Rightarrow> Option.bind (fmt_put g si1 (take (sdslen t) (buf t))) (sdscatfmt_loop g ds args')
              | _ \<Rightarrow> None)
           else if d = CHR ''i'' \<or> d = CHR ''I'' then
             (case args of FInt v # args' \<Rightarrow> Option.bind (fmt_put g si1 (sdsll2str v)) (sdscatfmt_loop g ds args')
              | _ \<Rightarrow> None)
           else if d = CHR ''u'' \<or> d = CHR ''U'' then
             (case args of FUInt v # args' \<Rightarrow> Option.bind (fmt_put g si1 (sdsull2str v)) (sdscatfmt_loop g ds args')
              | _ \<Rightarrow> None)
           else Option.bind (fmt_chr si1 d) (sdscatfmt_loop g ds args))
      else Option.bind (fmt_chr si1 c) (sdscatfmt_loop g cs args))"

definition sdscatfmt :: "char \<Rightarrow> sdshdr \<Rightarrow> char list \<Rightarrow> fmt_arg list \<Rightarrow> sdshdr option" where
  "sdscatfmt g s fmt args = do {
     (sh, i) \<leftarrow> sdscatfmt_loop g fmt args (s, sdslen s);
     b \<leftarrow> mem_set (buf sh) i NUL;
     Some (sh\<lparr>buf := b\<rparr>) }"

subsection \<open>Splitting\<close>

function split_loop :: "char list \<Rightarrow> char list \<Rightarrow> nat \<Rightarrow> nat \<Rightarrow> char list list \<Rightarrow> char list list" where
  "split_loop s sep j start tokens =
     (if sep \<noteq> [] \<and> int j < int (length s) - (int (length sep) - 1) then
        if take (length sep) (drop j s) = sep
        then split_loop s sep (j + length sep) (j + length sep)
               (tokens @ [take (j - start) (drop start s)])
        else split_loop s sep (j + 1) start tokens
      else tokens @ [take (length s - start) (drop start s)])"
  by pat_completeness auto
termination
  by (relation "measure (\<lambda>(s, sep, j, start, tokens). length s - j)")
    (auto simp flip: length_greater_0_conv)

declare split_loop.simps [simp del]

text \<open>The tokens, \<open>None\<close> for a NULL result.\<close>

definition sdssplitlen :: "char list \<Rightarrow> char list \<Rightarrow> char list list option" where
  "sdssplitlen s sep =
     (if length sep < 1 then None
      else if length s = 0 then Some []
      else Some (split_loop s sep 0 0 []))"

definition is_hex_digit :: "char \<Rightarrow> bool" where
  "is_hex_digit c \<longleftrightarrow> (48 \<le> uchar c \<and> uchar c \<le> 57) \<or> (97 \<le> uchar c \<and> uchar c \<le> 102)
     \<or> (65 \<le> uchar c \<and> uchar c \<le> 70)"

definition hex_digit_to_int :: "char \<Rightarrow> nat" where
  "hex_digit_to_int c =
     (if 48 \<le> uchar c \<and> uchar c \<le> 57 then uchar c - 48
      else if 97 \<le> uchar c \<and> uchar c \<le> 102 then uchar c - 87
      else if 65 \<le> uchar c \<and> uchar c \<le> 70 then uchar c - 55
      else 0)"

text \<open>The character at an offset of a NUL-terminated string.\<close>

definition peek :: "nat \<Rightarrow> char list \<Rightarrow> char" where
  "peek i cs = (if i < length cs then cs ! i else NUL)"

definition unescape :: "char \<Rightarrow> char" where
  "unescape c =
     (if c = CHR ''n'' then CHR 0x0A else if c = CHR ''r'' then CHR 0x0D
      else if c = CHR ''t'' then CHR 0x09 else if c = CHR ''b'' then CHR 0x08
      else if c = CHR ''a'' then CHR 0x07 else c)"

text \<open>
  The token loop of \<open>sdssplitargs\<close>: the quoting mode, the token so far and the rest of the
  line (a C string without its NUL). The result is the token and what follows it, \<open>None\<close> for
  the jump to \<open>err\<close>.
\<close>

datatype quoting = Unquoted | InQuotes | InSingle

function next_arg :: "quoting \<Rightarrow> char list \<Rightarrow> char list \<Rightarrow> (char list \<times> char list) option" where
  "next_arg InQuotes cur [] = None"
| "next_arg InQuotes cur (c # cs) =
     (if c = CHR 0x5C \<and> peek 0 cs = CHR ''x'' \<and> is_hex_digit (peek 1 cs) \<and> is_hex_digit (peek 2 cs)
      then next_arg InQuotes
        (cur @ [char_of (hex_digit_to_int (peek 1 cs) * 16 + hex_digit_to_int (peek 2 cs))]) (drop 3 cs)
      else if c = CHR 0x5C \<and> cs \<noteq> [] then next_arg InQuotes (cur @ [unescape (hd cs)]) (tl cs)
      else if c = CHR 0x22 then
        if cs \<noteq> [] \<and> \<not> isspace (hd cs) then None else Some (cur, cs)
      else next_arg InQuotes (cur @ [c]) cs)"
| "next_arg InSingle cur [] = None"
| "next_arg InSingle cur (c # cs) =
     (if c = CHR 0x5C \<and> peek 0 cs = CHR 0x27 then next_arg InSingle (cur @ [CHR 0x27]) (tl cs)
      else if c = CHR 0x27 then
        if cs \<noteq> [] \<and> \<not> isspace (hd cs) then None else Some (cur, cs)
      else next_arg InSingle (cur @ [c]) cs)"
| "next_arg Unquoted cur [] = Some (cur, [])"
| "next_arg Unquoted cur (c # cs) =
     (if c = CHR '' '' \<or> c = CHR 0x0A \<or> c = CHR 0x0D \<or> c = CHR 0x09 then Some (cur, cs)
      else if c = CHR 0x22 then next_arg InQuotes cur cs
      else if c = CHR 0x27 then next_arg InSingle cur cs
      else next_arg Unquoted (cur @ [c]) cs)"
  by pat_completeness auto
termination
  by (relation "measure (\<lambda>(q, cur, p). length p)") auto

lemma next_arg_shorter: "next_arg q cur p = Some (tok, r) \<Longrightarrow> p \<noteq> [] \<Longrightarrow> length r < length p"
proof (induction q cur p rule: next_arg.induct)
  case (2 cur c cs)
  then show ?case by (cases cs; cases "drop 3 cs") (force split: if_splits)+
next
  case (4 cur c cs)
  then show ?case by (cases cs; cases "tl cs") (force split: if_splits)+
next
  case (6 cur c cs)
  then show ?case by (cases cs) (force split: if_splits)+
qed simp_all

function sdssplitargs_loop :: "char list \<Rightarrow> char list list \<Rightarrow> char list list option" where
  "sdssplitargs_loop p vector =
     (let p1 = dropWhile isspace p in
      if p1 = [] then Some vector
      else case next_arg Unquoted [] p1 of None \<Rightarrow> None
        | Some (tok, r) \<Rightarrow> sdssplitargs_loop r (vector @ [tok]))"
  by pat_completeness auto
termination
proof (relation "measure (\<lambda>(p, vector). length p)")
  fix p :: "char list" and vector :: "char list list" and p1 x y z
  assume "p1 = dropWhile isspace p" "p1 \<noteq> []" "next_arg Unquoted [] p1 = Some x" "(y, z) = x"
  then have "length z < length p1" using next_arg_shorter by blast
  moreover have "length p1 \<le> length p" using \<open>p1 = _\<close> by (simp add: length_dropWhile_le)
  ultimately show "((z, vector @ [y]), p, vector) \<in> measure (\<lambda>(p, vector). length p)" by simp
qed simp

declare sdssplitargs_loop.simps [simp del]

definition sdssplitargs :: "char list \<Rightarrow> char list list option" where
  "sdssplitargs line = sdssplitargs_loop line []"

end
