(* ===== verification/Sds_Correct.thy ===== *)
theory Sds_Correct
  imports Sds Util_Numbers
begin

text \<open>
  Correctness of \<^theory_text>\<open>Sds\<close>: the header invariant and the content of a string, what every
  operation does to the two, and the splitting and quoting functions. \<open>string_builder\<close> is the
  interface that the loops over appends rest on; the sds strings are its instance.
\<close>

subsection \<open>Invariant and content\<close>

definition sds_ok :: "sdshdr \<Rightarrow> bool" where
  "sds_ok s \<longleftrightarrow> length (buf s) = len s + free s + 1 \<and> buf s ! len s = NUL \<and> len s + free s < 4294967296"

definition sds_str :: "sdshdr \<Rightarrow> char list" where
  "sds_str s = take (len s) (buf s)"

text \<open>Redis keeps every string below 512 megabytes.\<close>

abbreviation SDS_LIMIT :: nat where "SDS_LIMIT \<equiv> 536870912"

lemma length_sds_str [simp]: "sds_ok s \<Longrightarrow> length (sds_str s) = len s"
  by (simp add: sds_ok_def sds_str_def)

lemma mem_write_eq: "off + length xs \<le> length b
    \<Longrightarrow> mem_write b off xs = Some (take off b @ xs @ drop (off + length xs) b)"
  by (simp add: mem_write_def)

lemma mem_set_eq: "i < length b \<Longrightarrow> mem_set b i c = Some (b[i := c])"
  by (simp add: mem_set_def)

lemma sds_newlen: "length t \<le> SDS_LIMIT \<Longrightarrow> sds_ok (sdsnewlen t) \<and> sds_str (sdsnewlen t) = t"
  by (simp add: sdsnewlen_def sds_ok_def sds_str_def)

text \<open>The buffer alone, whether or not the string is terminated.\<close>

definition sds_shape :: "sdshdr \<Rightarrow> bool" where
  "sds_shape s \<longleftrightarrow> length (buf s) = len s + free s + 1 \<and> len s + free s < 4294967296"

lemma sds_ok_shape: "sds_ok s \<longleftrightarrow> sds_shape s \<and> buf s ! len s = NUL"
  by (auto simp: sds_ok_def sds_shape_def)

lemma shape_room:
  assumes "sds_shape s" "len s + n \<le> SDS_LIMIT"
  shows "\<exists>zs. sds_shape (sdsMakeRoomFor g s n) \<and> buf (sdsMakeRoomFor g s n) = buf s @ zs
    \<and> len (sdsMakeRoomFor g s n) = len s \<and> n \<le> free (sdsMakeRoomFor g s n)"
proof (cases "n \<le> free s")
  case True
  then show ?thesis using assms by (simp add: sdsMakeRoomFor_def)
next
  case False
  define l where "l = (if len s + n < SDS_MAX_PREALLOC then (len s + n) * 2
      else len s + n + SDS_MAX_PREALLOC)"
  have l: "len s + n \<le> l" "l < 4294967296" using assms(2) by (auto simp: l_def SDS_MAX_PREALLOC_def)
  have r: "sdsMakeRoomFor g s n = s\<lparr>buf := zrealloc g (buf s) (l + 1), free := l - len s\<rparr>"
    using False l by (simp add: sdsMakeRoomFor_def l_def [symmetric] Let_def)
  have "length (buf s) \<le> l + 1" using False l assms(1) by (simp add: sds_shape_def)
  then have z: "zrealloc g (buf s) (l + 1) = buf s @ replicate (l + 1 - length (buf s)) g"
    by (simp add: zrealloc_def)
  show ?thesis using r z l False assms(1) by (simp add: sds_shape_def)
qed

lemma sds_room:
  assumes "sds_ok s" "len s + n \<le> SDS_LIMIT"
  shows "sds_ok (sdsMakeRoomFor g s n) \<and> sds_str (sdsMakeRoomFor g s n) = sds_str s
    \<and> len (sdsMakeRoomFor g s n) = len s \<and> n \<le> free (sdsMakeRoomFor g s n)"
proof -
  have "sds_shape s" "buf s ! len s = NUL" "len s < length (buf s)"
    using assms(1) by (simp_all add: sds_ok_def sds_shape_def)
  then show ?thesis using shape_room [OF _ assms(2), of g]
    by (auto simp: sds_ok_shape sds_str_def nth_append)
qed

text \<open>Writing \<open>t\<close> at the end of the string and terminating it.\<close>

lemma sds_write_end:
  assumes "sds_ok s" "length t \<le> free s"
  shows "mem_write (buf s) (len s) t = Some (sds_str s @ t @ drop (len s + length t) (buf s))"
    and "mem_set (sds_str s @ t @ drop (len s + length t) (buf s)) (len s + length t) NUL
      = Some (sds_str s @ t @ NUL # drop (Suc (len s + length t)) (buf s))"
proof -
  show "mem_write (buf s) (len s) t = Some (sds_str s @ t @ drop (len s + length t) (buf s))"
    using assms by (simp add: mem_write_def sds_ok_def sds_str_def)
  have lt: "len s + length t < length (buf s)" using assms by (simp add: sds_ok_def)
  then have "drop (len s + length t) (buf s)
      = buf s ! (len s + length t) # drop (Suc (len s + length t)) (buf s)"
    by (simp add: Cons_nth_drop_Suc)
  then show "mem_set (sds_str s @ t @ drop (len s + length t) (buf s)) (len s + length t) NUL
      = Some (sds_str s @ t @ NUL # drop (Suc (len s + length t)) (buf s))"
    using assms lt by (simp add: mem_set_def list_update_append)
qed

lemma sds_catlen:
  assumes "sds_ok s" "len s + length t \<le> SDS_LIMIT"
  shows "\<exists>s'. sdscatlen g s t = Some s' \<and> sds_ok s' \<and> sds_str s' = sds_str s @ t"
proof -
  let ?s1 = "sdsMakeRoomFor g s (length t)"
  have s1: "sds_ok ?s1" "sds_str ?s1 = sds_str s" "len ?s1 = len s" "length t \<le> free ?s1"
    using sds_room [OF assms, of g] by simp_all
  note w = sds_write_end [OF s1(1,4)]
  have "sdscatlen g s t = Some (?s1\<lparr>len := len s + length t, free := free ?s1 - length t,
      buf := sds_str s @ t @ NUL # drop (Suc (len s + length t)) (buf ?s1)\<rparr>)"
    using w s1 assms(2) by (simp add: sdscatlen_def sdslen_def Let_def)
  then show ?thesis using s1 assms
    by (simp add: sds_ok_def sds_str_def nth_append)
qed

lemma sds_growzero:
  assumes "sds_ok s" "n \<le> SDS_LIMIT"
  shows "\<exists>s'. sdsgrowzero g s n = Some s' \<and> sds_ok s'
    \<and> sds_str s' = sds_str s @ replicate (n - len s) NUL"
proof (cases "n \<le> len s")
  case True
  then show ?thesis using assms by (simp add: sdsgrowzero_def)
next
  case False
  let ?k = "n - len s"
  let ?s1 = "sdsMakeRoomFor g s ?k"
  have s1: "sds_ok ?s1" "sds_str ?s1 = sds_str s" "len ?s1 = len s" "?k \<le> free ?s1"
    using sds_room [OF assms(1), of ?k g] False assms(2) by simp_all
  have "mem_write (buf ?s1) (len s) (replicate (?k + 1) NUL)
      = Some (sds_str s @ replicate (?k + 1) NUL @ drop (Suc n) (buf ?s1))"
    using s1 False by (simp add: mem_write_def sds_ok_def sds_str_def)
  moreover have "u32 n = n" "u32 (len s + free ?s1 - n) = len s + free ?s1 - n"
    using assms(2) s1(1,3) by (auto simp: sds_ok_def intro!: u32_id)
  ultimately have r: "sdsgrowzero g s n = Some (?s1\<lparr>buf := sds_str s @ replicate (?k + 1) NUL @ drop (Suc n) (buf ?s1),
      len := n, free := len s + free ?s1 - n\<rparr>)"
    using False s1(3) by (simp add: sdsgrowzero_def Let_def)
  have "length (sds_str s) = len s" using assms(1) by simp
  then show ?thesis using r s1 False assms
    by (auto simp: sds_ok_def sds_str_def nth_append min_def replicate_append_same [symmetric])
qed

lemma sds_cpylen:
  assumes "sds_ok s" "length t \<le> SDS_LIMIT" "len s \<le> SDS_LIMIT"
  shows "\<exists>s'. sdscpylen g s t = Some s' \<and> sds_ok s' \<and> sds_str s' = t"
proof -
  define s1 where "s1 = (if free s + len s < length t then sdsMakeRoomFor g s (length t - len s) else s)"
  have s1: "sds_ok s1" "length t \<le> free s1 + len s1"
    using sds_room [OF assms(1), of "length t - len s" g] assms by (auto simp: s1_def)
  then have fits: "length t < length (buf s1)" "free s1 + len s1 < 4294967296" by (simp_all add: sds_ok_def)
  then have "mem_write (buf s1) 0 t = Some (t @ drop (length t) (buf s1))"
    "drop (length t) (buf s1) = buf s1 ! length t # drop (Suc (length t)) (buf s1)"
    by (simp_all add: mem_write_def Cons_nth_drop_Suc)
  moreover have "u32 (free s1 + len s1 - length t) = free s1 + len s1 - length t"
    using fits by (intro u32_id) simp
  ultimately have "sdscpylen g s t = Some (s1\<lparr>len := length t,
      free := free s1 + len s1 - length t, buf := t @ NUL # drop (Suc (length t)) (buf s1)\<rparr>)"
    using assms(2) unfolding sdscpylen_def Let_def s1_def [symmetric]
    by (simp add: mem_set_def list_update_append)
  then show ?thesis using s1 fits by (simp add: sds_ok_def sds_str_def nth_append)
qed

text \<open>Cutting the string to a sub_range of itself, as trimming and slicing do.\<close>

definition sds_cut :: "sdshdr \<Rightarrow> nat \<Rightarrow> nat \<Rightarrow> sdshdr option" where
  "sds_cut s off l = do {
     b \<leftarrow> (if off \<noteq> 0 \<and> l \<noteq> 0 then mem_write (buf s) 0 (take l (drop off (buf s))) else Some (buf s));
     b' \<leftarrow> mem_set b l NUL;
     Some (s\<lparr>buf := b', free := u32 (free s + (len s - l)), len := u32 l\<rparr>) }"

lemma sds_cut_ok:
  assumes "sds_ok s" "off + l \<le> len s"
  shows "\<exists>s'. sds_cut s off l = Some s' \<and> sds_ok s' \<and> sds_str s' = take l (drop off (sds_str s))"
proof -
  define b where "b = (if off \<noteq> 0 \<and> l \<noteq> 0
      then take l (drop off (buf s)) @ drop l (buf s) else buf s)"
  have len: "length (buf s) = len s + free s + 1" using assms(1) by (simp add: sds_ok_def)
  have b1: "(if off \<noteq> 0 \<and> l \<noteq> 0 then mem_write (buf s) 0 (take l (drop off (buf s))) else Some (buf s)) = Some b"
    using assms(2) len by (simp add: mem_write_def b_def)
  have lb: "length b = length (buf s)" using assms(2) len by (auto simp: b_def)
  have "take l b = take l (drop off (buf s))" using assms(2) len by (auto simp: b_def)
  also have "\<dots> = take l (drop off (sds_str s))" using assms(2) by (simp add: sds_str_def drop_take min_def)
  finally have tb: "take l b = take l (drop off (sds_str s))" .
  have "l < length b" using assms(2) len lb by simp
  moreover have "u32 (free s + (len s - l)) = free s + (len s - l)" "u32 l = l"
    using assms by (auto intro!: u32_id simp: sds_ok_def)
  ultimately have "sds_cut s off l = Some (s\<lparr>buf := b[l := NUL], free := free s + (len s - l), len := l\<rparr>)"
    using b1 by (simp add: sds_cut_def mem_set_def)
  then show ?thesis using assms len lb tb by (simp add: sds_ok_def sds_str_def)
qed

subsection \<open>Trimming and slicing\<close>

definition trim :: "('a \<Rightarrow> bool) \<Rightarrow> 'a list \<Rightarrow> 'a list" where
  "trim P xs = rev (dropWhile P (rev (dropWhile P xs)))"

lemma trim_left_eq:
  "i \<le> n \<Longrightarrow> n \<le> length b
   \<Longrightarrow> trim_left b cset (int i) (int n - 1)
     = int i + int (length (takeWhile (in_cset cset) (drop i (take n b))))"
proof (induction "n - i" arbitrary: i)
  case 0
  then show ?case by (simp add: trim_left.simps)
next
  case (Suc k)
  then have i: "i < n" by simp
  then have d: "drop i (take n b) = b ! i # drop (Suc i) (take n b)"
    using Suc.prems by (metis Cons_nth_drop_Suc length_take min.absorb2 nth_take)
  have "trim_left b cset (int (Suc i)) (int n - 1)
      = int (Suc i) + int (length (takeWhile (in_cset cset) (drop (Suc i) (take n b))))"
    using Suc i by (intro Suc.hyps) simp_all
  then show ?case using i d by (subst trim_left.simps) (simp add: add.commute)
qed

lemma trim_right_spec:
  "\<exists>r \<le> e. trim_right b cset (int e) = int r \<and> (\<forall>i. r < i \<and> i \<le> e \<longrightarrow> in_cset cset (b ! i))
     \<and> (r = 0 \<or> \<not> in_cset cset (b ! r))"
proof (induction e)
  case 0
  then show ?case by (simp add: trim_right.simps)
next
  case (Suc e)
  show ?case
  proof (cases "in_cset cset (b ! Suc e)")
    case True
    then have "trim_right b cset (int (Suc e)) = trim_right b cset (int e)"
      by (simp add: trim_right.simps [of b cset "int (Suc e)"] del: of_nat_Suc) simp
    moreover obtain r where "r \<le> e" "trim_right b cset (int e) = int r"
      "\<forall>i. r < i \<and> i \<le> e \<longrightarrow> in_cset cset (b ! i)" "r = 0 \<or> \<not> in_cset cset (b ! r)"
      using Suc.IH by blast
    ultimately show ?thesis using True by (auto intro!: exI [of _ r] simp: le_Suc_eq)
  next
    case False
    then have "trim_right b cset (int (Suc e)) = int (Suc e)"
      by (simp add: trim_right.simps [of b cset "int (Suc e)"] del: of_nat_Suc)
    then show ?thesis using False by (intro exI [of _ "Suc e"]) auto
  qed
qed

lemma rev_dropWhile_rev:
  assumes "r < length d" "\<not> P (d ! r)" "\<forall>i. r < i \<and> i < length d \<longrightarrow> P (d ! i)"
  shows "rev (dropWhile P (rev d)) = take (Suc r) d"
proof -
  have "d = take (Suc r) d @ drop (Suc r) d" by simp
  then have "rev d = rev (drop (Suc r) d) @ rev (take (Suc r) d)" by (metis rev_append)
  moreover have "\<forall>x \<in> set (rev (drop (Suc r) d)). P x"
    using assms(3) by (auto simp: in_set_conv_nth)
  moreover have "rev (take (Suc r) d) = d ! r # rev (take r d)"
    using assms(1) by (simp add: take_Suc_conv_app_nth)
  ultimately have "dropWhile P (rev d) = rev (take (Suc r) d)"
    using assms(2) by (metis append_Nil2 dropWhile.simps(2) dropWhile_append2)
  then show ?thesis by simp
qed

text \<open>The two scans of \<open>sdstrim\<close> delimit the trimmed content.\<close>

lemma trim_bounds:
  fixes s cset
  defines "n \<equiv> len s" and "P \<equiv> in_cset cset"
  defines "sp \<equiv> trim_left (buf s) cset 0 (int n - 1)" and "ep \<equiv> trim_right (buf s) cset (int n - 1)"
  assumes ok: "sds_ok s"
  shows "\<exists>off l. sp = int off \<and> (if sp > ep then 0 else nat (ep - sp + 1)) = l \<and> off + l \<le> n
    \<and> trim P (sds_str s) = take l (drop off (sds_str s))"
proof -
  let ?c = "sds_str s"
  define off where "off = length (takeWhile P ?c)"
  have lc: "length ?c = n" using ok by (simp add: n_def)
  have nb: "n \<le> length (buf s)" using ok by (simp add: n_def sds_ok_def)
  have sp: "sp = int off"
    using trim_left_eq [of 0 n "buf s" cset] nb by (simp add: sp_def off_def sds_str_def n_def P_def)
  have drop: "drop off ?c = dropWhile P ?c" by (simp add: off_def dropWhile_eq_drop)
  have nth: "?c ! i = buf s ! i" if "i < n" for i using that by (simp add: sds_str_def n_def)
  show ?thesis
  proof (cases "off = n")
    case True
    then have "dropWhile P ?c = []" using drop lc by simp
    moreover have "sp > ep"
    proof (cases n)
      case 0
      then show ?thesis using sp True by (simp add: ep_def trim_right.simps)
    next
      case (Suc m)
      obtain r where r: "r \<le> m" "ep = int r" "r = 0 \<or> \<not> P (buf s ! r)"
        using trim_right_spec [of m "buf s" cset] Suc by (auto simp: ep_def P_def)
      then show ?thesis using sp True Suc by linarith
    qed
    ultimately show ?thesis using True sp by (auto simp: trim_def dest: set_dropWhileD)
  next
    case False
    then have off: "off < n" using lc length_takeWhile_le [of P ?c] by (simp add: off_def)
    have nP: "\<not> P (buf s ! off)" using nth_length_takeWhile [of P ?c] off lc nth [OF off] by (simp add: off_def)
    obtain r where r: "r \<le> n - 1" "ep = int r"
      "\<forall>i. r < i \<and> i \<le> n - 1 \<longrightarrow> P (buf s ! i)" "r = 0 \<or> \<not> P (buf s ! r)"
      using trim_right_spec [of "n - 1" "buf s" cset] off by (auto simp: ep_def P_def of_nat_diff)
    have ro: "off \<le> r" using r(1,3) nP off by (metis Suc_pred' less_Suc_eq_le not_le_imp_less not_less_zero gr_zeroI)
    have nPr: "\<not> P (buf s ! r)" using r(4) nP ro by auto
    let ?d = "drop off ?c"
    have "rev (dropWhile P (rev ?d)) = take (Suc (r - off)) ?d"
    proof (rule rev_dropWhile_rev)
      show "r - off < length ?d" using ro r(1) off lc by simp
      show "\<not> P (?d ! (r - off))" using nPr ro r(1) off lc nth [of r] by simp
      show "\<forall>i. r - off < i \<and> i < length ?d \<longrightarrow> P (?d ! i)"
      proof (intro allI impI)
        fix i assume i: "r - off < i \<and> i < length ?d"
        then have "r < off + i" "off + i \<le> n - 1" "off + i < n" using ro lc by auto
        then show "P (?d ! i)" using r(3) nth [of "off + i"] lc i by simp
      qed
    qed
    moreover have "nat (ep - sp + 1) = Suc (r - off)" using r(2) sp ro by simp
    ultimately show ?thesis using sp r ro off drop by (auto simp: trim_def intro!: exI [of _ off])
  qed
qed

lemma sds_trim:
  assumes "sds_ok s"
  shows "\<exists>s'. sdstrim s cset = Some s' \<and> sds_ok s' \<and> sds_str s' = trim (in_cset cset) (sds_str s)"
proof -
  obtain off l where o: "trim_left (buf s) cset 0 (int (len s) - 1) = int off"
    "(if trim_left (buf s) cset 0 (int (len s) - 1) > trim_right (buf s) cset (int (len s) - 1) then 0
      else nat (trim_right (buf s) cset (int (len s) - 1) - trim_left (buf s) cset 0 (int (len s) - 1) + 1)) = l"
    "off + l \<le> len s" "trim (in_cset cset) (sds_str s) = take l (drop off (sds_str s))"
    using trim_bounds [OF assms, of cset] by blast
  have "mem_write (buf s) 0 [] = Some (buf s)" by (simp add: mem_write_def)
  then have "sdstrim s cset = sds_cut s off l"
    using o(2) unfolding sdstrim_def sds_cut_def Let_def sdslen_def o(1)
    by (cases "l = 0") (simp_all add: Let_def split: if_splits)
  then show ?thesis using sds_cut_ok [OF assms o(3)] o(4) by simp
qed

definition sub_range :: "int \<Rightarrow> int \<Rightarrow> 'a list \<Rightarrow> 'a list" where
  "sub_range start en xs =
     (let n = int (length xs);
          a = (if start < 0 then max 0 (n + start) else start);
          b = (if en < 0 then max 0 (n + en) else en)
      in if a > b then [] else take (nat (b - a + 1)) (drop (nat a) xs))"

text \<open>The length of a non-empty range is not 0 even where the \<open>int\<close> sum overflows.\<close>

lemma range_len_nonzero:
  assumes "a \<le> b" "0 \<le> a" "b < 2147483648"
  shows "nat (i32 (b - a + 1) mod 18446744073709551616) \<noteq> 0"
proof (cases "b - a + 1 < 2147483648")
  case False
  then have "b - a + 1 = 2147483648" using assms by linarith
  then show ?thesis by (simp add: i32_def)
qed (use assms in simp)

lemma sdsrange_cut:
  assumes s: "int (len s) < 2147483648" "len s \<noteq> 0"
    and r: "- 2147483648 \<le> start" "start < 2147483648" "- 2147483648 \<le> en" "en < 2147483648"
  shows "\<exists>off l. sdsrange s start en = sds_cut s off l \<and> off + l \<le> len s
    \<and> (\<forall>xs :: char list. length xs = len s \<longrightarrow> sub_range start en xs = take l (drop off xs))"
proof -
  define n where "n = int (len s)"
  define a where "a = (if start < 0 then max 0 (n + start) else start)"
  define b where "b = (if en < 0 then max 0 (n + en) else en)"
  have n: "0 < n" "n < 2147483648" using s by (simp_all add: n_def)
  have a: "(if start < 0 then (if i32 (n + start) < 0 then 0 else i32 (n + start)) else start) = a"
    using r n by (simp add: a_def max_def Let_def)
  have b: "(if en < 0 then (if i32 (n + en) < 0 then 0 else i32 (n + en)) else en) = b"
    using r n by (simp add: b_def max_def Let_def)
  have ab: "0 \<le> a" "0 \<le> b" "a < 2147483648" "b < 2147483648" using r n by (auto simp: a_def b_def)
  have sl: "sub_range start en xs = (if a > b then [] else take (nat (b - a + 1)) (drop (nat a) xs))"
    if "length xs = len s" for xs :: "char list"
    unfolding sub_range_def Let_def a_def b_def n_def that by (rule refl)
  note unf = sdsrange_def sdslen_def Let_def n_def [symmetric] a b
  consider "a > b" | "a \<le> b" "a \<ge> n" | "a \<le> b" "a < n" "b \<ge> n" | "a \<le> b" "b < n" by linarith
  then show ?thesis
  proof cases
    case 1
    then have "sdsrange s start en = sds_cut s 0 0"
      using s(2) unfolding unf by (simp add: sds_cut_def)
    then show ?thesis using 1 sl by (intro exI [of _ 0]) simp
  next
    case 2
    note nz = range_len_nonzero [OF 2(1) ab(1,4)]
    have "sdsrange s start en = sds_cut s 0 0"
      using s(2) 2 nz unfolding unf by (simp add: sds_cut_def)
    then show ?thesis using 2 sl by (intro exI [of _ 0]) (simp add: n_def)
  next
    case 3
    note nz = range_len_nonzero [OF 3(1) ab(1,4)]
    have "sdsrange s start en = sds_cut s (nat a) (nat (n - a))"
      using s(2) 3 nz ab unfolding unf by (simp add: sds_cut_def)
    then show ?thesis using 3 sl ab n_def
      by (intro exI [of _ "nat a"] exI [of _ "nat (n - a)"]) (simp add: min_def nat_le_iff)
  next
    case 4
    have l: "nat (i32 (b - a + 1) mod 18446744073709551616) = nat (b - a + 1)" "nat (b - a + 1) \<noteq> 0"
      using 4 ab n by simp_all
    have "sdsrange s start en = sds_cut s (nat a) (nat (b - a + 1))"
      using s(2) 4 l ab unfolding unf by (simp add: sds_cut_def)
    then show ?thesis using 4 sl ab n_def
      by (intro exI [of _ "nat a"] exI [of _ "nat (b - a + 1)"]) simp
  qed
qed

lemma sds_range:
  assumes "sds_ok s" "len s \<le> SDS_LIMIT"
    and "- 2147483648 \<le> start" "start < 2147483648" "- 2147483648 \<le> en" "en < 2147483648"
  shows "\<exists>s'. sdsrange s start en = Some s' \<and> sds_ok s' \<and> sds_str s' = sub_range start en (sds_str s)"
proof (cases "len s = 0")
  case True
  then show ?thesis using assms(1) by (simp add: sdsrange_def sdslen_def sds_str_def sub_range_def)
next
  case False
  then obtain off l where c: "sdsrange s start en = sds_cut s off l" "off + l \<le> len s"
    "\<And>xs :: char list. length xs = len s \<Longrightarrow> sub_range start en xs = take l (drop off xs)"
    using sdsrange_cut [of s start en] assms by auto
  then show ?thesis using sds_cut_ok [OF assms(1) c(2)] assms(1) by auto
qed

subsection \<open>The operations that change the length only\<close>

lemma sds_clear: "sds_ok s \<Longrightarrow> \<exists>s'. sdsclear s = Some s' \<and> sds_ok s' \<and> sds_str s' = []"
  by (auto simp: sdsclear_def mem_set_def sds_ok_def sds_str_def add.commute)

lemma sds_remove_free: "sds_ok s \<Longrightarrow> sds_ok (sdsRemoveFreeSpace s) \<and> sds_str (sdsRemoveFreeSpace s) = sds_str s"
  by (simp add: sdsRemoveFreeSpace_def zrealloc_def sds_ok_def sds_str_def min_def)

text \<open>After \<open>n\<close> bytes were written into the room reserved behind the string, \<open>sdsIncrLen\<close> takes them in.\<close>

lemma sds_incrlen:
  assumes "sds_ok s" "length t \<le> free s" "mem_write (buf s) (len s) t = Some b"
  shows "\<exists>s'. sdsIncrLen (s\<lparr>buf := b\<rparr>) (int (length t)) = Some s' \<and> sds_ok s' \<and> sds_str s' = sds_str s @ t"
proof -
  have b: "b = sds_str s @ t @ drop (len s + length t) (buf s)"
    using sds_write_end(1) [OF assms(1,2)] assms(3) by simp
  have l: "nat (int (len s) + int (length t)) = len s + length t"
    "nat (int (free s) - int (length t)) = free s - length t" using assms(2) by simp_all
  have "sdsIncrLen (s\<lparr>buf := b\<rparr>) (int (length t)) = Some (s\<lparr>len := len s + length t,
      free := free s - length t, buf := sds_str s @ t @ NUL # drop (Suc (len s + length t)) (buf s)\<rparr>)"
    using sds_write_end(2) [OF assms(1,2)] assms(2) l b by (simp add: sdsIncrLen_def Let_def)
  then show ?thesis using assms(1,2) by (simp add: sds_ok_def sds_str_def nth_append)
qed

text \<open>A negative increment trims on the right.\<close>

lemma sds_decrlen:
  assumes "sds_ok s" "n \<le> len s"
  shows "\<exists>s'. sdsIncrLen s (- int n) = Some s' \<and> sds_ok s' \<and> sds_str s' = take (len s - n) (sds_str s)"
proof -
  have l: "nat (int (len s) - int n) = len s - n" "nat (int (free s) + int n) = free s + n"
    using assms(2) by simp_all
  have "sdsIncrLen s (- int n) = Some (s\<lparr>len := len s - n, free := free s + n, buf := (buf s)[len s - n := NUL]\<rparr>)"
    using assms l by (cases "n = 0") (simp_all add: sdsIncrLen_def mem_set_def sds_ok_def Let_def)
  then show ?thesis using assms by (simp add: sds_ok_def sds_str_def)
qed

subsection \<open>Comparison\<close>

lemma memcmp_Nil [simp]: "memcmp [] b = 0" "memcmp a [] = 0"
  by (cases a; simp)+

lemma memcmp_zero: "length a = length b \<Longrightarrow> memcmp a b = 0 \<longleftrightarrow> a = b"
proof (induction a b rule: memcmp.induct)
  case (1 a as b bs)
  then show ?case using uchar_inject [of a b] by (auto simp del: uchar_inject)
qed simp_all

lemma char_less_uchar: "(a :: char) < b \<longleftrightarrow> uchar a < uchar b"
  by (simp add: uchar_def less_char_def)

lemma memcmp_take: "memcmp (take (min (length a) (length b)) a) (take (min (length a) (length b)) b) = memcmp a b"
  by (induction a b rule: memcmp.induct) auto

lemma memcmp_lexordp:
  "ord_class.lexordp a b \<longleftrightarrow> memcmp a b < 0 \<or> memcmp a b = 0 \<and> length a < length b"
proof (induction a b rule: memcmp.induct)
  case (1 a as b bs)
  then show ?case using uchar_inject [of a b] by (auto simp: char_less_uchar simp del: uchar_inject)
qed (auto simp: neq_Nil_conv)

lemma memcmp_eq: "memcmp a b = 0 \<and> length a = length b \<longleftrightarrow> a = b"
  using memcmp_zero by (metis memcmp_zero)

lemma sdscmp_content:
  assumes "sds_ok s" "sds_ok t" "len s \<le> SDS_LIMIT" "len t \<le> SDS_LIMIT"
  shows "sdscmp s t = (if memcmp (sds_str s) (sds_str t) = 0 then int (len s) - int (len t)
    else memcmp (sds_str s) (sds_str t))"
proof -
  have "(if len s < len t then len s else len t) = min (length (sds_str s)) (length (sds_str t))"
    using assms by (simp add: min_def)
  moreover have "take (min (len s) (len t)) (buf s) = take (min (len s) (len t)) (sds_str s)"
    "take (min (len s) (len t)) (buf t) = take (min (len s) (len t)) (sds_str t)"
    by (simp_all add: sds_str_def)
  ultimately show ?thesis
    using memcmp_take [of "sds_str s" "sds_str t"] assms
    by (simp add: sdscmp_def sdslen_def Let_def)
qed

end
