(* ===== verification/Sds_Text.thy ===== *)
theory Sds_Text
  imports Sds_Correct "HOL-Library.Sublist"
begin

text \<open>
  Correctness of the text functions of \<^theory_text>\<open>Sds\<close>: number printing, the loops over appends
  (through the interface \<open>string_builder\<close>), the format loop, splitting at a separator, and the
  quoting round trip between \<open>sdscatrepr\<close> and \<open>sdssplitargs\<close>.
\<close>

subsection \<open>Numbers\<close>

lemma emit_digits_rev: "emit_digits v = rev (show_nat v)"
proof (induction v rule: emit_digits.induct)
  case (1 v)
  show ?case
  proof (cases "v div 10 = 0")
    case True
    then show ?thesis by (simp add: emit_digits.simps show_nat_small)
  next
    case False
    then show ?thesis using "1.IH" by (simp add: emit_digits.simps [of v] show_nat_big)
  qed
qed

lemma rev_loop_length [simp]: "length (rev_loop b i j) = length b"
  by (induction b i j rule: rev_loop.induct) (subst rev_loop.simps, simp)

lemma rev_loop_nth:
  "j < length b \<Longrightarrow> k < length b
   \<Longrightarrow> rev_loop b i j ! k = (if i \<le> k \<and> k \<le> j then b ! (i + j - k) else b ! k)"
proof (induction b i j rule: rev_loop.induct)
  case (1 b i j)
  show ?case
  proof (cases "i < j")
    case True
    let ?b = "b[i := b ! j, j := b ! i]"
    have "rev_loop ?b (i + 1) (j - 1) ! k
        = (if i + 1 \<le> k \<and> k \<le> j - 1 then ?b ! (i + 1 + (j - 1) - k) else ?b ! k)"
      using True "1.prems" by (intro "1.IH") simp_all
    also have "\<dots> = (if i \<le> k \<and> k \<le> j then b ! (i + j - k) else b ! k)"
      using True "1.prems" by (auto simp: nth_list_update)
    finally show ?thesis using True by (simp add: rev_loop.simps [of b i j])
  next
    case False
    then have "i + j - k = k" if "i \<le> k" "k \<le> j" using that by linarith
    then show ?thesis using False by (simp add: rev_loop.simps [of b i j])
  qed
qed

lemma rev_loop_rev: "b \<noteq> [] \<Longrightarrow> rev_loop b 0 (length b - 1) = rev b"
  by (rule nth_equalityI) (auto simp: rev_loop_nth rev_nth)

lemma rev_loop_rev_rev: "xs \<noteq> [] \<Longrightarrow> rev_loop (rev xs) 0 (length xs - 1) = xs"
  using rev_loop_rev [of "rev xs"] by simp

lemma sdsull2str_show: "sdsull2str v = show_nat v"
  using rev_loop_rev_rev [of "show_nat v"] by (simp add: sdsull2str_def emit_digits_rev Let_def)

lemma sdsll2str_show:
  assumes "in_ll v"
  shows "sdsll2str v = show_int v"
proof (cases "v < 0")
  case True
  then have "wrap64 (nat (- v)) = nat (- v)" using assms by (simp add: wrap64_def in_ll_def)
  then show ?thesis using True rev_loop_rev_rev [of "CHR ''-'' # show_nat (nat (- v))"]
    by (simp add: sdsll2str_def emit_digits_rev show_int_def Let_def)
next
  case False
  then show ?thesis using rev_loop_rev_rev [of "show_nat (nat v)"]
    by (simp add: sdsll2str_def emit_digits_rev show_int_def Let_def)
qed

subsection \<open>Appending in a loop\<close>

text \<open>
  The interface the appending loops rely on: an append that, within a size limit, succeeds,
  keeps the invariant and appends its argument to the content.
\<close>

locale string_builder =
  fixes app :: "'s \<Rightarrow> char list \<Rightarrow> 's option"
    and str :: "'s \<Rightarrow> char list"
    and ok :: "'s \<Rightarrow> bool"
    and limit :: nat
  assumes app_ok: "ok s \<Longrightarrow> length (str s) + length t \<le> limit
    \<Longrightarrow> \<exists>s'. app s t = Some s' \<and> ok s' \<and> str s' = str s @ t"
begin

lemma append_all_ok:
  "ok s \<Longrightarrow> length (str s) + length (concat ts) \<le> limit
   \<Longrightarrow> \<exists>s'. append_all app s ts = Some s' \<and> ok s' \<and> str s' = str s @ concat ts"
proof (induction ts arbitrary: s)
  case (Cons t ts)
  then obtain s1 where s1: "app s t = Some s1" "ok s1" "str s1 = str s @ t"
    using app_ok [of s t] by auto
  then obtain s2 where "append_all app s1 ts = Some s2" "ok s2" "str s2 = str s1 @ concat ts"
    using Cons.IH [of s1] Cons.prems by (auto simp: add.assoc)
  then show ?case using s1 by simp
qed simp

end

interpretation sds: string_builder "sdscatlen g" sds_str sds_ok SDS_LIMIT for g
  by unfold_locales (use sds_catlen in auto)

text \<open>\<open>sdscat\<close> on C strings, which hold no NUL.\<close>

lemma strlen_no_NUL: "NUL \<notin> set t \<Longrightarrow> take (strlen t) t = t"
proof -
  assume "NUL \<notin> set t"
  then have "takeWhile (\<lambda>c. c \<noteq> NUL) t = t" by (auto simp: takeWhile_eq_all_conv)
  then show ?thesis unfolding strlen_def by (metis takeWhile_eq_take)
qed

lemma append_all_cat:
  "\<forall>t \<in> set ts. NUL \<notin> set t \<Longrightarrow> append_all (sdscat g) s ts = append_all (sdscatlen g) s ts"
  by (induction ts arbitrary: s) (auto simp: sdscat_def strlen_no_NUL split: option.splits)

lemma sds_empty: "sds_ok sdsempty" "sds_str sdsempty = []"
  using sds_newlen [of "[]"] by (simp_all add: sdsempty_def)

lemma join_pieces_set: "set (join_pieces sep ts) \<subseteq> insert sep (set ts)"
  by (induction sep ts rule: join_pieces.induct) auto

lemma sds_join:
  assumes "NUL \<notin> set sep" "\<forall>t \<in> set argv. NUL \<notin> set t"
    and "length (concat (join_pieces sep argv)) \<le> SDS_LIMIT"
  shows "\<exists>s. sdsjoin g argv sep = Some s \<and> sds_ok s \<and> sds_str s = concat (join_pieces sep argv)"
proof -
  have "\<forall>t \<in> set (join_pieces sep argv). NUL \<notin> set t"
    using assms(1,2) join_pieces_set [of sep argv] by auto
  then show ?thesis
    using sds.append_all_ok [of sdsempty "join_pieces sep argv" g] assms(3) sds_empty
    by (simp add: sdsjoin_def append_all_cat)
qed

definition quoted :: "char list \<Rightarrow> char list" where
  "quoted p = CHR 0x22 # concat (map repr_chunk p) @ [CHR 0x22]"

lemma sds_catrepr:
  assumes "sds_ok s" "len s + length (quoted p) \<le> SDS_LIMIT"
  shows "\<exists>s'. sdscatrepr g s p = Some s' \<and> sds_ok s' \<and> sds_str s' = sds_str s @ quoted p"
  using sds.append_all_ok [of s "[CHR 0x22] # map repr_chunk p @ [[CHR 0x22]]" g] assms
  by (simp add: sdscatrepr_def quoted_def)

subsection \<open>Quoting and parsing arguments\<close>

lemma uchar_hex_chr: "d < 16 \<Longrightarrow> uchar (hex_chr d) = (if d < 10 then 48 + d else 87 + d)"
  by (simp add: hex_chr_def uchar_def)

lemma hex_chr_int: "d < 16 \<Longrightarrow> is_hex_digit (hex_chr d) \<and> hex_digit_to_int (hex_chr d) = d"
  by (simp add: is_hex_digit_def hex_digit_to_int_def uchar_hex_chr)

lemma next_arg_chunk: "next_arg InQuotes cur (repr_chunk c @ r) = next_arg InQuotes (cur @ [c]) r"
proof -
  consider "c \<in> {CHR 0x5C, CHR 0x22, CHR 0x0A, CHR 0x0D, CHR 0x09, CHR 0x07, CHR 0x08}"
    | "c \<notin> {CHR 0x5C, CHR 0x22, CHR 0x0A, CHR 0x0D, CHR 0x09, CHR 0x07, CHR 0x08}" "isprint c"
    | "c \<notin> {CHR 0x5C, CHR 0x22, CHR 0x0A, CHR 0x0D, CHR 0x09, CHR 0x07, CHR 0x08}" "\<not> isprint c"
    by blast
  then show ?thesis
  proof cases
    case 1
    then show ?thesis
      by (elim insertE emptyE; simp add: repr_chunk_def peek_def unescape_def)
  next
    case 2
    then show ?thesis by (simp add: repr_chunk_def)
  next
    case 3
    have "uchar c div 16 < 16" using uchar_bound [of c] by linarith
    then have h: "is_hex_digit (hex_chr (uchar c div 16))" "is_hex_digit (hex_chr (uchar c mod 16))"
      "hex_digit_to_int (hex_chr (uchar c div 16)) = uchar c div 16"
      "hex_digit_to_int (hex_chr (uchar c mod 16)) = uchar c mod 16"
      using hex_chr_int by simp_all
    have "uchar c div 16 * 16 + uchar c mod 16 = uchar c" by simp
    then show ?thesis using 3 h by (simp add: repr_chunk_def peek_def)
  qed
qed

lemma next_arg_quoted:
  assumes "r = [] \<or> isspace (hd r)"
  shows "next_arg InQuotes cur (concat (map repr_chunk p) @ CHR 0x22 # r) = Some (cur @ p, r)"
proof (induction p arbitrary: cur)
  case Nil
  then show ?case using assms by auto
next
  case (Cons c p)
  then show ?case by (simp add: next_arg_chunk)
qed

lemma splitargs_quoted:
  assumes "r = [] \<or> isspace (hd r)"
  shows "sdssplitargs_loop (quoted p @ r) vec = sdssplitargs_loop r (vec @ [p])"
proof -
  have "\<not> isspace (CHR 0x22)" by (simp add: isspace_def uchar_def)
  then show ?thesis
    using next_arg_quoted [OF assms, of "[]" p]
    by (subst sdssplitargs_loop.simps) (simp add: quoted_def)
qed

lemma isspace_space: "isspace (CHR '' '')"
  by (simp add: isspace_def uchar_def)

lemma splitargs_skip: "isspace c \<Longrightarrow> sdssplitargs_loop (c # r) vec = sdssplitargs_loop r vec"
  by (subst (1 2) sdssplitargs_loop.simps) simp

lemma splitargs_all:
  "sdssplitargs_loop (concat (map (\<lambda>p. quoted p @ '' '') ps)) vec = Some (vec @ ps)"
proof (induction ps arbitrary: vec)
  case Nil
  then show ?case by (simp add: sdssplitargs_loop.simps)
next
  case (Cons p ps)
  then show ?case by (simp add: splitargs_quoted isspace_space splitargs_skip)
qed

subsection \<open>Splitting at a separator\<close>

definition occurs_at :: "'a list \<Rightarrow> 'a list \<Rightarrow> nat \<Rightarrow> bool" where
  "occurs_at sep s i \<longleftrightarrow> i + length sep \<le> length s \<and> take (length sep) (drop i s) = sep"

lemma occurs_at_sub:
  "start \<le> length s \<Longrightarrow> occurs_at sep (take m (drop start s)) i \<Longrightarrow> occurs_at sep s (start + i)"
  by (auto simp: occurs_at_def drop_take min_def add.commute split: if_splits)

lemma split_loop_spec:
  assumes "sep \<noteq> []" "start \<le> j" "j \<le> length s" "\<forall>i. start \<le> i \<and> i < j \<longrightarrow> \<not> (occurs_at sep s i)"
  shows "\<exists>ts. ts \<noteq> [] \<and> split_loop s sep j start tokens = tokens @ ts
    \<and> concat (join_pieces sep ts) = drop start s \<and> (\<forall>t \<in> set ts. \<forall>i. \<not> occurs_at sep t i)"
  using assms
proof (induction s sep j start tokens rule: split_loop.induct)
  case (1 s sep j start tokens)
  have fresh: "\<not> occurs_at sep (take (k - start) (drop start s)) i"
    if "\<And>i. start \<le> i \<Longrightarrow> i < k \<Longrightarrow> \<not> occurs_at sep s i" "start \<le> k" for k i
  proof
    assume o: "occurs_at sep (take (k - start) (drop start s)) i"
    then have "start + i < k" using "1.prems"(1) that(2)
      by (auto simp: occurs_at_def min_def simp flip: length_greater_0_conv split: if_splits)
    then show False using that(1) [of "start + i"] occurs_at_sub [OF _ o] "1.prems"(2,3) by simp
  qed
  show ?case
  proof (cases "int j < int (length s) - (int (length sep) - 1)")
    case False
    then have "\<not> occurs_at sep s i" if "start \<le> i" for i
      using "1.prems"(4) that by (cases "i < j") (auto simp: occurs_at_def)
    then have "\<not> occurs_at sep (drop start s) i" for i
      using fresh [of "length s"] "1.prems"(2,3) by simp
    then show ?thesis using False by (simp add: split_loop.simps [of s sep j])
  next
    case True
    then have fits: "j + length sep \<le> length s" by simp
    show ?thesis
    proof (cases "take (length sep) (drop j s) = sep")
      case sep: True
      let ?t = "take (j - start) (drop start s)"
      have "\<exists>ts. ts \<noteq> [] \<and> split_loop s sep (j + length sep) (j + length sep) (tokens @ [?t]) = (tokens @ [?t]) @ ts
          \<and> concat (join_pieces sep ts) = drop (j + length sep) s \<and> (\<forall>t \<in> set ts. \<forall>i. \<not> occurs_at sep t i)"
        using "1.prems"(1) True sep fits by (intro "1.IH"(1)) auto
      then obtain ts where ts: "ts \<noteq> []"
        "split_loop s sep (j + length sep) (j + length sep) (tokens @ [?t]) = tokens @ ?t # ts"
        "concat (join_pieces sep ts) = drop (j + length sep) s" "\<forall>t \<in> set ts. \<forall>i. \<not> occurs_at sep t i"
        by auto
      have "drop j s = sep @ drop (j + length sep) s"
        using sep by (metis append_take_drop_id drop_drop add.commute)
      moreover have "drop start s = ?t @ drop j s" using "1.prems"(2)
        by (metis append_take_drop_id drop_drop le_add_diff_inverse2)
      ultimately have "concat (join_pieces sep (?t # ts)) = drop start s"
        using ts(1,3) by (cases ts) auto
      moreover have "\<not> occurs_at sep ?t i" for i using fresh [of j] "1.prems"(2,4) by blast
      ultimately show ?thesis using ts True sep "1.prems"(1)
        by (intro exI [of _ "?t # ts"]) (simp add: split_loop.simps [of s sep j])
    next
      case no: False
      then have "\<forall>i. start \<le> i \<and> i < j + 1 \<longrightarrow> \<not> occurs_at sep s i"
        using "1.prems"(4) by (auto simp: occurs_at_def less_Suc_eq)
      moreover have "j + 1 \<le> length s" using True "1.prems"(1) fits by (simp add: Suc_le_eq flip: length_greater_0_conv)
      ultimately show ?thesis using "1.IH"(2) True no "1.prems"
        by (simp add: split_loop.simps [of s sep j])
    qed
  qed
qed

subsection \<open>The format loop\<close>

text \<open>What a format and its arguments denote; \<open>None\<close> where the call is undefined.\<close>

fun fmt_text :: "char list \<Rightarrow> fmt_arg list \<Rightarrow> char list option" where
  "fmt_text [] args = Some []"
| "fmt_text (c # cs) args =
     (if c = CHR ''%'' then
        (case cs of [] \<Rightarrow> None
         | d # ds \<Rightarrow>
           if d = CHR ''s'' then
             (case args of FStr t # as \<Rightarrow> map_option ((@) (take (strlen t) t)) (fmt_text ds as) | _ \<Rightarrow> None)
           else if d = CHR ''S'' then
             (case args of FSds t # as \<Rightarrow> map_option ((@) (sds_str t)) (fmt_text ds as) | _ \<Rightarrow> None)
           else if d = CHR ''i'' \<or> d = CHR ''I'' then
             (case args of FInt v # as \<Rightarrow> map_option ((@) (show_int v)) (fmt_text ds as) | _ \<Rightarrow> None)
           else if d = CHR ''u'' \<or> d = CHR ''U'' then
             (case args of FUInt v # as \<Rightarrow> map_option ((@) (show_nat v)) (fmt_text ds as) | _ \<Rightarrow> None)
           else map_option ((@) [d]) (fmt_text ds args))
      else map_option ((@) [c]) (fmt_text cs args))"

fun arg_ok :: "fmt_arg \<Rightarrow> bool" where
  "arg_ok (FInt v) = in_ll v"
| "arg_ok _ = True"

text \<open>The state of the loop: \<open>i\<close> is the length, the text so far stands before it.\<close>

definition fmt_inv :: "sdshdr \<times> nat \<Rightarrow> char list \<Rightarrow> bool" where
  "fmt_inv si out \<longleftrightarrow> sds_shape (fst si) \<and> snd si = len (fst si) \<and> take (snd si) (buf (fst si)) = out"

lemma fmt_inv_len: "fmt_inv si out \<Longrightarrow> length out = len (fst si)"
  by (auto simp: fmt_inv_def sds_shape_def)

lemma fmt_room:
  assumes "fmt_inv (sh, i) out" "length out + n \<le> SDS_LIMIT"
  shows "fmt_inv (sdsMakeRoomFor g sh n, i) out \<and> n \<le> free (sdsMakeRoomFor g sh n)"
proof -
  have "sds_shape sh" "i = len sh" "len sh \<le> length (buf sh)" "length out = len sh"
    using assms(1) fmt_inv_len [OF assms(1)] by (auto simp: fmt_inv_def sds_shape_def)
  then show ?thesis using shape_room [of sh n g] assms by (auto simp: fmt_inv_def)
qed

lemma fmt_put_ok:
  assumes "fmt_inv si out" "length out + length t \<le> SDS_LIMIT"
  shows "\<exists>si'. fmt_put g si t = Some si' \<and> fmt_inv si' (out @ t)"
proof -
  obtain sh i where si: "si = (sh, i)" by (cases si)
  define sh1 where "sh1 = (if free sh < length t then sdsMakeRoomFor g sh (length t) else sh)"
  have s1: "fmt_inv (sh1, i) out" "length t \<le> free sh1"
    using fmt_room [of sh i out "length t" g] assms si by (auto simp: sh1_def)
  then have b: "i = len sh1" "length (buf sh1) = len sh1 + free sh1 + 1" "take i (buf sh1) = out"
    "len sh1 + free sh1 < 4294967296" by (auto simp: fmt_inv_def sds_shape_def)
  then have "fmt_put g si t = Some (sh1\<lparr>buf := out @ t @ drop (i + length t) (buf sh1),
      len := len sh1 + length t, free := free sh1 - length t\<rparr>, i + length t)"
    using s1(2) by (simp add: fmt_put_def si sh1_def [symmetric] mem_write_def Let_def)
  then show ?thesis using b s1(2) by (auto simp: fmt_inv_def sds_shape_def)
qed

lemma fmt_chr_ok:
  assumes "fmt_inv si out" "0 < free (fst si)"
  shows "\<exists>si'. fmt_chr si c = Some si' \<and> fmt_inv si' (out @ [c])"
proof -
  obtain sh i where si: "si = (sh, i)" by (cases si)
  have b: "i = len sh" "length (buf sh) = len sh + free sh + 1" "take i (buf sh) = out"
    "len sh + free sh < 4294967296" "0 < free sh" using assms si by (auto simp: fmt_inv_def sds_shape_def)
  then have "fmt_chr si c = Some (sh\<lparr>buf := (buf sh)[i := c], len := len sh + 1, free := free sh - 1\<rparr>, i + 1)"
    by (simp add: fmt_chr_def si mem_set_def)
  then show ?thesis using b by (auto simp: fmt_inv_def sds_shape_def take_Suc_update)
qed

lemma fmt_put_then:
  assumes "fmt_inv si out" "length out + length t \<le> SDS_LIMIT"
    and "\<And>si2. fmt_inv si2 (out @ t) \<Longrightarrow> \<exists>si'. k si2 = Some si' \<and> fmt_inv si' ((out @ t) @ tx)"
  shows "\<exists>si'. Option.bind (fmt_put g si t) k = Some si' \<and> fmt_inv si' (out @ t @ tx)"
proof -
  obtain si2 where "fmt_put g si t = Some si2" "fmt_inv si2 (out @ t)"
    using fmt_put_ok [OF assms(1,2)] by blast
  then show ?thesis using assms(3) [of si2] by simp
qed

lemma fmt_chr_then:
  assumes "fmt_inv si out" "0 < free (fst si)"
    and "\<And>si2. fmt_inv si2 (out @ [c]) \<Longrightarrow> \<exists>si'. k si2 = Some si' \<and> fmt_inv si' ((out @ [c]) @ tx)"
  shows "\<exists>si'. Option.bind (fmt_chr si c) k = Some si' \<and> fmt_inv si' (out @ c # tx)"
proof -
  obtain si2 where "fmt_chr si c = Some si2" "fmt_inv si2 (out @ [c])"
    using fmt_chr_ok [OF assms(1,2)] by blast
  then show ?thesis using assms(3) [of si2] by simp
qed

lemma fmt_room_1:
  assumes "fmt_inv si out" "length out < SDS_LIMIT"
  shows "fmt_inv (if free (fst si) = 0 then (sdsMakeRoomFor g (fst si) 1, snd si) else si) out
    \<and> 0 < free (fst (if free (fst si) = 0 then (sdsMakeRoomFor g (fst si) 1, snd si) else si))"
  using fmt_room [of "fst si" "snd si" out 1 g] assms by auto

lemma sdscatfmt_loop_ok:
  assumes "fmt_inv si out" "fmt_text fmt args = Some tx" "list_all arg_ok args"
    and "length out + length tx < SDS_LIMIT"
  shows "\<exists>si'. sdscatfmt_loop g fmt args si = Some si' \<and> fmt_inv si' (out @ tx)"
  using assms
proof (induction fmt args arbitrary: si out tx rule: fmt_text.induct)
  case (1 args)
  then show ?case by simp
next
  case (2 c cs args)
  define si1 where "si1 = (if free (fst si) = 0 then (sdsMakeRoomFor g (fst si) 1, snd si) else si)"
  have si1: "fmt_inv si1 out" "0 < free (fst si1)"
    using fmt_room_1 [of si out g] "2.prems" by (auto simp: si1_def)
  note put = fmt_put_then [OF si1(1), where g = g] and chr = fmt_chr_then [OF si1]
  note unf = sdscatfmt_loop.simps si1_def [symmetric] Let_def
  show ?case
  proof (cases "c = CHR ''%''")
    case False
    then obtain tx' where t: "fmt_text cs args = Some tx'" "tx = c # tx'" using "2.prems"(2) by auto
    have "\<exists>si'. Option.bind (fmt_chr si1 c) (sdscatfmt_loop g cs args) = Some si' \<and> fmt_inv si' (out @ c # tx')"
      by (rule chr, rule "2.IH"(6)) (use False t "2.prems"(3,4) in auto)
    then show ?thesis using False t by (simp add: unf)
  next
    case True
    then obtain d ds where cs: "cs = d # ds" using "2.prems"(2) by (cases cs) auto
    note T = True cs "2.prems"(3,4)
    consider (s) "d = CHR ''s''" | (S) "d = CHR ''S''" | (i) "d \<in> {CHR ''i'', CHR ''I''}"
      | (u) "d \<in> {CHR ''u'', CHR ''U''}"
      | (other) "d \<notin> {CHR ''s'', CHR ''S'', CHR ''i'', CHR ''I'', CHR ''u'', CHR ''U''}" by blast
    then show ?thesis
    proof cases
      case s
      then obtain t r tx' where a: "args = FStr t # r" "fmt_text ds r = Some tx'" "tx = take (strlen t) t @ tx'"
        using "2.prems"(2) T(1,2) by (auto split: list.splits fmt_arg.splits)
      have "\<exists>si'. Option.bind (fmt_put g si1 (take (strlen t) t)) (sdscatfmt_loop g ds r) = Some si'
          \<and> fmt_inv si' (out @ take (strlen t) t @ tx')"
        by (rule put, use T a in simp, rule "2.IH"(1)) (use s T a in auto)
      then show ?thesis using s T a by (simp add: unf)
    next
      case S
      then obtain t r tx' where a: "args = FSds t # r" "fmt_text ds r = Some tx'" "tx = sds_str t @ tx'"
        using "2.prems"(2) T(1,2) by (auto split: list.splits fmt_arg.splits)
      have "\<exists>si'. Option.bind (fmt_put g si1 (sds_str t)) (sdscatfmt_loop g ds r) = Some si'
          \<and> fmt_inv si' (out @ sds_str t @ tx')"
        by (rule put, use T a in simp, rule "2.IH"(2)) (use S T a in auto)
      then show ?thesis using S T a by (simp add: unf sds_str_def sdslen_def)
    next
      case i
      then obtain v r tx' where a: "args = FInt v # r" "fmt_text ds r = Some tx'" "tx = show_int v @ tx'"
        using "2.prems"(2) T(1,2) by (auto split: list.splits fmt_arg.splits)
      have "\<exists>si'. Option.bind (fmt_put g si1 (show_int v)) (sdscatfmt_loop g ds r) = Some si'
          \<and> fmt_inv si' (out @ show_int v @ tx')"
        by (rule put, use T a in simp, rule "2.IH"(3)) (use i T a in auto)
      then show ?thesis using i T a sdsll2str_show [of v] by (auto simp: unf)
    next
      case u
      then obtain v r tx' where a: "args = FUInt v # r" "fmt_text ds r = Some tx'" "tx = show_nat v @ tx'"
        using "2.prems"(2) T(1,2) by (auto split: list.splits fmt_arg.splits)
      have "\<exists>si'. Option.bind (fmt_put g si1 (show_nat v)) (sdscatfmt_loop g ds r) = Some si'
          \<and> fmt_inv si' (out @ show_nat v @ tx')"
        by (rule put, use T a in simp, rule "2.IH"(4)) (use u T a in auto)
      then show ?thesis using u T a sdsull2str_show [of v] by (auto simp: unf)
    next
      case other
      then obtain tx' where a: "fmt_text ds args = Some tx'" "tx = d # tx'"
        using "2.prems"(2) T(1,2) by auto
      have "\<exists>si'. Option.bind (fmt_chr si1 d) (sdscatfmt_loop g ds args) = Some si' \<and> fmt_inv si' (out @ d # tx')"
        by (rule chr, rule "2.IH"(5)) (use other T a in auto)
      then show ?thesis using other T a by (simp add: unf)
    qed
  qed
qed

lemma sds_catfmt:
  assumes "sds_ok s" "fmt_text fmt args = Some tx" "list_all arg_ok args"
    and "len s + length tx < SDS_LIMIT"
  shows "\<exists>s'. sdscatfmt g s fmt args = Some s' \<and> sds_ok s' \<and> sds_str s' = sds_str s @ tx"
proof -
  have "fmt_inv (s, sdslen s) (sds_str s)"
    using assms(1) by (simp add: fmt_inv_def sds_ok_shape sdslen_def sds_str_def)
  then obtain sh i where l: "sdscatfmt_loop g fmt args (s, sdslen s) = Some (sh, i)"
    and inv: "fmt_inv (sh, i) (sds_str s @ tx)"
    using sdscatfmt_loop_ok [of "(s, sdslen s)" "sds_str s" fmt args tx g] assms by auto
  then have "sdscatfmt g s fmt args = Some (sh\<lparr>buf := (buf sh)[i := NUL]\<rparr>)"
    by (auto simp: sdscatfmt_def mem_set_def fmt_inv_def sds_shape_def)
  then show ?thesis using inv by (auto simp: fmt_inv_def sds_ok_def sds_shape_def sds_str_def)
qed

subsection \<open>Properties\<close>



text \<open>\<open>sdstrim\<close> removes from both ends exactly the characters of the set and NUL, and
  \<open>sdsrange\<close> keeps the slice with inclusive bounds, negative bounds counted from the end and
  clamped, for every pair of \<open>int\<close> bounds; both keep the header invariant and stay in the buffer.\<close>

theorem sds_trim_range_correct:
  assumes "sds_ok s" "len s \<le> SDS_LIMIT"
    and "- 2147483648 \<le> start" "start < 2147483648" "- 2147483648 \<le> en" "en < 2147483648"
  shows "(\<exists>s'. sdstrim s cset = Some s' \<and> sds_ok s'
        \<and> sds_str s' = trim (\<lambda>c. c \<in> set cset \<or> c = NUL) (sds_str s))
    \<and> (\<exists>s'. sdsrange s start en = Some s' \<and> sds_ok s' \<and> sds_str s' = sub_range start en (sds_str s))"
proof -
  have "in_cset cset = (\<lambda>c. c \<in> set cset \<or> c = NUL)" by (simp add: in_cset_def fun_eq_iff)
  then show ?thesis using sds_trim [OF assms(1), of cset] sds_range [OF assms] by simp
qed

theorem sds_trim_range_correct_witness:
  "(\<exists>s'. sdsrange (sdsnewlen ''Hello World'') 1 (-1) = Some s' \<and> sds_ok s' \<and> sds_str s' = ''ello World'')"
proof -
  have s: "sds_ok (sdsnewlen ''Hello World'')" "sds_str (sdsnewlen ''Hello World'') = ''Hello World''"
    "len (sdsnewlen ''Hello World'') \<le> SDS_LIMIT"
    using sds_newlen [of "''Hello World''"] by (simp_all add: sdsnewlen_def)
  have "sub_range 1 (-1) ''Hello World'' = ''ello World''" by (simp add: sub_range_def Let_def)
  then show ?thesis using sds_trim_range_correct [OF s(1,3), of 1 "-1" "[]"] s(2) by simp
qed

text \<open>The example in the comment of \<open>sdstrim\<close> is not what the code does. Trimming the
  characters \<open>A. :\<close> stops at the first small \<open>a\<close>, so \<open>a.aa.aHelloWorld\<close> remains.\<close>

theorem sdstrim_comment_example:
  "map_option sds_str (sdstrim (sdsnewlen ''AA...AA.a.aa.aHelloWorld     :::'') ''A. :'')
     = Some ''a.aa.aHelloWorld''"
proof -
  let ?s = "sdsnewlen ''AA...AA.a.aa.aHelloWorld     :::''"
  have "sds_ok ?s" "sds_str ?s = ''AA...AA.a.aa.aHelloWorld     :::''"
    using sds_newlen [of "''AA...AA.a.aa.aHelloWorld     :::''"] by simp_all
  then show ?thesis using sds_trim [of ?s "''A. :''"] by (auto simp: trim_def in_cset_def)
qed

text \<open>C36: \<open>sdscmp\<close> is the lexicographic order of the contents by unsigned bytes: it returns 0
  exactly on equal contents, a negative number exactly when the first is smaller, and its sign
  changes when the arguments are exchanged.\<close>

theorem sdscmp_correct:
  assumes "sds_ok s" "sds_ok t" "len s \<le> SDS_LIMIT" "len t \<le> SDS_LIMIT"
  shows "(sdscmp s t = 0 \<longleftrightarrow> sds_str s = sds_str t)
    \<and> (sdscmp s t < 0 \<longleftrightarrow> ord_class.lexordp (sds_str s) (sds_str t))
    \<and> (sdscmp s t > 0 \<longleftrightarrow> ord_class.lexordp (sds_str t) (sds_str s))"
proof -
  have sym: "memcmp b a = - memcmp a b" for a b :: "char list"
    by (induction a b rule: memcmp.induct) auto
  have eq: "sds_str s = sds_str t \<longleftrightarrow> memcmp (sds_str s) (sds_str t) = 0 \<and> len s = len t"
    using memcmp_eq [of "sds_str s" "sds_str t"] assms(1,2) by simp
  show ?thesis
    using sdscmp_content [OF assms] assms(1,2) sym [of "sds_str t" "sds_str s"]
    by (auto simp: memcmp_lexordp eq split: if_splits)
qed

theorem sdscmp_correct_witness:
  "sdscmp (sdsnewlen ''ab'') (sdsnewlen ''abc'') < 0"
proof -
  have s: "sds_ok (sdsnewlen x)" "sds_str (sdsnewlen x) = x" "len (sdsnewlen x) \<le> SDS_LIMIT"
    if "length x \<le> 3" for x
    using sds_newlen [of x] that by (simp_all add: sdsnewlen_def)
  show ?thesis
    using sdscmp_correct [of "sdsnewlen ''ab''" "sdsnewlen ''abc''"] s by simp
qed

text \<open>C35: what \<open>sdscatfmt\<close> appends is the text its format denotes: strings, decimal numbers of both
  signs, verbatim characters, for every format that does not end in a lone percent sign and finds
  its arguments.\<close>

theorem sdscatfmt_correct:
  assumes "sds_ok s" "fmt_text fmt args = Some out" "list_all arg_ok args"
    and "len s + length out < SDS_LIMIT"
  shows "\<exists>s'. sdscatfmt g s fmt args = Some s' \<and> sds_ok s' \<and> sds_str s' = sds_str s @ out"
  using assms by (rule sds_catfmt)

theorem sdscatfmt_correct_witness:
  "\<exists>s'. sdscatfmt (CHR ''?'') sdsempty ''%s=%i%%'' [FStr ''k'', FInt (-7)] = Some s'
     \<and> sds_ok s' \<and> sds_str s' = ''k=-7%''"
proof -
  have "show_int (-7) = ''-7''" by code_simp
  moreover have "take (strlen ''k'') ''k'' = ''k''" by (simp add: strlen_no_NUL)
  ultimately have "fmt_text ''%s=%i%%'' [FStr ''k'', FInt (-7)] = Some ''k=-7%''" by simp
  moreover have "len sdsempty = 0" by (simp add: sdsempty_def sdsnewlen_def)
  ultimately show ?thesis
    using sdscatfmt_correct [of sdsempty "''%s=%i%%''" "[FStr ''k'', FInt (-7)]" "''k=-7%''" "CHR ''?''"]
      sds_empty by (simp add: in_ll_def)
qed

text \<open>C34: quoting and parsing are inverse. The line made of any list of binary strings, each
  appended by \<open>sdscatrepr\<close> and followed by a space, holds no unescaped structure that
  \<open>sdssplitargs\<close> could misread: it parses back to exactly that list.\<close>

theorem sdssplitargs_sdscatrepr:
  assumes "\<forall>p \<in> set ps. sdscatrepr g sdsempty p = Some (q p) \<and> length (quoted p) \<le> SDS_LIMIT"
  shows "sdssplitargs (concat (map (\<lambda>p. sds_str (q p) @ '' '') ps)) = Some ps"
proof -
  have "sds_str (q p) = quoted p" if "p \<in> set ps" for p
    using sds_catrepr [of sdsempty p g] assms that sds_empty length_sds_str [OF sds_empty(1)] by auto
  then have "map (\<lambda>p. sds_str (q p) @ '' '') ps = map (\<lambda>p. quoted p @ '' '') ps" by simp
  then show ?thesis
    using splitargs_all [of ps "[]"] unfolding sdssplitargs_def by (simp only: append_Nil)
qed

theorem sdssplitargs_sdscatrepr_witness:
  "sdssplitargs (concat (map (\<lambda>p. sds_str (the (sdscatrepr NUL sdsempty p)) @ '' '') [''a b'', [NUL, CHR 0x22]]))
     = Some [''a b'', [NUL, CHR 0x22]]"
proof -
  have q: "length (quoted p) \<le> 20" if "p \<in> {''a b'', [NUL, CHR 0x22]}" for p
    using that by (auto simp: quoted_def repr_chunk_def)
  have e: "sdscatrepr NUL sdsempty p = Some (the (sdscatrepr NUL sdsempty p)) \<and> length (quoted p) \<le> SDS_LIMIT"
    if p: "p \<in> {''a b'', [NUL, CHR 0x22]}" for p
  proof -
    have "len sdsempty = 0" using length_sds_str [OF sds_empty(1)] sds_empty(2) by simp
    then have "len sdsempty + length (quoted p) \<le> SDS_LIMIT" using q [OF p] by simp
    then obtain s' where "sdscatrepr NUL sdsempty p = Some s'"
      using sds_catrepr [OF sds_empty(1)] by blast
    then show ?thesis using q [OF p] by simp
  qed
  have "\<forall>p \<in> set [''a b'', [NUL, CHR 0x22]].
      sdscatrepr NUL sdsempty p = Some (the (sdscatrepr NUL sdsempty p)) \<and> length (quoted p) \<le> SDS_LIMIT"
    by (intro ballI e) (simp only: set_simps)
  from sdssplitargs_sdscatrepr [OF this] show ?thesis .
qed

text \<open>Splitting at a separator loses nothing and leaves no separator behind: the tokens,
  with the separator put between them again (as \<open>sdsjoin\<close> does), are the string, and no token contains
  the separator. A string of length 0 gives the empty list of tokens, not NULL as the comment
  of the function says.\<close>

theorem sdssplitlen_correct:
  "(sep = [] \<longrightarrow> sdssplitlen s sep = None)
   \<and> (sep \<noteq> [] \<longrightarrow> sdssplitlen [] sep = Some [])
   \<and> (sep \<noteq> [] \<longrightarrow> s \<noteq> [] \<longrightarrow>
      (\<exists>ts. sdssplitlen s sep = Some ts \<and> concat (join_pieces sep ts) = s
         \<and> (\<forall>t \<in> set ts. \<not> sublist sep t)))"
proof -
  have "\<not> sublist sep t" if "\<forall>i. \<not> occurs_at sep t i" for t
  proof
    assume "sublist sep t"
    then obtain ps ss where "t = ps @ sep @ ss" by (auto simp: sublist_def)
    then have "occurs_at sep t (length ps)" by (simp add: occurs_at_def)
    then show False using that by blast
  qed
  then show ?thesis
    using split_loop_spec [of sep 0 0 s "[]"]
    by (auto simp: sdssplitlen_def Suc_le_eq simp flip: length_greater_0_conv)
qed

theorem sdssplitlen_correct_witness:
  "\<exists>ts. sdssplitlen ''foo_-_bar'' ''_-_'' = Some ts \<and> concat (join_pieces ''_-_'' ts) = ''foo_-_bar''"
  using sdssplitlen_correct [of "''_-_''" "''foo_-_bar''"] by blast

end
