(* ===== verification/Intset.thy ===== *)
theory Intset
  imports Prelude "HOL-Library.Monad_Syntax"
begin

text \<open>
  Model of \<^verbatim>\<open>redis-2.8.19/src/intset.c\<close>, the sorted array of integers behind small sets. The
  array is the byte array of the code: every element occupies \<open>encoding\<close> bytes, little endian,
  two's complement. A read or a write outside the array is \<open>None\<close>; bytes that a reallocation
  adds are \<open>g\<close>.
\<close>

subsection \<open>Little-endian integers\<close>

type_synonym byte = "8 word"

fun le_bytes :: "nat \<Rightarrow> int \<Rightarrow> byte list" where
  "le_bytes 0 v = []"
| "le_bytes (Suc k) v = word_of_int v # le_bytes k (v div 256)"

fun le_uint :: "byte list \<Rightarrow> int" where
  "le_uint [] = 0"
| "le_uint (b # bs) = uint b + 256 * le_uint bs"

definition le_sint :: "byte list \<Rightarrow> int" where
  "le_sint bs = (let u = le_uint bs; m = 256 ^ length bs in if 2 * u < m then u else u - m)"

definition bread :: "byte list \<Rightarrow> nat \<Rightarrow> nat \<Rightarrow> byte list option" where
  "bread b off n = (if off + n \<le> length b then Some (take n (drop off b)) else None)"

definition bwrite :: "byte list \<Rightarrow> nat \<Rightarrow> byte list \<Rightarrow> byte list option" where
  "bwrite b off xs =
     (if off + length xs \<le> length b
      then Some (take off b @ xs @ drop (off + length xs) b) else None)"

subsection \<open>The set\<close>

record intset =
  encoding :: nat
  ilength :: nat
  contents :: "byte list"

definition INTSET_ENC_INT16 :: nat where "INTSET_ENC_INT16 = 2"
definition INTSET_ENC_INT32 :: nat where "INTSET_ENC_INT32 = 4"
definition INTSET_ENC_INT64 :: nat where "INTSET_ENC_INT64 = 8"

definition intsetValueEncoding :: "int \<Rightarrow> nat" where
  "intsetValueEncoding v =
     (if v < -2147483648 \<or> v > 2147483647 then INTSET_ENC_INT64
      else if v < -32768 \<or> v > 32767 then INTSET_ENC_INT32
      else INTSET_ENC_INT16)"

definition intsetGetEncoded :: "intset \<Rightarrow> nat \<Rightarrow> nat \<Rightarrow> int option" where
  "intsetGetEncoded s pos enc =
     (if enc = INTSET_ENC_INT64 then map_option le_sint (bread (contents s) (pos * 8) 8)
      else if enc = INTSET_ENC_INT32 then map_option le_sint (bread (contents s) (pos * 4) 4)
      else map_option le_sint (bread (contents s) (pos * 2) 2))"

definition intsetGetAt :: "intset \<Rightarrow> nat \<Rightarrow> int option" where
  "intsetGetAt s pos = intsetGetEncoded s pos (encoding s)"

definition intsetSet :: "intset \<Rightarrow> nat \<Rightarrow> int \<Rightarrow> intset option" where
  "intsetSet s pos value = map_option (\<lambda>b. s\<lparr>contents := b\<rparr>)
     (if encoding s = INTSET_ENC_INT64 then bwrite (contents s) (pos * 8) (le_bytes 8 value)
      else if encoding s = INTSET_ENC_INT32 then bwrite (contents s) (pos * 4) (le_bytes 4 value)
      else bwrite (contents s) (pos * 2) (le_bytes 2 value))"

definition intsetNew :: intset where
  "intsetNew = \<lparr>encoding = INTSET_ENC_INT16, ilength = 0, contents = []\<rparr>"

definition intsetResize :: "byte \<Rightarrow> intset \<Rightarrow> nat \<Rightarrow> intset" where
  "intsetResize g s n =
     (let size = (n * encoding s) mod 4294967296
      in s\<lparr>contents := take size (contents s) @ replicate (size - length (contents s)) g\<rparr>)"

text \<open>The binary search: \<open>min\<close>, \<open>max\<close>, \<open>mid\<close> and \<open>cur\<close> of the code.\<close>

function search_loop :: "intset \<Rightarrow> int \<Rightarrow> int \<Rightarrow> int \<Rightarrow> int \<Rightarrow> int \<Rightarrow> (int \<times> int \<times> int) option" where
  "search_loop s value mn mx mid cur =
     (if mx \<ge> mn then
        let m = (mn + mx) div 2 in
        (case intsetGetAt s (nat m) of None \<Rightarrow> None
         | Some c \<Rightarrow>
             if value > c then search_loop s value (m + 1) mx m c
             else if value < c then search_loop s value mn (m - 1) m c
             else Some (mn, m, c))
      else Some (mn, mid, cur))"
  by pat_completeness auto
termination
  by (relation "measure (\<lambda>(s, value, mn, mx, mid, cur). nat (mx - mn + 1))") auto

declare search_loop.simps [simp del]

text \<open>Whether the value was found, and its position or its insertion point.\<close>

definition intsetSearch :: "intset \<Rightarrow> int \<Rightarrow> (bool \<times> nat) option" where
  "intsetSearch s value =
     (if ilength s = 0 then Some (False, 0)
      else do {
        last \<leftarrow> intsetGetAt s (ilength s - 1);
        if value > last then Some (False, ilength s)
        else do {
          first \<leftarrow> intsetGetAt s 0;
          if value < first then Some (False, 0)
          else do {
            (mn, mid, cur) \<leftarrow> search_loop s value 0 (int (ilength s) - 1) (-1) (-1);
            if value = cur then Some (True, nat mid) else Some (False, nat mn) } } })"

text \<open>\<open>while (length--)\<close>: the elements are re-encoded from the last to the first.\<close>

fun upgrade_loop :: "nat \<Rightarrow> nat \<Rightarrow> nat \<Rightarrow> intset \<Rightarrow> intset option" where
  "upgrade_loop curenc prepend 0 s = Some s"
| "upgrade_loop curenc prepend (Suc n) s = do {
     v \<leftarrow> intsetGetEncoded s n curenc;
     s' \<leftarrow> intsetSet s (n + prepend) v;
     upgrade_loop curenc prepend n s' }"

definition intsetUpgradeAndAdd :: "byte \<Rightarrow> intset \<Rightarrow> int \<Rightarrow> intset option" where
  "intsetUpgradeAndAdd g s value = do {
     let curenc = encoding s;
     let newenc = intsetValueEncoding value;
     let n = ilength s;
     let prepend = (if value < 0 then 1 else 0);
     let s1 = intsetResize g (s\<lparr>encoding := newenc\<rparr>) (ilength s + 1);
     s2 \<leftarrow> upgrade_loop curenc prepend n s1;
     s3 \<leftarrow> (if prepend = 1 then intsetSet s2 0 value else intsetSet s2 (ilength s2) value);
     Some (s3\<lparr>ilength := ilength s3 + 1\<rparr>) }"

definition intsetMoveTail :: "intset \<Rightarrow> nat \<Rightarrow> nat \<Rightarrow> intset option" where
  "intsetMoveTail s from to = do {
     let k = (if encoding s = INTSET_ENC_INT64 then 8 else if encoding s = INTSET_ENC_INT32 then 4 else 2);
     src \<leftarrow> bread (contents s) (from * k) ((ilength s - from) * k);
     b \<leftarrow> bwrite (contents s) (to * k) src;
     Some (s\<lparr>contents := b\<rparr>) }"

text \<open>The new set and the success flag.\<close>

definition intsetAdd :: "byte \<Rightarrow> intset \<Rightarrow> int \<Rightarrow> (intset \<times> bool) option" where
  "intsetAdd g s value =
     (if intsetValueEncoding value > encoding s
      then map_option (\<lambda>s'. (s', True)) (intsetUpgradeAndAdd g s value)
      else do {
        (found, pos) \<leftarrow> intsetSearch s value;
        if found then Some (s, False)
        else do {
          let s1 = intsetResize g s (ilength s + 1);
          s2 \<leftarrow> (if pos < ilength s then intsetMoveTail s1 pos (pos + 1) else Some s1);
          s3 \<leftarrow> intsetSet s2 pos value;
          Some (s3\<lparr>ilength := ilength s3 + 1\<rparr>, True) } })"

definition intsetRemove :: "byte \<Rightarrow> intset \<Rightarrow> int \<Rightarrow> (intset \<times> bool) option" where
  "intsetRemove g s value =
     (if \<not> intsetValueEncoding value \<le> encoding s then Some (s, False)
      else do {
        (found, pos) \<leftarrow> intsetSearch s value;
        if \<not> found then Some (s, False)
        else do {
          let n = ilength s;
          s1 \<leftarrow> (if pos < n - 1 then intsetMoveTail s (pos + 1) pos else Some s);
          let s2 = intsetResize g s1 (n - 1);
          Some (s2\<lparr>ilength := n - 1\<rparr>, True) } })"

definition intsetFind :: "intset \<Rightarrow> int \<Rightarrow> bool option" where
  "intsetFind s value =
     (if intsetValueEncoding value \<le> encoding s then map_option fst (intsetSearch s value)
      else Some False)"

text \<open>\<open>r\<close> is the value \<open>rand()\<close> returns; the remainder by a length of 0 is undefined.\<close>

definition intsetRandom :: "nat \<Rightarrow> intset \<Rightarrow> int option" where
  "intsetRandom r s = (if ilength s = 0 then None else intsetGetAt s (r mod ilength s))"

text \<open>\<open>Some None\<close>: the position is out of range and the function returns 0.\<close>

definition intsetGet :: "intset \<Rightarrow> nat \<Rightarrow> int option option" where
  "intsetGet s pos = (if pos < ilength s then map_option Some (intsetGetAt s pos) else Some None)"

definition intsetLen :: "intset \<Rightarrow> nat" where
  "intsetLen s = ilength s"

definition intsetBlobLen :: "intset \<Rightarrow> nat" where
  "intsetBlobLen s = 8 + ilength s * encoding s"

end
