(* ===== verification/Set_Interface.thy ===== *)
theory Set_Interface
  imports Prelude "HOL-Library.Monad_Syntax"
begin

text \<open>
  The interface of an implementation of a finite set of values: insertion and removal return
  the changed set and whether they changed it, lookup returns a truth value, and every
  operation may fail (\<open>None\<close>) outside the contract. The loops that commands run over their
  arguments are functions of the operations; their effect is proved once, from the contract.
\<close>

text \<open>The argument loops: the final set and the number of elements added or removed.\<close>

fun apply_all :: "('s \<Rightarrow> 'v \<Rightarrow> ('s \<times> bool) option) \<Rightarrow> 's \<Rightarrow> 'v list \<Rightarrow> ('s \<times> nat) option" where
  "apply_all f s [] = Some (s, 0)"
| "apply_all f s (v # vs) = do {
     (s1, b) \<leftarrow> f s v;
     (s2, n) \<leftarrow> apply_all f s1 vs;
     Some (s2, n + of_bool b) }"

fun filter_found :: "('s \<Rightarrow> 'v \<Rightarrow> bool option) \<Rightarrow> 's \<Rightarrow> 'v list \<Rightarrow> 'v list option" where
  "filter_found f s [] = Some []"
| "filter_found f s (v # vs) = do {
     b \<leftarrow> f s v;
     ws \<leftarrow> filter_found f s vs;
     Some (if b then v # ws else ws) }"

locale finite_set_impl =
  fixes R :: "'s \<Rightarrow> 'v set \<Rightarrow> bool"
    and add :: "'s \<Rightarrow> 'v \<Rightarrow> ('s \<times> bool) option"
    and remove :: "'s \<Rightarrow> 'v \<Rightarrow> ('s \<times> bool) option"
    and find :: "'s \<Rightarrow> 'v \<Rightarrow> bool option"
    and ok :: "'v \<Rightarrow> bool"
    and limit :: nat
  assumes R_finite: "R s A \<Longrightarrow> finite A"
    and R_add: "R s A \<Longrightarrow> ok v \<Longrightarrow> card A < limit \<Longrightarrow> \<exists>s'. add s v = Some (s', v \<notin> A) \<and> R s' (insert v A)"
    and R_remove: "R s A \<Longrightarrow> ok v \<Longrightarrow> card A < limit \<Longrightarrow> \<exists>s'. remove s v = Some (s', v \<in> A) \<and> R s' (A - {v})"
    and R_find: "R s A \<Longrightarrow> ok v \<Longrightarrow> find s v = Some (v \<in> A)"
begin

lemma add_all:
  assumes "R s A" "\<forall>v \<in> set vs. ok v" "card A + length vs \<le> limit"
  shows "\<exists>s'. apply_all add s vs = Some (s', card (set vs - A)) \<and> R s' (A \<union> set vs)"
  using assms
proof (induction vs arbitrary: s A)
  case (Cons v vs)
  note fin = R_finite [OF Cons.prems(1)]
  obtain s1 where s1: "add s v = Some (s1, v \<notin> A)" "R s1 (insert v A)"
    using R_add [OF Cons.prems(1), of v] Cons.prems by auto
  have "card (insert v A) + length vs \<le> limit"
    using Cons.prems(3) fin by (simp add: card_insert_if)
  moreover have "\<forall>v \<in> set vs. ok v" using Cons.prems(2) by simp
  ultimately obtain s2 where s2: "apply_all add s1 vs = Some (s2, card (set vs - insert v A))"
    "R s2 (insert v A \<union> set vs)"
    using Cons.IH [OF s1(2)] by blast
  have "card (set (v # vs) - A) = card (set vs - insert v A) + of_bool (v \<notin> A)"
  proof (cases "v \<in> A")
    case True
    then have "set (v # vs) - A = set vs - insert v A" by auto
    with True show ?thesis by (simp only: of_bool_eq not_True_eq_False add_0_right)
  next
    case False
    then have e: "set (v # vs) - A = insert v (set vs - insert v A)" by auto
    show ?thesis unfolding e using False by (subst card_insert_disjoint) auto
  qed
  then show ?case using s1 s2 by simp
qed simp

lemma remove_all:
  assumes "R s A" "\<forall>v \<in> set vs. ok v" "card A < limit"
  shows "\<exists>s'. apply_all remove s vs = Some (s', card (set vs \<inter> A)) \<and> R s' (A - set vs)"
  using assms
proof (induction vs arbitrary: s A)
  case (Cons v vs)
  note fin = R_finite [OF Cons.prems(1)]
  obtain s1 where s1: "remove s v = Some (s1, v \<in> A)" "R s1 (A - {v})"
    using R_remove [OF Cons.prems(1), of v] Cons.prems by auto
  have "card (A - {v}) < limit"
    using card_Diff1_le [of A v] Cons.prems(3) by linarith
  moreover have "\<forall>v \<in> set vs. ok v" using Cons.prems(2) by simp
  ultimately obtain s2 where s2: "apply_all remove s1 vs = Some (s2, card (set vs \<inter> (A - {v})))"
    "R s2 (A - {v} - set vs)"
    using Cons.IH [OF s1(2)] by blast
  have "card (set (v # vs) \<inter> A) = card (set vs \<inter> (A - {v})) + of_bool (v \<in> A)"
  proof (cases "v \<in> A")
    case True
    then have e: "set (v # vs) \<inter> A = insert v (set vs \<inter> (A - {v}))" by auto
    show ?thesis unfolding e using True by (subst card_insert_disjoint) auto
  next
    case False
    then have e: "set (v # vs) \<inter> A = set vs \<inter> (A - {v})" by auto
    show ?thesis unfolding e using False by simp
  qed
  moreover have "A - {v} - set vs = A - set (v # vs)" by auto
  ultimately show ?case using s1 s2 by simp
qed simp

lemma find_all:
  "R s A \<Longrightarrow> \<forall>v \<in> set vs. ok v \<Longrightarrow> filter_found find s vs = Some (filter (\<lambda>v. v \<in> A) vs)"
  by (induction vs) (auto simp: R_find)

end

end
