(* ===== verification/Intset_Correct.thy ===== *)
theory Intset_Correct
  imports Intset Set_Interface
begin

text \<open>
  Correctness of \<^theory_text>\<open>Intset\<close>. An intset represents a strictly ascending list of integers:
  its bytes are the concatenation of the encodings of the elements. Every operation reads and
  writes inside the array and acts on that list as the mathematical set operation does.
\<close>

subsection \<open>Encodings\<close>

definition enc_fits :: "nat \<Rightarrow> int \<Rightarrow> bool" where
  "enc_fits k v \<longleftrightarrow> - (256 ^ k) \<le> 2 * v \<and> 2 * v < 256 ^ k"

lemma length_le_bytes [simp]: "length (le_bytes k v) = k"
  by (induction k arbitrary: v) auto

lemma le_uint_le_bytes: "le_uint (le_bytes k v) = v mod 256 ^ k"
proof (induction k arbitrary: v)
  case (Suc k)
  have "v mod (256 * 256 ^ k) = 256 * (v div 256 mod 256 ^ k) + v mod 256"
    by (rule zmod_zmult2_eq) simp
  then show ?case by (simp add: Suc uint_word_of_int)
qed simp

lemma le_sint_le_bytes: "enc_fits k v \<Longrightarrow> le_sint (le_bytes k v) = v"
proof (cases "0 \<le> v")
  case True
  assume "enc_fits k v"
  with True have "v mod 256 ^ k = v" by (simp add: enc_fits_def)
  with \<open>enc_fits k v\<close> show ?thesis by (simp add: le_sint_def le_uint_le_bytes enc_fits_def Let_def)
next
  case False
  assume f: "enc_fits k v"
  then have "(v + 256 ^ k) mod 256 ^ k = v + 256 ^ k"
    using False by (intro mod_pos_pos_trivial) (simp_all add: enc_fits_def)
  then have "v mod 256 ^ k = v + 256 ^ k" by (simp only: mod_add_self2)
  with f show ?thesis using False by (simp add: le_sint_def le_uint_le_bytes enc_fits_def Let_def)
qed

lemma le_bytes_le_uint: "le_bytes (length bs) (le_uint bs) = bs"
proof (induction bs)
  case (Cons b bs)
  have "(uint b + 256 * le_uint bs) div 256 = le_uint bs"
    using uint_lt2p [of b] by simp
  moreover have "(word_of_int (uint b + 256 * le_uint bs) :: byte) = b"
  proof -
    have "(256 :: byte) = 0" by simp
    then have "(word_of_int (256 * le_uint bs) :: byte) = 0"
      by (simp only: of_int_mult of_int_numeral mult_zero_left)
    then show ?thesis by (simp only: of_int_add) simp
  qed
  ultimately show ?case using Cons by simp
qed simp

lemma valueEncoding_cases:
  "intsetValueEncoding v = (if enc_fits 2 v then 2 else if enc_fits 4 v then 4 else 8)"
  by (auto simp: intsetValueEncoding_def INTSET_ENC_INT16_def INTSET_ENC_INT32_def
      INTSET_ENC_INT64_def enc_fits_def)

lemma enc_fits_mono: "enc_fits k v \<Longrightarrow> k \<le> l \<Longrightarrow> enc_fits l v"
proof -
  assume f: "enc_fits k v" "k \<le> l"
  then have "(256::int) ^ k \<le> 256 ^ l" by (intro power_increasing) simp_all
  then show ?thesis using f(1) unfolding enc_fits_def by linarith
qed

lemma in_ll_fits: "in_ll v \<longleftrightarrow> enc_fits 8 v"
  by (auto simp: in_ll_def enc_fits_def)

lemma valueEncoding_fits:
  assumes "in_ll v" "k \<in> {2, 4, 8}"
  shows "intsetValueEncoding v \<le> k \<longleftrightarrow> enc_fits k v"
  using assms enc_fits_mono [of 2 v] enc_fits_mono [of 4 v 8]
  by (auto simp: valueEncoding_cases in_ll_fits)

subsection \<open>Arrays of encoded elements\<close>

abbreviation chunks :: "nat \<Rightarrow> int list \<Rightarrow> byte list" where
  "chunks k xs \<equiv> concat (map (le_bytes k) xs)"

lemma length_chunks [simp]: "length (chunks k xs) = length xs * k"
  by (induction xs) auto

lemma drop_chunks: "drop (i * k) (chunks k xs) = chunks k (drop i xs)"
proof (induction xs arbitrary: i)
  case (Cons x xs)
  then show ?case by (cases i) simp_all
qed simp

lemma take_chunks: "take (i * k) (chunks k xs) = chunks k (take i xs)"
proof (induction xs arbitrary: i)
  case (Cons x xs)
  then show ?case by (cases i) simp_all
qed simp

lemma bread_chunks:
  "i + m \<le> length xs \<Longrightarrow> bread (chunks k xs) (i * k) (m * k) = Some (chunks k (take m (drop i xs)))"
  using mult_le_mono1 [of "i + m" "length xs" k]
  by (simp add: bread_def drop_chunks take_chunks add_mult_distrib)

lemma bwrite_chunks:
  "i + length ys \<le> length xs
   \<Longrightarrow> bwrite (chunks k xs) (i * k) (chunks k ys) = Some (chunks k (take i xs @ ys @ drop (i + length ys) xs))"
  using mult_le_mono1 [of "i + length ys" "length xs" k] drop_chunks [of "i + length ys" k xs]
  by (simp add: bwrite_def take_chunks add_mult_distrib)

lemma bread_chunk: "i < length xs \<Longrightarrow> bread (chunks k xs) (i * k) k = Some (le_bytes k (xs ! i))"
  using bread_chunks [of i 1 xs k] by (simp add: take_Suc_conv_app_nth hd_drop_conv_nth take_Suc)

lemma bwrite_chunk: "i < length xs \<Longrightarrow> bwrite (chunks k xs) (i * k) (le_bytes k v) = Some (chunks k (xs[i := v]))"
  using bwrite_chunks [of i "[v]" xs k] by (simp add: upd_conv_take_nth_drop)

definition is_enc :: "nat \<Rightarrow> bool" where
  "is_enc k \<longleftrightarrow> k = 2 \<or> k = 4 \<or> k = 8"

lemma getEncoded_enc: "is_enc k \<Longrightarrow> intsetGetEncoded s i k = map_option le_sint (bread (contents s) (i * k) k)"
  by (auto simp: is_enc_def intsetGetEncoded_def INTSET_ENC_INT32_def INTSET_ENC_INT64_def)

lemma intsetSet_enc: "is_enc (encoding s)
    \<Longrightarrow> intsetSet s i v = map_option (\<lambda>b. s\<lparr>contents := b\<rparr>) (bwrite (contents s) (i * encoding s) (le_bytes (encoding s) v))"
  by (auto simp: is_enc_def intsetSet_def INTSET_ENC_INT32_def INTSET_ENC_INT64_def)

lemma moveTail_enc: "is_enc (encoding s) \<Longrightarrow> intsetMoveTail s from to =
    Option.bind (bread (contents s) (from * encoding s) ((ilength s - from) * encoding s))
      (\<lambda>src. map_option (\<lambda>b. s\<lparr>contents := b\<rparr>) (bwrite (contents s) (to * encoding s) src))"
  by (auto simp: is_enc_def intsetMoveTail_def INTSET_ENC_INT32_def INTSET_ENC_INT64_def
      map_conv_bind_option comp_def)

lemma intsetSet_chunks:
  "is_enc (encoding s) \<Longrightarrow> contents s = chunks (encoding s) xs \<Longrightarrow> i < length xs
   \<Longrightarrow> intsetSet s i v = Some (s\<lparr>contents := chunks (encoding s) (xs[i := v])\<rparr>)"
  by (simp add: intsetSet_enc bwrite_chunk)

text \<open>Growing by one element leaves one element of unknown value at the end.\<close>

lemma resize_grow:
  assumes "is_enc (encoding s)" "contents s = chunks (encoding s) xs" "length xs < 268435456"
  shows "\<exists>j. intsetResize g s (length xs + 1) = s\<lparr>contents := chunks (encoding s) (xs @ [j])\<rparr>"
proof -
  let ?k = "encoding s"
  have "(length xs + 1) * ?k \<le> 268435456 * 8"
    using assms(1,3) by (intro mult_le_mono) (auto simp: is_enc_def)
  then have sz: "((length xs + 1) * ?k) mod 4294967296 = (length xs + 1) * ?k" by simp
  have "le_bytes ?k (le_uint (replicate ?k g)) = replicate ?k g"
    using le_bytes_le_uint [of "replicate ?k g"] by simp
  then have "intsetResize g s (length xs + 1) = s\<lparr>contents := chunks ?k (xs @ [le_uint (replicate ?k g)])\<rparr>"
    using sz assms(2) by (simp add: intsetResize_def Let_def)
  then show ?thesis by blast
qed

lemma resize_shrink:
  assumes "is_enc (encoding s)" "contents s = chunks (encoding s) xs" "n \<le> length xs" "length xs < 268435456"
  shows "intsetResize g s n = s\<lparr>contents := chunks (encoding s) (take n xs)\<rparr>"
proof -
  have "n * encoding s \<le> 268435456 * 8"
    using assms(1,3,4) by (intro mult_le_mono) (auto simp: is_enc_def)
  then have "(n * encoding s) mod 4294967296 = n * encoding s" by simp
  moreover have "n * encoding s \<le> length xs * encoding s" using assms(3) by simp
  ultimately show ?thesis using assms(2) by (simp add: intsetResize_def take_chunks Let_def)
qed

subsection \<open>The representation\<close>

definition intset_repr :: "intset \<Rightarrow> int list \<Rightarrow> bool" where
  "intset_repr s xs \<longleftrightarrow> is_enc (encoding s) \<and> ilength s = length xs
     \<and> contents s = chunks (encoding s) xs
     \<and> (\<forall>x \<in> set xs. enc_fits (encoding s) x) \<and> sorted_wrt (<) xs"

lemma repr_get: "intset_repr s xs \<Longrightarrow> i < length xs \<Longrightarrow> intsetGetAt s i = Some (xs ! i)"
  by (auto simp: intset_repr_def intsetGetAt_def getEncoded_enc bread_chunk le_sint_le_bytes)

lemma repr_new: "intset_repr intsetNew []"
  by (simp add: intset_repr_def intsetNew_def is_enc_def INTSET_ENC_INT16_def)

lemma sorted_nth_less: "sorted_wrt (<) (xs :: int list) \<Longrightarrow> i < j \<Longrightarrow> j < length xs \<Longrightarrow> xs ! i < xs ! j"
  by (rule sorted_wrt_nth_less)

subsection \<open>Search\<close>

definition search_ok :: "int list \<Rightarrow> int \<Rightarrow> bool \<times> nat \<Rightarrow> bool" where
  "search_ok xs v r \<longleftrightarrow>
     (if fst r then snd r < length xs \<and> xs ! snd r = v
      else v \<notin> set xs \<and> snd r \<le> length xs \<and> (\<forall>x \<in> set (take (snd r) xs). x < v)
        \<and> (\<forall>x \<in> set (drop (snd r) xs). v < x))"

lemma search_loop_ok:
  assumes "intset_repr s xs" "0 \<le> mn" "mx < int (length xs)" "mn \<le> mx + 1" "mn \<le> mx \<or> cur \<noteq> v"
    and "\<forall>j < nat mn. xs ! j < v" "\<forall>j < length xs. mx < int j \<longrightarrow> v < xs ! j"
  shows "\<exists>mn' m' cur'. search_loop s v mn mx mid cur = Some (mn', m', cur')
    \<and> search_ok xs v (if v = cur' then (True, nat m') else (False, nat mn'))"
  using assms
proof (induction s v mn mx mid cur rule: search_loop.induct)
  case (1 s v mn mx mid cur)
  have srt: "sorted_wrt (<) xs" using "1.prems"(1) by (simp add: intset_repr_def)
  show ?case
  proof (cases "mx \<ge> mn")
    case False
    then have mx: "mx + 1 = mn" using "1.prems"(4) by simp
    have lo: "x < v" if "x \<in> set (take (nat mn) xs)" for x
      using that "1.prems"(6) by (auto simp: in_set_conv_nth)
    have hi: "v < x" if "x \<in> set (drop (nat mn) xs)" for x
      using that "1.prems"(2,7) mx by (auto simp: in_set_conv_nth)
    have "v \<notin> set xs" using lo hi
      by (metis append_take_drop_id Un_iff less_irrefl set_append)
    then show ?thesis using False "1.prems"(2,3,5) mx lo hi
      by (simp add: search_loop.simps [of s v mn] search_ok_def)
  next
    case True
    define m where "m = (mn + mx) div 2"
    have m: "mn \<le> m" "m \<le> mx" "0 \<le> m" "m < int (length xs)"
      using True "1.prems"(2,3) by (auto simp: m_def)
    have get: "intsetGetAt s (nat m) = Some (xs ! nat m)"
      using repr_get [OF "1.prems"(1)] m by (simp add: nat_less_iff)
    note unf = search_loop.simps [of s v mn mx mid cur] m_def [symmetric] Let_def
    consider "v > xs ! nat m" | "v < xs ! nat m" | "v = xs ! nat m" by linarith
    then show ?thesis
    proof cases
      case 1
      have "xs ! j < v" if "j < nat (m + 1)" for j
      proof (cases "j = nat m")
        case False
        then have "xs ! j < xs ! nat m" using that m by (intro sorted_nth_less [OF srt]) auto
        then show ?thesis using 1 by simp
      qed (use 1 in simp)
      then show ?thesis
        using "1.IH"(1) [OF True m_def get 1 "1.prems"(1)] True get 1 m "1.prems" by (simp add: unf)
    next
      case 2
      then have nc: "\<not> v > xs ! nat m" and ne: "xs ! nat m \<noteq> v" by simp_all
      have "v < xs ! j" if "j < length xs" "m - 1 < int j" for j
      proof (cases "j = nat m")
        case False
        then have "xs ! nat m < xs ! j" using that m by (intro sorted_nth_less [OF srt]) auto
        then show ?thesis using 2 by simp
      qed (use 2 in simp)
      moreover have "search_loop s v mn mx mid cur = search_loop s v mn (m - 1) m (xs ! nat m)"
        using True get nc 2 by (simp add: unf)
      ultimately show ?thesis
        using "1.IH"(2) [OF True m_def get nc 2 "1.prems"(1)] ne m "1.prems" by simp
    next
      case 3
      have "search_loop s v mn mx mid cur = Some (mn, m, xs ! nat m)"
        unfolding unf using True get 3 by simp
      then show ?thesis using 3 m by (simp add: search_ok_def nat_less_iff)
    qed
  qed
qed

lemma intsetSearch_ok:
  assumes "intset_repr s xs"
  shows "\<exists>r. intsetSearch s v = Some r \<and> search_ok xs v r"
proof (cases "xs = []")
  case True
  then show ?thesis using assms by (simp add: intsetSearch_def search_ok_def intset_repr_def)
next
  case False
  have len: "ilength s = length xs" "sorted_wrt (<) xs" using assms by (simp_all add: intset_repr_def)
  have l: "intsetGetAt s (ilength s - 1) = Some (last xs)"
    using repr_get [OF assms, of "length xs - 1"] False len by (simp add: last_conv_nth)
  have f: "intsetGetAt s 0 = Some (hd xs)"
    using repr_get [OF assms, of 0] False by (simp add: hd_conv_nth)
  have le: "x \<le> last xs \<and> hd xs \<le> x" if x: "x \<in> set xs" for x
  proof -
    obtain i where i: "i < length xs" "x = xs ! i" using x by (auto simp: in_set_conv_nth)
    have "sorted xs" using len(2) by (simp add: strict_sorted_iff)
    then have "xs ! 0 \<le> xs ! i" "xs ! i \<le> xs ! (length xs - 1)"
      using i(1) by (simp_all add: sorted_nth_mono)
    then show ?thesis using i False by (simp add: last_conv_nth hd_conv_nth)
  qed
  consider "v > last xs" | "v \<le> last xs" "v < hd xs" | "v \<le> last xs" "hd xs \<le> v" by linarith
  then show ?thesis
  proof cases
    case 1
    then have "x < v" if "x \<in> set xs" for x using le [OF that] by simp
    then show ?thesis using 1 l len False by (auto simp: intsetSearch_def search_ok_def)
  next
    case 2
    then have "v < x" if "x \<in> set xs" for x using le [OF that] by simp
    then show ?thesis using 2 l f len False by (auto simp: intsetSearch_def search_ok_def)
  next
    case 3
    obtain mn' m' cur' where r: "search_loop s v 0 (int (length xs) - 1) (-1) (-1) = Some (mn', m', cur')"
      "search_ok xs v (if v = cur' then (True, nat m') else (False, nat mn'))"
      using search_loop_ok [OF assms, of 0 "int (length xs) - 1" "-1" v "-1"] False by (auto simp: Suc_le_eq)
    have "intsetSearch s v = Some (if v = cur' then (True, nat m') else (False, nat mn'))"
      using 3 l f len False r(1) by (simp add: intsetSearch_def)
    then show ?thesis using r(2) by blast
  qed
qed

subsection \<open>Insertion and removal\<close>

lemma le_bytes_junk: "length bs = k \<Longrightarrow> bs = chunks k [le_uint bs]"
  using le_bytes_le_uint [of bs] by simp

lemma upgrade_loop_ok:
  assumes "is_enc k" "is_enc (encoding s)" "k \<le> encoding s" "\<forall>x \<in> set xs. enc_fits k x"
    and "n \<le> length xs" "length (contents s) = (length xs + 1) * encoding s" "p \<le> 1"
    and "take (n * k) (contents s) = chunks k (take n xs)"
    and "drop ((n + p) * encoding s) (contents s) = chunks (encoding s) (drop n xs) @ ts"
  shows "\<exists>b. upgrade_loop k p n s = Some (s\<lparr>contents := b\<rparr>) \<and> length b = (length xs + 1) * encoding s
    \<and> drop (p * encoding s) b = chunks (encoding s) xs @ ts"
  using assms(2-9)
proof (induction n arbitrary: s)
  case 0
  then show ?case by (intro exI [of _ "contents s"]) simp
next
  case (Suc n)
  let ?c = "contents s" and ?e = "encoding s"
  have n: "n < length xs" using Suc.prems(4) by simp
  have "Suc n * k \<le> (length xs + 1) * ?e" using n Suc.prems(2) by (intro mult_le_mono) auto
  then have in1: "n * k + k \<le> length ?c" using Suc.prems(5) by simp
  have "take k (drop (n * k) ?c) = drop (n * k) (take (Suc n * k) ?c)"
    by (simp add: drop_take)
  also have "\<dots> = le_bytes k (xs ! n)"
    using n by (simp add: Suc.prems(7) [simplified] drop_chunks take_Suc_conv_app_nth)
  finally have rd: "intsetGetEncoded s n k = Some (xs ! n)"
    using in1 assms(1) Suc.prems(3) n by (simp add: getEncoded_enc bread_def le_sint_le_bytes)
  define b where "b = take ((n + p) * ?e) ?c @ le_bytes ?e (xs ! n) @ drop ((n + p) * ?e + ?e) ?c"
  have "(n + p + 1) * ?e \<le> (length xs + 1) * ?e" using n Suc.prems(6) by (intro mult_le_mono) auto
  then have in2: "(n + p) * ?e + ?e \<le> length ?c" using Suc.prems(5) by simp
  then have wr: "intsetSet s (n + p) (xs ! n) = Some (s\<lparr>contents := b\<rparr>)"
    using Suc.prems(1) by (simp add: intsetSet_enc bwrite_def b_def)
  have le: "n * k \<le> (n + p) * ?e" using Suc.prems(2) by (intro mult_le_mono) auto
  have len: "length (take ((n + p) * ?e) ?c) = (n + p) * ?e" using in2 by simp
  have lb: "length b = (length xs + 1) * ?e" using in2 Suc.prems(5) by (simp add: b_def)
  have "take (n * k) b = take (n * k) (take (Suc n * k) ?c)"
    using le len by (simp add: b_def min_def)
  then have tk: "take (n * k) b = chunks k (take n xs)"
    using n by (simp add: Suc.prems(7) [simplified] take_chunks min_def)
  have "drop ((n + p) * ?e) b = le_bytes ?e (xs ! n) @ drop ((Suc n + p) * ?e) ?c"
    using len by (simp add: b_def add_ac)
  also have "\<dots> = chunks ?e (drop n xs) @ ts"
    unfolding Suc.prems(8) using n by (simp add: Cons_nth_drop_Suc [symmetric])
  finally have dp: "drop ((n + p) * ?e) b = chunks ?e (drop n xs) @ ts" .
  from Suc.IH [of "s\<lparr>contents := b\<rparr>"] Suc.prems(1-3,6) n lb tk dp rd wr
  show ?case by simp
qed

lemma upgrade_add:
  assumes r: "intset_repr s xs" and v: "in_ll v" "encoding s < intsetValueEncoding v"
    and len: "length xs < 268435456"
  shows "\<exists>s'. intsetUpgradeAndAdd g s v = Some s' \<and> intset_repr s' (if v < 0 then v # xs else xs @ [v])"
proof -
  define k e where "k = encoding s" and "e = intsetValueEncoding v"
  define p :: nat where "p = (if v < 0 then 1 else 0)"
  have en: "is_enc k" "is_enc e" "k < e" "enc_fits e v" "\<not> enc_fits k v"
    using r v valueEncoding_fits [of v k] valueEncoding_fits [of v e]
    by (auto simp: k_def e_def intset_repr_def is_enc_def valueEncoding_cases in_ll_fits)
  have fits: "\<forall>x \<in> set xs. enc_fits k x" and c: "contents s = chunks k xs" and l: "ilength s = length xs"
    and srt: "sorted_wrt (<) xs" using r by (auto simp: k_def intset_repr_def)
  have "(length xs + 1) * e \<le> 268435456 * 8"
    using en(2) len by (intro mult_le_mono) (auto simp: is_enc_def)
  then have sz: "((length xs + 1) * e) mod 4294967296 = (length xs + 1) * e" by simp
  define s1 where "s1 = intsetResize g (s\<lparr>encoding := e\<rparr>) (length xs + 1)"
  have lek: "length xs * k \<le> (length xs + 1) * e" using en(3) by (intro mult_le_mono) auto
  have s1: "encoding s1 = e" "ilength s1 = length xs" "length (contents s1) = (length xs + 1) * e"
    "take (length xs * k) (contents s1) = chunks k xs"
    using sz lek l c by (auto simp: s1_def intsetResize_def Let_def)
  define ts where "ts = drop ((length xs + p) * e) (contents s1)"
  have ltl: "length ts = (1 - p) * e" using s1(3) by (simp add: ts_def p_def)
  have p1: "p \<le> 1" by (simp add: p_def)
  obtain b where b: "upgrade_loop k p (length xs) s1 = Some (s1\<lparr>contents := b\<rparr>)"
    "length b = (length xs + 1) * e" "drop (p * e) b = chunks e xs @ ts"
    using upgrade_loop_ok [of k s1 xs "length xs" p ts] p1 en fits s1 by (auto simp: ts_def)
  have unf: "intsetUpgradeAndAdd g s v = Option.bind
      (if p = 1 then intsetSet (s1\<lparr>contents := b\<rparr>) 0 v else intsetSet (s1\<lparr>contents := b\<rparr>) (length xs) v)
      (\<lambda>s3. Some (s3\<lparr>ilength := ilength s3 + 1\<rparr>))"
    using b(1) s1(2) l by (simp add: intsetUpgradeAndAdd_def Let_def k_def e_def p_def s1_def)
  show ?thesis
  proof (cases "v < 0")
    case True
    have "\<forall>x \<in> set xs. v < x" using fits en(5) True by (auto simp: enc_fits_def)
    moreover have "intsetSet (s1\<lparr>contents := b\<rparr>) 0 v = Some (s1\<lparr>contents := chunks e (v # xs)\<rparr>)"
      using True en(2) s1(1) b ltl by (simp add: intsetSet_enc bwrite_def p_def)
    ultimately show ?thesis using True unf en srt fits s1 enc_fits_mono [of k _ e]
      by (auto simp: p_def intset_repr_def)
  next
    case False
    have "\<forall>x \<in> set xs. x < v" using fits en(5) False by (auto simp: enc_fits_def)
    moreover have "b = chunks e (xs @ [le_uint ts])"
      using b(3) False ltl le_bytes_junk [of ts e] by (simp add: p_def)
    then have "intsetSet (s1\<lparr>contents := b\<rparr>) (length xs) v = Some (s1\<lparr>contents := chunks e (xs @ [v])\<rparr>)"
      using en(2) s1(1) intsetSet_chunks [of "s1\<lparr>contents := b\<rparr>" "xs @ [le_uint ts]" "length xs" v] by simp
    ultimately show ?thesis using False unf en srt fits s1 enc_fits_mono [of k _ e]
      by (auto simp: p_def intset_repr_def sorted_wrt_append)
  qed
qed

lemma sorted_insert_at:
  assumes "sorted_wrt (<) (xs :: int list)" "\<forall>x \<in> set (take i xs). x < v" "\<forall>x \<in> set (drop i xs). v < x"
  shows "sorted_wrt (<) (take i xs @ v # drop i xs)"
proof -
  have "sorted_wrt (<) (take i xs @ drop i xs)" using assms(1) by simp
  then show ?thesis using assms(2,3) unfolding sorted_wrt_append by auto
qed

lemma repr_unique: "intset_repr s xs \<Longrightarrow> set xs = A \<Longrightarrow> intset_repr s (sorted_list_of_set A)"
  using sorted_list_of_set.idem_if_sorted_distinct [of xs]
  by (auto simp: intset_repr_def strict_sorted_iff)

lemma add_no_upgrade:
  assumes r: "intset_repr s xs" and v: "enc_fits (encoding s) v" "v \<notin> set xs" and len: "length xs < 268435456"
    and pos: "search_ok xs v (False, pos)"
  shows "\<exists>s'. (do { s2 \<leftarrow> (if pos < ilength s then intsetMoveTail (intsetResize g s (ilength s + 1)) pos (pos + 1)
                           else Some (intsetResize g s (ilength s + 1)));
                   s3 \<leftarrow> intsetSet s2 pos v;
                   Some (s3\<lparr>ilength := ilength s3 + 1\<rparr>, True) }) = Some (s', True)
    \<and> intset_repr s' (take pos xs @ v # drop pos xs)"
proof -
  let ?k = "encoding s"
  have e: "is_enc ?k" and l: "ilength s = length xs" and c: "contents s = chunks ?k xs"
    using r by (simp_all add: intset_repr_def)
  obtain j where j: "intsetResize g s (length xs + 1) = s\<lparr>contents := chunks ?k (xs @ [j])\<rparr>"
    using resize_grow [OF e c len] by blast
  define s1 where "s1 = s\<lparr>contents := chunks ?k (xs @ [j])\<rparr>"
  have p: "pos \<le> length xs" "\<forall>x \<in> set (take pos xs). x < v" "\<forall>x \<in> set (drop pos xs). v < x"
    using pos by (simp_all add: search_ok_def)
  have fin: "intset_repr (s\<lparr>contents := chunks ?k (take pos xs @ v # drop pos xs), ilength := Suc (length xs)\<rparr>)
      (take pos xs @ v # drop pos xs)"
    using r v p sorted_insert_at [of xs pos v]
    by (auto simp: intset_repr_def dest: in_set_takeD in_set_dropD)
  show ?thesis
  proof (cases "pos < length xs")
    case True
    have rd: "bread (chunks ?k (xs @ [j])) (pos * ?k) ((length xs - pos) * ?k) = Some (chunks ?k (drop pos xs))"
      using bread_chunks [of pos "length xs - pos" "xs @ [j]" ?k] p(1) by simp
    have wr: "bwrite (chunks ?k (xs @ [j])) ((pos + 1) * ?k) (chunks ?k (drop pos xs))
        = Some (chunks ?k (take (pos + 1) xs @ drop pos xs))"
      using bwrite_chunks [of "pos + 1" "drop pos xs" "xs @ [j]" ?k] True by simp
    have "intsetMoveTail s1 pos (pos + 1) = Some (s\<lparr>contents := chunks ?k (take (pos + 1) xs @ drop pos xs)\<rparr>)"
      using moveTail_enc [of s1 pos "pos + 1"] e l rd wr by (simp add: s1_def)
    moreover have "intsetSet (s\<lparr>contents := chunks ?k (take (pos + 1) xs @ drop pos xs)\<rparr>) pos v
        = Some (s\<lparr>contents := chunks ?k ((take (pos + 1) xs @ drop pos xs)[pos := v])\<rparr>)"
      using True e by (subst intsetSet_chunks [where xs = "take (pos + 1) xs @ drop pos xs"]) auto
    moreover have "(take (pos + 1) xs @ drop pos xs)[pos := v] = take pos xs @ v # drop pos xs"
      using True by (simp add: list_update_append upd_conv_take_nth_drop min_def)
    ultimately show ?thesis using True fin l j by (simp add: s1_def)
  next
    case False
    then have "pos = length xs" using p(1) by simp
    moreover have "intsetSet s1 (length xs) v = Some (s\<lparr>contents := chunks ?k (xs @ [v])\<rparr>)"
      using e intsetSet_chunks [of s1 "xs @ [j]" "length xs" v] by (simp add: s1_def)
    ultimately show ?thesis using fin l j by (simp add: s1_def)
  qed
qed

lemma remove_found:
  assumes r: "intset_repr s xs" and len: "length xs < 268435456" and pos: "pos < length xs"
  shows "\<exists>s'. (do { s1 \<leftarrow> (if pos < ilength s - 1 then intsetMoveTail s (pos + 1) pos else Some s);
                   let s2 = intsetResize g s1 (ilength s - 1);
                   Some (s2\<lparr>ilength := ilength s - 1\<rparr>, True) }) = Some (s', True)
    \<and> intset_repr s' (take pos xs @ drop (Suc pos) xs)"
proof -
  let ?k = "encoding s" and ?n = "length xs"
  have e: "is_enc ?k" and l: "ilength s = ?n" and c: "contents s = chunks ?k xs"
    using r by (simp_all add: intset_repr_def)
  define ys where "ys = take pos xs @ drop (Suc pos) xs @ drop (?n - 1) xs"
  have ly: "length ys = ?n" using pos by (simp add: ys_def)
  have ty: "take (?n - 1) ys = take pos xs @ drop (Suc pos) xs" using pos by (simp add: ys_def)
  have mv: "(if pos < ?n - 1 then intsetMoveTail s (pos + 1) pos else Some s)
      = Some (s\<lparr>contents := chunks ?k ys\<rparr>)"
  proof (cases "pos < ?n - 1")
    case True
    have rd: "bread (contents s) ((pos + 1) * ?k) ((?n - (pos + 1)) * ?k) = Some (chunks ?k (drop (pos + 1) xs))"
      using bread_chunks [of "pos + 1" "?n - (pos + 1)" xs ?k] pos c by simp
    have "pos + (?n - (pos + 1)) = ?n - 1" using True by simp
    then have wr: "bwrite (contents s) (pos * ?k) (chunks ?k (drop (pos + 1) xs)) = Some (chunks ?k ys)"
      using bwrite_chunks [of pos "drop (pos + 1) xs" xs ?k] c by (simp add: ys_def)
    show ?thesis using True e l rd wr moveTail_enc [of s "pos + 1" pos] by simp
  next
    case False
    then have "pos = ?n - 1" using pos by simp
    then have "ys = xs" using pos by (simp add: ys_def)
    then show ?thesis using False c by simp
  qed
  have rs: "intsetResize g (s\<lparr>contents := chunks ?k ys\<rparr>) (?n - 1)
      = s\<lparr>contents := chunks ?k (take pos xs @ drop (Suc pos) xs)\<rparr>"
    using resize_shrink [of "s\<lparr>contents := chunks ?k ys\<rparr>" ys "?n - 1" g] e ly len ty by simp
  have "sorted_wrt (<) (take pos xs @ drop (Suc pos) xs)"
  proof -
    have "sorted_wrt (<) (take pos xs @ drop pos xs)" using r by (simp add: intset_repr_def)
    moreover have "drop pos xs = xs ! pos # drop (Suc pos) xs" using pos by (simp add: Cons_nth_drop_Suc)
    ultimately show ?thesis unfolding sorted_wrt_append by auto
  qed
  moreover have "length (take pos xs @ drop (Suc pos) xs) = ?n - 1" using pos by simp
  ultimately have "intset_repr (s\<lparr>contents := chunks ?k (take pos xs @ drop (Suc pos) xs), ilength := ?n - 1\<rparr>)
      (take pos xs @ drop (Suc pos) xs)"
    using r pos unfolding intset_repr_def by (auto dest: in_set_takeD in_set_dropD)
  then show ?thesis using mv rs l by (simp add: Let_def)
qed

subsection \<open>The operations as set operations\<close>

definition is_intset :: "intset \<Rightarrow> int set \<Rightarrow> bool" where
  "is_intset s A \<longleftrightarrow> (\<exists>xs. intset_repr s xs \<and> set xs = A)"

lemma is_intset_list: "is_intset s A \<Longrightarrow> intset_repr s (sorted_list_of_set A) \<and> finite A"
  unfolding is_intset_def using repr_unique by blast

lemma length_set_repr: "intset_repr s xs \<Longrightarrow> length xs = card (set xs)"
  by (simp add: intset_repr_def strict_sorted_iff distinct_card)

lemma is_intset_add:
  assumes "is_intset s A" "in_ll v" "card A < 268435456"
  shows "\<exists>s'. intsetAdd g s v = Some (s', v \<notin> A) \<and> is_intset s' (insert v A)"
proof -
  obtain xs where r: "intset_repr s xs" "set xs = A" using assms(1) by (auto simp: is_intset_def)
  have len: "length xs < 268435456" using length_set_repr [OF r(1)] r(2) assms(3) by simp
  have e: "encoding s \<in> {2, 4, 8}" using r(1) by (auto simp: intset_repr_def is_enc_def)
  show ?thesis
  proof (cases "encoding s < intsetValueEncoding v")
    case True
    obtain s' where s': "intsetUpgradeAndAdd g s v = Some s'"
      "intset_repr s' (if v < 0 then v # xs else xs @ [v])"
      using upgrade_add [OF r(1) assms(2) True len] by blast
    have "\<not> enc_fits (encoding s) v" using True valueEncoding_fits [OF assms(2) e] by simp
    then have "v \<notin> A" using r by (auto simp: intset_repr_def)
    moreover have "set (if v < 0 then v # xs else xs @ [v]) = insert v A" using r(2) by auto
    ultimately show ?thesis using True s' by (auto simp: intsetAdd_def is_intset_def)
  next
    case False
    then have fits: "enc_fits (encoding s) v" using valueEncoding_fits [OF assms(2) e] by simp
    obtain f pos where sr: "intsetSearch s v = Some (f, pos)" "search_ok xs v (f, pos)"
      using intsetSearch_ok [OF r(1), of v] by auto
    show ?thesis
    proof (cases f)
      case True
      then have "v \<in> A" using sr(2) r(2) by (auto simp: search_ok_def)
      then show ?thesis using \<open>\<not> encoding s < _\<close> True sr(1) assms(1)
        by (simp add: intsetAdd_def insert_absorb)
    next
      case nf: False
      then have nin: "v \<notin> set xs" and so: "search_ok xs v (False, pos)" using sr(2) by (simp_all add: search_ok_def)
      have st: "set (take pos xs @ v # drop pos xs) = insert v A"
        using r(2) set_append [of "take pos xs" "drop pos xs"] by auto
      obtain s' where "intsetAdd g s v = Some (s', True)" "intset_repr s' (take pos xs @ v # drop pos xs)"
        using add_no_upgrade [OF r(1) fits nin len so, of g] False nf sr(1)
        by (auto simp: intsetAdd_def Let_def cong: if_cong)
      moreover from this have "is_intset s' (insert v A)" using st unfolding is_intset_def by blast
      moreover have "v \<notin> A" using nin r(2) by simp
      ultimately show ?thesis by simp
    qed
  qed
qed

lemma is_intset_find: "is_intset s A \<Longrightarrow> in_ll v \<Longrightarrow> intsetFind s v = Some (v \<in> A)"
proof -
  assume a: "is_intset s A" "in_ll v"
  then obtain xs where r: "intset_repr s xs" "set xs = A" by (auto simp: is_intset_def)
  have e: "encoding s \<in> {2, 4, 8}" using r(1) by (auto simp: intset_repr_def is_enc_def)
  obtain f pos where sr: "intsetSearch s v = Some (f, pos)" "search_ok xs v (f, pos)"
    using intsetSearch_ok [OF r(1), of v] by auto
  then have "f \<longleftrightarrow> v \<in> A" using r(2) by (cases f) (auto simp: search_ok_def)
  moreover have "v \<notin> A" if "\<not> enc_fits (encoding s) v" using that r by (auto simp: intset_repr_def)
  ultimately show ?thesis using sr valueEncoding_fits [OF a(2) e] by (auto simp: intsetFind_def)
qed

lemma is_intset_remove:
  assumes "is_intset s A" "in_ll v" "card A < 268435456"
  shows "\<exists>s'. intsetRemove g s v = Some (s', v \<in> A) \<and> is_intset s' (A - {v})"
proof -
  obtain xs where r: "intset_repr s xs" "set xs = A" using assms(1) by (auto simp: is_intset_def)
  have len: "length xs < 268435456" using length_set_repr [OF r(1)] r(2) assms(3) by simp
  have e: "encoding s \<in> {2, 4, 8}" using r(1) by (auto simp: intset_repr_def is_enc_def)
  obtain f pos where sr: "intsetSearch s v = Some (f, pos)" "search_ok xs v (f, pos)"
    using intsetSearch_ok [OF r(1), of v] by auto
  have f: "f \<longleftrightarrow> v \<in> A" using sr(2) r(2) by (cases f) (auto simp: search_ok_def)
  have nofit: "v \<notin> A" if "\<not> enc_fits (encoding s) v" using that r by (auto simp: intset_repr_def)
  show ?thesis
  proof (cases "v \<in> A")
    case False
    then show ?thesis using f sr(1) assms(1) by (auto simp: intsetRemove_def)
  next
    case True
    then have pos: "pos < length xs" "xs ! pos = v" using f sr(2) by (simp_all add: search_ok_def)
    have fit: "intsetValueEncoding v \<le> encoding s"
      using True nofit valueEncoding_fits [OF assms(2) e] by blast
    have xs: "xs = take pos xs @ v # drop (Suc pos) xs" using pos id_take_nth_drop by metis
    have "distinct xs" using r(1) by (simp add: intset_repr_def strict_sorted_iff)
    then have "distinct (take pos xs @ v # drop (Suc pos) xs)" by (subst (asm) xs)
    moreover have "A = set (take pos xs @ v # drop (Suc pos) xs)" using arg_cong [OF xs, of set] r(2) by simp
    ultimately have st: "A - {v} = set (take pos xs @ drop (Suc pos) xs)"
      by (simp add: Un_Diff)
    obtain s' where "intsetRemove g s v = Some (s', True)" "intset_repr s' (take pos xs @ drop (Suc pos) xs)"
      using remove_found [OF r(1) len pos(1), of g] True f sr(1) fit
      by (auto simp: intsetRemove_def Let_def cong: if_cong)
    moreover from this have "is_intset s' (A - {v})" unfolding st is_intset_def by blast
    ultimately show ?thesis using True by simp
  qed
qed

lemma is_intset_finite: "is_intset s A \<Longrightarrow> finite A"
  by (auto simp: is_intset_def)

interpretation intset: finite_set_impl is_intset "intsetAdd g" "intsetRemove g" intsetFind in_ll 268435456 for g
  by unfold_locales (use is_intset_add is_intset_remove is_intset_find is_intset_finite in auto)

subsection \<open>Properties\<close>

text \<open>
  C25: adding a list of values to an intset, one \<open>intsetAdd\<close> after the other, stays inside the
  byte array whatever encoding upgrades, moves of the tail and reallocations it takes, counts the
  values that were not yet members, and leaves an intset whose members are the old ones and the
  values added; looking up any value then answers membership.
\<close>

theorem intset_adds_correct:
  assumes "is_intset s A" and "\<forall>v \<in> set vs. in_ll v" and "card A + length vs \<le> 268435456"
  shows "\<exists>s'. apply_all (intsetAdd g) s vs = Some (s', card (set vs - A)) \<and> is_intset s' (A \<union> set vs)
    \<and> (\<forall>v. in_ll v \<longrightarrow> intsetFind s' v = Some (v \<in> A \<or> v \<in> set vs))"
proof -
  obtain s' where "apply_all (intsetAdd g) s vs = Some (s', card (set vs - A))" "is_intset s' (A \<union> set vs)"
    using intset.add_all [OF assms] by blast
  then show ?thesis using intset.R_find [of s' "A \<union> set vs"] by auto
qed

lemma is_intset_new: "is_intset intsetNew {}"
  using repr_new by (auto simp: is_intset_def)

theorem intset_adds_correct_witness:
  "\<exists>s'. apply_all (intsetAdd 0) intsetNew [5, -70000, 5, 9000000000] = Some (s', card {5, -70000, 9000000000 :: int})
    \<and> is_intset s' {5, -70000, 9000000000}"
  using intset_adds_correct [OF is_intset_new, of "[5, -70000, 5, 9000000000]" 0]
  by (auto simp: in_ll_def insert_commute)

text \<open>
  C26: removing a list of values counts the members among them and leaves exactly the other
  members; a value of an encoding wider than the set's is never found nor removed.
\<close>

theorem intset_removes_correct:
  assumes "is_intset s A" and "\<forall>v \<in> set vs. in_ll v" and "card A < 268435456"
  shows "\<exists>s'. apply_all (intsetRemove g) s vs = Some (s', card (set vs \<inter> A)) \<and> is_intset s' (A - set vs)
    \<and> filter_found intsetFind s vs = Some (filter (\<lambda>v. v \<in> A) vs)"
  using intset.remove_all [OF assms] intset.find_all [OF assms(1,2)] by blast

lemma le_bytes_2: "le_bytes 2 v = [word_of_int v, word_of_int (v div 256)]"
  by (simp add: numeral_2_eq_2)

lemma intset_three: "is_intset \<lparr>encoding = 2, ilength = 2, contents = [1, 0, 44, 1]\<rparr> {1, 300}"
proof -
  have "intset_repr \<lparr>encoding = 2, ilength = 2, contents = [1, 0, 44, 1]\<rparr> [1, 300]"
    using le_bytes_2 by (simp add: intset_repr_def is_enc_def enc_fits_def)
  then show ?thesis by (auto simp: is_intset_def)
qed

theorem intset_removes_correct_witness:
  "\<exists>s'. apply_all (intsetRemove 0) \<lparr>encoding = 2, ilength = 2, contents = [1, 0, 44, 1]\<rparr> [300, 70000]
      = Some (s', card ({300, 70000} \<inter> {1, 300 :: int})) \<and> is_intset s' ({1, 300} - {300, 70000})"
  using intset_removes_correct [OF intset_three, of "[300, 70000]" 0] by (auto simp: in_ll_def)

text \<open>The representation is canonical: reading the positions in turn gives the members in
  strictly ascending order, each once, positions past the length give no value, the length is the
  number of members, and a random pick (for any value of \<open>rand()\<close>) is a member.
\<close>

theorem intset_positions:
  assumes "is_intset s A"
  shows "map (intsetGet s) [0..<intsetLen s] = map (\<lambda>v. Some (Some v)) (sorted_list_of_set A)
    \<and> intsetLen s = card A \<and> (\<forall>i \<ge> intsetLen s. intsetGet s i = Some None)
    \<and> (A \<noteq> {} \<longrightarrow> (\<exists>v \<in> A. intsetRandom r s = Some v))"
proof -
  let ?xs = "sorted_list_of_set A"
  have rp: "intset_repr s ?xs" and fin: "finite A" using is_intset_list [OF assms] by auto
  have len: "ilength s = length ?xs" using rp by (simp add: intset_repr_def)
  have get: "intsetGet s i = Some (Some (?xs ! i))" if "i < length ?xs" for i
    using that len repr_get [OF rp] by (simp add: intsetGet_def)
  have "map (intsetGet s) [0..<intsetLen s] = map (\<lambda>v. Some (Some v)) ?xs"
    by (rule nth_equalityI) (simp_all add: len intsetLen_def get del: length_sorted_list_of_set)
  moreover have "intsetRandom r s = Some (?xs ! (r mod card A)) \<and> ?xs ! (r mod card A) \<in> A" if "A \<noteq> {}"
  proof -
    have c: "r mod card A < length ?xs" using that fin by (simp add: card_gt_0_iff)
    then have "?xs ! (r mod card A) \<in> set ?xs" by (rule nth_mem)
    then show ?thesis using that fin len c repr_get [OF rp c] by (simp add: intsetRandom_def)
  qed
  ultimately show ?thesis using len by (auto simp: intsetLen_def intsetGet_def)
qed

theorem intset_positions_witness:
  "map (intsetGet \<lparr>encoding = 2, ilength = 2, contents = [1, 0, 44, 1]\<rparr>) [0..<2] = [Some (Some 1), Some (Some 300)]"
  using intset_positions [OF intset_three] by (simp add: intsetLen_def)

end
