(* ===== verification/Dict.thy ===== *)
theory Dict
  imports Prelude "HOL-Library.Monad_Syntax"
begin

unbundle bit_operations_syntax

text \<open>
  Model of \<^verbatim>\<open>redis-2.8.19/src/dict.c\<close>, the chained hash table with incremental rehashing.
  A bucket is the list of its chained entries (\<open>dictEntry.next\<close>), an entry is its key and its
  value; a table pointer that is NULL is the empty list. A pointer to an entry is the table, the
  bucket and the place in the chain. The hash function of the \<open>dictType\<close> is the parameter \<open>h\<close>,
  \<open>keyCompare\<close> is equality of the keys, and \<open>dict_can_resize\<close> is the parameter \<open>cr\<close>. An access
  outside a table, and a failed assertion, is \<open>None\<close>.
\<close>

subsection \<open>Data\<close>

record ('k, 'v) dictht =
  table :: "('k \<times> 'v) list list"
  ht_size :: nat
  sizemask :: nat
  used :: nat

record ('k, 'v) dict =
  ht0 :: "('k, 'v) dictht"
  ht1 :: "('k, 'v) dictht"
  rehashidx :: int
  iterators :: nat

type_synonym entry_ref = "nat \<times> nat \<times> nat"

definition DICT_HT_INITIAL_SIZE :: nat where "DICT_HT_INITIAL_SIZE = 4"
definition dict_force_resize_ratio :: nat where "dict_force_resize_ratio = 5"

definition dictIsRehashing :: "('k, 'v) dict \<Rightarrow> bool" where
  "dictIsRehashing d \<longleftrightarrow> rehashidx d \<noteq> -1"

definition dictSize :: "('k, 'v) dict \<Rightarrow> nat" where
  "dictSize d = used (ht0 d) + used (ht1 d)"

definition dictSlots :: "('k, 'v) dict \<Rightarrow> nat" where
  "dictSlots d = ht_size (ht0 d) + ht_size (ht1 d)"

definition dictReset :: "('k, 'v) dictht" where
  "dictReset = \<lparr>table = [], ht_size = 0, sizemask = 0, used = 0\<rparr>"

definition dictCreate :: "('k, 'v) dict" where
  "dictCreate = \<lparr>ht0 = dictReset, ht1 = dictReset, rehashidx = -1, iterators = 0\<rparr>"

definition get_ht :: "('k, 'v) dict \<Rightarrow> nat \<Rightarrow> ('k, 'v) dictht" where
  "get_ht d t = (if t = 0 then ht0 d else ht1 d)"

definition set_ht :: "('k, 'v) dict \<Rightarrow> nat \<Rightarrow> ('k, 'v) dictht \<Rightarrow> ('k, 'v) dict" where
  "set_ht d t x = (if t = 0 then d\<lparr>ht0 := x\<rparr> else d\<lparr>ht1 := x\<rparr>)"

subsection \<open>Hash functions\<close>

definition dictIntHashFunction :: "32 word \<Rightarrow> 32 word" where
  "dictIntHashFunction key0 =
     (let k1 = key0 + NOT (push_bit 15 key0); k2 = k1 XOR drop_bit 10 k1;
          k3 = k2 + push_bit 3 k2; k4 = k3 XOR drop_bit 6 k3;
          k5 = k4 + NOT (push_bit 11 k4); k6 = k5 XOR drop_bit 16 k5 in k6)"

definition murmur_m :: "32 word" where "murmur_m = 0x5bd1e995"

fun murmur_body :: "32 word \<Rightarrow> 8 word list \<Rightarrow> 32 word \<times> 8 word list" where
  "murmur_body hh (a # b # c # e # ds) =
     (let k1 = (ucast a + push_bit 8 (ucast b) + push_bit 16 (ucast c) + push_bit 24 (ucast e)) * murmur_m;
          k2 = k1 XOR drop_bit 24 k1; k3 = k2 * murmur_m
      in murmur_body ((hh * murmur_m) XOR k3) ds)"
| "murmur_body hh ds = (hh, ds)"

text \<open>The \<open>switch\<close> on the remaining length falls through its cases.\<close>

definition murmur_tail :: "32 word \<Rightarrow> 8 word list \<Rightarrow> 32 word" where
  "murmur_tail hh ds =
     (case ds of
        [a, b, c] \<Rightarrow> (((hh XOR push_bit 16 (ucast c)) XOR push_bit 8 (ucast b)) XOR ucast a) * murmur_m
      | [a, b] \<Rightarrow> ((hh XOR push_bit 8 (ucast b)) XOR ucast a) * murmur_m
      | [a] \<Rightarrow> (hh XOR ucast a) * murmur_m
      | _ \<Rightarrow> hh)"

definition dictGenHashFunction :: "32 word \<Rightarrow> 8 word list \<Rightarrow> 32 word" where
  "dictGenHashFunction seed bs =
     (let (h1, ds) = murmur_body (seed XOR word_of_nat (length bs)) bs;
          h2 = murmur_tail h1 ds;
          h3 = (h2 XOR drop_bit 13 h2) * murmur_m
      in h3 XOR drop_bit 15 h3)"

definition tolower8 :: "8 word \<Rightarrow> 8 word" where
  "tolower8 b = (if 65 \<le> b \<and> b \<le> 90 then b + 32 else b)"

definition dictGenCaseHashFunction :: "32 word \<Rightarrow> 8 word list \<Rightarrow> 32 word" where
  "dictGenCaseHashFunction seed bs = foldl (\<lambda>hh b. (push_bit 5 hh + hh) + ucast (tolower8 b)) seed bs"

subsection \<open>Resizing\<close>

text \<open>\<open>_dictNextPower\<close> on 64 bits; the doubling loop stays below \<open>LONG_MAX\<close>.\<close>

function next_power :: "nat \<Rightarrow> nat \<Rightarrow> nat" where
  "next_power i sz = (if i = 0 \<or> i \<ge> sz then i else next_power (2 * i) sz)"
  by pat_completeness auto
termination
  by (relation "measure (\<lambda>(i, sz). sz - i)") auto

declare next_power.simps [simp del]

definition dictNextPower :: "nat \<Rightarrow> nat" where
  "dictNextPower sz =
     (if int sz \<ge> LLONG_MAX then nat LLONG_MAX else next_power DICT_HT_INITIAL_SIZE sz)"

definition dictExpand :: "('k, 'v) dict \<Rightarrow> nat \<Rightarrow> ('k, 'v) dict \<times> bool" where
  "dictExpand d sz =
     (let realsize = dictNextPower sz in
      if dictIsRehashing d \<or> used (ht0 d) > sz then (d, False)
      else
        let n = \<lparr>table = replicate realsize [], ht_size = realsize, sizemask = realsize - 1, used = 0\<rparr> in
        if table (ht0 d) = [] then (d\<lparr>ht0 := n\<rparr>, True)
        else (d\<lparr>ht1 := n, rehashidx := 0\<rparr>, True))"

definition dictResize :: "bool \<Rightarrow> ('k, 'v) dict \<Rightarrow> ('k, 'v) dict \<times> bool" where
  "dictResize cr d =
     (if \<not> cr \<or> dictIsRehashing d then (d, False)
      else
        let minimal = used (ht0 d);
            minimal = (if minimal < DICT_HT_INITIAL_SIZE then DICT_HT_INITIAL_SIZE else minimal)
        in dictExpand d minimal)"

definition dictExpandIfNeeded :: "bool \<Rightarrow> ('k, 'v) dict \<Rightarrow> ('k, 'v) dict \<times> bool" where
  "dictExpandIfNeeded cr d =
     (if dictIsRehashing d then (d, True)
      else if ht_size (ht0 d) = 0 then dictExpand d DICT_HT_INITIAL_SIZE
      else if used (ht0 d) \<ge> ht_size (ht0 d)
              \<and> (cr \<or> used (ht0 d) div ht_size (ht0 d) > dict_force_resize_ratio)
      then dictExpand d (used (ht0 d) * 2)
      else (d, True))"

subsection \<open>Incremental rehashing\<close>

definition hash_idx :: "('k \<Rightarrow> 32 word) \<Rightarrow> 'k \<Rightarrow> ('k, 'v) dictht \<Rightarrow> nat" where
  "hash_idx h k t = unat (h k) AND sizemask t"

fun move_bucket :: "('k \<Rightarrow> 32 word) \<Rightarrow> ('k \<times> 'v) list \<Rightarrow> ('k, 'v) dictht \<Rightarrow> ('k, 'v) dictht
    \<Rightarrow> (('k, 'v) dictht \<times> ('k, 'v) dictht) option" where
  "move_bucket h [] t0 t1 = Some (t0, t1)"
| "move_bucket h ((k, v) # es) t0 t1 =
     (let i = hash_idx h k t1 in
      if i < length (table t1) then
        move_bucket h es (t0\<lparr>used := used t0 - 1\<rparr>)
          (t1\<lparr>table := (table t1)[i := (k, v) # table t1 ! i], used := used t1 + 1\<rparr>)
      else None)"

text \<open>\<open>while (d->ht[0].table[d->rehashidx] == NULL) d->rehashidx++\<close>.\<close>

function skip_empty :: "'a list list \<Rightarrow> nat \<Rightarrow> nat option" where
  "skip_empty tb i =
     (if i < length tb then (if tb ! i = [] then skip_empty tb (i + 1) else Some i) else None)"
  by pat_completeness auto
termination
  by (relation "measure (\<lambda>(tb, i). length tb - i)") auto

declare skip_empty.simps [simp del]

text \<open>Up to \<open>n\<close> steps; the flag says that keys are left to move.\<close>

fun rehash_steps :: "('k \<Rightarrow> 32 word) \<Rightarrow> nat \<Rightarrow> ('k, 'v) dict \<Rightarrow> (('k, 'v) dict \<times> bool) option" where
  "rehash_steps h 0 d = Some (d, True)"
| "rehash_steps h (Suc n) d =
     (if used (ht0 d) = 0 then
        Some (d\<lparr>ht0 := ht1 d, ht1 := dictReset, rehashidx := -1\<rparr>, False)
      else if \<not> int (ht_size (ht0 d)) > rehashidx d then None
      else do {
        i \<leftarrow> skip_empty (table (ht0 d)) (nat (rehashidx d));
        (t0, t1) \<leftarrow> move_bucket h (table (ht0 d) ! i) (ht0 d) (ht1 d);
        rehash_steps h n (d\<lparr>ht0 := t0\<lparr>table := (table t0)[i := []]\<rparr>, ht1 := t1, rehashidx := int i + 1\<rparr>) })"

definition dictRehash :: "('k \<Rightarrow> 32 word) \<Rightarrow> ('k, 'v) dict \<Rightarrow> nat \<Rightarrow> (('k, 'v) dict \<times> bool) option" where
  "dictRehash h d n = (if \<not> dictIsRehashing d then Some (d, False) else rehash_steps h n d)"

text \<open>\<open>clock\<close> holds the readings of \<open>timeInMilliseconds\<close> after the first one.\<close>

fun rehash_ms_loop :: "('k \<Rightarrow> 32 word) \<Rightarrow> int \<Rightarrow> int \<Rightarrow> int list \<Rightarrow> nat \<Rightarrow> ('k, 'v) dict
    \<Rightarrow> (('k, 'v) dict \<times> nat) option" where
  "rehash_ms_loop h start ms clock rehashes d = do {
     (d1, more) \<leftarrow> dictRehash h d 100;
     if \<not> more then Some (d1, rehashes)
     else case clock of [] \<Rightarrow> None
          | now # clock' \<Rightarrow>
              if now - start > ms then Some (d1, rehashes + 100)
              else rehash_ms_loop h start ms clock' (rehashes + 100) d1 }"

definition dictRehashMilliseconds :: "('k \<Rightarrow> 32 word) \<Rightarrow> ('k, 'v) dict \<Rightarrow> int \<Rightarrow> int \<Rightarrow> int list
    \<Rightarrow> (('k, 'v) dict \<times> nat) option" where
  "dictRehashMilliseconds h d ms start clock = rehash_ms_loop h start ms clock 0 d"

definition dictRehashStep :: "('k \<Rightarrow> 32 word) \<Rightarrow> ('k, 'v) dict \<Rightarrow> ('k, 'v) dict option" where
  "dictRehashStep h d = (if iterators d = 0 then map_option fst (dictRehash h d 1) else Some d)"

definition step_if_rehashing :: "('k \<Rightarrow> 32 word) \<Rightarrow> ('k, 'v) dict \<Rightarrow> ('k, 'v) dict option" where
  "step_if_rehashing h d = (if dictIsRehashing d then dictRehashStep h d else Some d)"

subsection \<open>Lookup, insertion, deletion\<close>

fun chain_pos :: "'k \<Rightarrow> ('k \<times> 'v) list \<Rightarrow> nat option" where
  "chain_pos k [] = None"
| "chain_pos k (e # es) = (if k = fst e then Some 0 else map_option Suc (chain_pos k es))"

definition bucket :: "('k \<Rightarrow> 32 word) \<Rightarrow> ('k, 'v) dictht \<Rightarrow> 'k \<Rightarrow> (nat \<times> ('k \<times> 'v) list) option" where
  "bucket h t k = (let i = hash_idx h k t in if i < length (table t) then Some (i, table t ! i) else None)"

text \<open>The loop over \<open>table = 0, 1\<close> shared by the lookups: where the key is, and the last index.\<close>

definition search_tables :: "('k \<Rightarrow> 32 word) \<Rightarrow> ('k, 'v) dict \<Rightarrow> 'k \<Rightarrow> (entry_ref option \<times> nat) option" where
  "search_tables h d k = do {
     (i0, b0) \<leftarrow> bucket h (ht0 d) k;
     case chain_pos k b0 of
       Some p \<Rightarrow> Some (Some (0, i0, p), i0)
     | None \<Rightarrow>
         if \<not> dictIsRehashing d then Some (None, i0)
         else do {
           (i1, b1) \<leftarrow> bucket h (ht1 d) k;
           case chain_pos k b1 of
             Some p \<Rightarrow> Some (Some (1, i1, p), i1)
           | None \<Rightarrow> Some (None, i1) } }"

definition dictKeyIndex :: "('k \<Rightarrow> 32 word) \<Rightarrow> bool \<Rightarrow> ('k, 'v) dict \<Rightarrow> 'k
    \<Rightarrow> (('k, 'v) dict \<times> nat option) option" where
  "dictKeyIndex h cr d k =
     (case dictExpandIfNeeded cr d of (d1, ok) \<Rightarrow>
        if \<not> ok then Some (d1, None)
        else do {
          (r, i) \<leftarrow> search_tables h d1 k;
          case r of Some _ \<Rightarrow> Some (d1, None) | None \<Rightarrow> Some (d1, Some i) })"

text \<open>The new entry holds \<open>junk\<close> until the caller sets its value.\<close>

definition dictAddRaw :: "('k \<Rightarrow> 32 word) \<Rightarrow> bool \<Rightarrow> 'v \<Rightarrow> ('k, 'v) dict \<Rightarrow> 'k
    \<Rightarrow> (('k, 'v) dict \<times> entry_ref option) option" where
  "dictAddRaw h cr junk d k = do {
     d1 \<leftarrow> step_if_rehashing h d;
     (d2, index) \<leftarrow> dictKeyIndex h cr d1 k;
     case index of None \<Rightarrow> Some (d2, None)
     | Some i \<Rightarrow>
         let t = (if dictIsRehashing d2 then 1 else 0); x = get_ht d2 t in
         if i < length (table x) then
           Some (set_ht d2 t (x\<lparr>table := (table x)[i := (k, junk) # table x ! i], used := used x + 1\<rparr>),
                 Some (t, i, 0))
         else None }"

definition dictSetVal :: "('k, 'v) dict \<Rightarrow> entry_ref \<Rightarrow> 'v \<Rightarrow> ('k, 'v) dict option" where
  "dictSetVal d r v =
     (case r of (t, i, p) \<Rightarrow>
        let x = get_ht d t in
        if i < length (table x) \<and> p < length (table x ! i) then
          Some (set_ht d t (x\<lparr>table := (table x)[i := (table x ! i)[p := (fst (table x ! i ! p), v)]]\<rparr>))
        else None)"

definition dictGetEntry :: "('k, 'v) dict \<Rightarrow> entry_ref \<Rightarrow> ('k \<times> 'v) option" where
  "dictGetEntry d r =
     (case r of (t, i, p) \<Rightarrow>
        let x = get_ht d t in
        if i < length (table x) \<and> p < length (table x ! i) then Some (table x ! i ! p) else None)"

definition dictAdd :: "('k \<Rightarrow> 32 word) \<Rightarrow> bool \<Rightarrow> 'v \<Rightarrow> ('k, 'v) dict \<Rightarrow> 'k \<Rightarrow> 'v
    \<Rightarrow> (('k, 'v) dict \<times> bool) option" where
  "dictAdd h cr junk d k v = do {
     (d1, entry) \<leftarrow> dictAddRaw h cr junk d k;
     case entry of None \<Rightarrow> Some (d1, False)
     | Some r \<Rightarrow> do { d2 \<leftarrow> dictSetVal d1 r v; Some (d2, True) } }"

definition dictFind :: "('k \<Rightarrow> 32 word) \<Rightarrow> ('k, 'v) dict \<Rightarrow> 'k \<Rightarrow> (('k, 'v) dict \<times> entry_ref option) option" where
  "dictFind h d k =
     (if ht_size (ht0 d) = 0 then Some (d, None)
      else do {
        d1 \<leftarrow> step_if_rehashing h d;
        (r, _) \<leftarrow> search_tables h d1 k;
        Some (d1, r) })"

definition dictFetchValue :: "('k \<Rightarrow> 32 word) \<Rightarrow> ('k, 'v) dict \<Rightarrow> 'k \<Rightarrow> (('k, 'v) dict \<times> 'v option) option" where
  "dictFetchValue h d k = do {
     (d1, r) \<leftarrow> dictFind h d k;
     case r of None \<Rightarrow> Some (d1, None)
     | Some e \<Rightarrow> do { kv \<leftarrow> dictGetEntry d1 e; Some (d1, Some (snd kv)) } }"

text \<open>Whether the key is new, and the old value that the replacement frees.\<close>

definition dictReplace :: "('k \<Rightarrow> 32 word) \<Rightarrow> bool \<Rightarrow> 'v \<Rightarrow> ('k, 'v) dict \<Rightarrow> 'k \<Rightarrow> 'v
    \<Rightarrow> (('k, 'v) dict \<times> bool \<times> 'v option) option" where
  "dictReplace h cr junk d k v = do {
     (d1, added) \<leftarrow> dictAdd h cr junk d k v;
     if added then Some (d1, True, None)
     else do {
       (d2, r) \<leftarrow> dictFind h d1 k;
       case r of None \<Rightarrow> None
       | Some e \<Rightarrow> do {
           aux \<leftarrow> dictGetEntry d2 e;
           d3 \<leftarrow> dictSetVal d2 e v;
           Some (d3, False, Some (snd aux)) } } }"

definition dictReplaceRaw :: "('k \<Rightarrow> 32 word) \<Rightarrow> bool \<Rightarrow> 'v \<Rightarrow> ('k, 'v) dict \<Rightarrow> 'k
    \<Rightarrow> (('k, 'v) dict \<times> entry_ref option) option" where
  "dictReplaceRaw h cr junk d k = do {
     (d1, r) \<leftarrow> dictFind h d k;
     case r of Some e \<Rightarrow> Some (d1, Some e) | None \<Rightarrow> dictAddRaw h cr junk d1 k }"

text \<open>The flag is \<open>DICT_OK\<close>; the entry is the key and the value given to the destructors.\<close>

definition dictGenericDelete :: "('k \<Rightarrow> 32 word) \<Rightarrow> ('k, 'v) dict \<Rightarrow> 'k \<Rightarrow> bool
    \<Rightarrow> (('k, 'v) dict \<times> bool \<times> ('k \<times> 'v) option) option" where
  "dictGenericDelete h d k nofree =
     (if ht_size (ht0 d) = 0 then Some (d, False, None)
      else do {
        d1 \<leftarrow> step_if_rehashing h d;
        (r, _) \<leftarrow> search_tables h d1 k;
        case r of None \<Rightarrow> Some (d1, False, None)
        | Some (t, i, p) \<Rightarrow>
            let x = get_ht d1 t; b = table x ! i in
            Some (set_ht d1 t (x\<lparr>table := (table x)[i := take p b @ drop (Suc p) b], used := used x - 1\<rparr>),
                  True, if nofree then None else Some (b ! p)) })"

definition dictDelete :: "('k \<Rightarrow> 32 word) \<Rightarrow> ('k, 'v) dict \<Rightarrow> 'k
    \<Rightarrow> (('k, 'v) dict \<times> bool \<times> ('k \<times> 'v) option) option" where
  "dictDelete h d k = dictGenericDelete h d k False"

definition dictDeleteNoFree :: "('k \<Rightarrow> 32 word) \<Rightarrow> ('k, 'v) dict \<Rightarrow> 'k
    \<Rightarrow> (('k, 'v) dict \<times> bool \<times> ('k \<times> 'v) option) option" where
  "dictDeleteNoFree h d k = dictGenericDelete h d k True"

text \<open>The entries that clearing a table frees: the loop stops when \<open>used\<close> reaches 0.\<close>

fun clear_loop :: "('k \<times> 'v) list list \<Rightarrow> nat \<Rightarrow> ('k \<times> 'v) list" where
  "clear_loop [] u = []"
| "clear_loop (b # bs) u = (if u = 0 then [] else b @ clear_loop bs (u - length b))"

definition dictClear :: "('k, 'v) dictht \<Rightarrow> ('k, 'v) dictht \<times> ('k \<times> 'v) list" where
  "dictClear t = (dictReset, clear_loop (table t) (used t))"

definition dictEmpty :: "('k, 'v) dict \<Rightarrow> ('k, 'v) dict \<times> ('k \<times> 'v) list" where
  "dictEmpty d =
     (let (a, fa) = dictClear (ht0 d); (b, fb) = dictClear (ht1 d)
      in (\<lparr>ht0 = a, ht1 = b, rehashidx = -1, iterators = 0\<rparr>, fa @ fb))"

definition dictRelease :: "('k, 'v) dict \<Rightarrow> ('k \<times> 'v) list" where
  "dictRelease d = snd (dictClear (ht0 d)) @ snd (dictClear (ht1 d))"

text \<open>
  \<open>dictGetRandomKey\<close>: \<open>rs\<close> are the successive values of \<open>random()\<close>; the loop draws until it hits a
  bucket that is not empty, then picks a place in the chain.
\<close>

definition nth_bucket :: "('k, 'v) dictht \<Rightarrow> nat \<Rightarrow> ('k \<times> 'v) list option" where
  "nth_bucket t i = (if i < length (table t) then Some (table t ! i) else None)"

fun random_bucket :: "('k, 'v) dict \<Rightarrow> nat list \<Rightarrow> (('k \<times> 'v) list \<times> nat list) option" where
  "random_bucket d [] = None"
| "random_bucket d (r # rs) = do {
     b \<leftarrow> (if dictIsRehashing d then
             let x = r mod (ht_size (ht0 d) + ht_size (ht1 d)) in
             if x \<ge> ht_size (ht0 d) then nth_bucket (ht1 d) (x - ht_size (ht0 d)) else nth_bucket (ht0 d) x
           else nth_bucket (ht0 d) (r AND sizemask (ht0 d)));
     if b = [] then random_bucket d rs else Some (b, rs) }"

definition dictGetRandomKey :: "('k \<Rightarrow> 32 word) \<Rightarrow> ('k, 'v) dict \<Rightarrow> nat list
    \<Rightarrow> (('k, 'v) dict \<times> ('k \<times> 'v) option) option" where
  "dictGetRandomKey h d rs =
     (if dictSize d = 0 then Some (d, None)
      else do {
        d1 \<leftarrow> step_if_rehashing h d;
        (b, rs') \<leftarrow> random_bucket d1 rs;
        case rs' of [] \<Rightarrow> None | r # _ \<Rightarrow> Some (d1, Some (b ! (r mod length b))) })"

subsection \<open>Scanning\<close>

definition rev_step :: "nat \<Rightarrow> 64 word \<times> 64 word \<Rightarrow> 64 word \<times> 64 word" where
  "rev_step s p =
     (case p of (mask0, v) \<Rightarrow>
        let mask = mask0 XOR push_bit s mask0
        in (mask, (drop_bit s v AND mask) OR (push_bit s v AND NOT mask)))"

definition rev_bits :: "64 word \<Rightarrow> 64 word" where
  "rev_bits v = snd (rev_step 1 (rev_step 2 (rev_step 4 (rev_step 8 (rev_step 16 (rev_step 32 (NOT 0, v)))))))"

definition bucket_at :: "('k, 'v) dictht \<Rightarrow> 64 word \<Rightarrow> ('k \<times> 'v) list option" where
  "bucket_at t v = (if unat v < length (table t) then Some (table t ! unat v) else None)"

text \<open>The \<open>do ... while\<close> over the expansions of the cursor, with fuel.\<close>

fun scan_loop :: "nat \<Rightarrow> ('k, 'v) dictht \<Rightarrow> 64 word \<Rightarrow> 64 word \<Rightarrow> 64 word
    \<Rightarrow> (('k \<times> 'v) list \<times> 64 word) option" where
  "scan_loop 0 t1 m0 m1 v = None"
| "scan_loop (Suc n) t1 m0 m1 v = do {
     es \<leftarrow> bucket_at t1 (v AND m1);
     let v' = (((v OR m0) + 1) AND NOT m0) OR (v AND m0);
     if v' AND (m0 XOR m1) \<noteq> 0 then do {
       (es', w) \<leftarrow> scan_loop n t1 m0 m1 v';
       Some (es @ es', w) }
     else Some (es, v') }"

definition dictScan :: "('k, 'v) dict \<Rightarrow> 64 word \<Rightarrow> (('k \<times> 'v) list \<times> 64 word) option" where
  "dictScan d v =
     (if dictSize d = 0 then Some ([], 0)
      else do {
        (es, m0, w) \<leftarrow>
          (if \<not> dictIsRehashing d then do {
             let m0 = word_of_nat (sizemask (ht0 d));
             es \<leftarrow> bucket_at (ht0 d) (v AND m0);
             Some (es, m0, v) }
           else do {
             let (t0, t1) = (if ht_size (ht0 d) > ht_size (ht1 d) then (ht1 d, ht0 d) else (ht0 d, ht1 d));
             let m0 = word_of_nat (sizemask t0);
             let m1 = word_of_nat (sizemask t1);
             es \<leftarrow> bucket_at t0 (v AND m0);
             (es', w) \<leftarrow> scan_loop (ht_size t1) t1 m0 m1 v;
             Some (es @ es', m0, w) });
        Some (es, rev_bits (rev_bits (w OR NOT m0) + 1)) })"

end
