(* ===== verification/Dict_Correct.thy ===== *)
theory Dict_Correct
  imports Dict "HOL-Library.Multiset"
begin

text \<open>
  The invariant of a dictionary, and the lemmas that every operation of \<^theory_text>\<open>Dict\<close> keeps it. What a
  dictionary holds is the multiset of its entries in both tables; a rehashing step moves entries
  from one table to the other and leaves that multiset unchanged.
\<close>

subsection \<open>The invariant\<close>

definition dict_entries :: "('k, 'v) dict \<Rightarrow> ('k \<times> 'v) list" where
  "dict_entries d = concat (table (ht0 d)) @ concat (table (ht1 d))"

definition dict_map :: "('k, 'v) dict \<Rightarrow> 'k \<Rightarrow> 'v option" where
  "dict_map d = map_of (dict_entries d)"

definition size_ok :: "('k, 'v) dictht \<Rightarrow> bool" where
  "size_ok t \<longleftrightarrow> length (table t) = ht_size t \<and>
     (if ht_size t = 0 then sizemask t = 0 else \<exists>n \<le> 63. ht_size t = 2 ^ n \<and> sizemask t = mask n)"

definition ht_ok :: "('k \<Rightarrow> 32 word) \<Rightarrow> ('k, 'v) dictht \<Rightarrow> bool" where
  "ht_ok h t \<longleftrightarrow> size_ok t \<and> used t = length (concat (table t))
     \<and> (\<forall>i < length (table t). \<forall>e \<in> set (table t ! i). hash_idx h (fst e) t = i)"

definition dict_ok :: "('k \<Rightarrow> 32 word) \<Rightarrow> ('k, 'v) dict \<Rightarrow> bool" where
  "dict_ok h d \<longleftrightarrow> ht_ok h (ht0 d) \<and> ht_ok h (ht1 d) \<and> distinct (map fst (dict_entries d))
     \<and> (if dictIsRehashing d
        then 0 \<le> rehashidx d \<and> ht_size (ht0 d) \<noteq> 0 \<and> ht_size (ht1 d) \<noteq> 0
             \<and> (\<forall>i < nat (rehashidx d). i < ht_size (ht0 d) \<longrightarrow> table (ht0 d) ! i = [])
        else ht1 d = dictReset)"

lemma ht_ok_reset: "ht_ok h dictReset"
  by (simp add: ht_ok_def size_ok_def dictReset_def)

lemma dict_ok_create: "dict_ok h dictCreate"
  by (simp add: dict_ok_def dictCreate_def ht_ok_reset dictIsRehashing_def dict_entries_def)
     (simp add: dictReset_def)

lemma dict_map_create [simp]: "dict_map dictCreate = Map.empty"
  by (simp add: dict_map_def dict_entries_def dictCreate_def dictReset_def)

lemma hash_idx_mod: "sizemask t = mask n \<Longrightarrow> hash_idx h k t = unat (h k) mod 2 ^ n"
  by (simp add: hash_idx_def take_bit_eq_mask [symmetric] take_bit_eq_mod)

lemma hash_idx_less: "size_ok t \<Longrightarrow> ht_size t \<noteq> 0 \<Longrightarrow> hash_idx h k t < length (table t)"
  by (auto simp: size_ok_def hash_idx_mod)

lemma hash_idx_cong: "sizemask t' = sizemask t \<Longrightarrow> hash_idx h k t' = hash_idx h k t"
  by (simp add: hash_idx_def)

subsection \<open>Entries as a multiset\<close>

lemma mset_concat_update:
  "i < length tb \<Longrightarrow> mset (concat (tb[i := b])) + mset (tb ! i) = mset (concat tb) + mset b"
proof (induction tb arbitrary: i)
  case (Cons x tb)
  then show ?case by (cases i) (auto simp: ac_simps)
qed simp

lemma length_concat_update:
  "i < length tb \<Longrightarrow> length (concat (tb[i := b])) + length (tb ! i) = length (concat tb) + length b"
  by (metis size_mset size_union mset_concat_update)

lemma keys_eq:
  assumes "mset (dict_entries d') = mset (dict_entries d)" "distinct (map fst (dict_entries d))"
  shows "distinct (map fst (dict_entries d'))" "dict_map d' = dict_map d"
proof -
  have "mset (map fst (dict_entries d')) = mset (map fst (dict_entries d))" using assms(1) by simp
  then show dis: "distinct (map fst (dict_entries d'))"
    using assms(2) mset_eq_imp_distinct_iff by blast
  show "dict_map d' = dict_map d"
    unfolding dict_map_def
    by (rule map_of_eqI) (use mset_eq_setD [OF assms(1)] dis assms(2) in \<open>auto simp: map_of_eq_Some_iff\<close>)
qed

lemma ht_ok_update:
  assumes "ht_ok h t" "i < length (table t)" "\<forall>e \<in> set b. hash_idx h (fst e) t = i"
    and "u = used t + length b - length (table t ! i)"
  shows "ht_ok h (t\<lparr>table := (table t)[i := b], used := u\<rparr>)"
proof -
  have "length (concat ((table t)[i := b])) = u"
    using length_concat_update [OF assms(2), of b] assms(1,4) by (simp add: ht_ok_def)
  moreover have "hash_idx h (fst e) t = j" if "j < length (table t)" "e \<in> set ((table t)[i := b] ! j)" for j e
    using that assms(1,3) by (cases "j = i") (auto simp: ht_ok_def)
  ultimately show ?thesis using assms(1) by (simp add: ht_ok_def size_ok_def hash_idx_def)
qed

lemma used_zero: "ht_ok h t \<Longrightarrow> used t = 0 \<longleftrightarrow> concat (table t) = []"
  by (simp add: ht_ok_def)

subsection \<open>Rehashing\<close>

lemma move_bucket_ok:
  assumes "ht_ok h t1" "ht_size t1 \<noteq> 0" "length es \<le> used t0"
  shows "\<exists>t1'. move_bucket h es t0 t1 = Some (t0\<lparr>used := used t0 - length es\<rparr>, t1')
    \<and> ht_ok h t1' \<and> ht_size t1' = ht_size t1 \<and> mset (concat (table t1')) = mset (concat (table t1)) + mset es"
  using assms
proof (induction es arbitrary: t0 t1)
  case (Cons e es)
  obtain k v where e: "e = (k, v)" by (cases e)
  let ?i = "hash_idx h k t1" and ?t0 = "t0\<lparr>used := used t0 - 1\<rparr>"
  have i: "?i < length (table t1)"
    using Cons.prems by (intro hash_idx_less) (auto simp: ht_ok_def)
  define t1' where "t1' = t1\<lparr>table := (table t1)[?i := e # table t1 ! ?i], used := used t1 + 1\<rparr>"
  have "\<forall>x \<in> set (e # table t1 ! ?i). hash_idx h (fst x) t1 = ?i"
    using Cons.prems(1) i e by (auto simp: ht_ok_def)
  then have ok: "ht_ok h t1'"
    unfolding t1'_def by (intro ht_ok_update [OF Cons.prems(1) i]) simp_all
  have ms: "mset (concat (table t1')) = add_mset e (mset (concat (table t1)))"
    using mset_concat_update [OF i, of "e # table t1 ! ?i"] by (simp add: t1'_def)
  have sz: "ht_size t1' = ht_size t1" by (simp add: t1'_def)
  have "length es \<le> used ?t0" using Cons.prems(3) by simp
  from Cons.IH [of t1' ?t0, OF ok _ this] sz Cons.prems(2)
  obtain t1'' where t1'': "move_bucket h es ?t0 t1' = Some (?t0\<lparr>used := used ?t0 - length es\<rparr>, t1'')"
    "ht_ok h t1''" "ht_size t1'' = ht_size t1"
    "mset (concat (table t1'')) = mset (concat (table t1')) + mset es" by auto
  have "move_bucket h (e # es) t0 t1 = move_bucket h es ?t0 t1'"
    using i e by (simp add: Let_def t1'_def)
  moreover have "?t0\<lparr>used := used ?t0 - length es\<rparr> = t0\<lparr>used := used t0 - length (e # es)\<rparr>" by simp
  ultimately show ?case using t1'' ms by simp
qed simp

lemma skip_empty_ok:
  "j < length tb \<Longrightarrow> i \<le> j \<Longrightarrow> tb ! j \<noteq> [] \<Longrightarrow>
    \<exists>m \<ge> i. skip_empty tb i = Some m \<and> m \<le> j \<and> tb ! m \<noteq> [] \<and> (\<forall>x. i \<le> x \<longrightarrow> x < m \<longrightarrow> tb ! x = [])"
proof (induction tb i rule: skip_empty.induct)
  case (1 tb i)
  show ?case
  proof (cases "tb ! i = []")
    case True
    then have ij: "i + 1 \<le> j" using "1.prems" by (cases "i = j") auto
    have il: "i < length tb" using "1.prems"(1,2) by simp
    obtain m where m: "m \<ge> i + 1" "skip_empty tb (i + 1) = Some m" "m \<le> j" "tb ! m \<noteq> []"
      "\<forall>x. i + 1 \<le> x \<longrightarrow> x < m \<longrightarrow> tb ! x = []"
      using "1.IH" [OF il True "1.prems"(1) ij "1.prems"(3)] by blast
    have "tb ! x = []" if "i \<le> x" "x < m" for x
      using that True m(5) by (cases "i = x") auto
    moreover have "skip_empty tb i = Some m" using il True m(2) by (simp add: skip_empty.simps [of tb i])
    ultimately show ?thesis using m(1,3,4) by (intro exI [of _ m]) auto
  next
    case False
    then show ?thesis using "1.prems" by (intro exI [of _ i]) (auto simp: skip_empty.simps [of tb i])
  qed
qed

lemma first_nonempty:
  assumes "concat tb \<noteq> []" "\<forall>i < n. i < length tb \<longrightarrow> tb ! i = []"
  shows "\<exists>j < length tb. n \<le> j \<and> tb ! j \<noteq> []"
proof -
  obtain b where "b \<in> set tb" "b \<noteq> []" using assms(1) by auto
  then obtain j where "j < length tb" "tb ! j \<noteq> []" by (auto simp: in_set_conv_nth)
  then show ?thesis using assms(2) by (auto simp: not_less [symmetric])
qed

text \<open>One step with keys left in the old table.\<close>

lemma rehash_one:
  assumes d: "dict_ok h d" "dictIsRehashing d" "used (ht0 d) \<noteq> 0"
  shows "\<exists>d'. rehash_steps h (Suc n) d = rehash_steps h n d' \<and> dict_ok h d' \<and> dictIsRehashing d'
    \<and> mset (dict_entries d') = mset (dict_entries d) \<and> iterators d' = iterators d
    \<and> used (ht0 d') < used (ht0 d) \<and> ht_size (ht0 d') = ht_size (ht0 d) \<and> ht_size (ht1 d') = ht_size (ht1 d)"
proof -
  let ?t0 = "ht0 d" and ?t1 = "ht1 d"
  have t0: "ht_ok h ?t0" and t1: "ht_ok h ?t1" "ht_size ?t1 \<noteq> 0" and ri: "0 \<le> rehashidx d"
    and emp: "\<forall>i < nat (rehashidx d). i < length (table ?t0) \<longrightarrow> table ?t0 ! i = []"
    using d by (auto simp: dict_ok_def ht_ok_def size_ok_def)
  obtain j where j: "j < length (table ?t0)" "nat (rehashidx d) \<le> j" "table ?t0 ! j \<noteq> []"
    using first_nonempty [OF _ emp] d(3) used_zero [OF t0] by auto
  obtain m where m: "nat (rehashidx d) \<le> m" "skip_empty (table ?t0) (nat (rehashidx d)) = Some m"
    "m < length (table ?t0)" "table ?t0 ! m \<noteq> []"
    "\<forall>x. nat (rehashidx d) \<le> x \<longrightarrow> x < m \<longrightarrow> table ?t0 ! x = []"
    using skip_empty_ok [OF j] j(1) by auto
  let ?b = "table ?t0 ! m"
  have lb: "length ?b \<le> used ?t0"
    using length_concat_update [OF m(3), of "[]"] t0 by (simp add: ht_ok_def)
  obtain t1' where mv: "move_bucket h ?b ?t0 ?t1 = Some (?t0\<lparr>used := used ?t0 - length ?b\<rparr>, t1')"
    "ht_ok h t1'" "ht_size t1' = ht_size ?t1" "mset (concat (table t1')) = mset (concat (table ?t1)) + mset ?b"
    using move_bucket_ok [OF t1 lb] by blast
  define d' where "d' = d\<lparr>ht0 := ?t0\<lparr>used := used ?t0 - length ?b, table := (table ?t0)[m := []]\<rparr>,
    ht1 := t1', rehashidx := int m + 1\<rparr>"
  have "ht_ok h (?t0\<lparr>table := (table ?t0)[m := []], used := used ?t0 - length ?b\<rparr>)"
    by (intro ht_ok_update [OF t0 m(3)]) simp_all
  moreover have "ht0 d' = ?t0\<lparr>table := (table ?t0)[m := []], used := used ?t0 - length ?b\<rparr>"
    by (simp add: d'_def)
  ultimately have "ht_ok h (ht0 d')" by simp
  moreover have ms: "mset (dict_entries d') = mset (dict_entries d)"
    using mset_concat_update [OF m(3), of "[]"] mv(4) by (simp add: dict_entries_def d'_def)
  moreover have "table (ht0 d') ! i = []" if "i < nat (int m + 1)" "i < length (table ?t0)" for i
    using that emp m(5) by (cases "i = m") (auto simp: d'_def not_less [symmetric])
  moreover have "length (table ?t0) = ht_size ?t0" using t0 by (simp add: ht_ok_def size_ok_def)
  ultimately have ok: "dict_ok h d'"
    using d(1,2) mv(2,3) t1(2) keys_eq(1) [OF ms]
    by (auto simp: dict_ok_def dictIsRehashing_def d'_def)
  have "rehashidx d < int (ht_size ?t0)"
    using j(1,2) t0 ri by (simp add: ht_ok_def size_ok_def)
  then have "rehash_steps h (Suc n) d = rehash_steps h n d'"
    using m(2) mv(1) d(3) by (simp add: d'_def)
  moreover have "used (ht0 d') < used ?t0" using m(4) d(3) by (simp add: d'_def)
  moreover have "dictIsRehashing d'" "iterators d' = iterators d" "ht_size (ht0 d') = ht_size ?t0"
    "ht_size (ht1 d') = ht_size ?t1"
    using mv(3) by (simp_all add: d'_def dictIsRehashing_def)
  ultimately show ?thesis using ok ms by blast
qed

text \<open>A dictionary that holds the same entries.\<close>

definition same_dict :: "('k \<Rightarrow> 32 word) \<Rightarrow> ('k, 'v) dict \<Rightarrow> ('k, 'v) dict \<Rightarrow> bool" where
  "same_dict h d d' \<longleftrightarrow> dict_ok h d' \<and> mset (dict_entries d') = mset (dict_entries d)
     \<and> iterators d' = iterators d \<and> (ht_size (ht0 d) \<noteq> 0 \<longrightarrow> ht_size (ht0 d') \<noteq> 0)"

lemma same_dict_refl: "dict_ok h d \<Longrightarrow> same_dict h d d"
  by (simp add: same_dict_def)

lemma same_dict_trans: "same_dict h a b \<Longrightarrow> same_dict h b c \<Longrightarrow> same_dict h a c"
  by (simp add: same_dict_def)

lemma same_dict_map: "same_dict h d d' \<Longrightarrow> dict_ok h d \<Longrightarrow> dict_map d' = dict_map d"
  using keys_eq(2) [of d' d] by (simp add: same_dict_def dict_ok_def)

lemma rehash_done:
  assumes "dict_ok h d" "dictIsRehashing d" "used (ht0 d) = 0"
  shows "rehash_steps h (Suc n) d = Some (d\<lparr>ht0 := ht1 d, ht1 := dictReset, rehashidx := -1\<rparr>, False)"
    and "same_dict h d (d\<lparr>ht0 := ht1 d, ht1 := dictReset, rehashidx := -1\<rparr>)"
proof -
  let ?d = "d\<lparr>ht0 := ht1 d, ht1 := dictReset, rehashidx := -1\<rparr>"
  show "rehash_steps h (Suc n) d = Some (?d, False)" using assms(3) by simp
  have "concat (table (ht0 d)) = []" using assms used_zero by (auto simp: dict_ok_def simp del: concat_eq_Nil_conv)
  then have "dict_entries ?d = dict_entries d" by (simp add: dict_entries_def dictReset_def)
  then show "same_dict h d ?d"
    using assms(1,2) ht_ok_reset by (simp add: same_dict_def dict_ok_def dictIsRehashing_def)
qed

lemma rehash_steps_ok:
  assumes "dict_ok h d" "dictIsRehashing d"
  shows "\<exists>d' m. rehash_steps h n d = Some (d', m) \<and> same_dict h d d' \<and> m = dictIsRehashing d'
    \<and> (used (ht0 d) < n \<longrightarrow> \<not> m)
    \<and> (m \<longrightarrow> ht_size (ht0 d') = ht_size (ht0 d) \<and> ht_size (ht1 d') = ht_size (ht1 d)
         \<and> used (ht0 d') + n \<le> used (ht0 d))
    \<and> (\<not> m \<longrightarrow> ht_size (ht0 d') = ht_size (ht1 d))"
  using assms
proof (induction n arbitrary: d)
  case 0
  then show ?case by (simp add: same_dict_refl)
next
  case (Suc n)
  show ?case
  proof (cases "used (ht0 d) = 0")
    case True
    from rehash_done [OF Suc.prems True] show ?thesis by (simp add: dictIsRehashing_def)
  next
    case False
    obtain d1 where d1: "rehash_steps h (Suc n) d = rehash_steps h n d1" "dict_ok h d1" "dictIsRehashing d1"
      "mset (dict_entries d1) = mset (dict_entries d)" "iterators d1 = iterators d"
      "used (ht0 d1) < used (ht0 d)" "ht_size (ht0 d1) = ht_size (ht0 d)" "ht_size (ht1 d1) = ht_size (ht1 d)"
      using rehash_one [OF Suc.prems False, of n] by blast
    then have "same_dict h d d1" by (simp add: same_dict_def)
    moreover obtain d' m where "rehash_steps h n d1 = Some (d', m)" "same_dict h d1 d'" "m = dictIsRehashing d'"
      "used (ht0 d1) < n \<longrightarrow> \<not> m"
      "m \<longrightarrow> ht_size (ht0 d') = ht_size (ht0 d1) \<and> ht_size (ht1 d') = ht_size (ht1 d1)
         \<and> used (ht0 d') + n \<le> used (ht0 d1)"
      "\<not> m \<longrightarrow> ht_size (ht0 d') = ht_size (ht1 d1)"
      using Suc.IH [OF d1(2,3)] by blast
    ultimately show ?thesis using d1 same_dict_trans [of h d d1 d'] by auto
  qed
qed

lemma dictRehash_same: "dict_ok h d \<Longrightarrow> \<exists>d' m. dictRehash h d n = Some (d', m) \<and> same_dict h d d' \<and> m = dictIsRehashing d'"
  using rehash_steps_ok [of h d n] by (auto simp: dictRehash_def same_dict_refl)

lemma step_same: "dict_ok h d \<Longrightarrow> \<exists>d'. step_if_rehashing h d = Some d' \<and> same_dict h d d'"
  using dictRehash_same [of h d 1]
  by (auto simp: step_if_rehashing_def dictRehashStep_def same_dict_refl)

subsection \<open>Lookup\<close>

lemma chain_pos_Some: "chain_pos k es = Some p \<Longrightarrow> p < length es \<and> fst (es ! p) = k"
  by (induction es arbitrary: p) (auto split: if_splits)

lemma chain_pos_None: "chain_pos k es = None \<longleftrightarrow> k \<notin> fst ` set es"
  by (induction es) auto

definition ref_ok :: "('k, 'v) dict \<Rightarrow> 'k \<Rightarrow> entry_ref \<Rightarrow> bool" where
  "ref_ok d k r \<longleftrightarrow> (case r of (t, i, p) \<Rightarrow>
     (t = 0 \<or> t = 1 \<and> dictIsRehashing d) \<and> i < length (table (get_ht d t))
     \<and> p < length (table (get_ht d t) ! i) \<and> fst (table (get_ht d t) ! i ! p) = k)"

lemma bucket_ok:
  assumes "ht_ok h t" "ht_size t \<noteq> 0"
  shows "\<exists>i b. bucket h t k = Some (i, b) \<and> i < length (table t) \<and> i = hash_idx h k t \<and> b = table t ! i
    \<and> (k \<in> fst ` set b \<longleftrightarrow> k \<in> fst ` set (concat (table t)))"
proof -
  let ?i = "hash_idx h k t"
  have i: "?i < length (table t)" using assms by (intro hash_idx_less) (simp_all add: ht_ok_def)
  have "k \<in> fst ` set (table t ! ?i)" if kin: "k \<in> fst ` set (concat (table t))"
  proof -
    obtain v b where b: "b \<in> set (table t)" "(k, v) \<in> set b" using kin by auto
    then obtain j where "j < length (table t)" "b = table t ! j" by (auto simp: in_set_conv_nth)
    moreover from this have "?i = j" using assms(1) b(2) unfolding ht_ok_def by fastforce
    ultimately show ?thesis using b(2) by force
  qed
  moreover have "k \<in> fst ` set (concat (table t))" if "k \<in> fst ` set (table t ! ?i)"
    using that i by auto (use nth_mem in force)
  ultimately show ?thesis using i by (auto simp: bucket_def Let_def)
qed

lemma search_tables_ok:
  assumes d: "dict_ok h d" "ht_size (ht0 d) \<noteq> 0"
  shows "\<exists>r i. search_tables h d k = Some (r, i)
    \<and> (case r of Some e \<Rightarrow> ref_ok d k e
       | None \<Rightarrow> k \<notin> fst ` set (dict_entries d)
           \<and> i = hash_idx h k (get_ht d (if dictIsRehashing d then 1 else 0))
           \<and> i < length (table (get_ht d (if dictIsRehashing d then 1 else 0))))"
proof -
  obtain i0 b0 where b0: "bucket h (ht0 d) k = Some (i0, b0)" "i0 < length (table (ht0 d))"
    "i0 = hash_idx h k (ht0 d)" "b0 = table (ht0 d) ! i0" "k \<in> fst ` set b0 \<longleftrightarrow> k \<in> fst ` set (concat (table (ht0 d)))"
    using bucket_ok [of h "ht0 d" k] d by (auto simp: dict_ok_def)
  show ?thesis
  proof (cases "chain_pos k b0")
    case (Some p)
    then show ?thesis using b0 chain_pos_Some [OF Some]
      by (simp add: search_tables_def ref_ok_def get_ht_def)
  next
    case None
    then have n0: "k \<notin> fst ` set (concat (table (ht0 d)))" using b0(5) by (simp add: chain_pos_None)
    show ?thesis
    proof (cases "dictIsRehashing d")
      case False
      then have "table (ht1 d) = []" using d(1) by (simp add: dict_ok_def dictReset_def)
      then show ?thesis using False None b0 n0
        by (simp add: search_tables_def get_ht_def dict_entries_def)
    next
      case True
      obtain i1 b1 where b1: "bucket h (ht1 d) k = Some (i1, b1)" "i1 < length (table (ht1 d))"
        "i1 = hash_idx h k (ht1 d)" "b1 = table (ht1 d) ! i1"
        "k \<in> fst ` set b1 \<longleftrightarrow> k \<in> fst ` set (concat (table (ht1 d)))"
        using bucket_ok [of h "ht1 d" k] d(1) True by (auto simp: dict_ok_def)
      show ?thesis
      proof (cases "chain_pos k b1")
        case (Some p)
        then show ?thesis using True None b0 b1 chain_pos_Some [OF Some]
          by (simp add: search_tables_def ref_ok_def get_ht_def)
      next
        case n1: None
        then have "k \<notin> fst ` set (concat (table (ht1 d)))" using b1(5) by (simp add: chain_pos_None)
        then show ?thesis using True None n1 b0 b1 n0
          by (simp add: search_tables_def get_ht_def dict_entries_def image_Un)
      qed
    qed
  qed
qed

subsection \<open>Changing a bucket\<close>

lemma get_set_ht [simp]:
  "get_ht (set_ht d t x) t = x" "t = 0 \<or> t = 1 \<Longrightarrow> set_ht d t (get_ht d t) = d"
  "dictIsRehashing (set_ht d t x) = dictIsRehashing d" "rehashidx (set_ht d t x) = rehashidx d"
  "iterators (set_ht d t x) = iterators d"
  by (auto simp: get_ht_def set_ht_def dictIsRehashing_def)

lemma set_bucket_mset:
  assumes "t = 0 \<or> t = 1" "i < length (table (get_ht d t))"
    "table x = (table (get_ht d t))[i := b]"
  shows "mset (dict_entries (set_ht d t x)) + mset (table (get_ht d t) ! i) = mset (dict_entries d) + mset b"
  using assms mset_concat_update [of i "table (get_ht d t)" b]
  by (auto simp: dict_entries_def get_ht_def set_ht_def ac_simps)

lemma set_bucket_ok:
  assumes d: "dict_ok h d" and t: "t = 0 \<or> t = 1 \<and> dictIsRehashing d" and i: "i < length (table (get_ht d t))"
    and x: "x = (get_ht d t)\<lparr>table := (table (get_ht d t))[i := b], used := u\<rparr>"
    and u: "u = used (get_ht d t) + length b - length (table (get_ht d t) ! i)"
    and b: "\<forall>e \<in> set b. hash_idx h (fst e) (get_ht d t) = i"
    and dis: "distinct (map fst (dict_entries (set_ht d t x)))"
    and old: "t = 0 \<Longrightarrow> dictIsRehashing d \<Longrightarrow> b \<noteq> [] \<Longrightarrow> table (get_ht d t) ! i \<noteq> []"
  shows "dict_ok h (set_ht d t x)"
proof -
  have hok: "ht_ok h (get_ht d t)" using d t by (auto simp: dict_ok_def get_ht_def)
  then have xok: "ht_ok h x" unfolding x by (intro ht_ok_update [OF _ i b u])
  have sz: "ht_size x = ht_size (get_ht d t)" by (simp add: x)
  show ?thesis
  proof (cases "t = 0")
    case True
    then have "table x ! j = []" if "dictIsRehashing d" "j < nat (rehashidx d)" "j < ht_size (ht0 d)" for j
      using that d old x i hok by (cases "j = i") (auto simp: dict_ok_def get_ht_def)
    then show ?thesis using True d xok sz dis
      by (auto simp: dict_ok_def set_ht_def get_ht_def dictIsRehashing_def)
  next
    case False
    then show ?thesis using t d xok sz dis
      by (auto simp: dict_ok_def set_ht_def get_ht_def dictIsRehashing_def)
  qed
qed

lemma size_get_ht: "dict_ok h d \<Longrightarrow> t = 0 \<or> t = 1 \<and> dictIsRehashing d \<Longrightarrow> i < length (table (get_ht d t))
    \<Longrightarrow> ht_size (ht0 d) \<noteq> 0"
  by (auto simp: dict_ok_def get_ht_def ht_ok_def size_ok_def)

lemma set_ht_size: "ht_size x = ht_size (get_ht d t) \<Longrightarrow> t = 0 \<or> t = 1
    \<Longrightarrow> ht_size (ht0 (set_ht d t x)) = ht_size (ht0 d)"
  by (auto simp: set_ht_def get_ht_def)

lemma ref_entry:
  assumes "ref_ok d k (t, i, p)"
  shows "dictGetEntry d (t, i, p) = Some (k, snd (table (get_ht d t) ! i ! p))"
    and "(k, snd (table (get_ht d t) ! i ! p)) \<in> set (dict_entries d)"
proof -
  let ?e = "table (get_ht d t) ! i ! p"
  have r: "t = 0 \<or> t = 1" "i < length (table (get_ht d t))" "p < length (table (get_ht d t) ! i)" "fst ?e = k"
    using assms by (auto simp: ref_ok_def)
  then have e: "?e = (k, snd ?e)" by auto
  then show "dictGetEntry d (t, i, p) = Some (k, snd ?e)" using r by (simp add: dictGetEntry_def Let_def)
  have "table (get_ht d t) ! i \<in> set (table (get_ht d t))" "?e \<in> set (table (get_ht d t) ! i)"
    using r(2,3) by simp_all
  then have "?e \<in> set (dict_entries d)" using r(1) by (auto simp: dict_entries_def get_ht_def)
  then show "(k, snd ?e) \<in> set (dict_entries d)" using e by simp
qed

lemma dict_map_iff: "dict_ok h d \<Longrightarrow> dict_map d k = Some v \<longleftrightarrow> (k, v) \<in> set (dict_entries d)"
  by (simp add: dict_ok_def dict_map_def map_of_eq_Some_iff)

lemma dict_map_None: "dict_map d k = None \<longleftrightarrow> k \<notin> fst ` set (dict_entries d)"
  by (simp add: dict_map_def map_of_eq_None_iff)

text \<open>The three changes of the multiset of entries, as changes of the map.\<close>

lemma map_add:
  assumes "distinct (map fst xs)" "k \<notin> fst ` set xs" "mset ys = add_mset (k, v) (mset xs)"
  shows "distinct (map fst ys) \<and> map_of ys = (map_of xs)(k \<mapsto> v)"
proof -
  have "mset ys = mset ((k, v) # xs)" using assms(3) by simp
  then have p: "mset (map fst ys) = mset (map fst ((k, v) # xs))" "set ys = set ((k, v) # xs)"
    by (simp, metis mset_eq_setD)
  have dis: "distinct (map fst ((k, v) # xs))" using assms(1,2) by simp
  then have dy: "distinct (map fst ys)" using p(1) mset_eq_imp_distinct_iff by metis
  have "map_of ys = map_of ((k, v) # xs)"
    by (rule map_of_eqI) (use p(2) dy dis in \<open>auto simp: map_of_eq_Some_iff\<close>)
  then show ?thesis using dy by simp
qed

lemma map_remove:
  assumes "distinct (map fst xs)" "add_mset (k, v) (mset ys) = mset xs"
  shows "distinct (map fst ys) \<and> map_of ys = (map_of xs)(k := None) \<and> map_of xs k = Some v"
proof -
  have p: "mset (map fst xs) = mset (map fst ((k, v) # ys))" using assms(2) [symmetric] by simp
  then have dis: "distinct (map fst ((k, v) # ys))" using assms(1) mset_eq_imp_distinct_iff by metis
  then have m: "map_of xs = (map_of ys)(k \<mapsto> v)" "map_of ys k = None"
    using map_add [where xs = ys and k = k and v = v and ys = xs] assms(2) by (simp_all add: map_of_eq_None_iff)
  then have "(map_of xs)(k := None) = map_of ys" by (auto simp: fun_eq_iff)
  then show ?thesis using dis m by simp
qed

lemma map_change:
  assumes "distinct (map fst xs)" "add_mset (k, v) (mset ys) = add_mset (k, w) (mset xs)" "(k, v) \<in> set xs"
  shows "distinct (map fst ys) \<and> map_of ys = (map_of xs)(k \<mapsto> w)"
proof -
  define zs where "zs = remove1 (k, v) xs"
  have zs: "add_mset (k, v) (mset zs) = mset xs" using assms(3) by (simp add: zs_def)
  then have "mset ys = add_mset (k, w) (mset zs)"
    using assms(2) by (metis add_mset_commute add_mset_add_mset_same_iff)
  moreover have z: "distinct (map fst zs)" "map_of zs = (map_of xs)(k := None)"
    using map_remove [OF assms(1) zs] by simp_all
  moreover from z have "k \<notin> fst ` set zs" using map_of_eq_None_iff [of zs k] by simp
  ultimately show ?thesis using map_add [where xs = zs and k = k and v = w and ys = ys] by simp
qed

subsection \<open>Expansion\<close>

lemma next_power_ok: "i = 2 ^ n \<Longrightarrow> \<exists>m \<ge> n. next_power i sz = 2 ^ m \<and> sz \<le> 2 ^ m \<and> (m = n \<or> 2 ^ m < 2 * sz)"
proof (induction i sz arbitrary: n rule: next_power.induct)
  case (1 i sz)
  show ?case
  proof (cases "i \<ge> sz")
    case True
    then show ?thesis using "1.prems" by (intro exI [of _ n]) (simp add: next_power.simps [of "2 ^ n"])
  next
    case False
    then obtain m where m: "m \<ge> Suc n" "next_power (2 * i) sz = 2 ^ m" "sz \<le> 2 ^ m" "m = Suc n \<or> 2 ^ m < 2 * sz"
      using "1.IH" [of "Suc n"] "1.prems" by auto
    moreover have "next_power i sz = next_power (2 * i) sz"
      using False "1.prems" by (subst next_power.simps) simp
    ultimately show ?thesis using False "1.prems" by (intro exI [of _ m]) auto
  qed
qed

lemma dictNextPower_ok:
  assumes "sz < 2 ^ 62"
  shows "\<exists>n. dictNextPower sz = 2 ^ n \<and> 2 \<le> n \<and> n \<le> 62 \<and> sz \<le> 2 ^ n"
proof -
  obtain m where m: "m \<ge> 2" "next_power 4 sz = 2 ^ m" "sz \<le> 2 ^ m" "m = 2 \<or> 2 ^ m < 2 * sz"
    using next_power_ok [of 4 2 sz] by auto
  have "m \<le> 62"
  proof (cases "m = 2")
    case False
    then have "(2::nat) ^ m < 2 ^ 63" using m(4) assms by simp
    then have "m < 63" by (rule power_less_imp_less_exp [rotated]) simp
    then show ?thesis by simp
  qed simp
  moreover have "int sz < LLONG_MAX" using assms by simp
  ultimately show ?thesis using m by (auto simp: dictNextPower_def DICT_HT_INITIAL_SIZE_def)
qed

lemma new_table_ok:
  assumes "r = 2 ^ n" "n \<le> 63"
  shows "ht_ok h \<lparr>table = replicate r [], ht_size = r, sizemask = r - 1, used = 0\<rparr>"
  using assms by (auto simp: ht_ok_def size_ok_def mask_eq_exp_minus_1)

lemma concat_replicate_Nil [simp]: "concat (replicate n []) = []"
  by (induction n) simp_all

lemma dictExpand_ok:
  assumes "dict_ok h d" "sz < 2 ^ 62"
  shows "\<exists>d' b. dictExpand d sz = (d', b) \<and> same_dict h d d' \<and> (b \<longrightarrow> ht_size (ht0 d') \<noteq> 0)
    \<and> (\<not> b \<longleftrightarrow> dictIsRehashing d \<or> sz < used (ht0 d)) \<and> iterators d' = iterators d"
proof -
  obtain n where n: "dictNextPower sz = 2 ^ n" "n \<le> 62"
    using dictNextPower_ok [OF assms(2)] by blast
  have new: "ht_ok h \<lparr>table = replicate (2 ^ n) [], ht_size = 2 ^ n, sizemask = 2 ^ n - 1, used = 0\<rparr>"
    using n(2) by (intro new_table_ok [of _ n]) simp_all
  have t0: "table (ht0 d) = [] \<longleftrightarrow> ht_size (ht0 d) = 0" "ht_ok h (ht0 d)"
    using assms(1) by (auto simp: dict_ok_def ht_ok_def size_ok_def)
  show ?thesis
  proof (cases "dictIsRehashing d \<or> sz < used (ht0 d)")
    case True
    then show ?thesis using assms(1) by (auto simp: dictExpand_def Let_def same_dict_refl)
  next
    case False
    then have h1: "ht1 d = dictReset" using assms(1) by (simp add: dict_ok_def)
    show ?thesis
    proof (cases "table (ht0 d) = []")
      case True
      then show ?thesis using False assms(1) new h1 n(1) t0
        by (auto simp: dictExpand_def Let_def same_dict_def dict_ok_def dict_entries_def dictIsRehashing_def)
    next
      case n0: False
      then show ?thesis using False assms(1) new h1 n(1) t0
        by (auto simp: dictExpand_def Let_def same_dict_def dict_ok_def dict_entries_def dictIsRehashing_def
            dictReset_def)
    qed
  qed
qed

lemma dictExpandIfNeeded_ok:
  assumes "dict_ok h d" "dictSize d < 2 ^ 61"
  shows "\<exists>d'. dictExpandIfNeeded cr d = (d', True) \<and> same_dict h d d' \<and> ht_size (ht0 d') \<noteq> 0"
proof -
  have u: "used (ht0 d) < 2 ^ 61" using assms(2) by (simp add: dictSize_def)
  consider "dictIsRehashing d" | "\<not> dictIsRehashing d" "ht_size (ht0 d) = 0"
    | "\<not> dictIsRehashing d" "ht_size (ht0 d) \<noteq> 0" by blast
  then show ?thesis
  proof cases
    case 1
    then show ?thesis using assms(1)
      by (simp add: dictExpandIfNeeded_def same_dict_refl) (simp add: dict_ok_def)
  next
    case 2
    have "used (ht0 d) = 0" using 2 assms(1) by (simp add: dict_ok_def ht_ok_def size_ok_def)
    then show ?thesis using dictExpand_ok [OF assms(1), of 4] 2
      by (auto simp: dictExpandIfNeeded_def DICT_HT_INITIAL_SIZE_def)
  next
    case 3
    obtain d' b where "dictExpand d (used (ht0 d) * 2) = (d', b)" "same_dict h d d'"
      "\<not> b \<longleftrightarrow> dictIsRehashing d \<or> used (ht0 d) * 2 < used (ht0 d)"
      using dictExpand_ok [OF assms(1), of "used (ht0 d) * 2"] u by auto
    then show ?thesis using 3 assms(1) by (auto simp: dictExpandIfNeeded_def same_dict_refl same_dict_def)
  qed
qed

subsection \<open>The operations\<close>

text \<open>The number of entries is the size that the code keeps.\<close>

lemma dictSize_entries: "dict_ok h d \<Longrightarrow> dictSize d = length (dict_entries d)"
  by (simp add: dict_ok_def ht_ok_def dictSize_def dict_entries_def)

lemma dictSize_card: "dict_ok h d \<Longrightarrow> dictSize d = card (dom (dict_map d)) \<and> finite (dom (dict_map d))"
proof -
  assume ok: "dict_ok h d"
  then have "distinct (map fst (dict_entries d))" by (simp add: dict_ok_def)
  then have "card (fst ` set (dict_entries d)) = length (dict_entries d)"
    using distinct_card by (fastforce simp flip: set_map)
  then show ?thesis using dictSize_entries [OF ok] by (simp add: dict_map_def dom_map_of_conv_image_fst)
qed

lemma same_dict_size: "same_dict h d d' \<Longrightarrow> dict_ok h d \<Longrightarrow> dictSize d' = dictSize d"
  using dictSize_card same_dict_map by (metis same_dict_def)

lemma search_found:
  assumes "dict_ok h d" "ht_size (ht0 d) \<noteq> 0"
  shows "\<exists>r i. search_tables h d k = Some (r, i) \<and> (r = None \<longleftrightarrow> dict_map d k = None)
    \<and> (\<forall>e. r = Some e \<longrightarrow> ref_ok d k e \<and> dictGetEntry d e = map_option (Pair k) (dict_map d k))"
proof -
  obtain r i where r: "search_tables h d k = Some (r, i)"
    "case r of Some e \<Rightarrow> ref_ok d k e | None \<Rightarrow> k \<notin> fst ` set (dict_entries d)"
    using search_tables_ok [OF assms, of k] by (auto split: option.splits)
  have "dictGetEntry d e = map_option (Pair k) (dict_map d k)" if e: "ref_ok d k e" for e
  proof -
    obtain t j p where "e = (t, j, p)" by (cases e)
    with e have r: "ref_ok d k (t, j, p)" by simp
    have "dict_map d k = Some (snd (table (get_ht d t) ! j ! p))"
      using ref_entry(2) [OF r] dict_map_iff [OF assms(1)] by simp
    then show ?thesis using ref_entry(1) [OF r] \<open>e = _\<close> by simp
  qed
  moreover have "dict_map d k \<noteq> None" if "ref_ok d k e" for e
    using that by (cases e) (use ref_entry(2) dict_map_None [of d k] in \<open>force\<close>)
  ultimately show ?thesis using r by (cases r) (auto simp: dict_map_None)
qed

lemma dictFind_ok:
  assumes "dict_ok h d"
  shows "\<exists>d' r. dictFind h d k = Some (d', r) \<and> same_dict h d d' \<and> (r = None \<longleftrightarrow> dict_map d k = None)
    \<and> (\<forall>e. r = Some e \<longrightarrow> ref_ok d' k e \<and> dictGetEntry d' e = map_option (Pair k) (dict_map d k))"
proof (cases "ht_size (ht0 d) = 0")
  case True
  then have "dict_entries d = []"
    using assms by (auto simp: dict_ok_def dict_entries_def ht_ok_def size_ok_def dictReset_def split: if_splits)
  then show ?thesis using True assms by (simp add: dictFind_def same_dict_refl dict_map_def)
next
  case False
  obtain d' where d': "step_if_rehashing h d = Some d'" "same_dict h d d'"
    using step_same [OF assms] by blast
  have "dict_map d' = dict_map d" by (rule same_dict_map [OF d'(2) assms])
  moreover have "dict_ok h d'" "ht_size (ht0 d') \<noteq> 0" using d'(2) False by (auto simp: same_dict_def)
  ultimately show ?thesis
    using False d' search_found [of h d' k] by (auto simp: dictFind_def)
qed

lemma mset_swap:
  assumes "d' + b = d + b'" "add_mset x b' = add_mset y b"
  shows "add_mset x d' = add_mset y d"
proof -
  have "add_mset x d' + b = d + add_mset x b'" using assms(1) by simp
  also have "\<dots> = add_mset y d + b" by (simp add: assms(2))
  finally show ?thesis by (simp only: add_right_cancel)
qed

lemma dictSetVal_ok:
  assumes ok: "dict_ok h d" and r: "ref_ok d k e"
  shows "\<exists>d'. dictSetVal d e v = Some d' \<and> dict_ok h d' \<and> dict_map d' = (dict_map d)(k \<mapsto> v)
    \<and> iterators d' = iterators d"
proof -
  obtain t i p where e: "e = (t, i, p)" by (cases e)
  let ?x = "get_ht d t" and ?b = "table (get_ht d t) ! i"
  have t: "t = 0 \<or> t = 1 \<and> dictIsRehashing d" "i < length (table ?x)" "p < length ?b" "fst (?b ! p) = k"
    using r by (auto simp: ref_ok_def e)
  let ?b' = "?b[p := (k, v)]"
  define x' where "x' = ?x\<lparr>table := (table ?x)[i := ?b'], used := used ?x\<rparr>"
  let ?d = "set_ht d t x'"
  have t01: "t = 0 \<or> t = 1" using t(1) by blast
  have "mset (dict_entries ?d) + mset ?b = mset (dict_entries d) + mset ?b'"
    by (rule set_bucket_mset [OF t01 t(2)]) (simp add: x'_def)
  moreover have "add_mset (?b ! p) (mset ?b') = add_mset (k, v) (mset ?b)"
    using t(3) by (simp add: mset_update add_mset_commute)
  ultimately have "add_mset (?b ! p) (mset (dict_entries ?d)) = add_mset (k, v) (mset (dict_entries d))"
    by (rule mset_swap)
  moreover have bp: "?b ! p = (k, snd (?b ! p))" using t(4) by (metis prod.collapse)
  moreover have "(k, snd (?b ! p)) \<in> set (dict_entries d)" using ref_entry(2) r e by metis
  ultimately have ch: "distinct (map fst (dict_entries ?d))" "dict_map ?d = (dict_map d)(k \<mapsto> v)"
    using map_change [of "dict_entries d" k "snd (?b ! p)" "dict_entries ?d" v] ok
    by (simp_all add: dict_ok_def dict_map_def)
  have hok: "ht_ok h ?x" using ok t(1) by (auto simp: dict_ok_def get_ht_def)
  have "hash_idx h (fst y) ?x = i" if "y \<in> set ?b'" for y
  proof -
    have "hash_idx h (fst z) ?x = i" if "z \<in> set ?b" for z using hok t(2) that by (simp add: ht_ok_def)
    moreover have "?b ! p \<in> set ?b" using t(3) by simp
    ultimately show ?thesis using that t(4) set_update_subset_insert [of ?b p "(k, v)"] by fastforce
  qed
  then have "dict_ok h ?d"
    using t by (intro set_bucket_ok [OF ok t(1,2) _ _ _ ch(1), where b = ?b' and u = "used ?x"]) (auto simp: x'_def)
  moreover have "dictSetVal d e v = Some ?d"
    using t by (simp add: dictSetVal_def e x'_def Let_def)
  ultimately show ?thesis using ch(2) by auto
qed

lemma dictAddRaw_ok:
  assumes ok: "dict_ok h d" and sz: "dictSize d < 2 ^ 61"
  shows "\<exists>d' r. dictAddRaw h cr junk d k = Some (d', r) \<and> dict_ok h d' \<and> iterators d' = iterators d
    \<and> (r = None \<longleftrightarrow> dict_map d k \<noteq> None) \<and> (r = None \<longrightarrow> dict_map d' = dict_map d)
    \<and> (\<forall>e. r = Some e \<longrightarrow> ref_ok d' k e \<and> dict_map d' = (dict_map d)(k \<mapsto> junk))"
proof -
  obtain d1 where d1: "step_if_rehashing h d = Some d1" "same_dict h d d1"
    using step_same [OF ok] by blast
  then have ok1: "dict_ok h d1" and sz1: "dictSize d1 < 2 ^ 61"
    using same_dict_size [OF d1(2) ok] sz by (simp_all add: same_dict_def)
  obtain d2 where d2: "dictExpandIfNeeded cr d1 = (d2, True)" "same_dict h d1 d2" "ht_size (ht0 d2) \<noteq> 0"
    using dictExpandIfNeeded_ok [OF ok1 sz1] by blast
  have s2: "same_dict h d d2" using same_dict_trans d1(2) d2(2) by blast
  then have ok2: "dict_ok h d2" and m2: "dict_map d2 = dict_map d" and it2: "iterators d2 = iterators d"
    using same_dict_map [OF s2 ok] by (simp_all add: same_dict_def)
  define t where "t = (if dictIsRehashing d2 then 1 else 0 :: nat)"
  obtain r i where r: "search_tables h d2 k = Some (r, i)"
    "case r of Some e \<Rightarrow> ref_ok d2 k e
     | None \<Rightarrow> k \<notin> fst ` set (dict_entries d2) \<and> i = hash_idx h k (get_ht d2 t) \<and> i < length (table (get_ht d2 t))"
    using search_tables_ok [OF ok2 d2(3), of k] unfolding t_def by blast
  show ?thesis
  proof (cases r)
    case (Some e)
    then have "dict_map d k \<noteq> None"
      using r(2) ref_entry(2) dict_map_None [of d2 k] m2 by (cases e) force
    then show ?thesis using d1(1) d2(1) r Some ok2 m2 it2
      by (auto simp: dictAddRaw_def dictKeyIndex_def)
  next
    case None
    then have i: "i = hash_idx h k (get_ht d2 t)" "i < length (table (get_ht d2 t))"
      and new: "k \<notin> fst ` set (dict_entries d2)" using r(2) by simp_all
    have tt: "t = 0 \<or> t = 1 \<and> dictIsRehashing d2" "t = 0 \<or> t = 1" by (auto simp: t_def)
    let ?x = "get_ht d2 t" and ?b = "(k, junk) # table (get_ht d2 t) ! i"
    define x' where "x' = ?x\<lparr>table := (table ?x)[i := ?b], used := used ?x + 1\<rparr>"
    let ?d = "set_ht d2 t x'"
    have ms: "mset (dict_entries ?d) = add_mset (k, junk) (mset (dict_entries d2))"
      using set_bucket_mset [OF tt(2) i(2), of x' ?b] by (simp add: x'_def)
    have "distinct (map fst (dict_entries d2))" using ok2 by (simp add: dict_ok_def)
    from map_add [OF this new ms]
    have ch: "distinct (map fst (dict_entries ?d))" "dict_map ?d = (dict_map d2)(k \<mapsto> junk)"
      by (simp_all add: dict_map_def)
    have "ht_ok h ?x" using ok2 tt(1) by (auto simp: dict_ok_def get_ht_def)
    then have "\<forall>e \<in> set ?b. hash_idx h (fst e) ?x = i" using i by (auto simp: ht_ok_def)
    then have "dict_ok h ?d"
      using tt i by (intro set_bucket_ok [OF ok2 tt(1) i(2) _ _ _ ch(1), where b = ?b and u = "used ?x + 1"])
        (auto simp: x'_def t_def)
    moreover have "ref_ok ?d k (t, i, 0)"
      using tt i by (auto simp: ref_ok_def x'_def)
    moreover have "dictAddRaw h cr junk d k = Some (?d, Some (t, i, 0))"
      using d1(1) d2(1) r None i by (simp add: dictAddRaw_def dictKeyIndex_def t_def x'_def Let_def)
    ultimately show ?thesis using ch(2) m2 it2 new dict_map_None [of d2 k] by simp
  qed
qed

lemma dictAdd_ok:
  assumes ok: "dict_ok h d" and sz: "dictSize d < 2 ^ 61"
  shows "\<exists>d'. dictAdd h cr junk d k v = Some (d', dict_map d k = None) \<and> dict_ok h d' \<and> iterators d' = iterators d
    \<and> dict_map d' = (if dict_map d k = None then (dict_map d)(k \<mapsto> v) else dict_map d)"
proof -
  obtain d1 r where r: "dictAddRaw h cr junk d k = Some (d1, r)" "dict_ok h d1" "iterators d1 = iterators d"
    "r = None \<longleftrightarrow> dict_map d k \<noteq> None" "r = None \<longrightarrow> dict_map d1 = dict_map d"
    "\<forall>e. r = Some e \<longrightarrow> ref_ok d1 k e \<and> dict_map d1 = (dict_map d)(k \<mapsto> junk)"
    using dictAddRaw_ok [OF assms, of cr junk k] by blast
  show ?thesis
  proof (cases r)
    case None
    then show ?thesis using r by (auto simp: dictAdd_def)
  next
    case (Some e)
    then obtain d2 where "dictSetVal d1 e v = Some d2" "dict_ok h d2" "dict_map d2 = (dict_map d1)(k \<mapsto> v)"
      "iterators d2 = iterators d1"
      using dictSetVal_ok [OF r(2)] r(6) by blast
    then show ?thesis using r Some by (auto simp: dictAdd_def)
  qed
qed

lemma dictFind_None:
  assumes "dict_ok h d" "dict_map d k = None"
  shows "\<exists>d'. dictFind h d k = Some (d', None) \<and> same_dict h d d'"
  using dictFind_ok [OF assms(1), of k] assms(2) by fastforce

lemma dictFind_Some:
  assumes "dict_ok h d" "dict_map d k = Some v"
  shows "\<exists>d' e. dictFind h d k = Some (d', Some e) \<and> same_dict h d d' \<and> ref_ok d' k e
    \<and> dictGetEntry d' e = Some (k, v)"
proof -
  obtain d' r where r: "dictFind h d k = Some (d', r)" "same_dict h d d'" "r \<noteq> None"
    "\<forall>e. r = Some e \<longrightarrow> ref_ok d' k e \<and> dictGetEntry d' e = map_option (Pair k) (dict_map d k)"
    using dictFind_ok [OF assms(1), of k] assms(2) by fastforce
  then obtain e where "r = Some e" by blast
  then show ?thesis using r assms(2) by simp
qed

lemma dictFetchValue_ok:
  assumes "dict_ok h d"
  shows "\<exists>d'. dictFetchValue h d k = Some (d', dict_map d k) \<and> same_dict h d d'"
proof (cases "dict_map d k")
  case None
  then show ?thesis using dictFind_None [OF assms None] by (auto simp: dictFetchValue_def)
next
  case (Some v)
  then show ?thesis using dictFind_Some [OF assms Some] by (auto simp: dictFetchValue_def)
qed

lemma dictReplace_ok:
  assumes ok: "dict_ok h d" and sz: "dictSize d < 2 ^ 61"
  shows "\<exists>d'. dictReplace h cr junk d k v = Some (d', dict_map d k = None, dict_map d k) \<and> dict_ok h d'
    \<and> iterators d' = iterators d \<and> dict_map d' = (dict_map d)(k \<mapsto> v)"
proof -
  obtain d1 where d1: "dictAdd h cr junk d k v = Some (d1, dict_map d k = None)" "dict_ok h d1"
    "iterators d1 = iterators d"
    "dict_map d1 = (if dict_map d k = None then (dict_map d)(k \<mapsto> v) else dict_map d)"
    using dictAdd_ok [OF assms] by blast
  show ?thesis
  proof (cases "dict_map d k")
    case None
    then show ?thesis using d1 by (auto simp: dictReplace_def)
  next
    case (Some w)
    then have "dict_map d1 k = Some w" using d1(4) by simp
    then obtain d2 e where e: "dictFind h d1 k = Some (d2, Some e)" "same_dict h d1 d2" "ref_ok d2 k e"
      "dictGetEntry d2 e = Some (k, w)"
      using dictFind_Some [OF d1(2)] by blast
    have d2: "dict_ok h d2" "iterators d2 = iterators d1" "dict_map d2 = dict_map d1"
      using e(2) same_dict_map [OF e(2) d1(2)] by (simp_all add: same_dict_def)
    obtain d3 where "dictSetVal d2 e v = Some d3" "dict_ok h d3" "dict_map d3 = (dict_map d2)(k \<mapsto> v)"
      "iterators d3 = iterators d2"
      using dictSetVal_ok [OF d2(1) e(3)] by blast
    then show ?thesis using d1 d2 e Some by (simp add: dictReplace_def)
  qed
qed

lemma dictGenericDelete_ok:
  assumes ok: "dict_ok h d"
  shows "\<exists>d'. dictGenericDelete h d k nofree
      = Some (d', dict_map d k \<noteq> None, if nofree then None else map_option (Pair k) (dict_map d k))
    \<and> dict_ok h d' \<and> iterators d' = iterators d \<and> dict_map d' = (dict_map d)(k := None)"
proof (cases "ht_size (ht0 d) = 0")
  case True
  then have "dict_entries d = []"
    using ok by (auto simp: dict_ok_def dict_entries_def ht_ok_def size_ok_def dictReset_def split: if_splits)
  then show ?thesis using True ok by (simp add: dictGenericDelete_def dict_map_def)
next
  case False
  obtain d1 where d1: "step_if_rehashing h d = Some d1" "same_dict h d d1"
    using step_same [OF ok] by blast
  have ok1: "dict_ok h d1" and m1: "dict_map d1 = dict_map d" and it1: "iterators d1 = iterators d"
    and z1: "ht_size (ht0 d1) \<noteq> 0"
    using d1(2) False same_dict_map [OF d1(2) ok] by (auto simp: same_dict_def)
  obtain r j where r: "search_tables h d1 k = Some (r, j)" "r = None \<longleftrightarrow> dict_map d1 k = None"
    "\<forall>e. r = Some e \<longrightarrow> ref_ok d1 k e \<and> dictGetEntry d1 e = map_option (Pair k) (dict_map d1 k)"
    using search_found [OF ok1 z1, of k] by (elim exE conjE) (rule that)
  show ?thesis
  proof (cases r)
    case None
    then have "(dict_map d)(k := None) = dict_map d" using r(2) m1 by auto
    then show ?thesis using None False d1(1) r(1,2) ok1 m1 it1 by (auto simp: dictGenericDelete_def)
  next
    case (Some e)
    obtain t i p where e: "e = (t, i, p)" by (cases e)
    let ?x = "get_ht d1 t" and ?b = "table (get_ht d1 t) ! i"
    have t: "t = 0 \<or> t = 1 \<and> dictIsRehashing d1" "i < length (table ?x)" "p < length ?b" "fst (?b ! p) = k"
      using r(3) Some e by (auto simp: ref_ok_def)
    have t01: "t = 0 \<or> t = 1" using t(1) by blast
    let ?b' = "take p ?b @ drop (Suc p) ?b"
    define x' where "x' = ?x\<lparr>table := (table ?x)[i := ?b'], used := used ?x - 1\<rparr>"
    let ?d = "set_ht d1 t x'"
    have bs: "?b = take p ?b @ ?b ! p # drop (Suc p) ?b" using t(3) by (rule id_take_nth_drop)
    have "add_mset (?b ! p) (mset ?b') = mset ?b" by (subst (2) bs) simp
    moreover have "mset (dict_entries ?d) + mset ?b = mset (dict_entries d1) + mset ?b'"
      by (rule set_bucket_mset [OF t01 t(2)]) (simp add: x'_def)
    ultimately have "add_mset (?b ! p) (mset (dict_entries ?d)) + mset ?b' = mset (dict_entries d1) + mset ?b'"
      by (metis union_mset_add_mset_left union_mset_add_mset_right)
    then have ms: "add_mset (?b ! p) (mset (dict_entries ?d)) = mset (dict_entries d1)" by simp
    have bp: "?b ! p = (k, snd (?b ! p))" using t(4) by (metis prod.collapse)
    have "distinct (map fst (dict_entries d1))" using ok1 by (simp add: dict_ok_def)
    from map_remove [OF this, of k "snd (?b ! p)" "dict_entries ?d"] ms bp
    have ch: "distinct (map fst (dict_entries ?d))" "dict_map ?d = (dict_map d1)(k := None)"
      "dict_map d1 k = Some (snd (?b ! p))"
      by (simp_all add: dict_map_def)
    have hok: "ht_ok h ?x" using ok1 t(1) by (auto simp: dict_ok_def get_ht_def)
    have hb: "\<forall>e \<in> set ?b'. hash_idx h (fst e) ?x = i"
      using hok t(2) by (auto simp: ht_ok_def dest: in_set_takeD in_set_dropD)
    have "length ?b \<le> used ?x"
      using length_concat_update [OF t(2), of "[]"] hok by (simp add: ht_ok_def)
    then have "dict_ok h ?d"
      using t hb by (intro set_bucket_ok [OF ok1 t(1,2) _ _ hb ch(1), where u = "used ?x - 1"]) (auto simp: x'_def)
    moreover have "dictGenericDelete h d k nofree = Some (?d, True, if nofree then None else Some (?b ! p))"
      using d1(1) r(1) Some e False by (simp add: dictGenericDelete_def x'_def Let_def)
    ultimately show ?thesis using ch m1 it1 bp by auto
  qed
qed

lemma clear_loop_all: "u = length (concat bs) \<Longrightarrow> clear_loop bs u = concat bs"
  by (induction bs arbitrary: u) auto

lemma dictClear_ok: "ht_ok h t \<Longrightarrow> dictClear t = (dictReset, concat (table t))"
  by (simp add: dictClear_def ht_ok_def clear_loop_all)

lemma dictEmpty_ok: "dict_ok h d \<Longrightarrow> dictEmpty d = (dictCreate, dict_entries d)"
  by (simp add: dictEmpty_def dict_ok_def dictClear_ok [of h] dictCreate_def dict_entries_def)

end
