(* ===== verification/Dict_Scan.thy ===== *)
theory Dict_Scan
  imports Dict_Correct
begin

unbundle bit_operations_syntax

text \<open>
  The guarantee of \<open>dictScan\<close>. A cursor, read with its bits reversed, is a point of the interval
  from 0 to \<open>2 ^ 64\<close>; a call on a table of \<open>2 ^ n\<close> buckets covers the aligned block of \<open>2 ^ (64 - n)\<close>
  points around it, and returns its end. The blocks of successive calls, on tables of any sizes,
  leave no gap.
\<close>

subsection \<open>Reversing the bits\<close>

definition swap_bits :: "64 word \<Rightarrow> nat \<Rightarrow> 64 word \<Rightarrow> 64 word" where
  "swap_bits mk s v = (drop_bit s v AND mk) OR (push_bit s v AND NOT mk)"

lemma bit_swap_bits:
  "i < 64 \<Longrightarrow> bit (swap_bits mk s v) i = (if bit mk i then bit v (s + i) else s \<le> i \<and> bit v (i - s))"
  by (auto simp: swap_bits_def bit_simps)

lemma rev_step_swap: "rev_step s (m, v) = (m XOR push_bit s m, swap_bits (m XOR push_bit s m) s v)"
  by (simp add: rev_step_def swap_bits_def Let_def)

definition rev_mask :: "nat \<Rightarrow> 64 word" where
  "rev_mask s = (if s = 32 then 0x00000000FFFFFFFF else if s = 16 then 0x0000FFFF0000FFFF
     else if s = 8 then 0x00FF00FF00FF00FF else if s = 4 then 0x0F0F0F0F0F0F0F0F
     else if s = 2 then 0x3333333333333333 else 0x5555555555555555)"

lemma rev_masks:
  "(NOT 0 :: 64 word) XOR push_bit 32 (NOT 0) = rev_mask 32"
  "rev_mask 32 XOR push_bit 16 (rev_mask 32) = rev_mask 16"
  "rev_mask 16 XOR push_bit 8 (rev_mask 16) = rev_mask 8"
  "rev_mask 8 XOR push_bit 4 (rev_mask 8) = rev_mask 4"
  "rev_mask 4 XOR push_bit 2 (rev_mask 4) = rev_mask 2"
  "rev_mask 2 XOR push_bit 1 (rev_mask 2) = rev_mask 1"
  by (code_simp+)

lemma bit_rev_mask:
  "list_all (\<lambda>i. list_all (\<lambda>s. bit (rev_mask s) i = even (i div s)) [1, 2, 4, 8, 16, 32]) [0..<64]"
  by code_simp

definition swap_idx :: "nat \<Rightarrow> nat \<Rightarrow> nat" where
  "swap_idx s i = (if even (i div s) then s + i else i - s)"

lemma swap_idx_all:
  "list_all (\<lambda>i. list_all (\<lambda>s. swap_idx s i < 64 \<and> (odd (i div s) \<longrightarrow> s \<le> i)) [1, 2, 4, 8, 16, 32]
     \<and> swap_idx 32 (swap_idx 16 (swap_idx 8 (swap_idx 4 (swap_idx 2 (swap_idx 1 i))))) = 63 - i) [0..<64]"
  by code_simp

lemma bit_rev_mask_at: "i < 64 \<Longrightarrow> s \<in> {1, 2, 4, 8, 16, 32} \<Longrightarrow> bit (rev_mask s) i = even (i div s)"
  by (rule bspec [OF bspec [OF bit_rev_mask [unfolded list_all_iff], of i], of s]) simp_all

lemma swap_idx_at:
  assumes "i < 64" "s \<in> {1, 2, 4, 8, 16, 32}"
  shows "swap_idx s i < 64 \<and> (odd (i div s) \<longrightarrow> s \<le> i)"
proof -
  have "i \<in> set [0..<64]" "s \<in> set [1, 2, 4, 8, 16, 32]" using assms by simp_all
  then show ?thesis using swap_idx_all unfolding list_all_iff by blast
qed

lemma bit_swap_mask:
  assumes "i < 64" "s \<in> {1, 2, 4, 8, 16, 32}"
  shows "bit (swap_bits (rev_mask s) s v) i = bit v (swap_idx s i)"
  using swap_idx_at [OF assms]
  by (simp add: bit_swap_bits [OF assms(1)] bit_rev_mask_at [OF assms] swap_idx_def)

lemma rev_bits_swap:
  "rev_bits v = swap_bits (rev_mask 1) 1 (swap_bits (rev_mask 2) 2 (swap_bits (rev_mask 4) 4
     (swap_bits (rev_mask 8) 8 (swap_bits (rev_mask 16) 16 (swap_bits (rev_mask 32) 32 v)))))"
  by (simp only: rev_bits_def rev_step_swap rev_masks snd_conv)

lemma bit_rev_bits: "i < 64 \<Longrightarrow> bit (rev_bits v) i = bit v (63 - i)"
proof -
  assume i: "i < 64"
  then have i0: "i \<in> set [0..<64]" by simp
  have e: "swap_idx 32 (swap_idx 16 (swap_idx 8 (swap_idx 4 (swap_idx 2 (swap_idx 1 i))))) = 63 - i"
    using bspec [OF swap_idx_all [unfolded list_all_iff] i0] by blast
  have lt: "swap_idx s j < 64" if "j < 64" "s \<in> {1, 2, 4, 8, 16, 32}" for s j
    using swap_idx_at that by blast
  show ?thesis unfolding rev_bits_swap
    by (simp only: bit_swap_mask lt i insert_iff simp_thms e)
qed

lemma rev_bits_inv [simp]: "rev_bits (rev_bits v) = v"
  by (rule bit_word_eqI) (simp add: bit_rev_bits)

lemma rev_bits_0 [simp]: "rev_bits 0 = 0"
  by (rule bit_word_eqI) (simp add: bit_rev_bits)

subsection \<open>Cursors as points\<close>

definition point :: "64 word \<Rightarrow> nat" where
  "point v = unat (rev_bits v)"

lemma point_less: "point v < 2 ^ 64"
  using unsigned_less [of "rev_bits v", where ?'a = nat] unfolding point_def by simp

lemma point_0 [simp]: "point 0 = 0"
  by (simp add: point_def)

lemma point_eq_0: "point v = 0 \<longleftrightarrow> v = 0"
proof
  assume "point v = 0"
  then have "rev_bits v = 0" by (simp add: point_def unat_eq_zero)
  then have "rev_bits (rev_bits v) = 0" by simp
  then show "v = 0" by simp
qed simp

text \<open>Two words agree on their low \<open>n\<close> bits when their points lie in the same block.\<close>

lemma same_block:
  assumes "n \<le> 64" "take_bit n u = take_bit n v"
  shows "point u div 2 ^ (64 - n) = point v div 2 ^ (64 - n)"
proof -
  have "drop_bit (64 - n) (rev_bits u) = drop_bit (64 - n) (rev_bits v)"
  proof (rule bit_word_eqI)
    fix i assume i: "i < LENGTH(64)"
    show "bit (drop_bit (64 - n) (rev_bits u)) i = bit (drop_bit (64 - n) (rev_bits v)) i"
    proof (cases "64 - n + i < 64")
      case True
      then have "63 - (64 - n + i) < n" using assms(1) by simp
      then have "bit u (63 - (64 - n + i)) = bit v (63 - (64 - n + i))"
        using assms(2) by (metis bit_take_bit_iff)
      then show ?thesis using True by (simp add: bit_drop_bit_eq bit_rev_bits)
    next
      case False
      then show ?thesis using bit_imp_le_length [of "rev_bits u"] bit_imp_le_length [of "rev_bits v"]
        by (auto simp: bit_drop_bit_eq)
    qed
  qed
  then have "unat (drop_bit (64 - n) (rev_bits u)) = unat (drop_bit (64 - n) (rev_bits v))" by simp
  then show ?thesis by (simp only: unat_drop_bit_eq point_def flip: drop_bit_eq_div)
qed

lemma same_block_conv:
  assumes "n \<le> 64" "point u div 2 ^ (64 - n) = point v div 2 ^ (64 - n)"
  shows "take_bit n u = take_bit n v"
proof (rule bit_word_eqI)
  fix i assume i: "i < LENGTH(64)"
  have eq: "drop_bit (64 - n) (unat (rev_bits u)) = drop_bit (64 - n) (unat (rev_bits v))"
    using assms(2) by (simp add: point_def drop_bit_eq_div)
  show "bit (take_bit n u) i = bit (take_bit n v) i"
  proof (cases "i < n")
    case True
    let ?j = "63 - i"
    have "bit (unat (rev_bits u)) ?j = bit (unat (rev_bits v)) ?j"
    proof -
      have "?j = (64 - n) + (n - 1 - i)" using True assms(1) by simp
      moreover have "bit (drop_bit (64 - n) (unat (rev_bits u))) (n - 1 - i)
          = bit (drop_bit (64 - n) (unat (rev_bits v))) (n - 1 - i)" by (simp only: eq)
      ultimately show ?thesis by (simp only: bit_drop_bit_eq comp_apply)
    qed
    then have "bit (rev_bits u) ?j = bit (rev_bits v) ?j" using i by (simp add: bit_unsigned_iff)
    then have "bit u i = bit v i" using i bit_rev_bits [of ?j] by simp
    then show ?thesis by (simp add: bit_take_bit_iff)
  qed (simp add: bit_take_bit_iff)
qed

subsection \<open>Advancing the cursor\<close>

lemma nat_or_mask: "x OR mask k = x div 2 ^ k * 2 ^ k + mask k" for x :: nat
proof -
  have "take_bit k (x OR mask k) = mask k" "drop_bit k (x OR mask k) = drop_bit k x"
    by (auto intro!: bit_eqI simp: bit_simps)
  then show ?thesis
    using bits_ident [of k "x OR mask k"] by (simp add: push_bit_eq_mult drop_bit_eq_div)
qed

lemma mask_Suc_nat: "mask k + 1 = (2 :: nat) ^ k"
  by (simp add: mask_eq_exp_minus_1)

lemma rev_bits_or_not_mask: "n \<le> 64 \<Longrightarrow> rev_bits (w OR NOT (mask n)) = rev_bits w OR mask (64 - n)"
  by (rule bit_word_eqI) (auto simp: bit_rev_bits bit_simps)

lemma point_next:
  assumes "n \<le> 64"
  shows "point (rev_bits (rev_bits (w OR NOT (mask n)) + 1)) = (point w div 2 ^ (64 - n) + 1) * 2 ^ (64 - n) mod 2 ^ 64"
proof -
  let ?k = "64 - n"
  have "unat (rev_bits w OR mask ?k) = unat (rev_bits w) OR mask ?k"
    by (rule bit_eqI) (auto simp: bit_simps bit_unsigned_iff dest: bit_imp_le_length)
  then have "unat (rev_bits w OR mask ?k) + 1 = point w div 2 ^ ?k * 2 ^ ?k + 2 ^ ?k"
    by (simp only: nat_or_mask point_def add.assoc mask_Suc_nat)
  then have "(unat (rev_bits w OR mask ?k) + unat (1 :: 64 word)) mod 2 ^ 64 = (point w div 2 ^ ?k + 1) * 2 ^ ?k mod 2 ^ 64"
    by (simp add: add.commute)
  then show ?thesis
    using assms by (simp add: point_def rev_bits_or_not_mask unat_word_ariths)
qed

text \<open>The block end is 0 only when it is the end of the interval.\<close>

lemma block_end:
  assumes "n \<le> 64" "p < 2 ^ 64"
  shows "(p div 2 ^ (64 - n) + 1) * 2 ^ (64 - n) \<le> (2 ^ 64 :: nat)"
proof -
  have e: "(2 :: nat) ^ 64 = 2 ^ n * 2 ^ (64 - n)" using assms(1) by (simp flip: power_add)
  then have "p div 2 ^ (64 - n) < 2 ^ n" using assms(2) by (simp add: less_mult_imp_div_less)
  then have "(p div 2 ^ (64 - n) + 1) * 2 ^ (64 - n) \<le> 2 ^ n * 2 ^ (64 - n)"
    by (intro mult_le_mono1) simp
  then show ?thesis using e by simp
qed

subsection \<open>One call\<close>

lemma unat_and_mask: "n \<le> 64 \<Longrightarrow> unat (v AND mask n) = unat v mod 2 ^ n" for v :: "64 word"
  by (simp only: take_bit_eq_mask [symmetric] unsigned_take_bit_eq) (simp only: take_bit_eq_mod)

lemma size_mask:
  assumes "size_ok t" "ht_size t \<noteq> 0"
  obtains n where "n \<le> 63" "ht_size t = 2 ^ n" "length (table t) = 2 ^ n" "sizemask t = mask n"
    "word_of_nat (sizemask t) = (mask n :: 64 word)"
proof -
  obtain n where "n \<le> 63" "ht_size t = 2 ^ n" "sizemask t = mask n" using assms by (auto simp: size_ok_def)
  then show ?thesis using assms that by (simp add: size_ok_def of_nat_mask_eq)
qed

lemma bucket_at_mask:
  "length (table t) = 2 ^ n \<Longrightarrow> n \<le> 63 \<Longrightarrow> bucket_at t (v AND mask n) = Some (table t ! (unat v mod 2 ^ n))"
  by (simp add: bucket_at_def unat_and_mask)

text \<open>The bits above the smaller mask are counted up by one.\<close>

lemma expand_step:
  fixes v :: "64 word"
  assumes "n \<le> 63"
  shows "(((v OR mask n) + 1) AND NOT (mask n)) OR (v AND mask n) = v + 2 ^ n"
proof -
  have or: "v OR mask n = push_bit n (drop_bit n v) + mask n"
  proof -
    have "take_bit n (v OR mask n) = mask n" "drop_bit n (v OR mask n) = drop_bit n v"
      by (auto intro!: bit_word_eqI simp: bit_simps)
    then show ?thesis using bits_ident [of n "v OR mask n"] by simp
  qed
  have "(v OR mask n) + 1 = push_bit n (drop_bit n v + 1)"
  proof -
    have "mask n + 1 = (push_bit n 1 :: 64 word)" by (simp add: mask_eq_exp_minus_1)
    then show ?thesis unfolding or push_bit_add by (simp only: add.assoc)
  qed
  moreover have "push_bit n x AND NOT (mask n) = push_bit n x" for x :: "64 word"
    by (rule bit_word_eqI) (auto simp: bit_simps)
  moreover have "push_bit n x OR (v AND mask n) = push_bit n x + (v AND mask n)" for x :: "64 word"
    by (rule disjunctive_add_eq_or [symmetric]) (rule bit_word_eqI, auto simp: bit_simps)
  ultimately have "(((v OR mask n) + 1) AND NOT (mask n)) OR (v AND mask n)
      = push_bit n (drop_bit n v + 1) + take_bit n v"
    by (simp only: take_bit_eq_mask)
  also have "\<dots> = (push_bit n (drop_bit n v) + take_bit n v) + push_bit n 1"
    by (simp only: push_bit_add add.assoc) (simp only: add.commute)
  also have "\<dots> = v + 2 ^ n" by (simp only: bits_ident) simp
  finally show ?thesis .
qed

lemma expand_cond:
  fixes v :: "64 word"
  assumes "n \<le> m" "m \<le> 63"
  shows "v AND (mask n XOR mask m) \<noteq> 0 \<longleftrightarrow> 2 ^ n \<le> unat v mod 2 ^ m"
proof -
  have "v AND (mask n XOR mask m) = push_bit n (drop_bit n (take_bit m v))"
    using assms by (intro bit_word_eqI) (auto simp: bit_simps)
  moreover have "push_bit n (drop_bit n (take_bit m v)) = 0 \<longleftrightarrow> drop_bit n (take_bit m v) = 0"
  proof
    assume "push_bit n (drop_bit n (take_bit m v)) = 0"
    then have "drop_bit n (push_bit n (drop_bit n (take_bit m v))) = 0" by simp
    moreover have "drop_bit n (push_bit n (drop_bit n (take_bit m v))) = drop_bit n (take_bit m v)"
      by (intro bit_word_eqI) (auto simp: bit_simps dest: bit_imp_le_length)
    ultimately show "drop_bit n (take_bit m v) = 0" by simp
  qed simp
  moreover have "drop_bit n (take_bit m v) = 0 \<longleftrightarrow> unat (drop_bit n (take_bit m v)) = 0"
    by (simp only: unat_eq_zero)
  moreover have "unat (drop_bit n (take_bit m v)) = unat v mod 2 ^ m div 2 ^ n"
    by (simp only: unat_drop_bit_eq unsigned_take_bit_eq) (simp only: take_bit_eq_mod drop_bit_eq_div)
  ultimately show ?thesis by (simp add: div_eq_0_iff not_less)
qed

lemma unat_add_exp:
  fixes v :: "64 word"
  assumes "n \<le> m" "m \<le> 63"
  shows "unat (v + 2 ^ n) mod 2 ^ m = (unat v mod 2 ^ m + 2 ^ n) mod 2 ^ m"
proof -
  have "(2 :: nat) ^ m dvd 2 ^ 64" using assms by (intro le_imp_power_dvd) simp
  moreover have "unat (2 ^ n :: 64 word) = 2 ^ n"
  proof -
    have "(2 :: nat) ^ n < 2 ^ 64" using assms by (intro power_strict_increasing) simp_all
    moreover have "(2 ^ n :: 64 word) = word_of_nat (2 ^ n)" by simp
    ultimately show ?thesis by (simp only: unsigned_of_nat) (use assms in \<open>simp add: take_bit_nat_eq_self\<close>)
  qed
  ultimately show ?thesis by (simp add: unat_word_ariths mod_mod_cancel mod_add_left_eq)
qed

lemma scan_loop_ok:
  assumes "n \<le> m" "m \<le> 63" "length (table t) = 2 ^ m"
    and "2 ^ m - unat v mod 2 ^ m \<le> fuel * 2 ^ n"
  shows "\<exists>es w. scan_loop fuel t (mask n) (mask m) v = Some (es, w) \<and> unat w mod 2 ^ n = unat v mod 2 ^ n
    \<and> set es \<subseteq> set (concat (table t))
    \<and> (\<forall>i < 2 ^ m. unat v mod 2 ^ m \<le> i \<longrightarrow> i mod 2 ^ n = unat v mod 2 ^ n \<longrightarrow> set (table t ! i) \<subseteq> set es)"
  using assms(4)
proof (induction fuel arbitrary: v)
  case 0
  moreover have "unat v mod 2 ^ m < 2 ^ m" by simp
  ultimately show ?case by linarith
next
  case (Suc fuel)
  let ?j = "unat v mod 2 ^ m"
  have dvd: "(2 :: nat) ^ n dvd 2 ^ m" using assms(1) by (rule le_imp_power_dvd)
  have jn: "?j mod 2 ^ n = unat v mod 2 ^ n" using dvd by (simp add: mod_mod_cancel)
  have b: "bucket_at t (v AND mask m) = Some (table t ! ?j)"
    using bucket_at_mask [OF assms(3,2)] by simp
  have jl: "?j < 2 ^ m" by simp
  have "table t ! ?j \<in> set (table t)" using assms(3) by (intro nth_mem) simp
  then have sub: "set (table t ! ?j) \<subseteq> set (concat (table t))" by auto
  let ?v = "v + 2 ^ n"
  have uv: "unat ?v mod 2 ^ m = (?j + 2 ^ n) mod 2 ^ m" by (rule unat_add_exp [OF assms(1,2)])
  have vn: "unat ?v mod 2 ^ n = unat v mod 2 ^ n"
    using unat_add_exp [OF le_refl, of n v] assms by simp
  note st = expand_step [of n v]
  show ?case
  proof (cases "?j + 2 ^ n < 2 ^ m")
    case True
    then have u: "unat ?v mod 2 ^ m = ?j + 2 ^ n" using uv by simp
    then have "2 ^ m - unat ?v mod 2 ^ m \<le> fuel * 2 ^ n" using Suc.prems by simp
    from Suc.IH [OF this] obtain es w where es: "scan_loop fuel t (mask n) (mask m) ?v = Some (es, w)"
      "unat w mod 2 ^ n = unat ?v mod 2 ^ n" "set es \<subseteq> set (concat (table t))"
      "\<forall>i < 2 ^ m. unat ?v mod 2 ^ m \<le> i \<longrightarrow> i mod 2 ^ n = unat ?v mod 2 ^ n \<longrightarrow> set (table t ! i) \<subseteq> set es"
      by blast
    have "?v AND (mask n XOR mask m) \<noteq> 0" using expand_cond [OF assms(1,2), of ?v] u by simp
    then have "scan_loop (Suc fuel) t (mask n) (mask m) v = Some (table t ! ?j @ es, w)"
      using b es(1) st assms by (simp add: Let_def)
    moreover have "set (table t ! i) \<subseteq> set (table t ! ?j @ es)"
      if i: "i < 2 ^ m" "?j \<le> i" "i mod 2 ^ n = unat v mod 2 ^ n" for i
    proof (cases "i = ?j")
      case False
      have "2 ^ n dvd i - ?j" using i(3) jn mod_eq_dvd_iff_nat [OF i(2), of "2 ^ n"] by metis
      then have "2 ^ n \<le> i - ?j" using False i(2) by (intro dvd_imp_le) simp_all
      then have "?j + 2 ^ n \<le> i" using i(2) by simp
      then show ?thesis using es(4) i u vn by auto
    qed simp
    ultimately show ?thesis using es(2,3) vn sub by auto
  next
    case False
    have "unat ?v mod 2 ^ m = (?j + 2 ^ n - 2 ^ m) mod 2 ^ m"
      using False uv by (simp add: le_mod_geq)
    also have "\<dots> \<le> ?j + 2 ^ n - 2 ^ m" by (rule mod_less_eq_dividend)
    also have "\<dots> < 2 ^ n" using jl False by linarith
    finally have "unat ?v mod 2 ^ m < 2 ^ n" .
    then have "?v AND (mask n XOR mask m) = 0" using expand_cond [OF assms(1,2), of ?v] by auto
    then have "scan_loop (Suc fuel) t (mask n) (mask m) v = Some (table t ! ?j, ?v)"
      using b st assms by (simp add: Let_def)
    moreover have "i = ?j" if i: "i < 2 ^ m" "?j \<le> i" "i mod 2 ^ n = unat v mod 2 ^ n" for i
    proof (rule ccontr)
      assume ne: "i \<noteq> ?j"
      have "2 ^ n dvd i - ?j" using i(3) jn mod_eq_dvd_iff_nat [OF i(2), of "2 ^ n"] by metis
      then have "2 ^ n \<le> i - ?j" using ne i(2) by (intro dvd_imp_le) simp_all
      then show False using i(1,2) False by linarith
    qed
    ultimately show ?thesis using vn sub by auto
  qed
qed

text \<open>The size of the smaller table, and whether a cursor fits it.\<close>

definition scan_size :: "('k, 'v) dict \<Rightarrow> nat" where
  "scan_size d = (if dictIsRehashing d then min (ht_size (ht0 d)) (ht_size (ht1 d)) else ht_size (ht0 d))"

definition scan_fits :: "('k, 'v) dict \<Rightarrow> 64 word \<Rightarrow> bool" where
  "scan_fits d v \<longleftrightarrow> (dictIsRehashing d \<longrightarrow> unat v < scan_size d)"

lemma entry_bucket:
  assumes "ht_ok h t" "e \<in> set (concat (table t))"
  shows "hash_idx h (fst e) t < length (table t) \<and> e \<in> set (table t ! hash_idx h (fst e) t)"
proof -
  obtain b where "b \<in> set (table t)" "e \<in> set b" using assms(2) by auto
  then obtain i where "i < length (table t)" "e \<in> set (table t ! i)" by (auto simp: in_set_conv_nth)
  moreover from this have "hash_idx h (fst e) t = i" using assms(1) by (auto simp: ht_ok_def)
  ultimately show ?thesis by simp
qed

text \<open>The emission of a call, in either case.\<close>

definition scan_emits :: "('k \<Rightarrow> 32 word) \<Rightarrow> ('k, 'v) dict \<Rightarrow> 64 word \<Rightarrow> nat \<Rightarrow> bool" where
  "scan_emits h d v n \<longleftrightarrow> (\<exists>es w u. dictScan d v = Some (es, w) \<and> set es \<subseteq> set (dict_entries d)
     \<and> w = rev_bits (rev_bits (u OR NOT (mask n)) + 1) \<and> unat u mod 2 ^ n = unat v mod 2 ^ n
     \<and> (scan_fits d v \<longrightarrow> (\<forall>e \<in> set (dict_entries d). unat (h (fst e)) mod 2 ^ n = unat v mod 2 ^ n \<longrightarrow> e \<in> set es)))"

lemma dictScan_static:
  assumes ok: "dict_ok h d" and ne: "dictSize d \<noteq> 0" and re: "\<not> dictIsRehashing d"
  shows "\<exists>n \<le> 63. scan_size d = 2 ^ n \<and> scan_emits h d v n"
proof -
  have h0: "ht_ok h (ht0 d)" and h1: "table (ht1 d) = []" and "used (ht1 d) = 0"
    using ok re by (simp_all add: dict_ok_def dictReset_def)
  then have "table (ht0 d) \<noteq> []" using ne by (auto simp: dictSize_def ht_ok_def)
  then have "ht_size (ht0 d) \<noteq> 0" using h0 by (metis ht_ok_def size_ok_def length_0_conv)
  then obtain n where n: "n \<le> 63" "ht_size (ht0 d) = 2 ^ n" "length (table (ht0 d)) = 2 ^ n"
    "sizemask (ht0 d) = mask n" "word_of_nat (sizemask (ht0 d)) = (mask n :: 64 word)"
    using size_mask h0 by (metis ht_ok_def)
  let ?es = "table (ht0 d) ! (unat v mod 2 ^ n)"
  have "dictScan d v = Some (?es, rev_bits (rev_bits (v OR NOT (mask n)) + 1))"
    using ne re n bucket_at_mask [OF n(3,1)] by (simp add: dictScan_def Let_def)
  moreover have "?es \<in> set (table (ht0 d))" using n(3) by (intro nth_mem) simp
  then have "set ?es \<subseteq> set (dict_entries d)" by (auto simp: dict_entries_def)
  moreover have "e \<in> set ?es"
    if "e \<in> set (dict_entries d)" "unat (h (fst e)) mod 2 ^ n = unat v mod 2 ^ n" for e
    using that entry_bucket [OF h0, of e] h1 hash_idx_mod [OF n(4)] by (simp add: dict_entries_def)
  ultimately have "scan_emits h d v n" unfolding scan_emits_def by blast
  then show ?thesis using n re by (auto simp: scan_size_def)
qed

lemma dictScan_tables:
  assumes h: "ht_ok h s" "ht_ok h t" "ht_size s \<noteq> 0" "ht_size s \<le> ht_size t"
    and d: "dictIsRehashing d" "dictSize d \<noteq> 0" "set (dict_entries d) = set (concat (table s)) \<union> set (concat (table t))"
    and sel: "(if ht_size (ht0 d) > ht_size (ht1 d) then (ht1 d, ht0 d) else (ht0 d, ht1 d)) = (s, t)"
  shows "\<exists>n \<le> 63. scan_size d = 2 ^ n \<and> scan_emits h d v n"
proof -
  obtain n where n: "n \<le> 63" "ht_size s = 2 ^ n" "length (table s) = 2 ^ n" "sizemask s = mask n"
    "word_of_nat (sizemask s) = (mask n :: 64 word)"
    using size_mask h(1,3) by (metis ht_ok_def)
  have "ht_size t \<noteq> 0" using h(3,4) by simp
  then obtain m where m: "m \<le> 63" "ht_size t = 2 ^ m" "length (table t) = 2 ^ m" "sizemask t = mask m"
    "word_of_nat (sizemask t) = (mask m :: 64 word)"
    using size_mask h(2) by (metis ht_ok_def)
  have nm: "n \<le> m" using h(4) n(2) m(2) by simp
  have dvd: "(2 :: nat) ^ n dvd 2 ^ m" using nm by (rule le_imp_power_dvd)
  have fuel: "2 ^ m - unat v mod 2 ^ m \<le> ht_size t * 2 ^ n"
  proof -
    have "2 ^ m - unat v mod 2 ^ m \<le> 2 ^ m * 1" by simp
    also have "\<dots> \<le> 2 ^ m * (2 :: nat) ^ n" by (intro mult_le_mono2) simp
    finally show ?thesis using m(2) by simp
  qed
  obtain es' w where l: "scan_loop (ht_size t) t (mask n) (mask m) v = Some (es', w)"
    "unat w mod 2 ^ n = unat v mod 2 ^ n" "set es' \<subseteq> set (concat (table t))"
    "\<forall>i < 2 ^ m. unat v mod 2 ^ m \<le> i \<longrightarrow> i mod 2 ^ n = unat v mod 2 ^ n \<longrightarrow> set (table t ! i) \<subseteq> set es'"
    using scan_loop_ok [OF nm m(1,3) fuel] by blast
  let ?b = "table s ! (unat v mod 2 ^ n)"
  have "dictScan d v = Some (?b @ es', rev_bits (rev_bits (w OR NOT (mask n)) + 1))"
    using d(1,2) n m l(1) bucket_at_mask [OF n(3,1)] by (simp add: dictScan_def Let_def sel)
  moreover have "?b \<in> set (table s)" using n(3) by (intro nth_mem) simp
  then have "set (?b @ es') \<subseteq> set (dict_entries d)" using l(3) d(3) by auto
  moreover have size: "scan_size d = 2 ^ n" using sel d(1) n(2) by (auto simp: scan_size_def split: if_splits)
  have "e \<in> set (?b @ es')" if fit: "scan_fits d v" and e: "e \<in> set (dict_entries d)"
    and idx: "unat (h (fst e)) mod 2 ^ n = unat v mod 2 ^ n" for e
  proof (cases "e \<in> set (concat (table s))")
    case True
    then show ?thesis using entry_bucket [OF h(1), of e] idx hash_idx_mod [OF n(4)] by simp
  next
    case False
    then have "e \<in> set (concat (table t))" using e d(3) by blast
    then have b: "hash_idx h (fst e) t < 2 ^ m" "e \<in> set (table t ! hash_idx h (fst e) t)"
      using entry_bucket [OF h(2)] m(3) by simp_all
    have mm: "hash_idx h (fst e) t mod 2 ^ n = unat v mod 2 ^ n"
      using idx dvd by (simp add: hash_idx_mod [OF m(4)] mod_mod_cancel)
    have lt: "unat v < 2 ^ n" using fit d(1) size by (simp add: scan_fits_def)
    moreover have "unat v mod 2 ^ m \<le> unat v" by simp
    moreover have "hash_idx h (fst e) t mod 2 ^ n \<le> hash_idx h (fst e) t" by simp
    ultimately have "unat v mod 2 ^ m \<le> hash_idx h (fst e) t"
      using mm mod_less [OF lt] by linarith
    then show ?thesis using l(4) b mm by auto
  qed
  ultimately have "scan_emits h d v n" unfolding scan_emits_def using l(2) by blast
  then show ?thesis using n(1) size by blast
qed

lemma dictScan_emits:
  assumes ok: "dict_ok h d" and ne: "dictSize d \<noteq> 0"
  shows "\<exists>n \<le> 63. scan_size d = 2 ^ n \<and> scan_emits h d v n"
proof (cases "dictIsRehashing d")
  case False
  then show ?thesis using dictScan_static [OF assms] by blast
next
  case True
  then have h: "ht_ok h (ht0 d)" "ht_ok h (ht1 d)" "ht_size (ht0 d) \<noteq> 0" "ht_size (ht1 d) \<noteq> 0"
    using ok by (auto simp: dict_ok_def)
  show ?thesis
  proof (cases "ht_size (ht0 d) > ht_size (ht1 d)")
    case c: True
    show ?thesis
      by (rule dictScan_tables [OF h(2,1,4) _ True ne]) (use c in \<open>auto simp: dict_entries_def\<close>)
  next
    case c: False
    show ?thesis
      by (rule dictScan_tables [OF h(1,2,3) _ True ne]) (use c in \<open>auto simp: dict_entries_def\<close>)
  qed
qed

subsection \<open>A whole iteration\<close>

text \<open>
  The client: call after call on the dictionary as it then is, from one cursor to the next. The
  dictionaries of the list are the states at the calls.
\<close>

fun scan_run :: "('k, 'v) dict list \<Rightarrow> 64 word \<Rightarrow> (('k \<times> 'v) list \<times> 64 word) option" where
  "scan_run [] v = Some ([], v)"
| "scan_run (d # ds) v = do {
     (es, w) \<leftarrow> dictScan d v;
     (es', w') \<leftarrow> scan_run ds w;
     Some (es @ es', w') }"

fun scan_fits_all :: "('k, 'v) dict list \<Rightarrow> 64 word \<Rightarrow> bool" where
  "scan_fits_all [] v = True"
| "scan_fits_all (d # ds) v =
     (scan_fits d v \<and> (case dictScan d v of None \<Rightarrow> False | Some (es, w) \<Rightarrow> scan_fits_all ds w))"

definition hash_word :: "('k \<Rightarrow> 32 word) \<Rightarrow> 'k \<Rightarrow> 64 word" where
  "hash_word h k = ucast (h k)"

lemma unat_hash_word: "unat (hash_word h k) = unat (h k)"
proof -
  have "unat (h k) < 2 ^ 64" using unsigned_less [of "h k", where ?'a = nat] by simp
  then show ?thesis by (simp add: hash_word_def unsigned_ucast_eq take_bit_nat_eq_self)
qed

lemma same_low_bits: "n \<le> 64 \<Longrightarrow> take_bit n u = take_bit n v \<longleftrightarrow> unat u mod 2 ^ n = unat v mod 2 ^ n"
  for u v :: "64 word"
  using unat_and_mask [of n u] unat_and_mask [of n v] by (metis take_bit_eq_mask word_unat_eq_iff)

lemma scan_step:
  assumes ok: "dict_ok h d" and ne: "dictSize d \<noteq> 0"
  shows "\<exists>n es w. n \<le> 63 \<and> scan_size d = 2 ^ n \<and> dictScan d v = Some (es, w) \<and> set es \<subseteq> set (dict_entries d)
    \<and> point w = (point v div 2 ^ (64 - n) + 1) * 2 ^ (64 - n) mod 2 ^ 64
    \<and> (scan_fits d v \<longrightarrow> (\<forall>e \<in> set (dict_entries d).
         point (hash_word h (fst e)) div 2 ^ (64 - n) = point v div 2 ^ (64 - n) \<longrightarrow> e \<in> set es))"
proof -
  obtain n where n: "n \<le> 63" "scan_size d = 2 ^ n" "scan_emits h d v n"
    using dictScan_emits [OF assms] by blast
  then obtain es w u where e: "dictScan d v = Some (es, w)" "set es \<subseteq> set (dict_entries d)"
    "w = rev_bits (rev_bits (u OR NOT (mask n)) + 1)" "unat u mod 2 ^ n = unat v mod 2 ^ n"
    "scan_fits d v \<longrightarrow> (\<forall>e \<in> set (dict_entries d). unat (h (fst e)) mod 2 ^ n = unat v mod 2 ^ n \<longrightarrow> e \<in> set es)"
    unfolding scan_emits_def by blast
  have n64: "n \<le> 64" using n(1) by simp
  have "point u div 2 ^ (64 - n) = point v div 2 ^ (64 - n)"
    using same_block [OF n64] same_low_bits [OF n64] e(4) by blast
  then have "point w = (point v div 2 ^ (64 - n) + 1) * 2 ^ (64 - n) mod 2 ^ 64"
    unfolding e(3) by (simp only: point_next [OF n64])
  moreover have "unat (h (fst x)) mod 2 ^ n = unat v mod 2 ^ n"
    if "point (hash_word h (fst x)) div 2 ^ (64 - n) = point v div 2 ^ (64 - n)" for x :: "'a \<times> 'b"
    using same_block_conv [OF n64 that] same_low_bits [OF n64] unat_hash_word [of h "fst x"] by metis
  ultimately show ?thesis using n e(1,2,5) by blast
qed

lemma scan_covers:
  assumes "\<forall>d \<in> set ds. dict_ok h d \<and> k \<in> dom (dict_map d)" "ds \<noteq> []"
    and "scan_run ds v = Some (es, 0)" "scan_fits_all ds v" "point v \<le> point (hash_word h k)"
  shows "k \<in> fst ` set es"
  using assms
proof (induction ds arbitrary: v es)
  case (Cons d ds)
  let ?p = "point (hash_word h k)"
  have ok: "dict_ok h d" and kd: "k \<in> dom (dict_map d)" using Cons.prems(1) by simp_all
  then obtain x where x: "(k, x) \<in> set (dict_entries d)" using dict_map_iff [OF ok] by auto
  have "dictSize d \<noteq> 0" using x dictSize_entries [OF ok] by (cases "dict_entries d") simp_all
  then obtain n es1 w where w: "n \<le> 63" "dictScan d v = Some (es1, w)"
    "point w = (point v div 2 ^ (64 - n) + 1) * 2 ^ (64 - n) mod 2 ^ 64"
    "scan_fits d v \<longrightarrow> (\<forall>e \<in> set (dict_entries d).
         point (hash_word h (fst e)) div 2 ^ (64 - n) = point v div 2 ^ (64 - n) \<longrightarrow> e \<in> set es1)"
    using scan_step [OF ok, of v] by blast
  obtain es2 where es2: "scan_run ds w = Some (es2, 0)" "es = es1 @ es2"
    using Cons.prems(3) w(2) by (auto simp: bind_eq_Some_conv)
  have fits: "scan_fits d v" "scan_fits_all ds w" using Cons.prems(4) w(2) by simp_all
  show ?case
  proof (cases "?p div 2 ^ (64 - n) = point v div 2 ^ (64 - n)")
    case True
    then have "(k, x) \<in> set es1" using w(4) fits(1) x by auto
    then show ?thesis using es2(2) by force
  next
    case False
    let ?e = "(point v div 2 ^ (64 - n) + 1) * 2 ^ (64 - n)"
    have "point v div 2 ^ (64 - n) < ?p div 2 ^ (64 - n)"
      using False div_le_mono [OF Cons.prems(5), of "2 ^ (64 - n)"] by simp
    then have "?e \<le> ?p div 2 ^ (64 - n) * 2 ^ (64 - n)" by (intro mult_le_mono1) simp
    also have "\<dots> \<le> ?p" by simp
    finally have le: "?e \<le> ?p" .
    moreover have "?p < 2 ^ 64" by (rule point_less)
    ultimately have pw: "point w = ?e" using w(3) by (metis le_less_trans mod_less)
    moreover have "0 < ?e" by simp
    ultimately have "w \<noteq> 0" using point_eq_0 [of w] by linarith
    then have "ds \<noteq> []" using es2(1) by auto
    then show ?thesis using Cons.IH [OF _ _ es2(1) fits(2)] Cons.prems(1) pw le es2(2) by auto
  qed
qed simp

text \<open>
  C23: \<open>dictScan\<close> misses nothing. Start from cursor 0 and call until the returned cursor is 0, with
  any changes to the dictionary between the calls: insertions, deletions, expansions, rehashing
  steps. Every key that is in the dictionary at all the calls is handed to the callback by one
  of them, provided that no call meets a dictionary that is being rehashed with a cursor
  that does not fit the smaller table.
\<close>

theorem dictScan_complete:
  assumes "\<forall>d \<in> set ds. dict_ok h d \<and> k \<in> dom (dict_map d)" and "ds \<noteq> []"
    and "scan_run ds 0 = Some (es, 0)" and "scan_fits_all ds 0"
  shows "k \<in> fst ` set es"
  by (rule scan_covers [OF assms]) simp

definition demo_hash :: "nat \<Rightarrow> 32 word" where
  "demo_hash n = word_of_nat n"

definition demo_dict :: "(nat, nat) dict" where
  "demo_dict = \<lparr>ht0 = \<lparr>table = [[], [(5, 50)], [(6, 60)], []], ht_size = 4, sizemask = 3, used = 2\<rparr>,
     ht1 = dictReset, rehashidx = -1, iterators = 0\<rparr>"

lemma demo_dict_add:
  "Option.bind (dictAdd demo_hash True 0 dictCreate 5 50) (\<lambda>p. dictAdd demo_hash True 0 (fst p) 6 60)
     = Some (demo_dict, True)"
  by code_simp

lemma demo_dict_ok: "dict_ok demo_hash demo_dict \<and> dict_map demo_dict = [5 \<mapsto> 50, 6 \<mapsto> 60]"
proof -
  have z: "dictSize (dictCreate :: (nat, nat) dict) < 2 ^ 61"
    by (simp add: dictSize_def dictCreate_def dictReset_def)
  obtain d1 :: "(nat, nat) dict" where d1: "dictAdd demo_hash True 0 dictCreate 5 50 = Some (d1, True)"
    "dict_ok demo_hash d1" "dict_map d1 = [5 \<mapsto> 50]"
    using dictAdd_ok [OF dict_ok_create z, of demo_hash True 0 5 50] by auto
  have "dictSize d1 < 2 ^ 61" using dictSize_card [OF d1(2)] d1(3) by simp
  from dictAdd_ok [OF d1(2) this, of True 0 6 60] demo_dict_add d1
  show ?thesis by (auto simp: fun_eq_iff)
qed

lemma next_cursor:
  "rev_bits (rev_bits (0 OR NOT 15) + 1) = 8" "rev_bits (rev_bits (16 OR NOT 3) + 1) = 2"
  "rev_bits (rev_bits (18 OR NOT 3) + 1) = 1" "rev_bits (rev_bits (17 OR NOT 3) + 1) = 3"
  "rev_bits (rev_bits (19 OR NOT 3) + 1) = 0" "rev_bits (rev_bits (0 OR NOT 3) + 1) = 2"
  "rev_bits (rev_bits (2 OR NOT 3) + 1) = 1" "rev_bits (rev_bits (1 OR NOT 3) + 1) = 3"
  "rev_bits (rev_bits (3 OR NOT 3) + 1) = 0"
  by (simp_all add: rev_bits_swap swap_bits_def rev_mask_def mask_eq_exp_minus_1)

lemma demo_fields:
  "dictSize demo_dict = 2" "\<not> dictIsRehashing demo_dict" "sizemask (ht0 demo_dict) = 3"
  "bucket_at (ht0 demo_dict) 0 = Some []" "bucket_at (ht0 demo_dict) 1 = Some [(5, 50)]"
  "bucket_at (ht0 demo_dict) 2 = Some [(6, 60)]" "bucket_at (ht0 demo_dict) 3 = Some []"
  by (simp_all add: demo_dict_def bucket_at_def dictSize_def dictReset_def dictIsRehashing_def)

lemma demo_scan:
  "dictScan demo_dict 0 = Some ([], 2)" "dictScan demo_dict 2 = Some ([(6, 60)], 1)"
  "dictScan demo_dict 1 = Some ([(5, 50)], 3)" "dictScan demo_dict 3 = Some ([], 0)"
  subgoal using next_cursor(6) by (simp add: dictScan_def demo_fields)
  subgoal using next_cursor(7) by (simp add: dictScan_def demo_fields)
  subgoal using next_cursor(8) by (simp add: dictScan_def demo_fields)
  subgoal using next_cursor(9) by (simp add: dictScan_def demo_fields)
  done

theorem dictScan_complete_witness:
  "5 \<in> fst ` set (fst (the (scan_run [demo_dict, demo_dict, demo_dict, demo_dict] 0)))"
proof -
  have run: "scan_run [demo_dict, demo_dict, demo_dict, demo_dict] 0 = Some ([(6, 60), (5, 50)], 0)"
    by (simp add: demo_scan)
  have "scan_fits demo_dict v" for v by (simp add: scan_fits_def dictIsRehashing_def demo_dict_def)
  then have "scan_fits_all [demo_dict, demo_dict, demo_dict, demo_dict] 0" by (simp add: demo_scan)
  from dictScan_complete [OF _ _ run this, of demo_hash 5] demo_dict_ok show ?thesis
    unfolding run by auto
qed

text \<open>
  The provision is necessary. A table of 16 buckets holds one key in bucket 4; after the first call the
  table is shrunk to 4 buckets by \<open>dictResize\<close>, and the iteration goes on while the rehashing is
  in progress. It ends, and the key has never been returned.
\<close>

definition shrink_dict :: "(nat, nat) dict" where
  "shrink_dict = \<lparr>ht0 = \<lparr>table = [[], [], [], [], [(4, 40)], [], [], [], [], [], [], [], [], [], [], []],
       ht_size = 16, sizemask = 15, used = 1\<rparr>, ht1 = dictReset, rehashidx = -1, iterators = 0\<rparr>"

definition shrunk_dict :: "(nat, nat) dict" where
  "shrunk_dict = shrink_dict\<lparr>ht1 := \<lparr>table = [[], [], [], []], ht_size = 4, sizemask = 3, used = 0\<rparr>,
     rehashidx := 0\<rparr>"

lemma shrink_dict_ok: "dict_ok demo_hash shrink_dict \<and> dict_map shrink_dict = [4 \<mapsto> 40]"
proof -
  have "size_ok (ht0 shrink_dict)"
    unfolding size_ok_def
    by (simp add: shrink_dict_def, rule exI [of _ 4], simp add: mask_eq_exp_minus_1)
  moreover have "hash_idx demo_hash (fst e) (ht0 shrink_dict) = i"
    if "i < 16" "e \<in> set (table (ht0 shrink_dict) ! i)" for i e
  proof -
    have "list_all (\<lambda>i. list_all (\<lambda>e. hash_idx demo_hash (fst e) (ht0 shrink_dict) = i)
      (table (ht0 shrink_dict) ! i)) [0..<16]"
      by code_simp
    then show ?thesis using that unfolding list_all_iff by simp
  qed
  ultimately show ?thesis
    by (simp add: dict_ok_def ht_ok_def shrink_dict_def dict_entries_def dict_map_def dictIsRehashing_def
        ht_ok_reset [unfolded ht_ok_def])
       (simp add: dictReset_def)
qed

lemma shrunk_fields:
  "ht_size (ht0 shrunk_dict) = 16" "ht_size (ht1 shrunk_dict) = 4" "dictSize shrunk_dict = 1"
  "dictIsRehashing shrunk_dict" "sizemask (ht0 shrunk_dict) = 15" "sizemask (ht1 shrunk_dict) = 3"
  by (simp_all add: shrunk_dict_def shrink_dict_def dictSize_def dictIsRehashing_def)

lemma shrunk_buckets:
  "bucket_at (ht1 shrunk_dict) 0 = Some []" "bucket_at (ht1 shrunk_dict) 1 = Some []"
  "bucket_at (ht1 shrunk_dict) 2 = Some []" "bucket_at (ht1 shrunk_dict) 3 = Some []"
  by (code_simp+)

lemma shrunk_loop:
  "scan_loop 16 (ht0 shrunk_dict) 3 15 8 = Some ([], 16)" "scan_loop 16 (ht0 shrunk_dict) 3 15 2 = Some ([], 18)"
  "scan_loop 16 (ht0 shrunk_dict) 3 15 1 = Some ([], 17)" "scan_loop 16 (ht0 shrunk_dict) 3 15 3 = Some ([], 19)"
  by (code_simp+)

lemma shrunk_scan:
  "dictScan shrunk_dict 8 = Some ([], 2)" "dictScan shrunk_dict 2 = Some ([], 1)"
  "dictScan shrunk_dict 1 = Some ([], 3)" "dictScan shrunk_dict 3 = Some ([], 0)"
  subgoal using next_cursor(2) by (simp add: dictScan_def shrunk_fields shrunk_buckets shrunk_loop)
  subgoal using next_cursor(3) by (simp add: dictScan_def shrunk_fields shrunk_buckets shrunk_loop)
  subgoal using next_cursor(4) by (simp add: dictScan_def shrunk_fields shrunk_buckets shrunk_loop)
  subgoal using next_cursor(5) by (simp add: dictScan_def shrunk_fields shrunk_buckets shrunk_loop)
  done

text \<open>
  C24: \<open>dictScan\<close> can miss a key when the table shrinks during the iteration, although the key is in the
  dictionary from the first call to the last, contrary to the guarantee in the comment above it.
\<close>

theorem dictScan_shrink_misses:
  "let d = shrink_dict; d' = fst (dictResize True d) in
     dict_ok demo_hash d \<and> dict_ok demo_hash d' \<and> dict_map d 4 = Some 40 \<and> dict_map d' 4 = Some 40
     \<and> scan_run [d, d', d', d', d'] 0 = Some ([], 0)"
proof -
  have rs: "dictResize True shrink_dict = (shrunk_dict, True)" "dictExpand shrink_dict 4 = (shrunk_dict, True)"
    by (code_simp+)
  have ok: "dict_ok demo_hash shrink_dict" "dict_map shrink_dict = [4 \<mapsto> 40]" using shrink_dict_ok by simp_all
  have same: "same_dict demo_hash shrink_dict shrunk_dict"
    using dictExpand_ok [OF ok(1), of 4] rs(2) by auto
  have "dictScan shrink_dict 0 = Some ([], 8)"
    using next_cursor(1)
    by (simp add: dictScan_def shrink_dict_def bucket_at_def dictSize_def dictReset_def dictIsRehashing_def)
  then have "scan_run [shrink_dict, shrunk_dict, shrunk_dict, shrunk_dict, shrunk_dict] 0 = Some ([], 0)"
    by (simp add: shrunk_scan)
  then show ?thesis
    using rs(1) ok same same_dict_map [OF same ok(1)] by (simp add: Let_def same_dict_def)
qed

subsection \<open>Termination\<close>

text \<open>A cursor at the start of a block fits the smaller table.\<close>

lemma block_start_fits:
  assumes "n \<le> 64" "point v = i * 2 ^ (64 - n)"
  shows "unat v < 2 ^ n"
proof -
  have r: "rev_bits v = push_bit (64 - n) (word_of_nat i)"
  proof -
    have "rev_bits v = word_of_nat (unat (rev_bits v))" by simp
    also have "\<dots> = push_bit (64 - n) (word_of_nat i)"
      using assms(2) by (simp add: point_def push_bit_eq_mult)
    finally show ?thesis .
  qed
  have "take_bit n v = v"
  proof (rule bit_word_eqI)
    fix j assume "j < LENGTH(64)"
    then have j: "j < 64" by simp
    have "bit v j = bit (rev_bits v) (63 - j)" using bit_rev_bits [of "63 - j" v] j by simp
    also have "\<dots> \<longrightarrow> j < n" using j assms(1) unfolding r by (auto simp: bit_push_bit_iff)
    finally show "bit (take_bit n v) j = bit v j" by (auto simp: bit_take_bit_iff)
  qed
  then have "take_bit n (unat v) = unat v" by (metis unsigned_take_bit_eq)
  then show ?thesis by (metis take_bit_nat_less_exp)
qed

lemma scan_rounds:
  assumes ok: "dict_ok h d" and ne: "dictSize d \<noteq> 0" and n: "n \<le> 63" "scan_size d = 2 ^ n"
    and "i + j = 2 ^ n" "0 < j" "point v = i * 2 ^ (64 - n)"
  shows "\<exists>es. scan_run (replicate j d) v = Some (es, 0) \<and> scan_fits_all (replicate j d) v
    \<and> set es \<subseteq> set (dict_entries d)"
  using assms(5-)
proof (induction j arbitrary: i v)
  case (Suc j)
  obtain m es w where m: "m \<le> 63" "scan_size d = 2 ^ m" "dictScan d v = Some (es, w)"
    "set es \<subseteq> set (dict_entries d)" "point w = (point v div 2 ^ (64 - m) + 1) * 2 ^ (64 - m) mod 2 ^ 64"
    using scan_step [OF ok ne, of v] by blast
  have mn: "m = n" using m(2) n(2) by simp
  have fits: "scan_fits d v"
    using block_start_fits [OF _ Suc.prems(3)] n by (simp add: scan_fits_def)
  have full: "2 ^ n * 2 ^ (64 - n) = (2 ^ 64 :: nat)" using n(1) by (simp flip: power_add)
  have w: "point w = (i + 1) * 2 ^ (64 - n) mod 2 ^ 64"
    using m(5) Suc.prems(3) unfolding mn by simp
  show ?case
  proof (cases "j = 0")
    case True
    then have "point w = 0" using w Suc.prems(1) full by (metis add.commute mod_self One_nat_def)
    then have "w = 0" by (simp add: point_eq_0)
    then show ?thesis using True m(3,4) fits by simp
  next
    case False
    have "(i + 1) * 2 ^ (64 - n) < 2 ^ n * 2 ^ (64 - n)"
      using Suc.prems(1) False by (intro mult_strict_right_mono) simp_all
    then have "point w = (i + 1) * 2 ^ (64 - n)" using w full by simp
    with Suc.IH [of "i + 1" w] Suc.prems(1) False obtain es' where
      "scan_run (replicate j d) w = Some (es', 0)" "scan_fits_all (replicate j d) w"
      "set es' \<subseteq> set (dict_entries d)"
      by auto
    then show ?thesis using m(3,4) fits by auto
  qed
qed simp

text \<open>
  C5: an iteration ends, and is exact. On a dictionary that does not change between the calls, whether it
  is being rehashed or not, the cursor comes back to 0 after as many calls as the smaller table has buckets,
  and the entries returned are exactly the bindings of the dictionary.
\<close>

theorem dictScan_terminates:
  assumes ok: "dict_ok h d" and ne: "dictSize d \<noteq> 0"
  shows "\<exists>es. scan_run (replicate (scan_size d) d) 0 = Some (es, 0)
    \<and> (\<forall>k v. (k, v) \<in> set es \<longleftrightarrow> dict_map d k = Some v)"
proof -
  obtain n where n: "n \<le> 63" "scan_size d = 2 ^ n" using scan_step [OF assms] by blast
  obtain es where es: "scan_run (replicate (scan_size d) d) 0 = Some (es, 0)"
    "scan_fits_all (replicate (scan_size d) d) 0" "set es \<subseteq> set (dict_entries d)"
    using scan_rounds [OF assms n, of 0 "2 ^ n" 0] n(2) by auto
  have "(k, v) \<in> set es \<longleftrightarrow> dict_map d k = Some v" for k v
  proof
    assume "dict_map d k = Some v"
    then have "k \<in> fst ` set es"
      using scan_covers [OF _ _ es(1,2), of h k] ok n(2) by auto
    then obtain v' where v': "(k, v') \<in> set es" by auto
    then have "dict_map d k = Some v'" using es(3) dict_map_iff [OF ok] by blast
    then show "(k, v) \<in> set es" using v' \<open>dict_map d k = Some v\<close> by simp
  qed (use es(3) dict_map_iff [OF ok] in blast)
  then show ?thesis using es(1) by blast
qed

theorem dictScan_terminates_witness:
  "\<exists>es. scan_run (replicate 4 demo_dict) 0 = Some (es, 0)
     \<and> (\<forall>k v. (k, v) \<in> set es \<longleftrightarrow> [5 \<mapsto> 50, 6 \<mapsto> 60] k = Some v)"
  using dictScan_terminates [of demo_hash demo_dict] demo_dict_ok demo_fields(1,2)
  by (simp add: scan_size_def demo_dict_def)

end
