(* ===== verification/Map_Interface.thy ===== *)
theory Map_Interface
  imports Prelude "HOL-Library.Monad_Syntax"
begin

text \<open>
  The interface of an implementation of a finite map: insertion of a new key, replacement,
  deletion and lookup, and maintenance steps that reorganise the representation only. Every
  operation returns the changed state, lookups included, and may fail (\<open>None\<close>) outside the
  contract. A script of operations is run on the implementation and on the map, and the locale proves
  once that the answers agree.
\<close>

datatype ('k, 'v) map_op = Add 'k 'v | Replace 'k 'v | Delete 'k | Fetch 'k | Maintain nat

datatype 'v answer = Flag bool | Value "'v option" | Done

primrec op_key :: "('k, 'v) map_op \<Rightarrow> 'k option" where
  "op_key (Add k v) = Some k"
| "op_key (Replace k v) = Some k"
| "op_key (Delete k) = Some k"
| "op_key (Fetch k) = Some k"
| "op_key (Maintain n) = None"

fun map_step :: "('k \<Rightarrow> 'v option) \<Rightarrow> ('k, 'v) map_op \<Rightarrow> ('k \<Rightarrow> 'v option) \<times> 'v answer" where
  "map_step m (Add k v) = (if m k = None then (m(k \<mapsto> v), Flag True) else (m, Flag False))"
| "map_step m (Replace k v) = (m(k \<mapsto> v), Flag (m k = None))"
| "map_step m (Delete k) = (m(k := None), Flag (m k \<noteq> None))"
| "map_step m (Fetch k) = (m, Value (m k))"
| "map_step m (Maintain n) = (m, Done)"

fun map_run :: "('k \<Rightarrow> 'v option) \<Rightarrow> ('k, 'v) map_op list \<Rightarrow> ('k \<Rightarrow> 'v option) \<times> 'v answer list" where
  "map_run m [] = (m, [])"
| "map_run m (x # xs) =
     (let (m1, a) = map_step m x; (m2, as) = map_run m1 xs in (m2, a # as))"

fun run_script :: "('s \<Rightarrow> ('k, 'v) map_op \<Rightarrow> ('s \<times> 'v answer) option) \<Rightarrow> 's \<Rightarrow> ('k, 'v) map_op list
    \<Rightarrow> ('s \<times> 'v answer list) option" where
  "run_script f s [] = Some (s, [])"
| "run_script f s (x # xs) = do {
     (s1, a) \<leftarrow> f s x;
     (s2, as) \<leftarrow> run_script f s1 xs;
     Some (s2, a # as) }"

text \<open>One operation of a script on an implementation given by its five functions.\<close>

fun impl_step :: "('s \<Rightarrow> 'k \<Rightarrow> 'v \<Rightarrow> ('s \<times> bool) option) \<Rightarrow> ('s \<Rightarrow> 'k \<Rightarrow> 'v \<Rightarrow> ('s \<times> bool) option)
    \<Rightarrow> ('s \<Rightarrow> 'k \<Rightarrow> ('s \<times> bool) option) \<Rightarrow> ('s \<Rightarrow> 'k \<Rightarrow> ('s \<times> 'v option) option) \<Rightarrow> (nat \<Rightarrow> 's \<Rightarrow> 's option)
    \<Rightarrow> 's \<Rightarrow> ('k, 'v) map_op \<Rightarrow> ('s \<times> 'v answer) option" where
  "impl_step add replace delete fetch maintain s (Add k v) = map_option (apsnd Flag) (add s k v)"
| "impl_step add replace delete fetch maintain s (Replace k v) = map_option (apsnd Flag) (replace s k v)"
| "impl_step add replace delete fetch maintain s (Delete k) = map_option (apsnd Flag) (delete s k)"
| "impl_step add replace delete fetch maintain s (Fetch k) = map_option (apsnd Value) (fetch s k)"
| "impl_step add replace delete fetch maintain s (Maintain n) = map_option (\<lambda>s'. (s', Done)) (maintain n s)"

lemma card_dom_update: "finite (dom m) \<Longrightarrow> card (dom (m(k := x))) \<le> card (dom m) + 1"
  by (cases x) (auto simp: card_insert_if card_Diff_singleton_if)

lemma map_step_card:
  "finite (dom m) \<Longrightarrow> finite (dom (fst (map_step m x))) \<and> card (dom (fst (map_step m x))) \<le> card (dom m) + 1"
  using card_dom_update by (cases x) (auto simp: card_insert_if intro: le_SucI card_Diff1_le)

lemma map_run_card:
  "finite (dom m) \<Longrightarrow> finite (dom (fst (map_run m xs)))
     \<and> card (dom (fst (map_run m xs))) \<le> card (dom m) + length xs"
proof (induction xs arbitrary: m)
  case (Cons x xs)
  from map_step_card [OF Cons.prems, of x] Cons.IH [of "fst (map_step m x)"] show ?case
    by (auto simp: Let_def split: prod.splits)
qed simp

locale finite_map_impl =
  fixes R :: "'s \<Rightarrow> ('k \<Rightarrow> 'v option) \<Rightarrow> bool"
    and add :: "'s \<Rightarrow> 'k \<Rightarrow> 'v \<Rightarrow> ('s \<times> bool) option"
    and replace :: "'s \<Rightarrow> 'k \<Rightarrow> 'v \<Rightarrow> ('s \<times> bool) option"
    and delete :: "'s \<Rightarrow> 'k \<Rightarrow> ('s \<times> bool) option"
    and fetch :: "'s \<Rightarrow> 'k \<Rightarrow> ('s \<times> 'v option) option"
    and maintain :: "nat \<Rightarrow> 's \<Rightarrow> 's option"
    and ok :: "'k \<Rightarrow> bool"
    and limit :: nat
  assumes R_finite: "R s m \<Longrightarrow> finite (dom m)"
    and R_add: "R s m \<Longrightarrow> ok k \<Longrightarrow> card (dom m) < limit
      \<Longrightarrow> \<exists>s'. add s k v = Some (s', m k = None) \<and> R s' (if m k = None then m(k \<mapsto> v) else m)"
    and R_replace: "R s m \<Longrightarrow> ok k \<Longrightarrow> card (dom m) < limit
      \<Longrightarrow> \<exists>s'. replace s k v = Some (s', m k = None) \<and> R s' (m(k \<mapsto> v))"
    and R_delete: "R s m \<Longrightarrow> ok k \<Longrightarrow> \<exists>s'. delete s k = Some (s', m k \<noteq> None) \<and> R s' (m(k := None))"
    and R_fetch: "R s m \<Longrightarrow> ok k \<Longrightarrow> \<exists>s'. fetch s k = Some (s', m k) \<and> R s' m"
    and R_maintain: "R s m \<Longrightarrow> card (dom m) < limit \<Longrightarrow> \<exists>s'. maintain n s = Some s' \<and> R s' m"
begin

abbreviation step :: "'s \<Rightarrow> ('k, 'v) map_op \<Rightarrow> ('s \<times> 'v answer) option" where
  "step \<equiv> impl_step add replace delete fetch maintain"

lemma step_ok:
  assumes "R s m" "\<forall>k. op_key x = Some k \<longrightarrow> ok k" "card (dom m) < limit"
  shows "\<exists>s'. step s x = Some (s', snd (map_step m x)) \<and> R s' (fst (map_step m x))"
  using assms R_add [of s m] R_replace [of s m] R_delete [of s m] R_fetch [of s m] R_maintain [of s m]
  by (cases x) (fastforce split: if_splits)+

lemma script_ok:
  assumes "R s m" "\<forall>x \<in> set xs. \<forall>k. op_key x = Some k \<longrightarrow> ok k" "card (dom m) + length xs \<le> limit"
  shows "\<exists>s'. run_script step s xs = Some (s', snd (map_run m xs)) \<and> R s' (fst (map_run m xs))"
  using assms
proof (induction xs arbitrary: s m)
  case (Cons x xs)
  let ?m = "fst (map_step m x)"
  obtain s1 where s1: "step s x = Some (s1, snd (map_step m x))" "R s1 ?m"
    using step_ok [OF Cons.prems(1), of x] Cons.prems by auto
  have "card (dom ?m) + length xs \<le> limit"
    using map_step_card [OF R_finite [OF Cons.prems(1)], of x] Cons.prems(3) by simp
  then obtain s2 where "run_script step s1 xs = Some (s2, snd (map_run ?m xs))" "R s2 (fst (map_run ?m xs))"
    using Cons.IH [OF s1(2)] Cons.prems(2) by auto
  then show ?case using s1(1) by (auto simp: Let_def split: prod.splits)
qed simp

end

end
