(* ===== verification/Dict_Map.thy ===== *)
theory Dict_Map
  imports Dict_Scan Map_Interface
begin

text \<open>
  The hash table implements a finite map: whatever the script of insertions, replacements, deletions,
  lookups, resizes and rehashing steps, whatever the hash function, and however the keys collide.
  \<open>cr\<close> is the flag \<open>dict_can_resize\<close> and \<open>junk\<close> the value of an entry before it is set.
\<close>

definition is_dict :: "('k \<Rightarrow> 32 word) \<Rightarrow> ('k, 'v) dict \<Rightarrow> ('k \<Rightarrow> 'v option) \<Rightarrow> bool" where
  "is_dict h d m \<longleftrightarrow> dict_ok h d \<and> dict_map d = m"

definition dict_replace :: "('k \<Rightarrow> 32 word) \<Rightarrow> bool \<Rightarrow> 'v \<Rightarrow> ('k, 'v) dict \<Rightarrow> 'k \<Rightarrow> 'v \<Rightarrow> (('k, 'v) dict \<times> bool) option" where
  "dict_replace h cr junk d k v = map_option (apsnd fst) (dictReplace h cr junk d k v)"

definition dict_delete :: "('k \<Rightarrow> 32 word) \<Rightarrow> ('k, 'v) dict \<Rightarrow> 'k \<Rightarrow> (('k, 'v) dict \<times> bool) option" where
  "dict_delete h d k = map_option (apsnd fst) (dictDelete h d k)"

text \<open>Maintenance: 0 stands for \<open>dictResize\<close>, \<open>n > 0\<close> for \<open>dictRehash\<close> with \<open>n\<close> steps.\<close>

definition dict_maintain :: "('k \<Rightarrow> 32 word) \<Rightarrow> bool \<Rightarrow> nat \<Rightarrow> ('k, 'v) dict \<Rightarrow> ('k, 'v) dict option" where
  "dict_maintain h cr n d =
     (if n = 0 then Some (fst (dictResize cr d)) else map_option fst (dictRehash h d n))"

lemma is_dict_same: "is_dict h d m \<Longrightarrow> same_dict h d d' \<Longrightarrow> is_dict h d' m"
  using same_dict_map [of h d d'] by (auto simp: is_dict_def same_dict_def)

lemma is_dict_size: "is_dict h d m \<Longrightarrow> dictSize d = card (dom m) \<and> finite (dom m)"
  using dictSize_card by (auto simp: is_dict_def)

lemma dictResize_same:
  assumes "dict_ok h d" "dictSize d < 2 ^ 61"
  shows "same_dict h d (fst (dictResize cr d))"
proof -
  have "(if used (ht0 d) < 4 then 4 else used (ht0 d)) < 2 ^ 62"
    using assms(2) by (simp add: dictSize_def)
  from dictExpand_ok [OF assms(1) this] show ?thesis
    using same_dict_refl [OF assms(1)] by (auto simp: dictResize_def Let_def DICT_HT_INITIAL_SIZE_def)
qed

lemma dict_maintain_same:
  "dict_ok h d \<Longrightarrow> dictSize d < 2 ^ 61 \<Longrightarrow> \<exists>d'. dict_maintain h cr n d = Some d' \<and> same_dict h d d'"
  using dictResize_same [of h d cr] dictRehash_same [of h d n] by (auto simp: dict_maintain_def)

interpretation dict: finite_map_impl "is_dict h" "dictAdd h cr junk" "dict_replace h cr junk"
  "dict_delete h" "dictFetchValue h" "dict_maintain h cr" "\<lambda>_. True" "2 ^ 61" for h cr junk
proof (unfold_locales, goal_cases)
  case (1 s m) then show ?case using is_dict_size by blast
next
  case (2 s m k v) then show ?case
    using dictAdd_ok [of h s cr junk k v] is_dict_size [OF 2(1)] by (auto simp: is_dict_def)
next
  case (3 s m k v) then show ?case
    using dictReplace_ok [of h s cr junk k v] is_dict_size [OF 3(1)] by (auto simp: is_dict_def dict_replace_def)
next
  case (4 s m k) then show ?case
    using dictGenericDelete_ok [of h s k False] by (auto simp: is_dict_def dict_delete_def dictDelete_def)
next
  case (5 s m k) then show ?case
    using dictFetchValue_ok [of h s k] is_dict_same [OF 5(1)] by (auto simp: is_dict_def)
next
  case (6 s m n) then show ?case
    using dict_maintain_same [of h s cr n] is_dict_size [OF 6(1)] is_dict_same [OF 6(1)]
    by (auto simp: is_dict_def)
qed



text \<open>
  C22: rehashing makes progress and ends. \<open>dictRehash\<close> with \<open>n\<close> steps either finishes, leaving one
  table of the new size, or moves at least \<open>n\<close> keys; so it finishes at once when \<open>n\<close> exceeds the
  keys left in the old table. In either case it answers whether keys are left and changes no binding.
\<close>

theorem dictRehash_progress:
  assumes "dict_ok h d" and "dictIsRehashing d"
  shows "\<exists>d' m. dictRehash h d n = Some (d', m) \<and> dict_ok h d' \<and> dict_map d' = dict_map d
    \<and> m = dictIsRehashing d' \<and> (used (ht0 d) < n \<longrightarrow> \<not> m)
    \<and> (if m then used (ht0 d') + n \<le> used (ht0 d)
       else ht_size (ht0 d') = ht_size (ht1 d) \<and> ht1 d' = dictReset)"
proof -
  obtain d' m where d': "rehash_steps h n d = Some (d', m)" "same_dict h d d'" "m = dictIsRehashing d'"
    "used (ht0 d) < n \<longrightarrow> \<not> m" "m \<longrightarrow> used (ht0 d') + n \<le> used (ht0 d)" "\<not> m \<longrightarrow> ht_size (ht0 d') = ht_size (ht1 d)"
    using rehash_steps_ok [OF assms, of n] by blast
  have ok: "dict_ok h d'" using d'(2) by (simp add: same_dict_def)
  then have "\<not> m \<longrightarrow> ht1 d' = dictReset" using d'(3) by (simp add: dict_ok_def)
  then show ?thesis
    using d' ok same_dict_map [OF d'(2) assms(1)] assms(2) by (auto simp: dictRehash_def)
qed

lemma shrunk_dict_ok: "dict_ok demo_hash shrunk_dict \<and> dict_map shrunk_dict = [4 \<mapsto> 40]"
proof -
  have "dictExpand shrink_dict 4 = (shrunk_dict, True)" by code_simp
  then have "same_dict demo_hash shrink_dict shrunk_dict"
    using dictExpand_ok [of demo_hash shrink_dict 4] shrink_dict_ok by auto
  then show ?thesis
    using same_dict_map [of demo_hash shrink_dict shrunk_dict] shrink_dict_ok by (simp add: same_dict_def)
qed

theorem dictRehash_progress_witness:
  "\<exists>d'. dictRehash demo_hash shrunk_dict 2 = Some (d', False) \<and> dict_map d' = [4 \<mapsto> 40] \<and> ht_size (ht0 d') = 4"
proof -
  have "used (ht0 shrunk_dict) = 1" "ht_size (ht1 shrunk_dict) = 4"
    by (simp_all add: shrunk_dict_def shrink_dict_def)
  then show ?thesis
    using dictRehash_progress [of demo_hash shrunk_dict 2] shrunk_dict_ok shrunk_fields(4) by auto
qed

end
