(* ===== verification/Server.thy ===== *)
theory Server
  imports Util_Numbers Intset "HOL-Library.Monad_Syntax"
begin

text \<open>
  The state that commands work on (\<open>redis.h\<close>), the objects stored in the databases
  (\<open>object.c\<close>) and the functions that append replies to a client's output (\<open>networking.c\<close>).
  Clients are named by numbers. The output of a client is the sequence of bytes queued for it,
  whatever part of them the static buffer and the list of blocks hold. A hash table of the
  server is a map. A failed assertion, which aborts the program, is \<open>None\<close>.
\<close>

subsection \<open>Objects\<close>

datatype encoding = ENC_RAW | ENC_INT | ENC_HT | ENC_ZIPMAP | ENC_LINKEDLIST | ENC_ZIPLIST | ENC_INTSET | ENC_SKIPLIST

datatype obj_type = REDIS_STRING | REDIS_LIST | REDIS_SET | REDIS_ZSET | REDIS_HASH

text \<open>
  The payload of an object; the sorted sets are opaque, of type \<open>'z\<close>. The flags tell the compact
  encoding (\<open>REDIS_ENCODING_ZIPLIST\<close>) from the other one.
\<close>

datatype 'z oval =
    StrRaw string
  | StrInt int
  | ListV bool "string list"
  | SetIntset intset
  | SetHT "string list"
  | HashV bool "(string \<times> string) list"
  | ZsetV bool 'z

record 'z robj =
  oval :: "'z oval"
  lru :: int

fun otype :: "'z oval \<Rightarrow> obj_type" where
  "otype (StrRaw s) = REDIS_STRING"
| "otype (StrInt v) = REDIS_STRING"
| "otype (ListV z xs) = REDIS_LIST"
| "otype (SetIntset i) = REDIS_SET"
| "otype (SetHT xs) = REDIS_SET"
| "otype (HashV z xs) = REDIS_HASH"
| "otype (ZsetV z x) = REDIS_ZSET"

fun obj_enc :: "'z oval \<Rightarrow> encoding" where
  "obj_enc (StrRaw s) = ENC_RAW"
| "obj_enc (StrInt v) = ENC_INT"
| "obj_enc (ListV z xs) = (if z then ENC_ZIPLIST else ENC_LINKEDLIST)"
| "obj_enc (SetIntset i) = ENC_INTSET"
| "obj_enc (SetHT xs) = ENC_HT"
| "obj_enc (HashV z xs) = (if z then ENC_ZIPLIST else ENC_HT)"
| "obj_enc (ZsetV z x) = (if z then ENC_ZIPLIST else ENC_SKIPLIST)"

fun strEncoding :: "encoding \<Rightarrow> string" where
  "strEncoding ENC_RAW = ''raw''"
| "strEncoding ENC_INT = ''int''"
| "strEncoding ENC_HT = ''hashtable''"
| "strEncoding ENC_ZIPMAP = ''unknown''"
| "strEncoding ENC_LINKEDLIST = ''linkedlist''"
| "strEncoding ENC_ZIPLIST = ''ziplist''"
| "strEncoding ENC_INTSET = ''intset''"
| "strEncoding ENC_SKIPLIST = ''skiplist''"

text \<open>\<open>ll2string\<close> into a local buffer of 32 bytes.\<close>

definition ll2str :: "int \<Rightarrow> string" where
  "ll2str v = (case ll2string (replicate 32 NUL) 32 v of (n, buf) \<Rightarrow> take n buf)"

lemma ll2str_show [simp]: "in_ll v \<Longrightarrow> ll2str v = show_int v"
  using ll2string_ok [of v 32 "replicate 32 NUL"] length_show_int [of v] by (simp add: ll2str_def)

fun getDecodedObject :: "'z oval \<Rightarrow> string option" where
  "getDecodedObject (StrRaw s) = Some s"
| "getDecodedObject (StrInt v) = Some (ll2str v)"
| "getDecodedObject _ = None"

definition stringObjectLen :: "'z oval \<Rightarrow> nat option" where
  "stringObjectLen o1 = (case o1 of StrRaw s \<Rightarrow> Some (length s)
     | StrInt v \<Rightarrow> Some (fst (ll2string (replicate 32 NUL) 32 v)) | _ \<Rightarrow> None)"

text \<open>The comparison by bytes; \<open>memcmp\<close> stops at the first difference.\<close>

fun memcmp :: "string \<Rightarrow> string \<Rightarrow> int" where
  "memcmp (a # as) (b # bs) = (if a = b then memcmp as bs else int (uchar a) - int (uchar b))"
| "memcmp _ _ = 0"

definition compareStringObjects :: "'z oval \<Rightarrow> 'z oval \<Rightarrow> int option" where
  "compareStringObjects a b = do {
     x \<leftarrow> getDecodedObject a;
     y \<leftarrow> getDecodedObject b;
     let minlen = min (length x) (length y); cmp = memcmp (take minlen x) (take minlen y) in
     Some (if cmp = 0 then int (length x) - int (length y) else cmp) }"

definition equalStringObjects :: "'z oval \<Rightarrow> 'z oval \<Rightarrow> bool option" where
  "equalStringObjects a b = (case (a, b) of (StrInt v, StrInt w) \<Rightarrow> Some (v = w)
     | _ \<Rightarrow> map_option (\<lambda>n. n = 0) (compareStringObjects a b))"

text \<open>\<open>tryObjectEncoding\<close> of an unshared raw string: a number when it is the notation of one.\<close>

definition tryObjectEncoding :: "string \<Rightarrow> 'z oval" where
  "tryObjectEncoding s =
     (if length s > 21 then StrRaw s
      else case string2l s of None \<Rightarrow> StrRaw s | Some v \<Rightarrow> StrInt v)"

definition createStringObjectFromLongLong :: "int \<Rightarrow> 'z oval" where
  "createStringObjectFromLongLong v = StrInt v"

definition isObjectRepresentableAsLongLong :: "'z oval \<Rightarrow> int option option" where
  "isObjectRepresentableAsLongLong x = (case x of StrInt v \<Rightarrow> Some (Some v)
     | StrRaw s \<Rightarrow> Some (string2ll s) | _ \<Rightarrow> None)"

subsection \<open>Numbers from strings\<close>

definition isspace :: "char \<Rightarrow> bool" where
  "isspace c \<longleftrightarrow> c \<in> {CHR '' '', CHR 0x09, CHR 0x0A, CHR 0x0B, CHR 0x0C, CHR 0x0D}"

text \<open>A string as the C library sees it: up to the first NUL.\<close>

definition cstr :: "string \<Rightarrow> string" where
  "cstr s = takeWhile (\<lambda>c. c \<noteq> NUL) s"

text \<open>\<open>strtoll\<close> with base 10: the value, the rest of the string, and whether \<open>ERANGE\<close> is set.\<close>

definition strtoll :: "string \<Rightarrow> int \<times> string \<times> bool" where
  "strtoll p =
     (let q = dropWhile isspace p;
          (neg, r) = (case q of [] \<Rightarrow> (False, q)
             | c # r \<Rightarrow> if c = CHR ''-'' then (True, r) else if c = CHR ''+'' then (False, r) else (False, q));
          ds = takeWhile is_digit r;
          v = (if neg then - int (digits_val 0 ds) else int (digits_val 0 ds))
      in if ds = [] then (0, p, False)
         else if v > LLONG_MAX then (LLONG_MAX, dropWhile is_digit r, True)
         else if v < LLONG_MIN then (LLONG_MIN, dropWhile is_digit r, True)
         else (v, dropWhile is_digit r, False))"

definition string_ll :: "string \<Rightarrow> int option" where
  "string_ll s =
     (case strtoll (cstr s) of (value, eptr, erange) \<Rightarrow>
        if (case s of [] \<Rightarrow> False | c # _ \<Rightarrow> isspace c) \<or> eptr \<noteq> [] \<or> erange then None else Some value)"

text \<open>\<open>Some None\<close> stands for \<open>REDIS_ERR\<close>.\<close>

definition getLongLongFromObject :: "'z oval option \<Rightarrow> int option option" where
  "getLongLongFromObject x = (case x of None \<Rightarrow> Some (Some 0)
     | Some (StrRaw s) \<Rightarrow> Some (string_ll s)
     | Some (StrInt v) \<Rightarrow> Some (Some v)
     | _ \<Rightarrow> None)"

subsection \<open>The state\<close>

record client =
  lua_client :: bool
  master_link :: bool
  master_force_reply :: bool
  fake_client :: bool
  close_after_reply :: bool
  multi :: bool
  dirty_cas :: bool
  dirty_exec :: bool
  pubsub_flag :: bool
  force_aof :: bool
  force_repl :: bool
  cdb :: nat
  argv :: "string list"
  reply :: string
  mstate :: "string list list"
  cwatched :: "(nat \<times> string) list"
  channels :: "string set"
  patterns :: "string list"

record 'z redisDb =
  ddict :: "string \<Rightarrow> 'z robj option"
  expires :: "string \<Rightarrow> int option"
  blocking_keys :: "string \<Rightarrow> nat list option"
  ready_keys :: "string set"
  watched_keys :: "string \<Rightarrow> nat list option"

text \<open>The limits of the configuration above which a compact list is converted.\<close>

record limits =
  list_max_ziplist_entries :: nat
  list_max_ziplist_value :: nat

text \<open>
  Besides the fields of \<open>server\<close>: \<open>now\<close> is the clock in milliseconds, which stands still during
  a command, \<open>order\<close> the order in which an iterator meets the keys of a hash table, and \<open>aof_log\<close> and
  \<open>slave_log\<close> the commands handed to \<open>feedAppendOnlyFile\<close> and \<open>replicationFeedSlaves\<close>.
\<close>

record 'z server =
  dbs :: "nat \<Rightarrow> 'z redisDb"
  dbnum :: nat
  clients :: "nat \<Rightarrow> client"
  client_list :: "nat list"
  pubsub_channels :: "string \<Rightarrow> nat list option"
  pubsub_patterns :: "(nat \<times> string) list"
  srv_ready_keys :: "(nat \<times> string) list"
  dirty :: int
  stat_hits :: nat
  stat_misses :: nat
  stat_expired :: nat
  lruclock :: int
  child_active :: bool
  loading :: bool
  is_slave :: bool
  lua_time :: "int option"
  now :: int
  aof_on :: bool
  notify_flags :: int
  order :: "string set \<Rightarrow> string list"
  aof_log :: "(nat \<times> string list) list"
  slave_log :: "(nat \<times> string list) list"
  limits :: limits

text \<open>Updates of one client and of one database.\<close>

definition upd_client :: "nat \<Rightarrow> (client \<Rightarrow> client) \<Rightarrow> 'z server \<Rightarrow> 'z server" where
  "upd_client c f s = s\<lparr>clients := (clients s)(c := f (clients s c))\<rparr>"

definition upd_db :: "nat \<Rightarrow> ('z redisDb \<Rightarrow> 'z redisDb) \<Rightarrow> 'z server \<Rightarrow> 'z server" where
  "upd_db i f s = s\<lparr>dbs := (dbs s)(i := f (dbs s i))\<rparr>"

text \<open>A client as \<open>createClient\<close> leaves it, on a connection.\<close>

definition createClient :: client where
  "createClient = \<lparr>lua_client = False, master_link = False, master_force_reply = False, fake_client = False,
     close_after_reply = False, multi = False, dirty_cas = False, dirty_exec = False, pubsub_flag = False,
     force_aof = False, force_repl = False, cdb = 0, argv = [], reply = [], mstate = [], cwatched = [],
     channels = {}, patterns = []\<rparr>"

subsection \<open>Replies\<close>

definition CRLF :: string where "CRLF = [CHR 0x0D, CHR 0x0A]"

definition shared_ok :: string where "shared_ok = ''+OK'' @ CRLF"
definition shared_err :: string where "shared_err = ''-ERR'' @ CRLF"
definition shared_emptybulk :: string where "shared_emptybulk = ''$0'' @ CRLF @ CRLF"
definition shared_czero :: string where "shared_czero = '':0'' @ CRLF"
definition shared_cone :: string where "shared_cone = '':1'' @ CRLF"
definition shared_cnegone :: string where "shared_cnegone = '':-1'' @ CRLF"
definition shared_nullbulk :: string where "shared_nullbulk = ''$-1'' @ CRLF"
definition shared_nullmultibulk :: string where "shared_nullmultibulk = ''*-1'' @ CRLF"
definition shared_emptymultibulk :: string where "shared_emptymultibulk = ''*0'' @ CRLF"
definition shared_queued :: string where "shared_queued = ''+QUEUED'' @ CRLF"
definition shared_wrongtypeerr :: string where
  "shared_wrongtypeerr = ''-WRONGTYPE Operation against a key holding the wrong kind of value'' @ CRLF"
definition shared_nokeyerr :: string where "shared_nokeyerr = ''-ERR no such key'' @ CRLF"
definition shared_syntaxerr :: string where "shared_syntaxerr = ''-ERR syntax error'' @ CRLF"
definition shared_sameobjecterr :: string where
  "shared_sameobjecterr = ''-ERR source and destination objects are the same'' @ CRLF"
definition shared_outofrangeerr :: string where "shared_outofrangeerr = ''-ERR index out of range'' @ CRLF"
definition shared_execaborterr :: string where
  "shared_execaborterr = ''-EXECABORT Transaction discarded because of previous errors.'' @ CRLF"
definition shared_messagebulk :: string where "shared_messagebulk = ''$7'' @ CRLF @ ''message'' @ CRLF"
definition shared_pmessagebulk :: string where "shared_pmessagebulk = ''$8'' @ CRLF @ ''pmessage'' @ CRLF"
definition shared_subscribebulk :: string where "shared_subscribebulk = ''$9'' @ CRLF @ ''subscribe'' @ CRLF"
definition shared_unsubscribebulk :: string where
  "shared_unsubscribebulk = ''$11'' @ CRLF @ ''unsubscribe'' @ CRLF"
definition shared_psubscribebulk :: string where
  "shared_psubscribebulk = ''$10'' @ CRLF @ ''psubscribe'' @ CRLF"
definition shared_punsubscribebulk :: string where
  "shared_punsubscribebulk = ''$12'' @ CRLF @ ''punsubscribe'' @ CRLF"

text \<open>The headers of the shared tables \<open>mbulkhdr\<close> and \<open>bulkhdr\<close>, printed by \<open>sdscatprintf\<close>.\<close>

definition shared_mbulkhdr :: "int \<Rightarrow> string" where "shared_mbulkhdr j = ''*'' @ show_int j @ CRLF"
definition shared_bulkhdr :: "int \<Rightarrow> string" where "shared_bulkhdr j = ''$'' @ show_int j @ CRLF"

definition SHARED_BULKHDR_LEN :: int where "SHARED_BULKHDR_LEN = 32"

definition prepareClientToWrite :: "client \<Rightarrow> bool" where
  "prepareClientToWrite cl =
     (if lua_client cl then True
      else if master_link cl \<and> \<not> master_force_reply cl then False
      else \<not> fake_client cl)"

definition writable :: "client \<Rightarrow> bool" where
  "writable cl \<longleftrightarrow> prepareClientToWrite cl \<and> \<not> close_after_reply cl"

definition addReply :: "nat \<Rightarrow> string \<Rightarrow> 'z server \<Rightarrow> 'z server" where
  "addReply c x s =
     (if writable (clients s c) then upd_client c (\<lambda>cl. cl\<lparr>reply := reply cl @ x\<rparr>) s else s)"

definition addReplyString :: "nat \<Rightarrow> string \<Rightarrow> 'z server \<Rightarrow> 'z server" where
  "addReplyString c x s = addReply c x s"

definition addReplyErrorLength :: "nat \<Rightarrow> string \<Rightarrow> 'z server \<Rightarrow> 'z server" where
  "addReplyErrorLength c err s =
     addReplyString c CRLF (addReplyString c err (addReplyString c ''-ERR '' s))"

definition addReplyError :: "nat \<Rightarrow> string \<Rightarrow> 'z server \<Rightarrow> 'z server" where
  "addReplyError c err s = addReplyErrorLength c err s"

text \<open>\<open>addReplyErrorFormat\<close> on the formatted text: line breaks become spaces.\<close>

definition addReplyErrorFormat :: "nat \<Rightarrow> string \<Rightarrow> 'z server \<Rightarrow> 'z server" where
  "addReplyErrorFormat c err s =
     addReplyErrorLength c (map (\<lambda>ch. if ch = CHR 0x0D \<or> ch = CHR 0x0A then CHR '' '' else ch) err) s"

definition addReplyStatus :: "nat \<Rightarrow> string \<Rightarrow> 'z server \<Rightarrow> 'z server" where
  "addReplyStatus c st s = addReplyString c CRLF (addReplyString c st (addReplyString c ''+'' s))"

definition addReplyLongLongWithPrefix :: "nat \<Rightarrow> int \<Rightarrow> char \<Rightarrow> 'z server \<Rightarrow> 'z server" where
  "addReplyLongLongWithPrefix c ll prefix s =
     (if prefix = CHR ''*'' \<and> ll < SHARED_BULKHDR_LEN then addReply c (shared_mbulkhdr ll) s
      else if prefix = CHR ''$'' \<and> ll < SHARED_BULKHDR_LEN then addReply c (shared_bulkhdr ll) s
      else addReplyString c ((prefix # ll2str ll) @ CRLF) s)"

definition addReplyLongLong :: "nat \<Rightarrow> int \<Rightarrow> 'z server \<Rightarrow> 'z server" where
  "addReplyLongLong c ll s =
     (if ll = 0 then addReply c shared_czero s
      else if ll = 1 then addReply c shared_cone s
      else addReplyLongLongWithPrefix c ll CHR '':'' s)"

definition addReplyMultiBulkLen :: "nat \<Rightarrow> int \<Rightarrow> 'z server \<Rightarrow> 'z server" where
  "addReplyMultiBulkLen c n s =
     (if n < SHARED_BULKHDR_LEN then addReply c (shared_mbulkhdr n) s
      else addReplyLongLongWithPrefix c n CHR ''*'' s)"

text \<open>
  The length of the notation of a number, as \<open>addReplyBulkLen\<close> computes it. The sign change of the smallest
  number does not fit \<open>long\<close>; it leaves the number as it is on the usual machines, and the
  loop, whose quotients are truncated, then counts the digits all the same.
\<close>

function decimal_len :: "nat \<Rightarrow> nat" where
  "decimal_len n = (if n div 10 = 0 then 1 else decimal_len (n div 10) + 1)"
  by pat_completeness auto
termination
  by (relation "measure id") auto

declare decimal_len.simps [simp del]

definition addReplyBulkLen :: "nat \<Rightarrow> 'z oval \<Rightarrow> 'z server \<Rightarrow> 'z server" where
  "addReplyBulkLen c obj s =
     (let len = (case obj of StrRaw x \<Rightarrow> length x
            | StrInt n \<Rightarrow> (if n < 0 then 1 else 0) + decimal_len (nat \<bar>n\<bar>)
            | _ \<Rightarrow> 0)
      in if int len < SHARED_BULKHDR_LEN then addReply c (shared_bulkhdr (int len)) s
         else addReplyLongLongWithPrefix c (int len) CHR ''$'' s)"

text \<open>\<open>addReply\<close> of an object: only strings are added.\<close>

definition addReplyObj :: "nat \<Rightarrow> 'z oval \<Rightarrow> 'z server \<Rightarrow> 'z server option" where
  "addReplyObj c obj s =
     (if prepareClientToWrite (clients s c) then do { x \<leftarrow> getDecodedObject obj; Some (addReply c x s) }
      else Some s)"

definition addReplyBulk :: "nat \<Rightarrow> 'z oval \<Rightarrow> 'z server \<Rightarrow> 'z server option" where
  "addReplyBulk c obj s = do {
     s1 \<leftarrow> addReplyObj c obj (addReplyBulkLen c obj s);
     Some (addReply c CRLF s1) }"

definition addReplyBulkCBuffer :: "nat \<Rightarrow> string \<Rightarrow> 'z server \<Rightarrow> 'z server" where
  "addReplyBulkCBuffer c p s =
     addReply c CRLF (addReplyString c p (addReplyLongLongWithPrefix c (int (length p)) CHR ''$'' s))"

definition addReplyBulkCString :: "nat \<Rightarrow> string option \<Rightarrow> 'z server \<Rightarrow> 'z server" where
  "addReplyBulkCString c x s = (case x of None \<Rightarrow> addReply c shared_nullbulk s
     | Some y \<Rightarrow> addReplyBulkCBuffer c (cstr y) s)"

definition addReplyBulkLongLong :: "nat \<Rightarrow> int \<Rightarrow> 'z server \<Rightarrow> 'z server" where
  "addReplyBulkLongLong c ll s = addReplyBulkCBuffer c (ll2str ll) s"

text \<open>
  A multi bulk length that is filled in later: the place where it belongs, if the client takes output,
  and its insertion there.
\<close>

definition addDeferredMultiBulkLength :: "nat \<Rightarrow> 'z server \<Rightarrow> nat option" where
  "addDeferredMultiBulkLength c s =
     (if prepareClientToWrite (clients s c) then Some (length (reply (clients s c))) else None)"

definition setDeferredMultiBulkLength :: "nat \<Rightarrow> nat option \<Rightarrow> int \<Rightarrow> 'z server \<Rightarrow> 'z server" where
  "setDeferredMultiBulkLength c node n s = (case node of None \<Rightarrow> s
     | Some p \<Rightarrow> upd_client c (\<lambda>cl. cl\<lparr>reply := take p (reply cl) @ ''*'' @ show_int n @ CRLF @ drop p (reply cl)\<rparr>) s)"

definition checkType :: "nat \<Rightarrow> 'z oval \<Rightarrow> obj_type \<Rightarrow> 'z server \<Rightarrow> 'z server \<times> bool" where
  "checkType c obj t s =
     (if otype obj \<noteq> t then (addReply c shared_wrongtypeerr s, True) else (s, False))"

definition getLongLongFromObjectOrReply :: "nat \<Rightarrow> 'z oval option \<Rightarrow> string option \<Rightarrow> 'z server
    \<Rightarrow> ('z server \<times> int option) option" where
  "getLongLongFromObjectOrReply c obj msg s = do {
     r \<leftarrow> getLongLongFromObject obj;
     Some (case r of
        None \<Rightarrow> (addReplyError c (case msg of Some m \<Rightarrow> m
                   | None \<Rightarrow> ''value is not an integer or out of range'') s, None)
      | Some v \<Rightarrow> (s, Some v)) }"

definition getLongFromObjectOrReply :: "nat \<Rightarrow> 'z oval option \<Rightarrow> string option \<Rightarrow> 'z server
    \<Rightarrow> ('z server \<times> int option) option" where
  "getLongFromObjectOrReply c obj msg s = do {
     (s1, r) \<leftarrow> getLongLongFromObjectOrReply c obj msg s;
     Some (case r of
        None \<Rightarrow> (s1, None)
      | Some v \<Rightarrow>
          if v < LLONG_MIN \<or> v > LLONG_MAX
          then (addReplyError c (case msg of Some m \<Rightarrow> m | None \<Rightarrow> ''value is out of range'') s1, None)
          else (s1, Some v)) }"

subsection \<open>Output in normal form\<close>

text \<open>
  \<open>push f\<close> queues \<open>f d\<close> for every client \<open>d\<close> that takes output. Replies, published messages and
  notifications are all of this form, and two in a row are one.
\<close>

definition push :: "(nat \<Rightarrow> string) \<Rightarrow> 'z server \<Rightarrow> 'z server" where
  "push f s = s\<lparr>clients := \<lambda>d. (clients s d)\<lparr>reply := reply (clients s d) @ (if writable (clients s d) then f d else [])\<rparr>\<rparr>"

definition to :: "nat \<Rightarrow> string \<Rightarrow> nat \<Rightarrow> string" where
  "to c x = (\<lambda>d. if d = c then x else [])"

named_theorems push_simps "replies in normal form"

lemma writable_reply [simp]: "writable (cl\<lparr>reply := r\<rparr>) = writable cl"
  by (simp add: writable_def prepareClientToWrite_def)

lemma prepare_reply [simp]: "prepareClientToWrite (cl\<lparr>reply := r\<rparr>) = prepareClientToWrite cl"
  by (simp add: prepareClientToWrite_def)

lemma push_push [simp]: "push g (push f s) = push (\<lambda>d. f d @ g d) s"
  by (simp add: push_def fun_eq_iff)

lemma push_nil [simp]: "push (\<lambda>d. []) s = s"
  by (simp add: push_def)

lemma to_nil [simp]: "to c [] = (\<lambda>d. [])"
  by (simp add: to_def)

lemma to_append [simp]: "to c x d @ to c y d = to c (x @ y) d"
  by (simp add: to_def)

lemma to_append_assoc [simp]: "to c x d @ to c y d @ z = to c (x @ y) d @ z"
  by (simp add: to_def)

lemma to_same [simp]: "to c x c = x" and to_other [simp]: "d \<noteq> c \<Longrightarrow> to c x d = []"
  by (simp_all add: to_def)

lemma push_fields [simp]:
  "dbs (push f s) = dbs s" "dbnum (push f s) = dbnum s" "client_list (push f s) = client_list s"
  "pubsub_channels (push f s) = pubsub_channels s" "pubsub_patterns (push f s) = pubsub_patterns s"
  "srv_ready_keys (push f s) = srv_ready_keys s" "dirty (push f s) = dirty s"
  "stat_hits (push f s) = stat_hits s" "stat_misses (push f s) = stat_misses s"
  "stat_expired (push f s) = stat_expired s" "lruclock (push f s) = lruclock s"
  "child_active (push f s) = child_active s" "loading (push f s) = loading s" "is_slave (push f s) = is_slave s"
  "lua_time (push f s) = lua_time s" "now (push f s) = now s" "aof_on (push f s) = aof_on s"
  "notify_flags (push f s) = notify_flags s" "order (push f s) = order s"
  "aof_log (push f s) = aof_log s" "slave_log (push f s) = slave_log s" "limits (push f s) = limits s"
  by (simp_all add: push_def)

lemma push_client:
  "clients (push f s) d = (clients s d)\<lparr>reply := reply (clients s d) @ (if writable (clients s d) then f d else [])\<rparr>"
  by (simp add: push_def)

lemma push_client_fields [simp]:
  "lua_client (clients (push f s) d) = lua_client (clients s d)"
  "multi (clients (push f s) d) = multi (clients s d)"
  "dirty_cas (clients (push f s) d) = dirty_cas (clients s d)"
  "dirty_exec (clients (push f s) d) = dirty_exec (clients s d)"
  "pubsub_flag (clients (push f s) d) = pubsub_flag (clients s d)"
  "force_aof (clients (push f s) d) = force_aof (clients s d)"
  "force_repl (clients (push f s) d) = force_repl (clients s d)"
  "cdb (clients (push f s) d) = cdb (clients s d)" "argv (clients (push f s) d) = argv (clients s d)"
  "mstate (clients (push f s) d) = mstate (clients s d)"
  "cwatched (clients (push f s) d) = cwatched (clients s d)"
  "channels (clients (push f s) d) = channels (clients s d)"
  "patterns (clients (push f s) d) = patterns (clients s d)"
  "writable (clients (push f s) d) = writable (clients s d)"
  "prepareClientToWrite (clients (push f s) d) = prepareClientToWrite (clients s d)"
  by (simp_all add: push_client)

lemma addReply_push [push_simps]: "addReply c x s = push (to c x) s"
  by (simp add: addReply_def push_def upd_client_def to_def fun_eq_iff)

lemma decimal_len_show: "decimal_len n = length (show_nat n)"
proof (induction n rule: decimal_len.induct)
  case (1 n)
  then show ?case by (subst decimal_len.simps, subst show_nat.simps) (auto simp: div_eq_0_iff)
qed

text \<open>The bytes of a bulk and of an integer reply.\<close>

definition bulk :: "string \<Rightarrow> string" where
  "bulk x = ''$'' @ show_int (int (length x)) @ CRLF @ x @ CRLF"

definition int_reply :: "int \<Rightarrow> string" where
  "int_reply v = '':'' @ show_int v @ CRLF"

definition error_reply :: "string \<Rightarrow> string" where
  "error_reply m = ''-ERR '' @ m @ CRLF"

lemma show_int_small: "show_int 0 = ''0''" "show_int 1 = ''1''" "show_int 3 = ''3''" "show_int 4 = ''4''"
  by (code_simp+)

lemma error_push [push_simps]: "addReplyError c m s = push (to c (error_reply m)) s"
  by (simp add: addReplyError_def addReplyErrorLength_def addReplyString_def addReply_push error_reply_def)

lemma status_push [push_simps]: "addReplyStatus c m s = push (to c (''+'' @ m @ CRLF)) s"
  by (simp add: addReplyStatus_def addReplyString_def addReply_push)

lemma longlong_push [push_simps]: "in_ll v \<Longrightarrow> addReplyLongLong c v s = push (to c (int_reply v)) s"
  by (simp add: addReplyLongLong_def addReplyLongLongWithPrefix_def addReplyString_def addReply_push
      int_reply_def shared_czero_def shared_cone_def show_int_small)

lemma prefix_push:
  "in_ll v \<Longrightarrow> p = CHR ''*'' \<or> p = CHR ''$'' \<Longrightarrow>
     addReplyLongLongWithPrefix c v p s = push (to c (p # show_int v @ CRLF)) s"
  by (auto simp: addReplyLongLongWithPrefix_def addReplyString_def addReply_push shared_mbulkhdr_def shared_bulkhdr_def)

lemma mbulklen_push [push_simps]:
  "in_ll n \<Longrightarrow> addReplyMultiBulkLen c n s = push (to c (''*'' @ show_int n @ CRLF)) s"
  by (simp add: addReplyMultiBulkLen_def prefix_push addReply_push shared_mbulkhdr_def)

lemma cbuffer_push [push_simps]:
  "in_ll (int (length x)) \<Longrightarrow> addReplyBulkCBuffer c x s = push (to c (bulk x)) s"
  by (simp add: addReplyBulkCBuffer_def addReplyString_def addReply_push prefix_push bulk_def)

text \<open>A string object is well formed when its length or its number has 64 bits.\<close>

fun str_ok :: "'z oval \<Rightarrow> bool" where
  "str_ok (StrRaw x) = (int (length x) \<le> LLONG_MAX)"
| "str_ok (StrInt v) = in_ll v"
| "str_ok _ = True"

fun str_val :: "'z oval \<Rightarrow> string" where
  "str_val (StrRaw x) = x"
| "str_val (StrInt v) = show_int v"
| "str_val _ = []"

lemma decoded_val: "otype v = REDIS_STRING \<Longrightarrow> str_ok v \<Longrightarrow> getDecodedObject v = Some (str_val v)"
  by (cases v) simp_all

lemma bulklen_push:
  assumes "otype v = REDIS_STRING" "str_ok v"
  shows "addReplyBulkLen c v s = push (to c (''$'' @ show_int (int (length (str_val v))) @ CRLF)) s"
proof -
  define len where "len = length (str_val v)"
  have "(case v of StrRaw x \<Rightarrow> length x | StrInt n \<Rightarrow> (if n < 0 then 1 else 0) + decimal_len (nat \<bar>n\<bar>) | _ \<Rightarrow> 0) = len"
    using assms by (cases v) (auto simp: len_def decimal_len_show show_int_def)
  moreover have "in_ll (int len)"
    using assms length_show_int by (cases v) (force simp: len_def in_ll_def)+
  ultimately show ?thesis
    by (simp add: addReplyBulkLen_def prefix_push addReply_push shared_bulkhdr_def flip: len_def)
qed

lemma bulk_push [push_simps]:
  assumes "otype v = REDIS_STRING" "str_ok v"
  shows "addReplyBulk c v s = Some (push (to c (bulk (str_val v))) s)"
proof -
  have "addReplyObj c v s1 = Some (push (to c (str_val v)) s1)" for s1 :: "'a server"
    using decoded_val [OF assms]
    by (cases "prepareClientToWrite (clients s1 c)")
       (simp_all add: addReplyObj_def addReply_push push_def writable_def to_def fun_eq_iff)
  then show ?thesis
    using assms by (simp add: addReplyBulk_def bulklen_push addReply_push bulk_def)
qed

end
