(* ===== verification/Pubsub.thy ===== *)
theory Pubsub
  imports Server Util_Glob
begin

unbundle bit_operations_syntax

text \<open>
  Publish/subscribe (\<open>pubsub.c\<close>) and keyspace notifications (\<open>notify.c\<close>). Channels, patterns
  and messages are strings, so the objects of the code stand for their contents.
\<close>

subsection \<open>Subscriptions\<close>

definition clientSubscriptionsCount :: "client \<Rightarrow> int" where
  "clientSubscriptionsCount cl = int (card (channels cl)) + int (length (patterns cl))"

definition pubsubSubscribeChannel :: "nat \<Rightarrow> string \<Rightarrow> 'z server \<Rightarrow> ('z server \<times> bool) option" where
  "pubsubSubscribeChannel c channel s =
     (let (s1, retval) =
        (if channel \<in> channels (clients s c) then (s, False)
         else
           let s' = upd_client c (\<lambda>cl. cl\<lparr>channels := insert channel (channels cl)\<rparr>) s;
               cs = (case pubsub_channels s' channel of None \<Rightarrow> [] | Some cs \<Rightarrow> cs)
           in (s'\<lparr>pubsub_channels := (pubsub_channels s')(channel \<mapsto> cs @ [c])\<rparr>, True));
        s2 = addReply c shared_subscribebulk (addReply c (shared_mbulkhdr 3) s1)
      in do {
        s3 \<leftarrow> addReplyBulk c (StrRaw channel) s2;
        Some (addReplyLongLong c (clientSubscriptionsCount (clients s3 c)) s3, retval) })"

definition pubsubUnsubscribeChannel :: "nat \<Rightarrow> string \<Rightarrow> bool \<Rightarrow> 'z server \<Rightarrow> ('z server \<times> bool) option" where
  "pubsubUnsubscribeChannel c channel notify s = do {
     (s1, retval) \<leftarrow>
       (if channel \<in> channels (clients s c) then
          let s' = upd_client c (\<lambda>cl. cl\<lparr>channels := channels cl - {channel}\<rparr>) s
          in case pubsub_channels s' channel of None \<Rightarrow> None
             | Some cs \<Rightarrow>
                 if c \<notin> set cs then None
                 else let cs' = remove1 c cs in
                   Some (s'\<lparr>pubsub_channels := (pubsub_channels s')(channel := if cs' = [] then None else Some cs')\<rparr>,
                         True)
        else Some (s, False));
     if notify then do {
       s2 \<leftarrow> addReplyBulk c (StrRaw channel) (addReply c shared_unsubscribebulk (addReply c (shared_mbulkhdr 3) s1));
       Some (addReplyLongLong c (clientSubscriptionsCount (clients s2 c)) s2, retval) }
     else Some (s1, retval) }"

definition pubsubSubscribePattern :: "nat \<Rightarrow> string \<Rightarrow> 'z server \<Rightarrow> ('z server \<times> bool) option" where
  "pubsubSubscribePattern c pattern s =
     (let (s1, retval) =
        (if pattern \<in> set (patterns (clients s c)) then (s, False)
         else
           let s' = upd_client c (\<lambda>cl. cl\<lparr>patterns := patterns cl @ [pattern]\<rparr>) s
           in (s'\<lparr>pubsub_patterns := pubsub_patterns s' @ [(c, pattern)]\<rparr>, True));
        s2 = addReply c shared_psubscribebulk (addReply c (shared_mbulkhdr 3) s1)
      in do {
        s3 \<leftarrow> addReplyBulk c (StrRaw pattern) s2;
        Some (addReplyLongLong c (clientSubscriptionsCount (clients s3 c)) s3, retval) })"

text \<open>\<open>listDelNode\<close> of a pattern that the server does not list would follow a null pointer.\<close>

definition pubsubUnsubscribePattern :: "nat \<Rightarrow> string \<Rightarrow> bool \<Rightarrow> 'z server \<Rightarrow> ('z server \<times> bool) option" where
  "pubsubUnsubscribePattern c pattern notify s = do {
     (s1, retval) \<leftarrow>
       (if pattern \<in> set (patterns (clients s c)) then
          let s' = upd_client c (\<lambda>cl. cl\<lparr>patterns := remove1 pattern (patterns cl)\<rparr>) s
          in if (c, pattern) \<in> set (pubsub_patterns s')
             then Some (s'\<lparr>pubsub_patterns := remove1 (c, pattern) (pubsub_patterns s')\<rparr>, True) else None
        else Some (s, False));
     if notify then do {
       s2 \<leftarrow> addReplyBulk c (StrRaw pattern) (addReply c shared_punsubscribebulk (addReply c (shared_mbulkhdr 3) s1));
       Some (addReplyLongLong c (clientSubscriptionsCount (clients s2 c)) s2, retval) }
     else Some (s1, retval) }"

text \<open>One operation after the other on a list of channels or patterns, with the count of successes.\<close>

fun each_channel :: "(string \<Rightarrow> 'z server \<Rightarrow> ('z server \<times> bool) option) \<Rightarrow> string list \<Rightarrow> 'z server
    \<Rightarrow> ('z server \<times> nat) option" where
  "each_channel f [] s = Some (s, 0)"
| "each_channel f (x # xs) s = do {
     (s1, b) \<leftarrow> f x s;
     (s2, n) \<leftarrow> each_channel f xs s1;
     Some (s2, of_bool b + n) }"

definition pubsubUnsubscribeAllChannels :: "nat \<Rightarrow> bool \<Rightarrow> 'z server \<Rightarrow> ('z server \<times> nat) option" where
  "pubsubUnsubscribeAllChannels c notify s = do {
     (s1, count) \<leftarrow> each_channel (\<lambda>x. pubsubUnsubscribeChannel c x notify) (order s (channels (clients s c))) s;
     Some (if notify \<and> count = 0
       then let s2 = addReply c shared_nullbulk (addReply c shared_unsubscribebulk (addReply c (shared_mbulkhdr 3) s1))
            in (addReplyLongLong c (clientSubscriptionsCount (clients s2 c)) s2, count)
       else (s1, count)) }"

definition pubsubUnsubscribeAllPatterns :: "nat \<Rightarrow> bool \<Rightarrow> 'z server \<Rightarrow> ('z server \<times> nat) option" where
  "pubsubUnsubscribeAllPatterns c notify s = do {
     (s1, count) \<leftarrow> each_channel (\<lambda>x. pubsubUnsubscribePattern c x notify) (patterns (clients s c)) s;
     Some (if notify \<and> count = 0
       then let s2 = addReply c shared_nullbulk (addReply c shared_punsubscribebulk (addReply c (shared_mbulkhdr 3) s1))
            in (addReplyLongLong c (clientSubscriptionsCount (clients s2 c)) s2, count)
       else (s1, count)) }"

subsection \<open>Publishing\<close>

text \<open>The message to the clients of a channel, in the order of their subscriptions.\<close>

fun send_channel :: "string \<Rightarrow> string \<Rightarrow> nat list \<Rightarrow> 'z server \<Rightarrow> ('z server \<times> nat) option" where
  "send_channel channel message [] s = Some (s, 0)"
| "send_channel channel message (c # cs) s = do {
     s1 \<leftarrow> addReplyBulk c (StrRaw channel) (addReply c shared_messagebulk (addReply c (shared_mbulkhdr 3) s));
     s2 \<leftarrow> addReplyBulk c (StrRaw message) s1;
     (s3, n) \<leftarrow> send_channel channel message cs s2;
     Some (s3, n + 1) }"

text \<open>And to the clients whose pattern matches it.\<close>

fun send_patterns :: "string \<Rightarrow> string \<Rightarrow> (nat \<times> string) list \<Rightarrow> 'z server \<Rightarrow> ('z server \<times> nat) option" where
  "send_patterns channel message [] s = Some (s, 0)"
| "send_patterns channel message ((c, pat) # ps) s = do {
     m \<leftarrow> stringmatchlen pat channel False;
     if m then do {
       s1 \<leftarrow> addReplyBulk c (StrRaw pat) (addReply c shared_pmessagebulk (addReply c (shared_mbulkhdr 4) s));
       s2 \<leftarrow> addReplyBulk c (StrRaw channel) s1;
       s3 \<leftarrow> addReplyBulk c (StrRaw message) s2;
       (s4, n) \<leftarrow> send_patterns channel message ps s3;
       Some (s4, n + 1) }
     else send_patterns channel message ps s }"

definition pubsubPublishMessage :: "string \<Rightarrow> string \<Rightarrow> 'z server \<Rightarrow> ('z server \<times> nat) option" where
  "pubsubPublishMessage channel message s = do {
     (s1, n) \<leftarrow> (case pubsub_channels s channel of None \<Rightarrow> Some (s, 0)
               | Some cs \<Rightarrow> send_channel channel message cs s);
     (s2, m) \<leftarrow> send_patterns channel message (pubsub_patterns s1) s1;
     Some (s2, n + m) }"

subsection \<open>Commands\<close>

definition argc :: "client \<Rightarrow> nat" where "argc cl = length (argv cl)"

definition arg :: "nat \<Rightarrow> nat \<Rightarrow> 'z server \<Rightarrow> string" where "arg c i s = argv (clients s c) ! i"

definition args_from :: "nat \<Rightarrow> nat \<Rightarrow> 'z server \<Rightarrow> string list" where
  "args_from c i s = drop i (argv (clients s c))"

text \<open>\<open>strcasecmp(a, b) == 0\<close>.\<close>

definition strcaseeq :: "string \<Rightarrow> string \<Rightarrow> bool" where
  "strcaseeq a b \<longleftrightarrow> map ctolower_chr (cstr a) = map ctolower_chr (cstr b)"

definition subscribeCommand :: "nat \<Rightarrow> 'z server \<Rightarrow> 'z server option" where
  "subscribeCommand c s = do {
     (s1, n) \<leftarrow> each_channel (pubsubSubscribeChannel c) (args_from c 1 s) s;
     Some (upd_client c (\<lambda>cl. cl\<lparr>pubsub_flag := True\<rparr>) s1) }"

definition clear_pubsub_flag :: "nat \<Rightarrow> 'z server \<Rightarrow> 'z server" where
  "clear_pubsub_flag c s =
     (if clientSubscriptionsCount (clients s c) = 0 then upd_client c (\<lambda>cl. cl\<lparr>pubsub_flag := False\<rparr>) s else s)"

definition unsubscribeCommand :: "nat \<Rightarrow> 'z server \<Rightarrow> 'z server option" where
  "unsubscribeCommand c s = do {
     (s1, n) \<leftarrow> (if argc (clients s c) = 1 then pubsubUnsubscribeAllChannels c True s
                 else each_channel (\<lambda>x. pubsubUnsubscribeChannel c x True) (args_from c 1 s) s);
     Some (clear_pubsub_flag c s1) }"

definition psubscribeCommand :: "nat \<Rightarrow> 'z server \<Rightarrow> 'z server option" where
  "psubscribeCommand c s = do {
     (s1, n) \<leftarrow> each_channel (pubsubSubscribePattern c) (args_from c 1 s) s;
     Some (upd_client c (\<lambda>cl. cl\<lparr>pubsub_flag := True\<rparr>) s1) }"

definition punsubscribeCommand :: "nat \<Rightarrow> 'z server \<Rightarrow> 'z server option" where
  "punsubscribeCommand c s = do {
     (s1, n) \<leftarrow> (if argc (clients s c) = 1 then pubsubUnsubscribeAllPatterns c True s
                 else each_channel (\<lambda>x. pubsubUnsubscribePattern c x True) (args_from c 1 s) s);
     Some (clear_pubsub_flag c s1) }"

definition forceCommandPropagation :: "nat \<Rightarrow> bool \<Rightarrow> bool \<Rightarrow> 'z server \<Rightarrow> 'z server" where
  "forceCommandPropagation c repl aof s =
     upd_client c (\<lambda>cl. cl\<lparr>force_repl := force_repl cl \<or> repl, force_aof := force_aof cl \<or> aof\<rparr>) s"

definition publishCommand :: "nat \<Rightarrow> 'z server \<Rightarrow> 'z server option" where
  "publishCommand c s = do {
     (s1, receivers) \<leftarrow> pubsubPublishMessage (arg c 1 s) (arg c 2 s) s;
     Some (addReplyLongLong c (int receivers) (forceCommandPropagation c True False s1)) }"

text \<open>The loops of \<open>PUBSUB CHANNELS\<close> and \<open>PUBSUB NUMSUB\<close>.\<close>

fun list_channels :: "nat \<Rightarrow> string option \<Rightarrow> string list \<Rightarrow> 'z server \<Rightarrow> ('z server \<times> int) option" where
  "list_channels c pat [] s = Some (s, 0)"
| "list_channels c pat (x # xs) s = do {
     m \<leftarrow> (case pat of None \<Rightarrow> Some True | Some p \<Rightarrow> stringmatchlen p x False);
     if m then do {
       s1 \<leftarrow> addReplyBulk c (StrRaw x) s;
       (s2, n) \<leftarrow> list_channels c pat xs s1;
       Some (s2, n + 1) }
     else list_channels c pat xs s }"

fun list_numsub :: "nat \<Rightarrow> string list \<Rightarrow> 'z server \<Rightarrow> 'z server option" where
  "list_numsub c [] s = Some s"
| "list_numsub c (x # xs) s = do {
     s1 \<leftarrow> addReplyBulk c (StrRaw x) s;
     list_numsub c xs
       (addReplyLongLong c (case pubsub_channels s x of None \<Rightarrow> 0 | Some l \<Rightarrow> int (length l)) s1) }"

definition pubsubCommand :: "nat \<Rightarrow> 'z server \<Rightarrow> 'z server option" where
  "pubsubCommand c s =
     (let n = argc (clients s c); sub = arg c 1 s in
      if strcaseeq sub ''channels'' \<and> (n = 2 \<or> n = 3) then
        (let pat = (if n = 2 then None else Some (arg c 2 s));
             node = addDeferredMultiBulkLength c s
         in do {
           (s1, mblen) \<leftarrow> list_channels c pat (order s (dom (pubsub_channels s))) s;
           Some (setDeferredMultiBulkLength c node mblen s1) })
      else if strcaseeq sub ''numsub'' \<and> n \<ge> 2 then
        list_numsub c (args_from c 2 s) (addReplyMultiBulkLen c ((int n - 2) * 2) s)
      else if strcaseeq sub ''numpat'' \<and> n = 2 then
        Some (addReplyLongLong c (int (length (pubsub_patterns s))) s)
      else
        Some (addReplyErrorFormat c
          (''Unknown PUBSUB subcommand or wrong number of arguments for '' @ [CHR 0x27] @ cstr sub @ [CHR 0x27]) s))"

subsection \<open>Keyspace notifications\<close>

definition NOTIFY_KEYSPACE :: int where "NOTIFY_KEYSPACE = 1"
definition NOTIFY_KEYEVENT :: int where "NOTIFY_KEYEVENT = 2"
definition NOTIFY_GENERIC :: int where "NOTIFY_GENERIC = 4"
definition NOTIFY_STRING :: int where "NOTIFY_STRING = 8"
definition NOTIFY_LIST :: int where "NOTIFY_LIST = 16"
definition NOTIFY_SET :: int where "NOTIFY_SET = 32"
definition NOTIFY_HASH :: int where "NOTIFY_HASH = 64"
definition NOTIFY_ZSET :: int where "NOTIFY_ZSET = 128"
definition NOTIFY_EXPIRED :: int where "NOTIFY_EXPIRED = 256"
definition NOTIFY_EVICTED :: int where "NOTIFY_EVICTED = 512"
definition NOTIFY_ALL :: int where
  "NOTIFY_ALL = NOTIFY_GENERIC OR NOTIFY_STRING OR NOTIFY_LIST OR NOTIFY_SET OR NOTIFY_HASH OR NOTIFY_ZSET
     OR NOTIFY_EXPIRED OR NOTIFY_EVICTED"

definition class_flag :: "char \<Rightarrow> int option" where
  "class_flag c =
     (if c = CHR ''A'' then Some NOTIFY_ALL else if c = CHR ''g'' then Some NOTIFY_GENERIC
      else if c = CHR ''$'' then Some NOTIFY_STRING else if c = CHR ''l'' then Some NOTIFY_LIST
      else if c = CHR ''s'' then Some NOTIFY_SET else if c = CHR ''h'' then Some NOTIFY_HASH
      else if c = CHR ''z'' then Some NOTIFY_ZSET else if c = CHR ''x'' then Some NOTIFY_EXPIRED
      else if c = CHR ''e'' then Some NOTIFY_EVICTED else if c = CHR ''K'' then Some NOTIFY_KEYSPACE
      else if c = CHR ''E'' then Some NOTIFY_KEYEVENT else None)"

fun flags_loop :: "int \<Rightarrow> string \<Rightarrow> int" where
  "flags_loop flags [] = flags"
| "flags_loop flags (c # cs) = (case class_flag c of None \<Rightarrow> -1 | Some f \<Rightarrow> flags_loop (flags OR f) cs)"

definition keyspaceEventsStringToFlags :: "string \<Rightarrow> int" where
  "keyspaceEventsStringToFlags classes = flags_loop 0 (cstr classes)"

definition flag_char :: "int \<Rightarrow> int \<Rightarrow> char \<Rightarrow> string" where
  "flag_char flags f ch = (if flags AND f \<noteq> 0 then [ch] else [])"

definition keyspaceEventsFlagsToString :: "int \<Rightarrow> string" where
  "keyspaceEventsFlagsToString flags =
     (if flags AND NOTIFY_ALL = NOTIFY_ALL then ''A''
      else flag_char flags NOTIFY_GENERIC CHR ''g'' @ flag_char flags NOTIFY_STRING CHR ''$''
        @ flag_char flags NOTIFY_LIST CHR ''l'' @ flag_char flags NOTIFY_SET CHR ''s''
        @ flag_char flags NOTIFY_HASH CHR ''h'' @ flag_char flags NOTIFY_ZSET CHR ''z''
        @ flag_char flags NOTIFY_EXPIRED CHR ''x'' @ flag_char flags NOTIFY_EVICTED CHR ''e'')
     @ flag_char flags NOTIFY_KEYSPACE CHR ''K'' @ flag_char flags NOTIFY_KEYEVENT CHR ''E''"

definition notifyKeyspaceEvent :: "int \<Rightarrow> string \<Rightarrow> string \<Rightarrow> nat \<Rightarrow> 'z server \<Rightarrow> 'z server option" where
  "notifyKeyspaceEvent type event key dbid s =
     (if notify_flags s AND type = 0 then Some s
      else do {
        s1 \<leftarrow> (if notify_flags s AND NOTIFY_KEYSPACE \<noteq> 0 then
                 map_option fst (pubsubPublishMessage (''__keyspace@'' @ ll2str (int dbid) @ ''__:'' @ key) event s)
               else Some s);
        if notify_flags s AND NOTIFY_KEYEVENT \<noteq> 0 then
          map_option fst (pubsubPublishMessage (''__keyevent@'' @ ll2str (int dbid) @ ''__:'' @ event) key s1)
        else Some s1 })"

end
