(* ===== verification/Demo_Server.thy ===== *)
theory Demo_Server
  imports Server "HOL-Library.List_Lexorder"
begin

text \<open>
  A server with empty databases and new clients, on which the witnesses of the command layer run.
\<close>

definition empty_db :: "'z redisDb" where
  "empty_db = \<lparr>ddict = Map.empty, expires = Map.empty, blocking_keys = Map.empty, ready_keys = {},
     watched_keys = Map.empty\<rparr>"

definition blank_server :: "'z server" where
  "blank_server = \<lparr>dbs = \<lambda>i. empty_db, dbnum = 16, clients = \<lambda>c. createClient, client_list = [0, 1],
     pubsub_channels = Map.empty, pubsub_patterns = [], srv_ready_keys = [], dirty = 0, stat_hits = 0,
     stat_misses = 0, stat_expired = 0, lruclock = 0, child_active = False, loading = False, is_slave = False,
     lua_time = None, now = 1000, aof_on = True, notify_flags = 0, order = sorted_list_of_set,
     aof_log = [], slave_log = [],
     limits = \<lparr>list_max_ziplist_entries = 512, list_max_ziplist_value = 64\<rparr>\<rparr>"

text \<open>The blank server with the arguments of a command in place for client \<open>c\<close>.\<close>

definition with_argv :: "nat \<Rightarrow> string list \<Rightarrow> 'z server \<Rightarrow> 'z server" where
  "with_argv c args s = upd_client c (\<lambda>cl. cl\<lparr>argv := args\<rparr>) s"

lemma writable_new [simp]: "writable createClient"
  by (simp add: writable_def prepareClientToWrite_def createClient_def)

lemma blank_simps [simp]:
  "clients blank_server d = createClient" "dbs blank_server i = empty_db" "pubsub_channels blank_server = Map.empty"
  "pubsub_patterns blank_server = []" "order blank_server = sorted_list_of_set" "dbnum blank_server = 16"
  "limits blank_server = \<lparr>list_max_ziplist_entries = 512, list_max_ziplist_value = 64\<rparr>"
  by (simp_all add: blank_server_def)

lemma new_client_simps [simp]:
  "channels createClient = {}" "patterns createClient = []" "reply createClient = []" "argv createClient = []"
  "cdb createClient = 0" "cwatched createClient = []" "mstate createClient = []" "\<not> multi createClient"
  by (simp_all add: createClient_def)

end
