(* ===== verification/Pubsub_Correct.thy ===== *)
theory Pubsub_Correct
  imports Pubsub Demo_Server
begin

unbundle bit_operations_syntax

text \<open>
  What publishing sends and to whom, the consistency of the subscription tables with the clients'
  own, and the text form of the notification classes.
\<close>

subsection \<open>Publishing\<close>

text \<open>An argument of a command has at most 512 megabytes (\<open>processMultibulkBuffer\<close>).\<close>

definition arg_ok :: "string \<Rightarrow> bool" where
  "arg_ok x \<longleftrightarrow> length x \<le> 536870912"

lemma arg_ok_bulk [push_simps]: "arg_ok x \<Longrightarrow> addReplyBulk c (StrRaw x) s = Some (push (to c (bulk x)) s)"
  using bulk_push [of "StrRaw x"] by (simp add: arg_ok_def)

text \<open>Texts of a kilobyte more are still far from the limits of the lengths.\<close>

definition text_ok :: "string \<Rightarrow> bool" where
  "text_ok x \<longleftrightarrow> length x \<le> 536871936"

lemma text_ok_bulk [push_simps]: "text_ok x \<Longrightarrow> addReplyBulk c (StrRaw x) s = Some (push (to c (bulk x)) s)"
  using bulk_push [of "StrRaw x"] by (simp add: text_ok_def)

lemma arg_text: "arg_ok x \<Longrightarrow> text_ok x"
  by (simp add: arg_ok_def text_ok_def)

definition subscribers :: "'z server \<Rightarrow> string \<Rightarrow> nat list" where
  "subscribers s ch = (case pubsub_channels s ch of None \<Rightarrow> [] | Some cs \<Rightarrow> cs)"

definition matches :: "string \<Rightarrow> string \<Rightarrow> bool" where
  "matches p ch \<longleftrightarrow> stringmatchlen p ch False = Some True"

text \<open>A pattern is safe when matching it never leaves its buffer.\<close>

definition safe_pattern :: "string \<Rightarrow> bool" where
  "safe_pattern p \<longleftrightarrow> arg_ok p \<and> (\<forall>x. stringmatchlen p x False \<noteq> None)"

definition patterns_safe :: "'z server \<Rightarrow> bool" where
  "patterns_safe s \<longleftrightarrow> (\<forall>(c, p) \<in> set (pubsub_patterns s). safe_pattern p)"

definition message_bytes :: "string \<Rightarrow> string \<Rightarrow> string" where
  "message_bytes ch m = shared_mbulkhdr 3 @ shared_messagebulk @ bulk ch @ bulk m"

definition pmessage_bytes :: "string \<Rightarrow> string \<Rightarrow> string \<Rightarrow> string" where
  "pmessage_bytes p ch m = shared_mbulkhdr 4 @ shared_pmessagebulk @ bulk p @ bulk ch @ bulk m"

definition published :: "'z server \<Rightarrow> string \<Rightarrow> string \<Rightarrow> nat \<Rightarrow> string" where
  "published s ch m d =
     concat (map (\<lambda>c. to c (message_bytes ch m) d) (subscribers s ch))
     @ concat (map (\<lambda>(c, p). to c (pmessage_bytes p ch m) d) (filter (\<lambda>(c, p). matches p ch) (pubsub_patterns s)))"

lemma send_channel_push:
  assumes "text_ok ch" "text_ok m"
  shows "send_channel ch m cs s = Some (push (\<lambda>d. concat (map (\<lambda>c. to c (message_bytes ch m) d) cs)) s, length cs)"
  by (induction cs arbitrary: s)
     (simp_all add: assms push_simps message_bytes_def)

lemma send_patterns_push:
  assumes "text_ok ch" "text_ok m" "\<forall>(c, p) \<in> set ps. safe_pattern p"
  shows "send_patterns ch m ps s = Some (push (\<lambda>d. concat (map (\<lambda>(c, p). to c (pmessage_bytes p ch m) d)
           (filter (\<lambda>(c, p). matches p ch) ps))) s, length (filter (\<lambda>(c, p). matches p ch) ps))"
  using assms(3)
proof (induction ps arbitrary: s)
  case (Cons x ps)
  obtain c p where x: "x = (c, p)" by force
  then have "safe_pattern p" using Cons.prems by simp
  then obtain b where "stringmatchlen p ch False = Some b" "arg_ok p" by (auto simp: safe_pattern_def)
  then show ?case
    using Cons assms(1,2) by (cases b) (simp_all add: x push_simps matches_def pmessage_bytes_def)
qed simp

lemma publish_push:
  assumes "text_ok ch" "text_ok m" "patterns_safe s"
  shows "pubsubPublishMessage ch m s = Some (push (published s ch m) s,
    length (subscribers s ch) + length (filter (\<lambda>(c, p). matches p ch) (pubsub_patterns s)))"
proof (cases "pubsub_channels s ch")
  case None
  then have "published s ch m = (\<lambda>d. concat (map (\<lambda>(c, p). to c (pmessage_bytes p ch m) d)
      (filter (\<lambda>(c, p). matches p ch) (pubsub_patterns s))))"
    by (simp add: published_def subscribers_def fun_eq_iff)
  with None show ?thesis
    using assms send_patterns_push [of ch m "pubsub_patterns s" s]
    by (simp add: pubsubPublishMessage_def subscribers_def patterns_safe_def)
next
  case (Some cs)
  let ?s = "push (\<lambda>d. concat (map (\<lambda>c. to c (message_bytes ch m) d) cs)) s"
  show ?thesis
    using assms Some send_patterns_push [of ch m "pubsub_patterns s" ?s] send_channel_push [of ch m cs s]
    by (simp add: pubsubPublishMessage_def subscribers_def patterns_safe_def published_def [abs_def])
qed

lemma published_push [simp]: "published (push f s) = published s"
  by (simp add: published_def subscribers_def fun_eq_iff)

lemma patterns_safe_push [simp]: "patterns_safe (push f s) = patterns_safe s"
  by (simp add: patterns_safe_def)

text \<open>What a notification sends: nothing, or one or two messages.\<close>

definition keyspace_chan :: "nat \<Rightarrow> string \<Rightarrow> string" where
  "keyspace_chan dbid key = ''__keyspace@'' @ show_int (int dbid) @ ''__:'' @ key"

definition keyevent_chan :: "nat \<Rightarrow> string \<Rightarrow> string" where
  "keyevent_chan dbid event = ''__keyevent@'' @ show_int (int dbid) @ ''__:'' @ event"

definition notified :: "'z server \<Rightarrow> int \<Rightarrow> string \<Rightarrow> string \<Rightarrow> nat \<Rightarrow> nat \<Rightarrow> string" where
  "notified s ty ev key i d =
     (if notify_flags s AND ty = 0 then []
      else (if notify_flags s AND NOTIFY_KEYSPACE \<noteq> 0 then published s (keyspace_chan i key) ev d else [])
         @ (if notify_flags s AND NOTIFY_KEYEVENT \<noteq> 0 then published s (keyevent_chan i ev) key d else []))"

lemma length_show_db: "int i \<le> LLONG_MAX \<Longrightarrow> length (show_int (int i)) \<le> 20"
  using length_show_int [of "int i"] by (simp add: in_ll_def)

lemma notify_push:
  assumes "length ev \<le> 100" "arg_ok key" "int i \<le> LLONG_MAX" "patterns_safe s"
  shows "notifyKeyspaceEvent ty ev key i s = Some (push (notified s ty ev key i) s)"
proof -
  have i: "in_ll (int i)" using assms(3) by (simp add: in_ll_def)
  have ks: "text_ok (keyspace_chan i key)" "text_ok (keyevent_chan i ev)" "text_ok ev" "text_ok key"
    using assms(1,2) length_show_db [OF assms(3)]
    by (simp_all add: text_ok_def arg_ok_def keyspace_chan_def keyevent_chan_def)
  note p = publish_push [OF ks(1,3), of s] publish_push [OF ks(2,4)]
  show ?thesis
    unfolding notifyKeyspaceEvent_def ll2str_show [OF i] keyspace_chan_def [symmetric] keyevent_chan_def [symmetric]
    by (simp add: notified_def [abs_def] p assms(4))
qed

lemma notified_push [simp]: "notified (push f s) = notified s"
  by (simp add: notified_def fun_eq_iff)

subsection \<open>The tables and the clients\<close>

text \<open>
  The server's tables are the clients' own sets and lists, the other way round. The patterns of a
  client stand in the server's list in the order of the client's.
\<close>

definition subs_ok :: "'z server \<Rightarrow> bool" where
  "subs_ok s \<longleftrightarrow> (\<forall>ch cs. pubsub_channels s ch = Some cs \<longrightarrow> cs \<noteq> [] \<and> distinct cs)
     \<and> (\<forall>c ch. c \<in> set (subscribers s ch) \<longleftrightarrow> ch \<in> channels (clients s c))
     \<and> (\<forall>c. map snd (filter (\<lambda>q. fst q = c) (pubsub_patterns s)) = patterns (clients s c))
     \<and> (\<forall>c. distinct (patterns (clients s c)) \<and> finite (channels (clients s c)))"

lemma subs_ok_cong:
  assumes "pubsub_channels s' = pubsub_channels s" "pubsub_patterns s' = pubsub_patterns s"
    "\<And>d. channels (clients s' d) = channels (clients s d)" "\<And>d. patterns (clients s' d) = patterns (clients s d)"
  shows "subs_ok s' = subs_ok s"
  by (simp add: subs_ok_def subscribers_def assms)

lemma subs_ok_push [simp]: "subs_ok (push f s) = subs_ok s"
  by (rule subs_ok_cong) simp_all

lemma upd_client_fields [simp]:
  "clients (upd_client c f s) d = (if d = c then f (clients s c) else clients s d)"
  "dbs (upd_client c f s) = dbs s" "pubsub_channels (upd_client c f s) = pubsub_channels s"
  "pubsub_patterns (upd_client c f s) = pubsub_patterns s"
  by (simp_all add: upd_client_def)

lemma subs_ok_flag [simp]: "subs_ok (upd_client c (\<lambda>cl. cl\<lparr>pubsub_flag := b\<rparr>) s) = subs_ok s"
  by (rule subs_ok_cong) simp_all

lemma concat_to: "distinct cs \<Longrightarrow> concat (map (\<lambda>c. to c x d) cs) = (if d \<in> set cs then x else [])"
  by (induction cs) (auto simp: to_def)

lemma concat_to_filter:
  "concat (map (\<lambda>(c, p). to c (f p) d) (filter (\<lambda>(c, p). P p) ps))
     = concat (map f (filter P (map snd (filter (\<lambda>q. fst q = d) ps))))"
  by (induction ps) (auto simp: to_def)

definition delivered :: "client \<Rightarrow> string \<Rightarrow> string \<Rightarrow> string" where
  "delivered cl ch m = (if ch \<in> channels cl then message_bytes ch m else [])
     @ concat (map (\<lambda>p. pmessage_bytes p ch m) (filter (\<lambda>p. matches p ch) (patterns cl)))"

lemma published_delivered:
  assumes "subs_ok s"
  shows "published s ch m d = delivered (clients s d) ch m"
proof -
  have d: "distinct (subscribers s ch)"
    using assms by (auto simp: subs_ok_def subscribers_def split: option.splits)
  have "map snd (filter (\<lambda>q. fst q = d) (pubsub_patterns s)) = patterns (clients s d)"
    using assms by (simp add: subs_ok_def)
  then show ?thesis
    using assms by (simp add: published_def delivered_def concat_to [OF d] concat_to_filter subs_ok_def)
qed

definition sub_reply :: "string \<Rightarrow> string \<Rightarrow> int \<Rightarrow> string" where
  "sub_reply kind x n = shared_mbulkhdr 3 @ kind @ bulk x @ int_reply n"

lemma count_push [simp]: "clientSubscriptionsCount (clients (push f s) c) = clientSubscriptionsCount (clients s c)"
  by (simp add: clientSubscriptionsCount_def)

lemma subscribers_upd [simp]:
  "subscribers (s\<lparr>pubsub_channels := (pubsub_channels s)(ch \<mapsto> cs)\<rparr>) x = (if x = ch then cs else subscribers s x)"
  "subscribers (upd_client c f s) = subscribers s"
  by (simp_all add: subscribers_def upd_client_def fun_eq_iff)

definition changes_subs :: "'z server \<Rightarrow> 'z server \<Rightarrow> nat \<Rightarrow> (client \<Rightarrow> client) \<Rightarrow> (nat \<Rightarrow> string) \<Rightarrow> bool" where
  "changes_subs s s' c f out \<longleftrightarrow> subs_ok s'
     \<and> s' = push out (upd_client c f s\<lparr>pubsub_channels := pubsub_channels s', pubsub_patterns := pubsub_patterns s'\<rparr>)"

lemma tables_idem [simp]:
  "upd_client c f s\<lparr>pubsub_channels := x, pubsub_patterns := pubsub_patterns s\<rparr> = upd_client c f s\<lparr>pubsub_channels := x\<rparr>"
  "upd_client c f s\<lparr>pubsub_channels := pubsub_channels s, pubsub_patterns := y\<rparr> = upd_client c f s\<lparr>pubsub_patterns := y\<rparr>"
  by (simp_all add: upd_client_def)

lemma in_ll_count: "in_ll (clientSubscriptionsCount cl + 1) \<Longrightarrow> in_ll (clientSubscriptionsCount cl)"
  by (simp add: in_ll_def clientSubscriptionsCount_def)

lemma subscribe_table:
  assumes "subs_ok s" "ch \<notin> channels (clients s c)"
  shows "subs_ok (upd_client c (\<lambda>cl. cl\<lparr>channels := insert ch (channels cl)\<rparr>) s
    \<lparr>pubsub_channels := (pubsub_channels s)(ch \<mapsto> subscribers s ch @ [c])\<rparr>)" (is "subs_ok ?t")
proof -
  have c: "c \<notin> set (subscribers s ch)" "distinct (subscribers s ch)"
    using assms by (auto simp: subs_ok_def subscribers_def split: option.splits)
  have sub: "subscribers ?t x = (if x = ch then subscribers s ch @ [c] else subscribers s x)" for x
    by (simp add: subscribers_def)
  show ?thesis
    unfolding subs_ok_def sub using assms c by (auto simp: subs_ok_def)
qed

lemma subscribe_ok:
  assumes ok: "subs_ok s" and x: "arg_ok ch" and n: "in_ll (clientSubscriptionsCount (clients s c) + 1)"
  shows "\<exists>s'. pubsubSubscribeChannel c ch s = Some (s', ch \<notin> channels (clients s c))
    \<and> changes_subs s s' c (\<lambda>cl. cl\<lparr>channels := insert ch (channels cl)\<rparr>)
        (to c (sub_reply shared_subscribebulk ch
           (clientSubscriptionsCount (clients s c) + of_bool (ch \<notin> channels (clients s c)))))"
proof (cases "ch \<in> channels (clients s c)")
  case True
  have "upd_client c (\<lambda>cl. cl\<lparr>channels := insert ch (channels cl)\<rparr>) s = s"
    using True by (simp add: upd_client_def insert_absorb fun_upd_idem)
  then show ?thesis
    using True ok x in_ll_count [OF n]
    by (simp add: pubsubSubscribeChannel_def push_simps sub_reply_def changes_subs_def)
next
  case False
  let ?t = "upd_client c (\<lambda>cl. cl\<lparr>channels := insert ch (channels cl)\<rparr>) s
    \<lparr>pubsub_channels := (pubsub_channels s)(ch \<mapsto> subscribers s ch @ [c])\<rparr>"
  have "finite (channels (clients s c))" using ok by (simp add: subs_ok_def)
  then have "clientSubscriptionsCount (clients ?t c) = clientSubscriptionsCount (clients s c) + 1"
    using False by (simp add: clientSubscriptionsCount_def)
  then have "pubsubSubscribeChannel c ch s = Some (push (to c (sub_reply shared_subscribebulk ch
      (clientSubscriptionsCount (clients s c) + 1))) ?t, True)"
    using False x n
    by (simp add: pubsubSubscribeChannel_def push_simps sub_reply_def flip: subscribers_def)
  then show ?thesis
    using False subscribe_table [OF ok False] by (simp add: changes_subs_def)
qed

lemma unsubscribe_table:
  assumes "subs_ok s" "ch \<in> channels (clients s c)"
  shows "subs_ok (upd_client c (\<lambda>cl. cl\<lparr>channels := channels cl - {ch}\<rparr>) s
    \<lparr>pubsub_channels := (pubsub_channels s)(ch := let cs = remove1 c (subscribers s ch) in if cs = [] then None else Some cs)\<rparr>)"
    (is "subs_ok ?t")
proof -
  have d: "distinct (subscribers s ch)"
    using assms by (auto simp: subs_ok_def subscribers_def split: option.splits)
  have sub: "subscribers ?t x = (if x = ch then remove1 c (subscribers s ch) else subscribers s x)" for x
    by (simp add: subscribers_def Let_def)
  show ?thesis
    unfolding subs_ok_def sub using assms d by (auto simp: subs_ok_def Let_def distinct_remove1)
qed

lemma unsubscribe_ok:
  assumes ok: "subs_ok s" and x: "arg_ok ch" and n: "in_ll (clientSubscriptionsCount (clients s c) + 1)"
  shows "\<exists>s'. pubsubUnsubscribeChannel c ch notify s = Some (s', ch \<in> channels (clients s c))
    \<and> changes_subs s s' c (\<lambda>cl. cl\<lparr>channels := channels cl - {ch}\<rparr>)
        (to c (if notify then sub_reply shared_unsubscribebulk ch
           (clientSubscriptionsCount (clients s c) - of_bool (ch \<in> channels (clients s c))) else []))"
proof (cases "ch \<in> channels (clients s c)")
  case False
  then have "upd_client c (\<lambda>cl. cl\<lparr>channels := channels cl - {ch}\<rparr>) s = s"
    by (simp add: upd_client_def fun_upd_idem)
  then show ?thesis
    using False ok x in_ll_count [OF n]
    by (simp add: pubsubUnsubscribeChannel_def push_simps sub_reply_def changes_subs_def)
next
  case True
  let ?t = "upd_client c (\<lambda>cl. cl\<lparr>channels := channels cl - {ch}\<rparr>) s
    \<lparr>pubsub_channels := (pubsub_channels s)(ch := let cs = remove1 c (subscribers s ch) in if cs = [] then None else Some cs)\<rparr>"
  have fin: "finite (channels (clients s c))" using ok by (simp add: subs_ok_def)
  then have card: "0 < card (channels (clients s c))" using True card_gt_0_iff by blast
  then have count: "clientSubscriptionsCount (clients ?t c) = clientSubscriptionsCount (clients s c) - 1"
    using True by (simp add: clientSubscriptionsCount_def of_nat_diff)
  have cnt: "in_ll (clientSubscriptionsCount (clients s c) - 1)"
    using n card by (simp add: in_ll_def clientSubscriptionsCount_def)
  have c: "c \<in> set (subscribers s ch)" using ok True by (simp add: subs_ok_def)
  obtain cs where cs: "pubsub_channels s ch = Some cs" "c \<in> set cs" "subscribers s ch = cs"
    using c by (cases "pubsub_channels s ch") (simp_all add: subscribers_def)
  have "pubsubUnsubscribeChannel c ch notify s = Some (push (to c (if notify then
      sub_reply shared_unsubscribebulk ch (clientSubscriptionsCount (clients s c) - 1) else [])) ?t, True)"
    using True x cnt cs count by (simp add: pubsubUnsubscribeChannel_def push_simps sub_reply_def Let_def)
  then show ?thesis
    using True unsubscribe_table [OF ok True] by (simp add: changes_subs_def)
qed

lemma filter_client_snoc:
  "map snd (filter (\<lambda>q. fst q = d) (ps @ [(c, p)])) = map snd (filter (\<lambda>q. fst q = d) ps) @ (if d = c then [p] else [])"
  by simp

lemma filter_client_remove:
  "map snd (filter (\<lambda>q. fst q = d) (remove1 (c, p) ps))
     = (if d = c then remove1 p else id) (map snd (filter (\<lambda>q. fst q = d) ps))"
  by (induction ps) auto

lemma psubscribe_ok:
  assumes ok: "subs_ok s" and x: "arg_ok p" and n: "in_ll (clientSubscriptionsCount (clients s c) + 1)"
  shows "\<exists>s'. pubsubSubscribePattern c p s = Some (s', p \<notin> set (patterns (clients s c)))
    \<and> changes_subs s s' c (\<lambda>cl. cl\<lparr>patterns := patterns cl @ (if p \<in> set (patterns cl) then [] else [p])\<rparr>)
        (to c (sub_reply shared_psubscribebulk p
           (clientSubscriptionsCount (clients s c) + of_bool (p \<notin> set (patterns (clients s c))))))
    \<and> set (pubsub_patterns s') \<subseteq> insert (c, p) (set (pubsub_patterns s))"
proof (cases "p \<in> set (patterns (clients s c))")
  case True
  then have "upd_client c (\<lambda>cl. cl\<lparr>patterns := patterns cl @ (if p \<in> set (patterns cl) then [] else [p])\<rparr>) s = s"
    by (simp add: upd_client_def fun_upd_idem)
  then show ?thesis
    using True ok x in_ll_count [OF n]
    by (auto simp add: pubsubSubscribePattern_def push_simps sub_reply_def changes_subs_def)
next
  case False
  let ?f = "\<lambda>cl. cl\<lparr>patterns := patterns cl @ (if p \<in> set (patterns cl) then [] else [p])\<rparr>"
  let ?t = "upd_client c ?f s\<lparr>pubsub_patterns := pubsub_patterns s @ [(c, p)]\<rparr>"
  have upd: "upd_client c (\<lambda>cl. cl\<lparr>patterns := patterns cl @ [p]\<rparr>) s = upd_client c ?f s"
    using False by (simp add: upd_client_def)
  have "subscribers ?t = subscribers s" by (simp add: subscribers_def fun_eq_iff)
  then have "subs_ok ?t"
    using ok False unfolding subs_ok_def by (auto simp: filter_client_snoc simp del: filter_append)
  moreover have "clientSubscriptionsCount (clients ?t c) = clientSubscriptionsCount (clients s c) + 1"
    using False by (simp add: clientSubscriptionsCount_def)
  then have "pubsubSubscribePattern c p s = Some (push (to c (sub_reply shared_psubscribebulk p
      (clientSubscriptionsCount (clients s c) + 1))) ?t, True)"
    using False x n by (simp add: pubsubSubscribePattern_def push_simps sub_reply_def upd)
  ultimately show ?thesis using False by (auto simp: changes_subs_def)
qed

lemma punsubscribe_ok:
  assumes ok: "subs_ok s" and x: "arg_ok p" and n: "in_ll (clientSubscriptionsCount (clients s c) + 1)"
  shows "\<exists>s'. pubsubUnsubscribePattern c p notify s = Some (s', p \<in> set (patterns (clients s c)))
    \<and> changes_subs s s' c (\<lambda>cl. cl\<lparr>patterns := remove1 p (patterns cl)\<rparr>)
        (to c (if notify then sub_reply shared_punsubscribebulk p
           (clientSubscriptionsCount (clients s c) - of_bool (p \<in> set (patterns (clients s c)))) else []))
    \<and> set (pubsub_patterns s') \<subseteq> set (pubsub_patterns s)"
proof (cases "p \<in> set (patterns (clients s c))")
  case False
  then have "upd_client c (\<lambda>cl. cl\<lparr>patterns := remove1 p (patterns cl)\<rparr>) s = s"
    by (simp add: upd_client_def fun_upd_idem remove1_idem)
  then show ?thesis
    using False ok x in_ll_count [OF n]
    by (simp add: pubsubUnsubscribePattern_def push_simps sub_reply_def changes_subs_def)
next
  case True
  let ?t = "upd_client c (\<lambda>cl. cl\<lparr>patterns := remove1 p (patterns cl)\<rparr>) s
    \<lparr>pubsub_patterns := remove1 (c, p) (pubsub_patterns s)\<rparr>"
  have pc: "map snd (filter (\<lambda>q. fst q = c) (pubsub_patterns s)) = patterns (clients s c)"
    using ok by (simp add: subs_ok_def)
  then have "p \<in> snd ` set (filter (\<lambda>q. fst q = c) (pubsub_patterns s))" using True by (metis list.set_map)
  then have mem: "(c, p) \<in> set (pubsub_patterns s)" by auto
  have "subscribers ?t = subscribers s" by (simp add: subscribers_def fun_eq_iff)
  then have okt: "subs_ok ?t"
    using ok unfolding subs_ok_def by (auto simp: filter_client_remove distinct_remove1)
  have len: "0 < length (patterns (clients s c))" using True by (cases "patterns (clients s c)") auto
  then have count: "clientSubscriptionsCount (clients ?t c) = clientSubscriptionsCount (clients s c) - 1"
    using True len by (simp add: clientSubscriptionsCount_def length_remove1 of_nat_diff del: length_greater_0_conv)
  have cnt: "in_ll (clientSubscriptionsCount (clients s c) - 1)"
    using n len by (simp add: in_ll_def clientSubscriptionsCount_def)
  have "pubsubUnsubscribePattern c p notify s = Some (push (to c (if notify then
      sub_reply shared_punsubscribebulk p (clientSubscriptionsCount (clients s c) - 1) else [])) ?t, True)"
    using True x cnt mem count by (simp add: pubsubUnsubscribePattern_def push_simps sub_reply_def Let_def)
  then show ?thesis
    using True okt set_remove1_subset [of "(c, p)" "pubsub_patterns s"] by (simp add: changes_subs_def)
qed

subsection \<open>Scripts of subscriptions\<close>

datatype sub_op = Sub string | Unsub string | PSub string | PUnsub string | UnsubAll | PUnsubAll

type_synonym sub_view = "(nat \<Rightarrow> string set) \<times> (nat \<Rightarrow> string list)"

definition sub_view :: "'z server \<Rightarrow> sub_view" where
  "sub_view s = (\<lambda>c. channels (clients s c), \<lambda>c. patterns (clients s c))"

fun sub_spec :: "nat \<Rightarrow> sub_op \<Rightarrow> sub_view \<Rightarrow> sub_view" where
  "sub_spec c (Sub x) (chs, pats) = (chs(c := insert x (chs c)), pats)"
| "sub_spec c (Unsub x) (chs, pats) = (chs(c := chs c - {x}), pats)"
| "sub_spec c (PSub p) (chs, pats) = (chs, pats(c := pats c @ (if p \<in> set (pats c) then [] else [p])))"
| "sub_spec c (PUnsub p) (chs, pats) = (chs, pats(c := remove1 p (pats c)))"
| "sub_spec c UnsubAll (chs, pats) = (chs(c := {}), pats)"
| "sub_spec c PUnsubAll (chs, pats) = (chs, pats(c := []))"

fun sub_step :: "nat \<Rightarrow> sub_op \<Rightarrow> 'z server \<Rightarrow> 'z server option" where
  "sub_step c (Sub x) s = map_option fst (pubsubSubscribeChannel c x s)"
| "sub_step c (Unsub x) s = map_option fst (pubsubUnsubscribeChannel c x True s)"
| "sub_step c (PSub p) s = map_option fst (pubsubSubscribePattern c p s)"
| "sub_step c (PUnsub p) s = map_option fst (pubsubUnsubscribePattern c p True s)"
| "sub_step c UnsubAll s = map_option fst (pubsubUnsubscribeAllChannels c True s)"
| "sub_step c PUnsubAll s = map_option fst (pubsubUnsubscribeAllPatterns c True s)"

fun sub_run :: "(nat \<times> sub_op) list \<Rightarrow> 'z server \<Rightarrow> 'z server option" where
  "sub_run [] s = Some s"
| "sub_run ((c, x) # xs) s = do { s1 \<leftarrow> sub_step c x s; sub_run xs s1 }"

fun sub_op_ok :: "sub_op \<Rightarrow> bool" where
  "sub_op_ok (Sub x) = arg_ok x"
| "sub_op_ok (Unsub x) = arg_ok x"
| "sub_op_ok (PSub p) = safe_pattern p"
| "sub_op_ok (PUnsub p) = arg_ok p"
| "sub_op_ok UnsubAll = True"
| "sub_op_ok PUnsubAll = True"

text \<open>
  The standing conditions: consistent tables, channel names of the length of an argument, patterns that
  match inside their buffers, an iterator that meets each key once, and fewer subscriptions than
  \<open>n\<close> below the largest number.
\<close>

definition pubsub_ok :: "nat \<Rightarrow> 'z server \<Rightarrow> bool" where
  "pubsub_ok n s \<longleftrightarrow> subs_ok s \<and> patterns_safe s \<and> (\<forall>c. \<forall>ch \<in> channels (clients s c). arg_ok ch)
     \<and> (\<forall>A. finite A \<longrightarrow> set (order s A) = A \<and> distinct (order s A))
     \<and> (\<forall>c. clientSubscriptionsCount (clients s c) + int n \<le> LLONG_MAX)"

lemma changes_subs_view:
  assumes "changes_subs s s' c f out"
  shows "channels (clients s' d) = channels (if d = c then f (clients s c) else clients s d)"
    and "patterns (clients s' d) = patterns (if d = c then f (clients s c) else clients s d)"
    and "order s' = order s" "subs_ok s'"
proof -
  obtain chs pats where s': "subs_ok s'" "s' = push out (upd_client c f s\<lparr>pubsub_channels := chs, pubsub_patterns := pats\<rparr>)"
    using assms unfolding changes_subs_def by blast
  show "channels (clients s' d) = channels (if d = c then f (clients s c) else clients s d)"
    "patterns (clients s' d) = patterns (if d = c then f (clients s c) else clients s d)" "order s' = order s"
    unfolding s'(2) by (simp_all add: upd_client_def)
  show "subs_ok s'" by (rule s'(1))
qed

lemma count_eq:
  "channels cl = channels cl' \<Longrightarrow> patterns cl = patterns cl' \<Longrightarrow> clientSubscriptionsCount cl = clientSubscriptionsCount cl'"
  by (simp add: clientSubscriptionsCount_def)

lemma count_nonneg: "0 \<le> clientSubscriptionsCount cl"
  by (simp add: clientSubscriptionsCount_def)

lemma pubsub_count: "pubsub_ok (Suc n) s \<Longrightarrow> in_ll (clientSubscriptionsCount (clients s c) + 1)"
  using count_nonneg [of "clients s c"]
  by (auto simp: pubsub_ok_def in_ll_def intro: order_trans [of _ 0] dest!: spec [where x = c])

lemma pubsub_client_ok:
  assumes "pubsub_ok n s" "changes_subs s s' c f out"
    and "channels (f (clients s c)) \<subseteq> insert x (channels (clients s c))" "arg_ok x" "clientSubscriptionsCount (f (clients s c)) + int m \<le> LLONG_MAX" "m \<le> n"
    and "patterns_safe s'"
  shows "pubsub_ok m s'"
proof -
  note v = changes_subs_view [OF assms(2)]
  have "clientSubscriptionsCount (clients s' d) = clientSubscriptionsCount (if d = c then f (clients s c) else clients s d)" for d
    by (rule count_eq) (rule v(1), rule v(2))
  moreover have "clientSubscriptionsCount (clients s d) + int m \<le> LLONG_MAX" for d
    using assms(1,6) unfolding pubsub_ok_def by (smt (verit) of_nat_le_iff)
  ultimately have "\<forall>d. clientSubscriptionsCount (clients s' d) + int m \<le> LLONG_MAX"
    using assms(5) by simp
  moreover have "\<forall>d. \<forall>ch \<in> channels (clients s' d). arg_ok ch"
    using assms(1,3,4) unfolding v(1) pubsub_ok_def by auto
  ultimately show ?thesis
    using assms(1,7) v(3,4) by (simp add: pubsub_ok_def)
qed

lemma patterns_safe_view:
  assumes "subs_ok s"
  shows "patterns_safe s \<longleftrightarrow> (\<forall>c. \<forall>p \<in> set (patterns (clients s c)). safe_pattern p)"
proof -
  have "p \<in> set (patterns (clients s c)) \<longleftrightarrow> (c, p) \<in> set (pubsub_patterns s)" for c p
  proof -
    have "patterns (clients s c) = map snd (filter (\<lambda>q. fst q = c) (pubsub_patterns s))"
      using assms by (simp add: subs_ok_def)
    then show ?thesis by (auto simp: image_iff)
  qed
  then show ?thesis by (auto simp: patterns_safe_def)
qed

lemma pubsub_step:
  assumes "pubsub_ok n s" "changes_subs s s' c f out" "m \<le> n"
    and "channels (f (clients s c)) \<subseteq> insert x (channels (clients s c))" "arg_ok x"
    and "set (patterns (f (clients s c))) \<subseteq> set (patterns (clients s c)) \<union> {p. safe_pattern p}"
    and "clientSubscriptionsCount (f (clients s c)) + int m \<le> LLONG_MAX"
  shows "pubsub_ok m s'"
proof -
  note v = changes_subs_view [OF assms(2)]
  have "patterns_safe s" "subs_ok s" using assms(1) by (simp_all add: pubsub_ok_def)
  then have safe: "\<forall>c. \<forall>p \<in> set (patterns (clients s c)). safe_pattern p" using patterns_safe_view by blast
  have "patterns_safe s'"
    unfolding patterns_safe_view [OF v(4)] v(2) using safe assms(6) by auto
  then show ?thesis by (rule pubsub_client_ok [OF assms(1,2,4,5,7,3)])
qed

lemma changes_sub_view:
  "changes_subs s s' c f out \<Longrightarrow> sub_view s'
     = ((fst (sub_view s))(c := channels (f (clients s c))), (snd (sub_view s))(c := patterns (f (clients s c))))"
  by (auto simp: sub_view_def fun_eq_iff changes_subs_view)

lemma unsub_step:
  assumes ok: "pubsub_ok (Suc n) s" and x: "arg_ok x"
  shows "\<exists>s' b. pubsubUnsubscribeChannel c x notify s = Some (s', b) \<and> pubsub_ok (Suc n) s'
    \<and> sub_view s' = sub_spec c (Unsub x) (sub_view s)"
proof -
  have "subs_ok s" using ok by (simp add: pubsub_ok_def)
  from unsubscribe_ok [OF this x pubsub_count [OF ok], of c notify] obtain s' where s':
    "pubsubUnsubscribeChannel c x notify s = Some (s', x \<in> channels (clients s c))"
    and ch: "changes_subs s s' c (\<lambda>cl. cl\<lparr>channels := channels cl - {x}\<rparr>)
      (to c (if notify then sub_reply shared_unsubscribebulk x
           (clientSubscriptionsCount (clients s c) - of_bool (x \<in> channels (clients s c))) else []))"
    by blast
  have "finite (channels (clients s c))" using ok by (simp add: pubsub_ok_def subs_ok_def)
  then have "card (channels (clients s c) - {x}) \<le> card (channels (clients s c))" by (intro card_mono) auto
  moreover have "clientSubscriptionsCount (clients s c) + int (Suc n) \<le> LLONG_MAX"
    using ok unfolding pubsub_ok_def by blast
  ultimately have "clientSubscriptionsCount (clients s c\<lparr>channels := channels (clients s c) - {x}\<rparr>) + int (Suc n) \<le> LLONG_MAX"
    by (simp add: clientSubscriptionsCount_def)
  then have "pubsub_ok (Suc n) s'" by (intro pubsub_step [OF ok ch _ _ x]) auto
  then show ?thesis using s' changes_sub_view [OF ch] by (auto simp: sub_view_def fun_eq_iff)
qed

lemma punsub_step:
  assumes ok: "pubsub_ok (Suc n) s" and x: "arg_ok x"
  shows "\<exists>s' b. pubsubUnsubscribePattern c x notify s = Some (s', b) \<and> pubsub_ok (Suc n) s'
    \<and> sub_view s' = sub_spec c (PUnsub x) (sub_view s)"
proof -
  have "subs_ok s" using ok by (simp add: pubsub_ok_def)
  from punsubscribe_ok [OF this x pubsub_count [OF ok], of c notify] obtain s' where s':
    "pubsubUnsubscribePattern c x notify s = Some (s', x \<in> set (patterns (clients s c)))"
    and ch: "changes_subs s s' c (\<lambda>cl. cl\<lparr>patterns := remove1 x (patterns cl)\<rparr>)
      (to c (if notify then sub_reply shared_punsubscribebulk x
           (clientSubscriptionsCount (clients s c) - of_bool (x \<in> set (patterns (clients s c)))) else []))"
    by blast
  have "clientSubscriptionsCount (clients s c) + int (Suc n) \<le> LLONG_MAX"
    using ok unfolding pubsub_ok_def by blast
  then have "clientSubscriptionsCount (clients s c\<lparr>patterns := remove1 x (patterns (clients s c))\<rparr>) + int (Suc n) \<le> LLONG_MAX"
    by (auto simp: clientSubscriptionsCount_def length_remove1)
  then have "pubsub_ok (Suc n) s'"
    by (intro pubsub_step [OF ok ch _ _ x]) (auto dest: notin_set_remove1 in_set_remove1 [THEN iffD1] set_remove1_subset [THEN subsetD])
  then show ?thesis using s' changes_sub_view [OF ch] by (auto simp: sub_view_def fun_eq_iff)
qed

lemma sub_ok_step:
  assumes ok: "pubsub_ok (Suc n) s" and x: "arg_ok x"
  shows "\<exists>s' b. pubsubSubscribeChannel c x s = Some (s', b) \<and> pubsub_ok n s'
    \<and> sub_view s' = sub_spec c (Sub x) (sub_view s)"
proof -
  have "subs_ok s" using ok by (simp add: pubsub_ok_def)
  from subscribe_ok [OF this x pubsub_count [OF ok], of c] obtain s' where s':
    "pubsubSubscribeChannel c x s = Some (s', x \<notin> channels (clients s c))"
    and ch: "changes_subs s s' c (\<lambda>cl. cl\<lparr>channels := insert x (channels cl)\<rparr>)
      (to c (sub_reply shared_subscribebulk x
           (clientSubscriptionsCount (clients s c) + of_bool (x \<notin> channels (clients s c)))))"
    by blast
  have "finite (channels (clients s c))" using ok by (simp add: pubsub_ok_def subs_ok_def)
  then have "card (insert x (channels (clients s c))) \<le> card (channels (clients s c)) + 1" by (simp add: card_insert_if)
  moreover have "clientSubscriptionsCount (clients s c) + int (Suc n) \<le> LLONG_MAX"
    using ok unfolding pubsub_ok_def by blast
  ultimately have "clientSubscriptionsCount (clients s c\<lparr>channels := insert x (channels (clients s c))\<rparr>) + int n \<le> LLONG_MAX"
    by (simp add: clientSubscriptionsCount_def)
  then have "pubsub_ok n s'" by (intro pubsub_step [OF ok ch _ _ x]) auto
  then show ?thesis using s' changes_sub_view [OF ch] by (auto simp: sub_view_def fun_eq_iff)
qed

lemma psub_step:
  assumes ok: "pubsub_ok (Suc n) s" and x: "safe_pattern x"
  shows "\<exists>s' b. pubsubSubscribePattern c x s = Some (s', b) \<and> pubsub_ok n s'
    \<and> sub_view s' = sub_spec c (PSub x) (sub_view s)"
proof -
  have "subs_ok s" and a: "arg_ok x" using ok x by (simp_all add: pubsub_ok_def safe_pattern_def)
  from psubscribe_ok [OF this pubsub_count [OF ok], of c] obtain s' where s':
    "pubsubSubscribePattern c x s = Some (s', x \<notin> set (patterns (clients s c)))"
    and ch: "changes_subs s s' c (\<lambda>cl. cl\<lparr>patterns := patterns cl @ (if x \<in> set (patterns cl) then [] else [x])\<rparr>)
      (to c (sub_reply shared_psubscribebulk x
           (clientSubscriptionsCount (clients s c) + of_bool (x \<notin> set (patterns (clients s c))))))"
    by blast
  have "clientSubscriptionsCount (clients s c) + int (Suc n) \<le> LLONG_MAX"
    using ok unfolding pubsub_ok_def by blast
  then have "clientSubscriptionsCount (clients s c\<lparr>patterns := patterns (clients s c)
      @ (if x \<in> set (patterns (clients s c)) then [] else [x])\<rparr>) + int n \<le> LLONG_MAX"
    by (simp add: clientSubscriptionsCount_def)
  then have "pubsub_ok n s'" using x by (intro pubsub_step [OF ok ch _ _ a]) auto
  then show ?thesis using s' changes_sub_view [OF ch] by (auto simp: sub_view_def fun_eq_iff)
qed

lemma unsub_all_loop:
  assumes "pubsub_ok (Suc n) s" "\<forall>x \<in> set xs. arg_ok x"
  shows "\<exists>s' k. each_channel (\<lambda>x. pubsubUnsubscribeChannel c x notify) xs s = Some (s', k) \<and> pubsub_ok (Suc n) s'
    \<and> sub_view s' = ((fst (sub_view s))(c := fst (sub_view s) c - set xs), snd (sub_view s))"
  using assms
proof (induction xs arbitrary: s)
  case (Cons x xs)
  then obtain s1 b where s1: "pubsubUnsubscribeChannel c x notify s = Some (s1, b)" "pubsub_ok (Suc n) s1"
    "sub_view s1 = sub_spec c (Unsub x) (sub_view s)"
    using unsub_step [of n s x c notify] by auto
  have "\<forall>x \<in> set xs. arg_ok x" using Cons.prems(2) by simp
  from Cons.IH [OF s1(2) this] obtain s2 k where s2:
    "each_channel (\<lambda>x. pubsubUnsubscribeChannel c x notify) xs s1 = Some (s2, k)" "pubsub_ok (Suc n) s2"
    "sub_view s2 = ((fst (sub_view s1))(c := fst (sub_view s1) c - set xs), snd (sub_view s1))"
    by blast
  have "fst (sub_view s) c - {x} - set xs = fst (sub_view s) c - set (x # xs)" by auto
  then show ?case
    using s1 s2 by (cases "sub_view s") (simp add: fun_eq_iff)
qed (simp add: fun_upd_idem)

lemma punsub_all_loop:
  assumes "pubsub_ok (Suc n) s" "\<forall>x \<in> set xs. arg_ok x" "patterns (clients s c) = xs"
  shows "\<exists>s' k. each_channel (\<lambda>x. pubsubUnsubscribePattern c x notify) xs s = Some (s', k) \<and> pubsub_ok (Suc n) s'
    \<and> sub_view s' = (fst (sub_view s), (snd (sub_view s))(c := []))"
  using assms
proof (induction xs arbitrary: s)
  case Nil
  then show ?case by (auto simp: sub_view_def fun_eq_iff)
next
  case (Cons x xs)
  then obtain s1 b where s1: "pubsubUnsubscribePattern c x notify s = Some (s1, b)" "pubsub_ok (Suc n) s1"
    "sub_view s1 = sub_spec c (PUnsub x) (sub_view s)"
    using punsub_step [of n s x c notify] by auto
  have pats: "patterns (clients s1 c) = xs"
    using s1(3) Cons.prems(3) by (simp add: sub_view_def fun_eq_iff)
  have "\<forall>x \<in> set xs. arg_ok x" using Cons.prems(2) by simp
  from Cons.IH [OF s1(2) this pats] obtain s2 k where
    "each_channel (\<lambda>x. pubsubUnsubscribePattern c x notify) xs s1 = Some (s2, k)" "pubsub_ok (Suc n) s2"
    "sub_view s2 = (fst (sub_view s1), (snd (sub_view s1))(c := []))"
    by blast
  then show ?case using s1 by (cases "sub_view s") (simp add: fun_eq_iff)
qed

lemma pubsub_ok_push [simp]: "pubsub_ok n (push f s) = pubsub_ok n s"
  by (simp add: pubsub_ok_def)

lemma sub_view_push [simp]: "sub_view (push f s) = sub_view s"
  by (simp add: sub_view_def)

lemma pubsub_ok_le: "pubsub_ok n s \<Longrightarrow> m \<le> n \<Longrightarrow> pubsub_ok m s"
  unfolding pubsub_ok_def by (smt (verit) of_nat_le_iff)

lemma pubsub_ok_Suc: "pubsub_ok (Suc n) s \<Longrightarrow> pubsub_ok n s"
  by (erule pubsub_ok_le) simp

lemma sub_step_ok:
  assumes ok: "pubsub_ok (Suc n) s" and x: "sub_op_ok x"
  shows "\<exists>s'. sub_step c x s = Some s' \<and> pubsub_ok n s' \<and> sub_view s' = sub_spec c x (sub_view s)"
proof (cases x)
  case (Sub y) then show ?thesis using sub_ok_step [OF ok, of y c] x by auto
next
  case (Unsub y) then show ?thesis
    using unsub_step [OF ok, of y c True] x by (auto intro: pubsub_ok_Suc)
next
  case (PSub y) then show ?thesis using psub_step [OF ok, of y c] x by auto
next
  case (PUnsub y) then show ?thesis
    using punsub_step [OF ok, of y c True] x by (auto intro: pubsub_ok_Suc)
next
  case UnsubAll
  have fin: "finite (channels (clients s c))" and args: "\<forall>ch \<in> channels (clients s c). arg_ok ch"
    using ok by (simp_all add: pubsub_ok_def subs_ok_def)
  have set: "set (order s (channels (clients s c))) = channels (clients s c)"
    using ok fin by (simp add: pubsub_ok_def)
  obtain s1 k where s1: "each_channel (\<lambda>x. pubsubUnsubscribeChannel c x True) (order s (channels (clients s c))) s = Some (s1, k)"
    "pubsub_ok (Suc n) s1" "sub_view s1 = ((fst (sub_view s))(c := {}), snd (sub_view s))"
    using unsub_all_loop [OF ok, of "order s (channels (clients s c))" c True] args set
    by (auto simp: sub_view_def)
  have "in_ll (clientSubscriptionsCount (clients s1 c))" by (rule in_ll_count, rule pubsub_count [OF s1(2)])
  then show ?thesis
    using UnsubAll s1 by (cases "sub_view s")
      (auto simp: pubsubUnsubscribeAllChannels_def push_simps Let_def intro: pubsub_ok_Suc)
next
  case PUnsubAll
  have "patterns_safe s" "subs_ok s" using ok by (simp_all add: pubsub_ok_def)
  then have "\<forall>p \<in> set (patterns (clients s c)). arg_ok p"
    using patterns_safe_view by (auto simp: safe_pattern_def)
  then obtain s1 k where s1: "each_channel (\<lambda>x. pubsubUnsubscribePattern c x True) (patterns (clients s c)) s = Some (s1, k)"
    "pubsub_ok (Suc n) s1" "sub_view s1 = (fst (sub_view s), (snd (sub_view s))(c := []))"
    using punsub_all_loop [OF ok, of "patterns (clients s c)" c True] by auto
  have "in_ll (clientSubscriptionsCount (clients s1 c))" by (rule in_ll_count, rule pubsub_count [OF s1(2)])
  then show ?thesis
    using PUnsubAll s1 by (cases "sub_view s")
      (auto simp: pubsubUnsubscribeAllPatterns_def push_simps Let_def intro: pubsub_ok_Suc)
qed

fun sub_specs :: "(nat \<times> sub_op) list \<Rightarrow> sub_view \<Rightarrow> sub_view" where
  "sub_specs [] v = v"
| "sub_specs ((c, x) # xs) v = sub_specs xs (sub_spec c x v)"

lemma sub_run_ok:
  assumes "pubsub_ok (length xs) s" "\<forall>(c, x) \<in> set xs. sub_op_ok x"
  shows "\<exists>s'. sub_run xs s = Some s' \<and> pubsub_ok 0 s' \<and> sub_view s' = sub_specs xs (sub_view s)"
  using assms
proof (induction xs arbitrary: s)
  case (Cons cx xs)
  obtain c x where cx: "cx = (c, x)" by force
  then obtain s1 where "sub_step c x s = Some s1" "pubsub_ok (length xs) s1" "sub_view s1 = sub_spec c x (sub_view s)"
    using sub_step_ok [of "length xs" s x c] Cons.prems by auto
  then show ?case using Cons.IH [of s1] Cons.prems cx by auto
qed simp

text \<open>
  C27: delivery is exact. After any script of subscriptions and unsubscriptions of channels and patterns, by
  any clients, a published message goes to the clients subscribed to its channel, once each,
  and to every client once for each of its own patterns that matches the channel, in the order in
  which it subscribed to them, and to nobody else. The number returned counts the messages. What a client
  is subscribed to is a fold over the script; no assertion fails, so the two tables of the server always
  mirror the clients' own.
\<close>

theorem publish_after_script:
  assumes "pubsub_ok (length xs) s" and "\<forall>(c, x) \<in> set xs. sub_op_ok x" and "arg_ok ch" and "arg_ok m"
  shows "\<exists>s' chs pats. sub_run xs s = Some s' \<and> subs_ok s' \<and> (chs, pats) = sub_specs xs (sub_view s)
    \<and> pubsubPublishMessage ch m s' = Some (push (\<lambda>d. (if ch \<in> chs d then message_bytes ch m else [])
          @ concat (map (\<lambda>p. pmessage_bytes p ch m) (filter (\<lambda>p. matches p ch) (pats d)))) s',
        card {d. ch \<in> chs d} + length (filter (\<lambda>(c, p). matches p ch) (pubsub_patterns s')))"
proof -
  obtain s' where s': "sub_run xs s = Some s'" "pubsub_ok 0 s'" "sub_view s' = sub_specs xs (sub_view s)"
    using sub_run_ok [OF assms(1,2)] by blast
  have ok: "subs_ok s'" "patterns_safe s'" using s'(2) by (simp_all add: pubsub_ok_def)
  have "distinct (subscribers s' ch)" "set (subscribers s' ch) = {d. ch \<in> channels (clients s' d)}"
    using ok(1) by (auto simp: subs_ok_def subscribers_def split: option.splits)
  then have "length (subscribers s' ch) = card {d. ch \<in> channels (clients s' d)}"
    using distinct_card by metis
  moreover have "published s' ch m = (\<lambda>d. delivered (clients s' d) ch m)"
    using published_delivered [OF ok(1)] by (simp add: fun_eq_iff)
  ultimately show ?thesis
    using s' ok publish_push [OF arg_text arg_text, OF assms(3,4) ok(2)]
    by (intro exI [of _ s'] exI [of _ "\<lambda>c. channels (clients s' c)"] exI [of _ "\<lambda>c. patterns (clients s' c)"])
       (simp add: sub_view_def delivered_def)
qed

lemma pubsub_ok_blank: "pubsub_ok 1000 blank_server"
  by (simp add: pubsub_ok_def subs_ok_def subscribers_def patterns_safe_def clientSubscriptionsCount_def
      distinct_sorted_list_of_set)

lemma render_safe:
  assumes "list_all wf_tok ts" "\<not> list_ex is_cls ts" "length (render ts) \<le> 536870912"
  shows "safe_pattern (render ts)"
  using stringmatchlen_glob [OF assms(1)] assms(2,3) by (auto simp: safe_pattern_def arg_ok_def)

theorem publish_after_script_witness:
  "\<exists>s' n. sub_run [(0, Sub ''news''), (1, PSub ''n*''), (1, Sub ''x''), (1, Unsub ''x'')] (blank_server :: unit server) = Some s'
     \<and> pubsubPublishMessage ''news'' ''hi'' s'
         = Some (push (\<lambda>d. if d = 0 then message_bytes ''news'' ''hi''
                           else if d = 1 then pmessage_bytes ''n*'' ''news'' ''hi'' else []) s', n)"
proof -
  let ?xs = "[(0, Sub ''news''), (1, PSub ''n*''), (1, Sub ''x''), (1, Unsub ''x'')] :: (nat \<times> sub_op) list"
  have safe: "safe_pattern ''n*''" using render_safe [of "[Lit (CHR ''n''), Star]"] by simp
  have ok: "pubsub_ok (length ?xs) (blank_server :: unit server)"
    using pubsub_ok_le [OF pubsub_ok_blank, of "length ?xs"] by simp
  have m: "matches ''n*'' ''news''"
    using stringmatchlen_glob [of "[Lit (CHR ''n''), Star]" "''news''" False] by (simp add: matches_def chr_eq_def)
  obtain s' chs pats where s': "sub_run ?xs (blank_server :: unit server) = Some s'" "subs_ok s'"
    "(chs, pats) = sub_specs ?xs (sub_view (blank_server :: unit server))"
    "pubsubPublishMessage ''news'' ''hi'' s' = Some (push (\<lambda>d. (if ''news'' \<in> chs d then message_bytes ''news'' ''hi'' else [])
          @ concat (map (\<lambda>p. pmessage_bytes p ''news'' ''hi'') (filter (\<lambda>p. matches p ''news'') (pats d)))) s',
        card {d. ''news'' \<in> chs d} + length (filter (\<lambda>(c, p). matches p ''news'') (pubsub_patterns s')))"
    using publish_after_script [OF ok, of "''news''" "''hi''"] safe by (auto simp: arg_ok_def)
  have v: "chs = (\<lambda>c. {})(0 := {''news''}, 1 := {})" "pats = (\<lambda>c. [])(1 := [''n*''])"
    using s'(3) by (auto simp: sub_view_def fun_eq_iff)
  have out: "(\<lambda>d. (if ''news'' \<in> chs d then message_bytes ''news'' ''hi'' else [])
      @ concat (map (\<lambda>p. pmessage_bytes p ''news'' ''hi'') (filter (\<lambda>p. matches p ''news'') (pats d))))
    = (\<lambda>d. if d = 0 then message_bytes ''news'' ''hi'' else if d = 1 then pmessage_bytes ''n*'' ''news'' ''hi'' else [])"
    using m by (auto simp: v fun_eq_iff)
  show ?thesis using s'(1,4) unfolding out by blast
qed

subsection \<open>The text form of the notification classes\<close>

lemmas class_defs = NOTIFY_KEYSPACE_def NOTIFY_KEYEVENT_def NOTIFY_GENERIC_def NOTIFY_STRING_def NOTIFY_LIST_def
  NOTIFY_SET_def NOTIFY_HASH_def NOTIFY_ZSET_def NOTIFY_EXPIRED_def NOTIFY_EVICTED_def

lemma and_power: "f AND 2 ^ n \<noteq> 0 \<Longrightarrow> f AND 2 ^ n = 2 ^ n" for f :: int
  by (rule bit_eqI) (auto simp: bit_simps and_exp_eq_0_iff_not_bit)

lemma flags_loop_char:
  assumes "class_flag ch = Some (2 ^ n)"
  shows "flags_loop a (flag_char f (2 ^ n) ch @ cs) = flags_loop (a OR (f AND 2 ^ n)) cs"
  using assms and_power [of f n] by (auto simp: flag_char_def)

lemma class_flag_chars:
  "class_flag CHR ''g'' = Some (2 ^ 2)" "class_flag CHR ''$'' = Some (2 ^ 3)" "class_flag CHR ''l'' = Some (2 ^ 4)"
  "class_flag CHR ''s'' = Some (2 ^ 5)" "class_flag CHR ''h'' = Some (2 ^ 6)" "class_flag CHR ''z'' = Some (2 ^ 7)"
  "class_flag CHR ''x'' = Some (2 ^ 8)" "class_flag CHR ''e'' = Some (2 ^ 9)" "class_flag CHR ''K'' = Some (2 ^ 0)"
  "class_flag CHR ''E'' = Some (2 ^ 1)" "class_flag CHR ''A'' = Some 1020"
  by (simp_all add: class_flag_def class_defs NOTIFY_ALL_def)

lemma class_powers:
  "NOTIFY_KEYSPACE = 2 ^ 0" "NOTIFY_KEYEVENT = 2 ^ 1" "NOTIFY_GENERIC = 2 ^ 2" "NOTIFY_STRING = 2 ^ 3"
  "NOTIFY_LIST = 2 ^ 4" "NOTIFY_SET = 2 ^ 5" "NOTIFY_HASH = 2 ^ 6" "NOTIFY_ZSET = 2 ^ 7"
  "NOTIFY_EXPIRED = 2 ^ 8" "NOTIFY_EVICTED = 2 ^ 9" "NOTIFY_ALL = 1020"
  by (simp_all add: class_defs NOTIFY_ALL_def)

lemma flag_text_no_nul: "NUL \<notin> set (keyspaceEventsFlagsToString f)"
  by (auto simp: keyspaceEventsFlagsToString_def flag_char_def split: if_splits)

lemma flags_loop_last:
  "class_flag ch = Some (2 ^ n) \<Longrightarrow> flags_loop a (flag_char f (2 ^ n) ch) = (a OR (f AND 2 ^ n))"
  using flags_loop_char [of ch n a f "[]"] by simp

lemma flags_of_text: "keyspaceEventsStringToFlags (keyspaceEventsFlagsToString f) = f AND 1023"
proof -
  have c: "cstr (keyspaceEventsFlagsToString f) = keyspaceEventsFlagsToString f"
    using flag_text_no_nul [of f] by (auto simp: cstr_def takeWhile_eq_all_conv)
  show ?thesis
  proof (cases "f AND 1020 = 1020")
    case True
    have "flags_loop 0 (keyspaceEventsFlagsToString f) = (f AND 1020 OR (f AND 1)) OR (f AND 2)"
      using True class_flag_chars flags_loop_char [of _ 0] flags_loop_last [of _ 1]
      by (simp add: keyspaceEventsFlagsToString_def class_powers)
    then show ?thesis by (simp add: keyspaceEventsStringToFlags_def c flip: bit.conj_disj_distrib)
  next
    case False
    have "flags_loop 0 (keyspaceEventsFlagsToString f) = f AND (2 ^ 2 OR 2 ^ 3 OR 2 ^ 4 OR 2 ^ 5 OR 2 ^ 6 OR 2 ^ 7
        OR 2 ^ 8 OR 2 ^ 9 OR 2 ^ 0 OR 2 ^ 1)"
      unfolding keyspaceEventsFlagsToString_def class_powers
      using False
      by (simp only: if_False append.assoc flags_loop_char class_flag_chars flags_loop_last or.left_neutral
          bit.conj_disj_distrib or.assoc)
    then show ?thesis by (simp add: keyspaceEventsStringToFlags_def c)
  qed
qed

lemma class_flag_range: "class_flag ch = Some f \<Longrightarrow> f AND 1023 = f"
  by (auto simp: class_flag_def class_powers split: if_splits)

lemma flags_loop_range:
  "a AND 1023 = a \<Longrightarrow> if flags_loop a cs = -1 then list_ex (\<lambda>ch. class_flag ch = None) cs
     else flags_loop a cs AND 1023 = flags_loop a cs"
proof (induction cs arbitrary: a)
  case Nil
  then show ?case by auto
next
  case (Cons ch cs)
  show ?case
  proof (cases "class_flag ch")
    case (Some f)
    have "(a OR f) AND 1023 = a OR f"
      using Cons.prems class_flag_range [OF Some] by (simp add: bit.conj_disj_distrib2)
    from Cons.IH [OF this] Some show ?thesis by (simp split: if_splits)
  qed simp
qed


end
