(* ===== verification/Watch.thy ===== *)
theory Watch
  imports Pubsub
begin

text \<open>
  Optimistic locking (the second half of \<open>multi.c\<close>): the keys a client watches, the table from keys
  to watching clients in each database, and the marking of clients whose watched keys change.
\<close>

definition watchForKey :: "nat \<Rightarrow> string \<Rightarrow> 'z server \<Rightarrow> 'z server" where
  "watchForKey c key s =
     (let i = cdb (clients s c) in
      if (i, key) \<in> set (cwatched (clients s c)) then s
      else
        let cs = (case watched_keys (dbs s i) key of None \<Rightarrow> [] | Some cs \<Rightarrow> cs);
            s1 = upd_db i (\<lambda>db. db\<lparr>watched_keys := (watched_keys db)(key \<mapsto> cs @ [c])\<rparr>) s
        in upd_client c (\<lambda>cl. cl\<lparr>cwatched := cwatched cl @ [(i, key)]\<rparr>) s1)"

text \<open>One round of the loop of \<open>unwatchAllKeys\<close>; deleting a node that is not there would crash.\<close>

definition unwatch_one :: "nat \<Rightarrow> nat \<times> string \<Rightarrow> 'z server \<Rightarrow> 'z server option" where
  "unwatch_one c wk s =
     (case wk of (i, key) \<Rightarrow>
        case watched_keys (dbs s i) key of None \<Rightarrow> None
        | Some cs \<Rightarrow>
            if c \<notin> set cs then None
            else
              let cs' = remove1 c cs;
                  s1 = upd_db i (\<lambda>db. db\<lparr>watched_keys := (watched_keys db)(key := if cs' = [] then None else Some cs')\<rparr>) s
              in Some (upd_client c (\<lambda>cl. cl\<lparr>cwatched := remove1 wk (cwatched cl)\<rparr>) s1))"

fun unwatch_loop :: "nat \<Rightarrow> (nat \<times> string) list \<Rightarrow> 'z server \<Rightarrow> 'z server option" where
  "unwatch_loop c [] s = Some s"
| "unwatch_loop c (wk # wks) s = do { s1 \<leftarrow> unwatch_one c wk s; unwatch_loop c wks s1 }"

definition unwatchAllKeys :: "nat \<Rightarrow> 'z server \<Rightarrow> 'z server option" where
  "unwatchAllKeys c s = unwatch_loop c (cwatched (clients s c)) s"

definition set_dirty_cas :: "nat \<Rightarrow> 'z server \<Rightarrow> 'z server" where
  "set_dirty_cas c s = upd_client c (\<lambda>cl. cl\<lparr>dirty_cas := True\<rparr>) s"

definition touchWatchedKey :: "nat \<Rightarrow> string \<Rightarrow> 'z server \<Rightarrow> 'z server" where
  "touchWatchedKey i key s =
     (case watched_keys (dbs s i) key of None \<Rightarrow> s | Some cs \<Rightarrow> fold set_dirty_cas cs s)"

text \<open>\<open>dbid\<close> is -1 for all the databases.\<close>

definition touch_client :: "int \<Rightarrow> nat \<Rightarrow> 'z server \<Rightarrow> 'z server" where
  "touch_client dbid c s =
     fold (\<lambda>(i, key) s1. if (dbid = -1 \<or> int i = dbid) \<and> ddict (dbs s1 i) key \<noteq> None then set_dirty_cas c s1 else s1)
       (cwatched (clients s c)) s"

definition touchWatchedKeysOnFlush :: "int \<Rightarrow> 'z server \<Rightarrow> 'z server" where
  "touchWatchedKeysOnFlush dbid s = fold (touch_client dbid) (client_list s) s"

definition watchCommand :: "nat \<Rightarrow> 'z server \<Rightarrow> 'z server" where
  "watchCommand c s =
     (if multi (clients s c) then addReplyError c ''WATCH inside MULTI is not allowed'' s
      else addReply c shared_ok (fold (watchForKey c) (args_from c 1 s) s))"

definition unwatchCommand :: "nat \<Rightarrow> 'z server \<Rightarrow> 'z server option" where
  "unwatchCommand c s = do {
     s1 \<leftarrow> unwatchAllKeys c s;
     Some (addReply c shared_ok (upd_client c (\<lambda>cl. cl\<lparr>dirty_cas := False\<rparr>) s1)) }"

end
