(* ===== verification/Db.thy ===== *)
theory Db
  imports Watch
begin

text \<open>
  The keyspace (\<open>db.c\<close>): lookups with lazy expiry, the primitives that add, overwrite and delete
  keys, the expire table, and the commands that work on keys of any type. A database is named by its
  number; \<open>None\<close> is a failed assertion.
\<close>

subsection \<open>Access to the databases\<close>

definition set_ddict :: "nat \<Rightarrow> string \<Rightarrow> 'z robj option \<Rightarrow> 'z server \<Rightarrow> 'z server" where
  "set_ddict i key v s = upd_db i (\<lambda>db. db\<lparr>ddict := (ddict db)(key := v)\<rparr>) s"

definition set_expires :: "nat \<Rightarrow> string \<Rightarrow> int option \<Rightarrow> 'z server \<Rightarrow> 'z server" where
  "set_expires i key t s = upd_db i (\<lambda>db. db\<lparr>expires := (expires db)(key := t)\<rparr>) s"

definition createObject :: "'z server \<Rightarrow> 'z oval \<Rightarrow> 'z robj" where
  "createObject s v = \<lparr>oval = v, lru = lruclock s\<rparr>"

definition signalModifiedKey :: "nat \<Rightarrow> string \<Rightarrow> 'z server \<Rightarrow> 'z server" where
  "signalModifiedKey i key s = touchWatchedKey i key s"

definition signalFlushedDb :: "int \<Rightarrow> 'z server \<Rightarrow> 'z server" where
  "signalFlushedDb dbid s = touchWatchedKeysOnFlush dbid s"

definition add_dirty :: "int \<Rightarrow> 'z server \<Rightarrow> 'z server" where
  "add_dirty n s = s\<lparr>dirty := dirty s + n\<rparr>"

definition lookupKey :: "nat \<Rightarrow> string \<Rightarrow> 'z server \<Rightarrow> 'z server \<times> 'z robj option" where
  "lookupKey i key s =
     (case ddict (dbs s i) key of None \<Rightarrow> (s, None)
      | Some val \<Rightarrow>
          let val' = (if child_active s then val else val\<lparr>lru := lruclock s\<rparr>)
          in (set_ddict i key (Some val') s, Some val'))"

definition dbExists :: "nat \<Rightarrow> string \<Rightarrow> 'z server \<Rightarrow> bool" where
  "dbExists i key s = (ddict (dbs s i) key \<noteq> None)"

definition dbDelete :: "nat \<Rightarrow> string \<Rightarrow> 'z server \<Rightarrow> 'z server \<times> bool" where
  "dbDelete i key s =
     (set_ddict i key None (set_expires i key None s), dbExists i key s)"

text \<open>\<open>signalListAsReady\<close> of \<open>t_list.c\<close>: a key that clients block on gets a list.\<close>

definition signalListAsReady :: "nat \<Rightarrow> string \<Rightarrow> 'z server \<Rightarrow> 'z server" where
  "signalListAsReady i key s =
     (if blocking_keys (dbs s i) key = None then s
      else if key \<in> ready_keys (dbs s i) then s
      else upd_db i (\<lambda>db. db\<lparr>ready_keys := insert key (ready_keys db)\<rparr>)
             (s\<lparr>srv_ready_keys := srv_ready_keys s @ [(i, key)]\<rparr>))"

definition dbAdd :: "nat \<Rightarrow> string \<Rightarrow> 'z robj \<Rightarrow> 'z server \<Rightarrow> 'z server option" where
  "dbAdd i key val s =
     (if ddict (dbs s i) key \<noteq> None then None
      else let s1 = set_ddict i key (Some val) s
        in Some (if otype (oval val) = REDIS_LIST then signalListAsReady i key s1 else s1))"

definition dbOverwrite :: "nat \<Rightarrow> string \<Rightarrow> 'z robj \<Rightarrow> 'z server \<Rightarrow> 'z server option" where
  "dbOverwrite i key val s =
     (if ddict (dbs s i) key = None then None else Some (set_ddict i key (Some val) s))"

subsection \<open>Expires\<close>

definition removeExpire :: "nat \<Rightarrow> string \<Rightarrow> 'z server \<Rightarrow> ('z server \<times> bool) option" where
  "removeExpire i key s =
     (if ddict (dbs s i) key = None then None
      else Some (set_expires i key None s, expires (dbs s i) key \<noteq> None))"

definition setExpire :: "nat \<Rightarrow> string \<Rightarrow> int \<Rightarrow> 'z server \<Rightarrow> 'z server option" where
  "setExpire i key when s =
     (if ddict (dbs s i) key = None then None else Some (set_expires i key (Some when) s))"

definition getExpire :: "nat \<Rightarrow> string \<Rightarrow> 'z server \<Rightarrow> int option" where
  "getExpire i key s =
     (case expires (dbs s i) key of None \<Rightarrow> Some (-1)
      | Some t \<Rightarrow> if ddict (dbs s i) key = None then None else Some t)"

definition feedAppendOnlyFile :: "nat \<Rightarrow> string list \<Rightarrow> 'z server \<Rightarrow> 'z server" where
  "feedAppendOnlyFile i args s = s\<lparr>aof_log := aof_log s @ [(i, args)]\<rparr>"

definition replicationFeedSlaves :: "nat \<Rightarrow> string list \<Rightarrow> 'z server \<Rightarrow> 'z server" where
  "replicationFeedSlaves i args s = s\<lparr>slave_log := slave_log s @ [(i, args)]\<rparr>"

definition propagateExpire :: "nat \<Rightarrow> string \<Rightarrow> 'z server \<Rightarrow> 'z server" where
  "propagateExpire i key s =
     (let args = [''DEL'', key]; s1 = (if aof_on s then feedAppendOnlyFile i args s else s)
      in replicationFeedSlaves i args s1)"

definition expireIfNeeded :: "nat \<Rightarrow> string \<Rightarrow> 'z server \<Rightarrow> ('z server \<times> bool) option" where
  "expireIfNeeded i key s = do {
     when \<leftarrow> getExpire i key s;
     if when < 0 then Some (s, False)
     else if loading s then Some (s, False)
     else
       let t = (case lua_time s of Some t \<Rightarrow> t | None \<Rightarrow> now s) in
       if is_slave s then Some (s, t > when)
       else if t \<le> when then Some (s, False)
       else do {
         s1 \<leftarrow> notifyKeyspaceEvent NOTIFY_EXPIRED ''expired'' key i
                (propagateExpire i key (s\<lparr>stat_expired := stat_expired s + 1\<rparr>));
         Some (dbDelete i key s1) } }"

subsection \<open>Lookups\<close>

definition lookupKeyRead :: "nat \<Rightarrow> string \<Rightarrow> 'z server \<Rightarrow> ('z server \<times> 'z robj option) option" where
  "lookupKeyRead i key s = do {
     (s1, e) \<leftarrow> expireIfNeeded i key s;
     (case lookupKey i key s1 of
        (s2, None) \<Rightarrow> Some (s2\<lparr>stat_misses := stat_misses s2 + 1\<rparr>, None)
      | (s2, Some val) \<Rightarrow> Some (s2\<lparr>stat_hits := stat_hits s2 + 1\<rparr>, Some val)) }"

definition lookupKeyWrite :: "nat \<Rightarrow> string \<Rightarrow> 'z server \<Rightarrow> ('z server \<times> 'z robj option) option" where
  "lookupKeyWrite i key s = do { (s1, e) \<leftarrow> expireIfNeeded i key s; Some (lookupKey i key s1) }"

definition lookupKeyReadOrReply :: "nat \<Rightarrow> string \<Rightarrow> string \<Rightarrow> 'z server \<Rightarrow> ('z server \<times> 'z robj option) option" where
  "lookupKeyReadOrReply c key rep s = do {
     (s1, v) \<leftarrow> lookupKeyRead (cdb (clients s c)) key s;
     Some (if v = None then addReply c rep s1 else s1, v) }"

definition lookupKeyWriteOrReply :: "nat \<Rightarrow> string \<Rightarrow> string \<Rightarrow> 'z server \<Rightarrow> ('z server \<times> 'z robj option) option" where
  "lookupKeyWriteOrReply c key rep s = do {
     (s1, v) \<leftarrow> lookupKeyWrite (cdb (clients s c)) key s;
     Some (if v = None then addReply c rep s1 else s1, v) }"

definition setKey :: "nat \<Rightarrow> string \<Rightarrow> 'z robj \<Rightarrow> 'z server \<Rightarrow> 'z server option" where
  "setKey i key val s = do {
     (s1, v) \<leftarrow> lookupKeyWrite i key s;
     s2 \<leftarrow> (case v of None \<Rightarrow> dbAdd i key val s1 | Some _ \<Rightarrow> dbOverwrite i key val s1);
     (s3, b) \<leftarrow> removeExpire i key s2;
     Some (signalModifiedKey i key s3) }"

text \<open>
  An object is replaced by an unshared raw one when it is encoded; reference counts are not modelled, and
  replacing a shared raw object by its copy changes no value.
\<close>

definition dbUnshareStringValue :: "nat \<Rightarrow> string \<Rightarrow> 'z robj \<Rightarrow> 'z server \<Rightarrow> ('z server \<times> string) option" where
  "dbUnshareStringValue i key val s =
     (case oval val of
        StrRaw x \<Rightarrow> Some (s, x)
      | StrInt v \<Rightarrow> do {
          s1 \<leftarrow> dbOverwrite i key (createObject s (StrRaw (ll2str v))) s;
          Some (s1, ll2str v) }
      | _ \<Rightarrow> None)"

definition selectDb :: "nat \<Rightarrow> int \<Rightarrow> 'z server \<Rightarrow> 'z server \<times> bool" where
  "selectDb c i s =
     (if i < 0 \<or> i \<ge> int (dbnum s) then (s, False)
      else (upd_client c (\<lambda>cl. cl\<lparr>cdb := nat i\<rparr>) s, True))"

definition dictEmptyDb :: "nat \<Rightarrow> 'z server \<Rightarrow> 'z server" where
  "dictEmptyDb i s = upd_db i (\<lambda>db. db\<lparr>ddict := Map.empty, expires := Map.empty\<rparr>) s"

fun empty_loop :: "nat list \<Rightarrow> int \<Rightarrow> 'z server \<Rightarrow> 'z server \<times> int" where
  "empty_loop [] removed s = (s, removed)"
| "empty_loop (j # js) removed s =
     empty_loop js (removed + int (card (dom (ddict (dbs s j))))) (dictEmptyDb j s)"

definition emptyDb :: "'z server \<Rightarrow> 'z server \<times> int" where
  "emptyDb s = empty_loop [0..<dbnum s] 0 s"

subsection \<open>Commands on the keyspace\<close>

definition flushdbCommand :: "nat \<Rightarrow> 'z server \<Rightarrow> 'z server" where
  "flushdbCommand c s =
     (let i = cdb (clients s c);
          s1 = add_dirty (int (card (dom (ddict (dbs s i))))) s;
          s2 = dictEmptyDb i (signalFlushedDb (int i) s1)
      in addReply c shared_ok s2)"

text \<open>The saving child and the save to disk of \<open>FLUSHALL\<close> leave the data alone.\<close>

definition flushallCommand :: "nat \<Rightarrow> 'z server \<Rightarrow> 'z server" where
  "flushallCommand c s =
     (let (s1, removed) = emptyDb (signalFlushedDb (-1) s)
      in add_dirty 1 (addReply c shared_ok (add_dirty removed s1)))"

fun del_loop :: "nat \<Rightarrow> string list \<Rightarrow> int \<Rightarrow> 'z server \<Rightarrow> ('z server \<times> int) option" where
  "del_loop i [] deleted s = Some (s, deleted)"
| "del_loop i (key # keys) deleted s = do {
     (s1, e) \<leftarrow> expireIfNeeded i key s;
     (case dbDelete i key s1 of
        (s2, True) \<Rightarrow> do {
          s3 \<leftarrow> notifyKeyspaceEvent NOTIFY_GENERIC ''del'' key i (signalModifiedKey i key s2);
          del_loop i keys (deleted + 1) (add_dirty 1 s3) }
      | (s2, False) \<Rightarrow> del_loop i keys deleted s2) }"

definition delCommand :: "nat \<Rightarrow> 'z server \<Rightarrow> 'z server option" where
  "delCommand c s = do {
     (s1, deleted) \<leftarrow> del_loop (cdb (clients s c)) (args_from c 1 s) 0 s;
     Some (addReplyLongLong c deleted s1) }"

definition existsCommand :: "nat \<Rightarrow> 'z server \<Rightarrow> 'z server option" where
  "existsCommand c s =
     (let i = cdb (clients s c); key = arg c 1 s in do {
        (s1, e) \<leftarrow> expireIfNeeded i key s;
        Some (addReply c (if dbExists i key s1 then shared_cone else shared_czero) s1) })"

definition selectCommand :: "nat \<Rightarrow> 'z server \<Rightarrow> 'z server option" where
  "selectCommand c s = do {
     (s1, r) \<leftarrow> getLongFromObjectOrReply c (Some (StrRaw (arg c 1 s))) (Some ''invalid DB index'') s;
     Some (case r of None \<Rightarrow> s1
       | Some i \<Rightarrow>
           (case selectDb c i s1 of
              (s2, False) \<Rightarrow> addReplyError c ''invalid DB index'' s2
            | (s2, True) \<Rightarrow> addReply c shared_ok s2)) }"

text \<open>
  The loop of \<open>dbRandomKey\<close>, with the draws of \<open>dictGetRandomKey\<close> given by \<open>pick\<close>: the draw with
  \<open>n\<close> rounds left takes a key of a set. No rounds left means still running.
\<close>

fun random_loop :: "(nat \<Rightarrow> string set \<Rightarrow> string) \<Rightarrow> nat \<Rightarrow> nat \<Rightarrow> 'z server \<Rightarrow> ('z server \<times> string option) option" where
  "random_loop pick 0 i s = None"
| "random_loop pick (Suc n) i s =
     (let keys = dom (ddict (dbs s i)) in
      if keys = {} then Some (s, None)
      else
        let key = pick n keys in
        if expires (dbs s i) key \<noteq> None then do {
          (s1, e) \<leftarrow> expireIfNeeded i key s;
          if e then random_loop pick n i s1 else Some (s1, Some key) }
        else Some (s, Some key))"

definition randomkeyCommand :: "(nat \<Rightarrow> string set \<Rightarrow> string) \<Rightarrow> nat \<Rightarrow> nat \<Rightarrow> 'z server \<Rightarrow> 'z server option" where
  "randomkeyCommand pick rounds c s = do {
     (s1, key) \<leftarrow> random_loop pick rounds (cdb (clients s c)) s;
     (case key of None \<Rightarrow> Some (addReply c shared_nullbulk s1)
      | Some k \<Rightarrow> addReplyBulk c (StrRaw k) s1) }"

fun keys_loop :: "nat \<Rightarrow> nat \<Rightarrow> string \<Rightarrow> bool \<Rightarrow> string list \<Rightarrow> int \<Rightarrow> 'z server \<Rightarrow> ('z server \<times> int) option" where
  "keys_loop c i pattern allkeys [] numkeys s = Some (s, numkeys)"
| "keys_loop c i pattern allkeys (key # keys) numkeys s = do {
     m \<leftarrow> (if allkeys then Some True else stringmatchlen pattern key False);
     if m then do {
       (s1, e) \<leftarrow> expireIfNeeded i key s;
       if \<not> e then do {
         s2 \<leftarrow> addReplyBulk c (StrRaw key) s1;
         keys_loop c i pattern allkeys keys (numkeys + 1) s2 }
       else keys_loop c i pattern allkeys keys numkeys s1 }
     else keys_loop c i pattern allkeys keys numkeys s }"

definition keysCommand :: "nat \<Rightarrow> 'z server \<Rightarrow> 'z server option" where
  "keysCommand c s =
     (let i = cdb (clients s c); pattern = arg c 1 s; node = addDeferredMultiBulkLength c s;
          allkeys = (cstr pattern = ''*'')
      in do {
        (s1, numkeys) \<leftarrow> keys_loop c i pattern allkeys (order s (dom (ddict (dbs s i)))) 0 s;
        Some (setDeferredMultiBulkLength c node numkeys s1) })"

definition dbsizeCommand :: "nat \<Rightarrow> 'z server \<Rightarrow> 'z server" where
  "dbsizeCommand c s = addReplyLongLong c (int (card (dom (ddict (dbs s (cdb (clients s c))))))) s"

fun type_name :: "obj_type \<Rightarrow> string" where
  "type_name REDIS_STRING = ''string''"
| "type_name REDIS_LIST = ''list''"
| "type_name REDIS_SET = ''set''"
| "type_name REDIS_ZSET = ''zset''"
| "type_name REDIS_HASH = ''hash''"

definition typeCommand :: "nat \<Rightarrow> 'z server \<Rightarrow> 'z server option" where
  "typeCommand c s = do {
     (s1, v) \<leftarrow> lookupKeyRead (cdb (clients s c)) (arg c 1 s) s;
     Some (addReplyStatus c (case v of None \<Rightarrow> ''none'' | Some val \<Rightarrow> type_name (otype (oval val))) s1) }"

definition renameGenericCommand :: "nat \<Rightarrow> bool \<Rightarrow> 'z server \<Rightarrow> 'z server option" where
  "renameGenericCommand c nx s =
     (let i = cdb (clients s c); src = arg c 1 s; dst = arg c 2 s in
      if src = dst then Some (addReply c shared_sameobjecterr s)
      else do {
        (s1, v) \<leftarrow> lookupKeyWriteOrReply c src shared_nokeyerr s;
        case v of None \<Rightarrow> Some s1
        | Some val \<Rightarrow> do {
            expire \<leftarrow> getExpire i src s1;
            (s2, w) \<leftarrow> lookupKeyWrite i dst s1;
            if w \<noteq> None \<and> nx then Some (addReply c shared_czero s2)
            else do {
              s4 \<leftarrow> dbAdd i dst val (if w \<noteq> None then fst (dbDelete i dst s2) else s2);
              s5 \<leftarrow> (if expire \<noteq> -1 then setExpire i dst expire s4 else Some s4);
              s8 \<leftarrow> notifyKeyspaceEvent NOTIFY_GENERIC ''rename_from'' src i
                 (signalModifiedKey i dst (signalModifiedKey i src (fst (dbDelete i src s5))));
              s9 \<leftarrow> notifyKeyspaceEvent NOTIFY_GENERIC ''rename_to'' dst i s8;
              Some (addReply c (if nx then shared_cone else shared_ok) (add_dirty 1 s9)) } } })"

definition renameCommand :: "nat \<Rightarrow> 'z server \<Rightarrow> 'z server option" where
  "renameCommand c s = renameGenericCommand c False s"

definition renamenxCommand :: "nat \<Rightarrow> 'z server \<Rightarrow> 'z server option" where
  "renamenxCommand c s = renameGenericCommand c True s"

definition moveCommand :: "nat \<Rightarrow> 'z server \<Rightarrow> 'z server option" where
  "moveCommand c s =
     (let src = cdb (clients s c); key = arg c 1 s in do {
        r \<leftarrow> getLongLongFromObject (Some (StrRaw (arg c 2 s) :: 'z oval));
        (case r of None \<Rightarrow> Some (addReply c shared_outofrangeerr s)
         | Some dbid \<Rightarrow>
             if dbid < -2147483648 \<or> dbid > 2147483647 \<or> \<not> snd (selectDb c dbid s)
             then Some (addReply c shared_outofrangeerr s)
             else
               let dst = cdb (clients (fst (selectDb c dbid s)) c);
                   s1 = fst (selectDb c (int src) (fst (selectDb c dbid s)))
               in if src = dst then Some (addReply c shared_sameobjecterr s1)
                  else do {
                    (s2, v) \<leftarrow> lookupKeyWrite src key s1;
                    case v of None \<Rightarrow> Some (addReply c shared_czero s2)
                    | Some val \<Rightarrow> do {
                        (s3, w) \<leftarrow> lookupKeyWrite dst key s2;
                        if w \<noteq> None then Some (addReply c shared_czero s3)
                        else do {
                          s4 \<leftarrow> dbAdd dst key val s3;
                          Some (addReply c shared_cone (add_dirty 1 (fst (dbDelete src key s4)))) } } }) })"

subsection \<open>Commands on expires\<close>

text \<open>
  The two sums of \<open>expireGenericCommand\<close> are computed in \<open>long long\<close>, and wrap around. When the
  time is past, the command vector is rewritten for the append only file and the slaves.
\<close>

definition expireGenericCommand :: "nat \<Rightarrow> int \<Rightarrow> bool \<Rightarrow> 'z server \<Rightarrow> 'z server option" where
  "expireGenericCommand c basetime seconds s =
     (let i = cdb (clients s c); key = arg c 1 s in do {
        (s1, r) \<leftarrow> getLongLongFromObjectOrReply c (Some (StrRaw (arg c 2 s))) None s;
        case r of None \<Rightarrow> Some s1
        | Some v \<Rightarrow>
            let when0 = (if seconds then wrap_ll (v * 1000) else v); when = wrap_ll (when0 + basetime) in do {
              (s2, val) \<leftarrow> lookupKeyRead i key s1;
              if val = None then Some (addReply c shared_czero s2)
              else if when \<le> now s2 \<and> \<not> loading s2 \<and> \<not> is_slave s2 then
                (case dbDelete i key s2 of
                   (s3, False) \<Rightarrow> None
                 | (s3, True) \<Rightarrow> do {
                     s5 \<leftarrow> notifyKeyspaceEvent NOTIFY_GENERIC ''del'' key i
                        (signalModifiedKey i key
                          (upd_client c (\<lambda>cl. cl\<lparr>argv := [''DEL'', key]\<rparr>) (add_dirty 1 s3)));
                     Some (addReply c shared_cone s5) })
              else do {
                s3 \<leftarrow> setExpire i key when s2;
                s4 \<leftarrow> notifyKeyspaceEvent NOTIFY_GENERIC ''expire'' key i
                   (signalModifiedKey i key (addReply c shared_cone s3));
                Some (add_dirty 1 s4) } } })"

definition expireCommand :: "nat \<Rightarrow> 'z server \<Rightarrow> 'z server option" where
  "expireCommand c s = expireGenericCommand c (now s) True s"

definition expireatCommand :: "nat \<Rightarrow> 'z server \<Rightarrow> 'z server option" where
  "expireatCommand c s = expireGenericCommand c 0 True s"

definition pexpireCommand :: "nat \<Rightarrow> 'z server \<Rightarrow> 'z server option" where
  "pexpireCommand c s = expireGenericCommand c (now s) False s"

definition pexpireatCommand :: "nat \<Rightarrow> 'z server \<Rightarrow> 'z server option" where
  "pexpireatCommand c s = expireGenericCommand c 0 False s"

text \<open>Division in C truncates.\<close>

definition c_div :: "int \<Rightarrow> int \<Rightarrow> int" where
  "c_div a b = (if a < 0 then - ((- a) div b) else a div b)"

definition ttlGenericCommand :: "nat \<Rightarrow> bool \<Rightarrow> 'z server \<Rightarrow> 'z server option" where
  "ttlGenericCommand c output_ms s =
     (let i = cdb (clients s c); key = arg c 1 s in do {
        (s1, v) \<leftarrow> lookupKeyRead i key s;
        if v = None then Some (addReplyLongLong c (-2) s1)
        else do {
          expire \<leftarrow> getExpire i key s1;
          let ttl = (if expire \<noteq> -1 then max 0 (wrap_ll (expire - now s1)) else -1) in
          Some (if ttl = -1 then addReplyLongLong c (-1) s1
                else addReplyLongLong c (if output_ms then ttl else c_div (wrap_ll (ttl + 500)) 1000) s1) } })"

definition ttlCommand :: "nat \<Rightarrow> 'z server \<Rightarrow> 'z server option" where
  "ttlCommand c s = ttlGenericCommand c False s"

definition pttlCommand :: "nat \<Rightarrow> 'z server \<Rightarrow> 'z server option" where
  "pttlCommand c s = ttlGenericCommand c True s"

definition persistCommand :: "nat \<Rightarrow> 'z server \<Rightarrow> 'z server option" where
  "persistCommand c s =
     (let i = cdb (clients s c); key = arg c 1 s in
      if ddict (dbs s i) key = None then Some (addReply c shared_czero s)
      else do {
        (s1, b) \<leftarrow> removeExpire i key s;
        Some (if b then add_dirty 1 (addReply c shared_cone s1) else addReply c shared_czero s1) })"

end
