(* ===== verification/T_String.thy ===== *)
theory T_String
  imports Db
begin

text \<open>
  The commands on strings (\<open>t_string.c\<close>). A value is stored encoded as a number when its text is the
  notation of one. \<open>INCRBYFLOAT\<close>, which computes with \<open>long double\<close>, is not modelled.
\<close>

definition checkStringLength :: "nat \<Rightarrow> int \<Rightarrow> 'z server \<Rightarrow> 'z server \<times> bool" where
  "checkStringLength c sz s =
     (if sz > 512 * 1024 * 1024
      then (addReplyError c ''string exceeds maximum allowed size (512MB)'' s, False) else (s, True))"

record set_flags =
  set_nx :: bool
  set_xx :: bool

text \<open>\<open>expire\<close> is the argument with the time to live; \<open>cmd\<close> the name of the command.\<close>

definition setGenericCommand :: "nat \<Rightarrow> string \<Rightarrow> set_flags \<Rightarrow> string \<Rightarrow> 'z oval \<Rightarrow> string option \<Rightarrow> bool
    \<Rightarrow> string option \<Rightarrow> string option \<Rightarrow> 'z server \<Rightarrow> 'z server option" where
  "setGenericCommand c cmd fl key val expire seconds ok_reply abort_reply s =
     (let i = cdb (clients s c) in do {
        (s1, ms) \<leftarrow> (case expire of None \<Rightarrow> Some (s, Some 0)
          | Some e \<Rightarrow> do {
              (s', r) \<leftarrow> getLongLongFromObjectOrReply c (Some (StrRaw e :: 'z oval)) None s;
              Some (case r of None \<Rightarrow> (s', None)
                | Some v \<Rightarrow>
                    if v \<le> 0 then (addReplyErrorFormat c (''invalid expire time in '' @ cmd) s', None)
                    else (s', Some (if seconds then wrap_ll (v * 1000) else v))) });
        case ms of None \<Rightarrow> Some s1
        | Some milliseconds \<Rightarrow> do {
            (s2, busy) \<leftarrow> (if set_nx fl then map_option (apsnd (\<lambda>v. v \<noteq> None)) (lookupKeyWrite i key s1)
                          else Some (s1, False));
            (s3, missing) \<leftarrow> (if \<not> busy \<and> set_xx fl
                             then map_option (apsnd (\<lambda>v. v = None)) (lookupKeyWrite i key s2) else Some (s2, False));
            if busy \<or> missing then
              Some (addReply c (case abort_reply of None \<Rightarrow> shared_nullbulk | Some r \<Rightarrow> r) s3)
            else do {
              s4 \<leftarrow> setKey i key (createObject s3 val) s3;
              s5 \<leftarrow> (if expire \<noteq> None then setExpire i key (wrap_ll (now s4 + milliseconds)) (add_dirty 1 s4)
                    else Some (add_dirty 1 s4));
              s6 \<leftarrow> notifyKeyspaceEvent NOTIFY_STRING ''set'' key i s5;
              s7 \<leftarrow> (if expire \<noteq> None then notifyKeyspaceEvent NOTIFY_GENERIC ''expire'' key i s6 else Some s6);
              Some (addReply c (case ok_reply of None \<Rightarrow> shared_ok | Some r \<Rightarrow> r) s7) } } })"

text \<open>The options of \<open>SET\<close>, in any order; \<open>None\<close> is a syntax error.\<close>

fun set_options :: "string list \<Rightarrow> set_flags \<Rightarrow> string option \<Rightarrow> bool \<Rightarrow> (set_flags \<times> string option \<times> bool) option" where
  "set_options [] fl expire seconds = Some (fl, expire, seconds)"
| "set_options (a # rest) fl expire seconds =
     (if strcaseeq a ''nx'' then set_options rest (fl\<lparr>set_nx := True\<rparr>) expire seconds
      else if strcaseeq a ''xx'' then set_options rest (fl\<lparr>set_xx := True\<rparr>) expire seconds
      else case rest of
             [] \<Rightarrow> None
           | e # rest' \<Rightarrow>
               if strcaseeq a ''ex'' then set_options rest' fl (Some e) True
               else if strcaseeq a ''px'' then set_options rest' fl (Some e) False
               else None)"

definition no_flags :: set_flags where "no_flags = \<lparr>set_nx = False, set_xx = False\<rparr>"

definition setCommand :: "nat \<Rightarrow> 'z server \<Rightarrow> 'z server option" where
  "setCommand c s =
     (case set_options (args_from c 3 s) no_flags None True of
        None \<Rightarrow> Some (addReply c shared_syntaxerr s)
      | Some (fl, expire, seconds) \<Rightarrow>
          setGenericCommand c ''set'' fl (arg c 1 s) (tryObjectEncoding (arg c 2 s)) expire seconds None None s)"

definition setnxCommand :: "nat \<Rightarrow> 'z server \<Rightarrow> 'z server option" where
  "setnxCommand c s = setGenericCommand c ''setnx'' (no_flags\<lparr>set_nx := True\<rparr>) (arg c 1 s)
     (tryObjectEncoding (arg c 2 s)) None True (Some shared_cone) (Some shared_czero) s"

definition setexCommand :: "nat \<Rightarrow> 'z server \<Rightarrow> 'z server option" where
  "setexCommand c s = setGenericCommand c ''setex'' no_flags (arg c 1 s)
     (tryObjectEncoding (arg c 3 s)) (Some (arg c 2 s)) True None None s"

definition psetexCommand :: "nat \<Rightarrow> 'z server \<Rightarrow> 'z server option" where
  "psetexCommand c s = setGenericCommand c ''psetex'' no_flags (arg c 1 s)
     (tryObjectEncoding (arg c 3 s)) (Some (arg c 2 s)) False None None s"

definition getGenericCommand :: "nat \<Rightarrow> 'z server \<Rightarrow> ('z server \<times> bool) option" where
  "getGenericCommand c s = do {
     (s1, v) \<leftarrow> lookupKeyReadOrReply c (arg c 1 s) shared_nullbulk s;
     case v of None \<Rightarrow> Some (s1, True)
     | Some val \<Rightarrow>
         if otype (oval val) \<noteq> REDIS_STRING then Some (addReply c shared_wrongtypeerr s1, False)
         else do { s2 \<leftarrow> addReplyBulk c (oval val) s1; Some (s2, True) } }"

definition getCommand :: "nat \<Rightarrow> 'z server \<Rightarrow> 'z server option" where
  "getCommand c s = map_option fst (getGenericCommand c s)"

definition getsetCommand :: "nat \<Rightarrow> 'z server \<Rightarrow> 'z server option" where
  "getsetCommand c s =
     (let i = cdb (clients s c); key = arg c 1 s in do {
        (s1, ok) \<leftarrow> getGenericCommand c s;
        if \<not> ok then Some s1
        else do {
          s2 \<leftarrow> setKey i key (createObject s1 (tryObjectEncoding (arg c 2 s))) s1;
          s3 \<leftarrow> notifyKeyspaceEvent NOTIFY_STRING ''set'' key i s2;
          Some (add_dirty 1 s3) } })"

text \<open>\<open>sdsgrowzero\<close> and \<open>memcpy\<close> at an offset, on the contents.\<close>

definition overlay :: "string \<Rightarrow> nat \<Rightarrow> string \<Rightarrow> string" where
  "overlay x off v = take off (x @ replicate (off - length x) NUL) @ v @ drop (off + length v) x"

definition modify_value :: "nat \<Rightarrow> string \<Rightarrow> 'z oval \<Rightarrow> 'z server \<Rightarrow> 'z server" where
  "modify_value i key v s = set_ddict i key (map_option (\<lambda>x. x\<lparr>oval := v\<rparr>) (ddict (dbs s i) key)) s"

text \<open>
  The sum of offset and length is a \<open>size_t\<close> handed over as a \<open>long long\<close>. An allocation of \<open>2 ^ 63\<close>
  bytes or more fails, and \<open>zmalloc\<close> then aborts the program.
\<close>

definition setrange_write :: "nat \<Rightarrow> string \<Rightarrow> nat \<Rightarrow> string \<Rightarrow> string \<Rightarrow> nat \<Rightarrow> 'z server \<Rightarrow> 'z server option" where
  "setrange_write i key off value x c s =
     (if int off + int (length value) > LLONG_MAX then None
      else
        let x' = overlay x off value;
            s1 = signalModifiedKey i key (modify_value i key (StrRaw x') s)
        in do {
          s2 \<leftarrow> notifyKeyspaceEvent NOTIFY_STRING ''setrange'' key i s1;
          Some (addReplyLongLong c (int (length x')) (add_dirty 1 s2)) })"

definition setrange_missing :: "nat \<Rightarrow> nat \<Rightarrow> string \<Rightarrow> nat \<Rightarrow> int \<Rightarrow> string \<Rightarrow> 'z server \<Rightarrow> 'z server option" where
  "setrange_missing c i key off newlen value s2 =
     (if value = [] then Some (addReply c shared_czero s2)
      else (case checkStringLength c newlen s2 of
          (s3, False) \<Rightarrow> Some s3
        | (s3, True) \<Rightarrow> do {
            s4 \<leftarrow> dbAdd i key (createObject s3 (StrRaw [])) s3;
            setrange_write i key off value [] c s4 }))"

definition setrange_present :: "nat \<Rightarrow> nat \<Rightarrow> string \<Rightarrow> nat \<Rightarrow> int \<Rightarrow> string \<Rightarrow> 'z robj \<Rightarrow> 'z server \<Rightarrow> 'z server option" where
  "setrange_present c i key off newlen value val s2 =
     (case checkType c (oval val) REDIS_STRING s2 of
        (s3, True) \<Rightarrow> Some s3
      | (s3, False) \<Rightarrow> do {
          olen \<leftarrow> stringObjectLen (oval val);
          if value = [] then Some (addReplyLongLong c (int olen) s3)
          else (case checkStringLength c newlen s3 of
              (s4, False) \<Rightarrow> Some s4
            | (s4, True) \<Rightarrow> do {
                (s5, x) \<leftarrow> dbUnshareStringValue i key val s4;
                setrange_write i key off value x c s5 }) })"

definition setrangeCommand :: "nat \<Rightarrow> 'z server \<Rightarrow> 'z server option" where
  "setrangeCommand c s =
     (let i = cdb (clients s c); key = arg c 1 s; value = arg c 3 s in do {
        (s1, r) \<leftarrow> getLongFromObjectOrReply c (Some (StrRaw (arg c 2 s))) None s;
        case r of None \<Rightarrow> Some s1
        | Some offset \<Rightarrow>
            if offset < 0 then Some (addReplyError c ''offset is out of range'' s1)
            else do {
              (s2, v) \<leftarrow> lookupKeyWrite i key s1;
              let newlen = wrap_ll (offset + int (length value)) in
              (case v of
                 None \<Rightarrow> setrange_missing c i key (nat offset) newlen value s2
               | Some val \<Rightarrow> setrange_present c i key (nat offset) newlen value val s2) } })"

text \<open>The index arithmetic of \<open>GETRANGE\<close>: start and end, with \<open>len\<close> a \<open>size_t\<close>.\<close>

definition range_bounds :: "int \<Rightarrow> int \<Rightarrow> int \<Rightarrow> int \<times> int" where
  "range_bounds len start0 end0 =
     (let start = (if start0 < 0 then len + start0 else start0);
          end1 = (if end0 < 0 then len + end0 else end0);
          start = (if start < 0 then 0 else start);
          end1 = (if end1 < 0 then 0 else end1);
          end1 = (if end1 \<ge> len then len - 1 else end1)
      in (start, end1))"

definition getrangeCommand :: "nat \<Rightarrow> 'z server \<Rightarrow> 'z server option" where
  "getrangeCommand c s = do {
     (s1, r1) \<leftarrow> getLongLongFromObjectOrReply c (Some (StrRaw (arg c 2 s))) None s;
     case r1 of None \<Rightarrow> Some s1
     | Some start0 \<Rightarrow> do {
         (s2, r2) \<leftarrow> getLongLongFromObjectOrReply c (Some (StrRaw (arg c 3 s))) None s1;
         case r2 of None \<Rightarrow> Some s2
         | Some end0 \<Rightarrow> do {
             (s3, v) \<leftarrow> lookupKeyReadOrReply c (arg c 1 s) shared_emptybulk s2;
             case v of None \<Rightarrow> Some s3
             | Some val \<Rightarrow>
                 (case checkType c (oval val) REDIS_STRING s3 of
                    (s4, True) \<Rightarrow> Some s4
                  | (s4, False) \<Rightarrow> do {
                      str \<leftarrow> getDecodedObject (oval val);
                      let (start, end1) = range_bounds (int (length str)) start0 end0 in
                      Some (if start > end1 \<or> str = [] then addReply c shared_emptybulk s4
                        else addReplyBulkCBuffer c (take (nat (end1 - start + 1)) (drop (nat start) str)) s4) }) } } }"

fun mget_loop :: "nat \<Rightarrow> nat \<Rightarrow> string list \<Rightarrow> 'z server \<Rightarrow> 'z server option" where
  "mget_loop c i [] s = Some s"
| "mget_loop c i (key # keys) s = do {
     (s1, v) \<leftarrow> lookupKeyRead i key s;
     s2 \<leftarrow> (case v of None \<Rightarrow> Some (addReply c shared_nullbulk s1)
           | Some val \<Rightarrow> if otype (oval val) \<noteq> REDIS_STRING then Some (addReply c shared_nullbulk s1)
                        else addReplyBulk c (oval val) s1);
     mget_loop c i keys s2 }"

definition mgetCommand :: "nat \<Rightarrow> 'z server \<Rightarrow> 'z server option" where
  "mgetCommand c s = mget_loop c (cdb (clients s c)) (args_from c 1 s)
     (addReplyMultiBulkLen c (int (argc (clients s c)) - 1) s)"

fun arg_pairs :: "string list \<Rightarrow> (string \<times> string) list" where
  "arg_pairs (k # v # rest) = (k, v) # arg_pairs rest"
| "arg_pairs _ = []"

fun busy_loop :: "nat \<Rightarrow> string list \<Rightarrow> nat \<Rightarrow> 'z server \<Rightarrow> ('z server \<times> nat) option" where
  "busy_loop i [] busykeys s = Some (s, busykeys)"
| "busy_loop i (key # keys) busykeys s = do {
     (s1, v) \<leftarrow> lookupKeyWrite i key s;
     busy_loop i keys (if v \<noteq> None then busykeys + 1 else busykeys) s1 }"

fun mset_loop :: "nat \<Rightarrow> (string \<times> string) list \<Rightarrow> 'z server \<Rightarrow> 'z server option" where
  "mset_loop i [] s = Some s"
| "mset_loop i ((key, value) # kvs) s = do {
     s1 \<leftarrow> setKey i key (createObject s (tryObjectEncoding value)) s;
     s2 \<leftarrow> notifyKeyspaceEvent NOTIFY_STRING ''set'' key i s1;
     mset_loop i kvs s2 }"

definition msetGenericCommand :: "nat \<Rightarrow> bool \<Rightarrow> 'z server \<Rightarrow> 'z server option" where
  "msetGenericCommand c nx s =
     (let i = cdb (clients s c); n = argc (clients s c); kvs = arg_pairs (args_from c 1 s) in
      if even n then Some (addReplyError c ''wrong number of arguments for MSET'' s)
      else do {
        (s1, busykeys) \<leftarrow> (if nx then busy_loop i (map fst kvs) 0 s else Some (s, 0));
        if busykeys \<noteq> 0 then Some (addReply c shared_czero s1)
        else do {
          s2 \<leftarrow> mset_loop i kvs s1;
          Some (addReply c (if nx then shared_cone else shared_ok) (add_dirty (int ((n - 1) div 2)) s2)) } })"

definition msetCommand :: "nat \<Rightarrow> 'z server \<Rightarrow> 'z server option" where
  "msetCommand c s = msetGenericCommand c False s"

definition msetnxCommand :: "nat \<Rightarrow> 'z server \<Rightarrow> 'z server option" where
  "msetnxCommand c s = msetGenericCommand c True s"

definition incr_overflows :: "int \<Rightarrow> int \<Rightarrow> bool" where
  "incr_overflows oldvalue incr \<longleftrightarrow>
     (incr < 0 \<and> oldvalue < 0 \<and> incr < LLONG_MIN - oldvalue)
     \<or> (incr > 0 \<and> oldvalue > 0 \<and> incr > LLONG_MAX - oldvalue)"

definition incrDecrCommand :: "nat \<Rightarrow> int \<Rightarrow> 'z server \<Rightarrow> 'z server option" where
  "incrDecrCommand c incr s =
     (let i = cdb (clients s c); key = arg c 1 s in do {
        (s1, v) \<leftarrow> lookupKeyWrite i key s;
        (case (case v of None \<Rightarrow> (s1, False) | Some val \<Rightarrow> checkType c (oval val) REDIS_STRING s1) of
           (s2, True) \<Rightarrow> Some s2
         | (s2, False) \<Rightarrow> do {
             (s3, r) \<leftarrow> getLongLongFromObjectOrReply c (map_option oval v) None s2;
             case r of None \<Rightarrow> Some s3
             | Some oldvalue \<Rightarrow>
                 if incr_overflows oldvalue incr
                 then Some (addReplyError c ''increment or decrement would overflow'' s3)
                 else
                   let new = createStringObjectFromLongLong (wrap_ll (oldvalue + incr)) in do {
                     s4 \<leftarrow> (case v of Some _ \<Rightarrow> dbOverwrite i key (createObject s3 new) s3
                           | None \<Rightarrow> dbAdd i key (createObject s3 new) s3);
                     s5 \<leftarrow> notifyKeyspaceEvent NOTIFY_STRING ''incrby'' key i (signalModifiedKey i key s4);
                     s6 \<leftarrow> addReplyObj c new (addReply c '':'' (add_dirty 1 s5));
                     Some (addReply c CRLF s6) } }) })"

definition incrCommand :: "nat \<Rightarrow> 'z server \<Rightarrow> 'z server option" where
  "incrCommand c s = incrDecrCommand c 1 s"

definition decrCommand :: "nat \<Rightarrow> 'z server \<Rightarrow> 'z server option" where
  "decrCommand c s = incrDecrCommand c (-1) s"

definition incrbyCommand :: "nat \<Rightarrow> 'z server \<Rightarrow> 'z server option" where
  "incrbyCommand c s = do {
     (s1, r) \<leftarrow> getLongLongFromObjectOrReply c (Some (StrRaw (arg c 2 s))) None s;
     case r of None \<Rightarrow> Some s1 | Some incr \<Rightarrow> incrDecrCommand c incr s1 }"

definition decrbyCommand :: "nat \<Rightarrow> 'z server \<Rightarrow> 'z server option" where
  "decrbyCommand c s = do {
     (s1, r) \<leftarrow> getLongLongFromObjectOrReply c (Some (StrRaw (arg c 2 s))) None s;
     case r of None \<Rightarrow> Some s1 | Some incr \<Rightarrow> incrDecrCommand c (wrap_ll (- incr)) s1 }"

definition appendCommand :: "nat \<Rightarrow> 'z server \<Rightarrow> 'z server option" where
  "appendCommand c s =
     (let i = cdb (clients s c); key = arg c 1 s; app = arg c 2 s;
          finish = (\<lambda>totlen s4. do {
            s5 \<leftarrow> notifyKeyspaceEvent NOTIFY_STRING ''append'' key i (signalModifiedKey i key s4);
            Some (addReplyLongLong c (int totlen) (add_dirty 1 s5)) })
      in do {
        (s1, v) \<leftarrow> lookupKeyWrite i key s;
        case v of
          None \<Rightarrow> do {
            s2 \<leftarrow> dbAdd i key (createObject s1 (tryObjectEncoding app)) s1;
            totlen \<leftarrow> stringObjectLen (tryObjectEncoding app :: 'z oval);
            finish totlen s2 }
        | Some val \<Rightarrow>
            (case checkType c (oval val) REDIS_STRING s1 of
               (s2, True) \<Rightarrow> Some s2
             | (s2, False) \<Rightarrow> do {
                 olen \<leftarrow> stringObjectLen (oval val);
                 (case checkStringLength c (int (olen + length app)) s2 of
                    (s3, False) \<Rightarrow> Some s3
                  | (s3, True) \<Rightarrow> do {
                      (s4, x) \<leftarrow> dbUnshareStringValue i key val s3;
                      finish (length (x @ app)) (modify_value i key (StrRaw (x @ app)) s4) }) }) })"

definition strlenCommand :: "nat \<Rightarrow> 'z server \<Rightarrow> 'z server option" where
  "strlenCommand c s = do {
     (s1, v) \<leftarrow> lookupKeyReadOrReply c (arg c 1 s) shared_czero s;
     case v of None \<Rightarrow> Some s1
     | Some val \<Rightarrow>
         (case checkType c (oval val) REDIS_STRING s1 of
            (s2, True) \<Rightarrow> Some s2
          | (s2, False) \<Rightarrow> do { n \<leftarrow> stringObjectLen (oval val); Some (addReplyLongLong c (int n) s2) }) }"

end
