(* ===== verification/Command_Table.thy ===== *)
theory Command_Table
  imports T_String
begin

unbundle bit_operations_syntax

text \<open>
  The command table of \<open>redis.c\<close>, with the functions that look commands up and describe them, the
  extraction of the keys of a command line (\<open>db.c\<close>), and the small commands of \<open>redis.c\<close>. A handler is
  given by the name of its C function.
\<close>

subsection \<open>Commands\<close>

datatype getkeys = NoGetKeys | ZunionInterGetKeys

record command =
  cmd_name :: string
  proc :: string
  arity :: int
  sflags :: string
  getkeys_proc :: getkeys
  firstkey :: int
  lastkey :: int
  keystep :: int

definition cmd :: "string \<Rightarrow> string \<Rightarrow> int \<Rightarrow> string \<Rightarrow> getkeys \<Rightarrow> int \<Rightarrow> int \<Rightarrow> int \<Rightarrow> command" where
  "cmd n p a f g x y z = \<lparr>cmd_name = n, proc = p, arity = a, sflags = f, getkeys_proc = g,
     firstkey = x, lastkey = y, keystep = z\<rparr>"

definition redisCommandTable :: "command list" where
  "redisCommandTable = [
  cmd ''get'' ''getCommand'' 2 ''rF'' NoGetKeys 1 1 1,
  cmd ''set'' ''setCommand'' (-3) ''wm'' NoGetKeys 1 1 1,
  cmd ''setnx'' ''setnxCommand'' 3 ''wmF'' NoGetKeys 1 1 1,
  cmd ''setex'' ''setexCommand'' 4 ''wm'' NoGetKeys 1 1 1,
  cmd ''psetex'' ''psetexCommand'' 4 ''wm'' NoGetKeys 1 1 1,
  cmd ''append'' ''appendCommand'' 3 ''wm'' NoGetKeys 1 1 1,
  cmd ''strlen'' ''strlenCommand'' 2 ''rF'' NoGetKeys 1 1 1,
  cmd ''del'' ''delCommand'' (-2) ''w'' NoGetKeys 1 (-1) 1,
  cmd ''exists'' ''existsCommand'' 2 ''rF'' NoGetKeys 1 1 1,
  cmd ''setbit'' ''setbitCommand'' 4 ''wm'' NoGetKeys 1 1 1,
  cmd ''getbit'' ''getbitCommand'' 3 ''rF'' NoGetKeys 1 1 1,
  cmd ''setrange'' ''setrangeCommand'' 4 ''wm'' NoGetKeys 1 1 1,
  cmd ''getrange'' ''getrangeCommand'' 4 ''r'' NoGetKeys 1 1 1,
  cmd ''substr'' ''getrangeCommand'' 4 ''r'' NoGetKeys 1 1 1,
  cmd ''incr'' ''incrCommand'' 2 ''wmF'' NoGetKeys 1 1 1,
  cmd ''decr'' ''decrCommand'' 2 ''wmF'' NoGetKeys 1 1 1,
  cmd ''mget'' ''mgetCommand'' (-2) ''r'' NoGetKeys 1 (-1) 1,
  cmd ''rpush'' ''rpushCommand'' (-3) ''wmF'' NoGetKeys 1 1 1,
  cmd ''lpush'' ''lpushCommand'' (-3) ''wmF'' NoGetKeys 1 1 1,
  cmd ''rpushx'' ''rpushxCommand'' 3 ''wmF'' NoGetKeys 1 1 1,
  cmd ''lpushx'' ''lpushxCommand'' 3 ''wmF'' NoGetKeys 1 1 1,
  cmd ''linsert'' ''linsertCommand'' 5 ''wm'' NoGetKeys 1 1 1,
  cmd ''rpop'' ''rpopCommand'' 2 ''wF'' NoGetKeys 1 1 1,
  cmd ''lpop'' ''lpopCommand'' 2 ''wF'' NoGetKeys 1 1 1,
  cmd ''brpop'' ''brpopCommand'' (-3) ''ws'' NoGetKeys 1 1 1,
  cmd ''brpoplpush'' ''brpoplpushCommand'' 4 ''wms'' NoGetKeys 1 2 1,
  cmd ''blpop'' ''blpopCommand'' (-3) ''ws'' NoGetKeys 1 (-2) 1,
  cmd ''llen'' ''llenCommand'' 2 ''rF'' NoGetKeys 1 1 1,
  cmd ''lindex'' ''lindexCommand'' 3 ''r'' NoGetKeys 1 1 1,
  cmd ''lset'' ''lsetCommand'' 4 ''wm'' NoGetKeys 1 1 1,
  cmd ''lrange'' ''lrangeCommand'' 4 ''r'' NoGetKeys 1 1 1,
  cmd ''ltrim'' ''ltrimCommand'' 4 ''w'' NoGetKeys 1 1 1,
  cmd ''lrem'' ''lremCommand'' 4 ''w'' NoGetKeys 1 1 1,
  cmd ''rpoplpush'' ''rpoplpushCommand'' 3 ''wm'' NoGetKeys 1 2 1,
  cmd ''sadd'' ''saddCommand'' (-3) ''wmF'' NoGetKeys 1 1 1,
  cmd ''srem'' ''sremCommand'' (-3) ''wF'' NoGetKeys 1 1 1,
  cmd ''smove'' ''smoveCommand'' 4 ''wF'' NoGetKeys 1 2 1,
  cmd ''sismember'' ''sismemberCommand'' 3 ''rF'' NoGetKeys 1 1 1,
  cmd ''scard'' ''scardCommand'' 2 ''rF'' NoGetKeys 1 1 1,
  cmd ''spop'' ''spopCommand'' 2 ''wRsF'' NoGetKeys 1 1 1,
  cmd ''srandmember'' ''srandmemberCommand'' (-2) ''rR'' NoGetKeys 1 1 1,
  cmd ''sinter'' ''sinterCommand'' (-2) ''rS'' NoGetKeys 1 (-1) 1,
  cmd ''sinterstore'' ''sinterstoreCommand'' (-3) ''wm'' NoGetKeys 1 (-1) 1,
  cmd ''sunion'' ''sunionCommand'' (-2) ''rS'' NoGetKeys 1 (-1) 1,
  cmd ''sunionstore'' ''sunionstoreCommand'' (-3) ''wm'' NoGetKeys 1 (-1) 1,
  cmd ''sdiff'' ''sdiffCommand'' (-2) ''rS'' NoGetKeys 1 (-1) 1,
  cmd ''sdiffstore'' ''sdiffstoreCommand'' (-3) ''wm'' NoGetKeys 1 (-1) 1,
  cmd ''smembers'' ''sinterCommand'' 2 ''rS'' NoGetKeys 1 1 1,
  cmd ''sscan'' ''sscanCommand'' (-3) ''rR'' NoGetKeys 1 1 1,
  cmd ''zadd'' ''zaddCommand'' (-4) ''wmF'' NoGetKeys 1 1 1,
  cmd ''zincrby'' ''zincrbyCommand'' 4 ''wmF'' NoGetKeys 1 1 1,
  cmd ''zrem'' ''zremCommand'' (-3) ''wF'' NoGetKeys 1 1 1,
  cmd ''zremrangebyscore'' ''zremrangebyscoreCommand'' 4 ''w'' NoGetKeys 1 1 1,
  cmd ''zremrangebyrank'' ''zremrangebyrankCommand'' 4 ''w'' NoGetKeys 1 1 1,
  cmd ''zremrangebylex'' ''zremrangebylexCommand'' 4 ''w'' NoGetKeys 1 1 1,
  cmd ''zunionstore'' ''zunionstoreCommand'' (-4) ''wm'' ZunionInterGetKeys 0 0 0,
  cmd ''zinterstore'' ''zinterstoreCommand'' (-4) ''wm'' ZunionInterGetKeys 0 0 0,
  cmd ''zrange'' ''zrangeCommand'' (-4) ''r'' NoGetKeys 1 1 1,
  cmd ''zrangebyscore'' ''zrangebyscoreCommand'' (-4) ''r'' NoGetKeys 1 1 1,
  cmd ''zrevrangebyscore'' ''zrevrangebyscoreCommand'' (-4) ''r'' NoGetKeys 1 1 1,
  cmd ''zrangebylex'' ''zrangebylexCommand'' (-4) ''r'' NoGetKeys 1 1 1,
  cmd ''zrevrangebylex'' ''zrevrangebylexCommand'' (-4) ''r'' NoGetKeys 1 1 1,
  cmd ''zcount'' ''zcountCommand'' 4 ''rF'' NoGetKeys 1 1 1,
  cmd ''zlexcount'' ''zlexcountCommand'' 4 ''rF'' NoGetKeys 1 1 1,
  cmd ''zrevrange'' ''zrevrangeCommand'' (-4) ''r'' NoGetKeys 1 1 1,
  cmd ''zcard'' ''zcardCommand'' 2 ''rF'' NoGetKeys 1 1 1,
  cmd ''zscore'' ''zscoreCommand'' 3 ''rF'' NoGetKeys 1 1 1,
  cmd ''zrank'' ''zrankCommand'' 3 ''rF'' NoGetKeys 1 1 1,
  cmd ''zrevrank'' ''zrevrankCommand'' 3 ''rF'' NoGetKeys 1 1 1,
  cmd ''zscan'' ''zscanCommand'' (-3) ''rR'' NoGetKeys 1 1 1,
  cmd ''hset'' ''hsetCommand'' 4 ''wmF'' NoGetKeys 1 1 1,
  cmd ''hsetnx'' ''hsetnxCommand'' 4 ''wmF'' NoGetKeys 1 1 1,
  cmd ''hget'' ''hgetCommand'' 3 ''rF'' NoGetKeys 1 1 1,
  cmd ''hmset'' ''hmsetCommand'' (-4) ''wm'' NoGetKeys 1 1 1,
  cmd ''hmget'' ''hmgetCommand'' (-3) ''r'' NoGetKeys 1 1 1,
  cmd ''hincrby'' ''hincrbyCommand'' 4 ''wmF'' NoGetKeys 1 1 1,
  cmd ''hincrbyfloat'' ''hincrbyfloatCommand'' 4 ''wmF'' NoGetKeys 1 1 1,
  cmd ''hdel'' ''hdelCommand'' (-3) ''wF'' NoGetKeys 1 1 1,
  cmd ''hlen'' ''hlenCommand'' 2 ''rF'' NoGetKeys 1 1 1,
  cmd ''hkeys'' ''hkeysCommand'' 2 ''rS'' NoGetKeys 1 1 1,
  cmd ''hvals'' ''hvalsCommand'' 2 ''rS'' NoGetKeys 1 1 1,
  cmd ''hgetall'' ''hgetallCommand'' 2 ''r'' NoGetKeys 1 1 1,
  cmd ''hexists'' ''hexistsCommand'' 3 ''rF'' NoGetKeys 1 1 1,
  cmd ''hscan'' ''hscanCommand'' (-3) ''rR'' NoGetKeys 1 1 1,
  cmd ''incrby'' ''incrbyCommand'' 3 ''wmF'' NoGetKeys 1 1 1,
  cmd ''decrby'' ''decrbyCommand'' 3 ''wmF'' NoGetKeys 1 1 1,
  cmd ''incrbyfloat'' ''incrbyfloatCommand'' 3 ''wmF'' NoGetKeys 1 1 1,
  cmd ''getset'' ''getsetCommand'' 3 ''wm'' NoGetKeys 1 1 1,
  cmd ''mset'' ''msetCommand'' (-3) ''wm'' NoGetKeys 1 (-1) 2,
  cmd ''msetnx'' ''msetnxCommand'' (-3) ''wm'' NoGetKeys 1 (-1) 2,
  cmd ''randomkey'' ''randomkeyCommand'' 1 ''rR'' NoGetKeys 0 0 0,
  cmd ''select'' ''selectCommand'' 2 ''rlF'' NoGetKeys 0 0 0,
  cmd ''move'' ''moveCommand'' 3 ''wF'' NoGetKeys 1 1 1,
  cmd ''rename'' ''renameCommand'' 3 ''w'' NoGetKeys 1 2 1,
  cmd ''renamenx'' ''renamenxCommand'' 3 ''wF'' NoGetKeys 1 2 1,
  cmd ''expire'' ''expireCommand'' 3 ''wF'' NoGetKeys 1 1 1,
  cmd ''expireat'' ''expireatCommand'' 3 ''wF'' NoGetKeys 1 1 1,
  cmd ''pexpire'' ''pexpireCommand'' 3 ''wF'' NoGetKeys 1 1 1,
  cmd ''pexpireat'' ''pexpireatCommand'' 3 ''wF'' NoGetKeys 1 1 1,
  cmd ''keys'' ''keysCommand'' 2 ''rS'' NoGetKeys 0 0 0,
  cmd ''scan'' ''scanCommand'' (-2) ''rR'' NoGetKeys 0 0 0,
  cmd ''dbsize'' ''dbsizeCommand'' 1 ''rF'' NoGetKeys 0 0 0,
  cmd ''auth'' ''authCommand'' 2 ''rsltF'' NoGetKeys 0 0 0,
  cmd ''ping'' ''pingCommand'' (-1) ''rtF'' NoGetKeys 0 0 0,
  cmd ''echo'' ''echoCommand'' 2 ''rF'' NoGetKeys 0 0 0,
  cmd ''save'' ''saveCommand'' 1 ''ars'' NoGetKeys 0 0 0,
  cmd ''bgsave'' ''bgsaveCommand'' 1 ''ar'' NoGetKeys 0 0 0,
  cmd ''bgrewriteaof'' ''bgrewriteaofCommand'' 1 ''ar'' NoGetKeys 0 0 0,
  cmd ''shutdown'' ''shutdownCommand'' (-1) ''arlt'' NoGetKeys 0 0 0,
  cmd ''lastsave'' ''lastsaveCommand'' 1 ''rRF'' NoGetKeys 0 0 0,
  cmd ''type'' ''typeCommand'' 2 ''rF'' NoGetKeys 1 1 1,
  cmd ''multi'' ''multiCommand'' 1 ''rsF'' NoGetKeys 0 0 0,
  cmd ''exec'' ''execCommand'' 1 ''sM'' NoGetKeys 0 0 0,
  cmd ''discard'' ''discardCommand'' 1 ''rsF'' NoGetKeys 0 0 0,
  cmd ''sync'' ''syncCommand'' 1 ''ars'' NoGetKeys 0 0 0,
  cmd ''psync'' ''syncCommand'' 3 ''ars'' NoGetKeys 0 0 0,
  cmd ''replconf'' ''replconfCommand'' (-1) ''arslt'' NoGetKeys 0 0 0,
  cmd ''flushdb'' ''flushdbCommand'' 1 ''w'' NoGetKeys 0 0 0,
  cmd ''flushall'' ''flushallCommand'' 1 ''w'' NoGetKeys 0 0 0,
  cmd ''sort'' ''sortCommand'' (-2) ''wm'' NoGetKeys 1 1 1,
  cmd ''info'' ''infoCommand'' (-1) ''rlt'' NoGetKeys 0 0 0,
  cmd ''monitor'' ''monitorCommand'' 1 ''ars'' NoGetKeys 0 0 0,
  cmd ''ttl'' ''ttlCommand'' 2 ''rF'' NoGetKeys 1 1 1,
  cmd ''pttl'' ''pttlCommand'' 2 ''rF'' NoGetKeys 1 1 1,
  cmd ''persist'' ''persistCommand'' 2 ''wF'' NoGetKeys 1 1 1,
  cmd ''slaveof'' ''slaveofCommand'' 3 ''ast'' NoGetKeys 0 0 0,
  cmd ''role'' ''roleCommand'' 1 ''lst'' NoGetKeys 0 0 0,
  cmd ''debug'' ''debugCommand'' (-2) ''as'' NoGetKeys 0 0 0,
  cmd ''config'' ''configCommand'' (-2) ''art'' NoGetKeys 0 0 0,
  cmd ''subscribe'' ''subscribeCommand'' (-2) ''rpslt'' NoGetKeys 0 0 0,
  cmd ''unsubscribe'' ''unsubscribeCommand'' (-1) ''rpslt'' NoGetKeys 0 0 0,
  cmd ''psubscribe'' ''psubscribeCommand'' (-2) ''rpslt'' NoGetKeys 0 0 0,
  cmd ''punsubscribe'' ''punsubscribeCommand'' (-1) ''rpslt'' NoGetKeys 0 0 0,
  cmd ''publish'' ''publishCommand'' 3 ''pltrF'' NoGetKeys 0 0 0,
  cmd ''pubsub'' ''pubsubCommand'' (-2) ''pltrR'' NoGetKeys 0 0 0,
  cmd ''watch'' ''watchCommand'' (-2) ''rsF'' NoGetKeys 1 (-1) 1,
  cmd ''unwatch'' ''unwatchCommand'' 1 ''rsF'' NoGetKeys 0 0 0,
  cmd ''restore'' ''restoreCommand'' 4 ''wm'' NoGetKeys 1 1 1,
  cmd ''migrate'' ''migrateCommand'' 6 ''w'' NoGetKeys 0 0 0,
  cmd ''dump'' ''dumpCommand'' 2 ''r'' NoGetKeys 1 1 1,
  cmd ''object'' ''objectCommand'' 3 ''r'' NoGetKeys 2 2 2,
  cmd ''client'' ''clientCommand'' (-2) ''rs'' NoGetKeys 0 0 0,
  cmd ''eval'' ''evalCommand'' (-3) ''s'' ZunionInterGetKeys 0 0 0,
  cmd ''evalsha'' ''evalShaCommand'' (-3) ''s'' ZunionInterGetKeys 0 0 0,
  cmd ''slowlog'' ''slowlogCommand'' (-2) ''r'' NoGetKeys 0 0 0,
  cmd ''script'' ''scriptCommand'' (-2) ''rs'' NoGetKeys 0 0 0,
  cmd ''time'' ''timeCommand'' 1 ''rRF'' NoGetKeys 0 0 0,
  cmd ''bitop'' ''bitopCommand'' (-4) ''wm'' NoGetKeys 2 (-1) 1,
  cmd ''bitcount'' ''bitcountCommand'' (-2) ''r'' NoGetKeys 1 1 1,
  cmd ''bitpos'' ''bitposCommand'' (-3) ''r'' NoGetKeys 1 1 1,
  cmd ''command'' ''commandCommand'' 0 ''rlt'' NoGetKeys 0 0 0,
  cmd ''pfselftest'' ''pfselftestCommand'' 1 ''r'' NoGetKeys 0 0 0,
  cmd ''pfadd'' ''pfaddCommand'' (-2) ''wmF'' NoGetKeys 1 1 1,
  cmd ''pfcount'' ''pfcountCommand'' (-2) ''r'' NoGetKeys 1 1 1,
  cmd ''pfmerge'' ''pfmergeCommand'' (-2) ''wm'' NoGetKeys 1 (-1) 1,
  cmd ''pfdebug'' ''pfdebugCommand'' (-3) ''w'' NoGetKeys 0 0 0,
  cmd ''latency'' ''latencyCommand'' (-2) ''arslt'' NoGetKeys 0 0 0]"

text \<open>The flags of a row, computed by \<open>populateCommandTable\<close>; an unknown character is a panic.\<close>

definition REDIS_CMD_WRITE :: int where "REDIS_CMD_WRITE = 1"
definition REDIS_CMD_READONLY :: int where "REDIS_CMD_READONLY = 2"
definition REDIS_CMD_DENYOOM :: int where "REDIS_CMD_DENYOOM = 4"
definition REDIS_CMD_ADMIN :: int where "REDIS_CMD_ADMIN = 16"
definition REDIS_CMD_PUBSUB :: int where "REDIS_CMD_PUBSUB = 32"
definition REDIS_CMD_NOSCRIPT :: int where "REDIS_CMD_NOSCRIPT = 64"
definition REDIS_CMD_RANDOM :: int where "REDIS_CMD_RANDOM = 128"
definition REDIS_CMD_SORT_FOR_SCRIPT :: int where "REDIS_CMD_SORT_FOR_SCRIPT = 256"
definition REDIS_CMD_LOADING :: int where "REDIS_CMD_LOADING = 512"
definition REDIS_CMD_STALE :: int where "REDIS_CMD_STALE = 1024"
definition REDIS_CMD_SKIP_MONITOR :: int where "REDIS_CMD_SKIP_MONITOR = 2048"
definition REDIS_CMD_FAST :: int where "REDIS_CMD_FAST = 8192"

definition command_flag :: "char \<Rightarrow> int option" where
  "command_flag f =
     (if f = CHR ''w'' then Some REDIS_CMD_WRITE
      else if f = CHR ''r'' then Some REDIS_CMD_READONLY
      else if f = CHR ''m'' then Some REDIS_CMD_DENYOOM
      else if f = CHR ''a'' then Some REDIS_CMD_ADMIN
      else if f = CHR ''p'' then Some REDIS_CMD_PUBSUB
      else if f = CHR ''s'' then Some REDIS_CMD_NOSCRIPT
      else if f = CHR ''R'' then Some REDIS_CMD_RANDOM
      else if f = CHR ''S'' then Some REDIS_CMD_SORT_FOR_SCRIPT
      else if f = CHR ''l'' then Some REDIS_CMD_LOADING
      else if f = CHR ''t'' then Some REDIS_CMD_STALE
      else if f = CHR ''M'' then Some REDIS_CMD_SKIP_MONITOR
      else if f = CHR ''F'' then Some REDIS_CMD_FAST
      else None)"

fun command_flags :: "string \<Rightarrow> int \<Rightarrow> int option" where
  "command_flags [] flags = Some flags"
| "command_flags (f # fs) flags = do { b \<leftarrow> command_flag f; command_flags fs (flags OR b) }"

definition flags_of :: "command \<Rightarrow> int" where
  "flags_of c = (case command_flags (sflags c) 0 of None \<Rightarrow> 0 | Some f \<Rightarrow> f)"

definition has_flag :: "command \<Rightarrow> int \<Rightarrow> bool" where
  "has_flag c f \<longleftrightarrow> flags_of c AND f \<noteq> 0"

text \<open>
  The dictionary of commands compares names without regard to case; \<open>populateCommandTable\<close> fails on a
  name that is there already.
\<close>

definition lookupCommand :: "command list \<Rightarrow> string \<Rightarrow> command option" where
  "lookupCommand cs name = find (\<lambda>c. strcaseeq (cmd_name c) name) cs"

fun populateCommandTable :: "command list \<Rightarrow> command list \<Rightarrow> command list option" where
  "populateCommandTable [] commands = Some commands"
| "populateCommandTable (c # cs) commands = do {
     f \<leftarrow> command_flags (sflags c) 0;
     if lookupCommand commands (cmd_name c) \<noteq> None then None
     else populateCommandTable cs (commands @ [c]) }"

subsection \<open>COMMAND\<close>

definition addReplyCommandFlag :: "nat \<Rightarrow> command \<Rightarrow> int \<times> string \<Rightarrow> 'z server \<Rightarrow> 'z server \<times> int" where
  "addReplyCommandFlag c x fr s = (case fr of (f, rep) \<Rightarrow>
     if has_flag x f then (addReplyStatus c rep s, 1) else (s, 0))"

definition flag_names :: "(int \<times> string) list" where
  "flag_names = [(REDIS_CMD_WRITE, ''write''), (REDIS_CMD_READONLY, ''readonly''), (REDIS_CMD_DENYOOM, ''denyoom''),
     (REDIS_CMD_ADMIN, ''admin''), (REDIS_CMD_PUBSUB, ''pubsub''), (REDIS_CMD_NOSCRIPT, ''noscript''),
     (REDIS_CMD_RANDOM, ''random''), (REDIS_CMD_SORT_FOR_SCRIPT, ''sort_for_script''), (REDIS_CMD_LOADING, ''loading''),
     (REDIS_CMD_STALE, ''stale''), (REDIS_CMD_SKIP_MONITOR, ''skip_monitor''), (REDIS_CMD_FAST, ''fast'')]"

fun reply_flags :: "nat \<Rightarrow> command \<Rightarrow> (int \<times> string) list \<Rightarrow> int \<Rightarrow> 'z server \<Rightarrow> 'z server \<times> int" where
  "reply_flags c x [] n s = (s, n)"
| "reply_flags c x (fr # frs) n s = (case addReplyCommandFlag c x fr s of (s1, k) \<Rightarrow> reply_flags c x frs (n + k) s1)"

definition addReplyCommand :: "nat \<Rightarrow> command option \<Rightarrow> 'z server \<Rightarrow> 'z server" where
  "addReplyCommand c x s = (case x of None \<Rightarrow> addReply c shared_nullbulk s
     | Some r \<Rightarrow>
         let s1 = addReplyLongLong c (arity r) (addReplyBulkCString c (Some (cmd_name r)) (addReplyMultiBulkLen c 6 s));
             flaglen = addDeferredMultiBulkLength c s1;
             (s2, n) = reply_flags c r flag_names 0 s1;
             (s3, n) = (if getkeys_proc r \<noteq> NoGetKeys then (addReplyStatus c ''movablekeys'' s2, n + 1) else (s2, n));
             s4 = setDeferredMultiBulkLength c flaglen n s3
         in addReplyLongLong c (keystep r) (addReplyLongLong c (lastkey r) (addReplyLongLong c (firstkey r) s4)))"

text \<open>\<open>cs\<close> is the dictionary of commands in the order of its iterator.\<close>

definition commandCommand :: "command list \<Rightarrow> nat \<Rightarrow> 'z server \<Rightarrow> 'z server" where
  "commandCommand cs c s =
     (let n = argc (clients s c) in
      if n = 1 then fold (\<lambda>r. addReplyCommand c (Some r)) cs (addReplyMultiBulkLen c (int (length cs)) s)
      else if strcaseeq (arg c 1 s) ''info'' then
        fold (\<lambda>name. addReplyCommand c (lookupCommand cs name)) (args_from c 2 s) (addReplyMultiBulkLen c (int n - 2) s)
      else if strcaseeq (arg c 1 s) ''count'' \<and> n = 2 then addReplyLongLong c (int (length cs)) s
      else addReplyError c ''Unknown subcommand or wrong number of arguments.'' s)"

subsection \<open>Keys of a command line\<close>

text \<open>The positions \<open>j, j + step, ...\<close> up to \<open>last\<close>; a position past the arguments is a failed assertion.\<close>

fun key_positions :: "nat \<Rightarrow> int \<Rightarrow> int \<Rightarrow> int \<Rightarrow> int \<Rightarrow> int list option" where
  "key_positions 0 j lim step ac = None"
| "key_positions (Suc n) j lim step ac =
     (if j > lim then Some []
      else if j \<ge> ac then None
      else do { ks \<leftarrow> key_positions n (j + step) lim step ac; Some (j # ks) })"

definition getKeysUsingCommandTable :: "command \<Rightarrow> nat \<Rightarrow> int list option" where
  "getKeysUsingCommandTable r ac =
     (if firstkey r = 0 then Some []
      else
        let lim = (if lastkey r < 0 then int ac + lastkey r else lastkey r)
        in key_positions (nat (lim - firstkey r) + 2) (firstkey r) lim (keystep r) (int ac))"

text \<open>\<open>atoi\<close>: a \<open>long\<close> cut to 32 bits.\<close>

definition wrap_int :: "int \<Rightarrow> int" where
  "wrap_int x = (x + 2147483648) mod 4294967296 - 2147483648"

definition atoi :: "string \<Rightarrow> int" where
  "atoi x = wrap_int (fst (strtoll (cstr x)))"

text \<open>\<open>zmalloc\<close> of a negative number of integers asks for more than there is, and aborts the program.\<close>

definition zunionInterGetKeys :: "string list \<Rightarrow> int list option" where
  "zunionInterGetKeys args =
     (let num = atoi (args ! 2) in
      if num > int (length args) - 3 then Some []
      else if num < 0 then None
      else Some (map (\<lambda>i. 3 + int i) [0..<nat num]))"

definition getKeysFromCommand :: "command \<Rightarrow> string list \<Rightarrow> int list option" where
  "getKeysFromCommand r args =
     (if getkeys_proc r = ZunionInterGetKeys then zunionInterGetKeys args else getKeysUsingCommandTable r (length args))"

subsection \<open>Small commands\<close>

definition shared_pong :: string where "shared_pong = ''+PONG'' @ CRLF"

definition pingCommand :: "nat \<Rightarrow> 'z server \<Rightarrow> 'z server option" where
  "pingCommand c s =
     (let n = argc (clients s c) in
      if n > 2 then Some (addReplyErrorFormat c (''wrong number of arguments for '' @ [CHR 0x27] @ ''ping'' @ [CHR 0x27] @ '' command'') s)
      else if pubsub_flag (clients s c) then
        let s1 = addReplyBulkCBuffer c ''pong'' (addReply c (shared_mbulkhdr 2) s)
        in if n = 1 then Some (addReplyBulkCBuffer c [] s1) else addReplyBulk c (StrRaw (arg c 1 s)) s1
      else if n = 1 then Some (addReply c shared_pong s)
      else addReplyBulk c (StrRaw (arg c 1 s)) s)"

definition echoCommand :: "nat \<Rightarrow> 'z server \<Rightarrow> 'z server option" where
  "echoCommand c s = addReplyBulk c (StrRaw (arg c 1 s)) s"

text \<open>The password comparison: every byte of two buffers of fixed length, whatever the strings.\<close>

definition REDIS_AUTHPASS_MAX_LEN :: nat where "REDIS_AUTHPASS_MAX_LEN = 512"

definition pad_buffer :: "string \<Rightarrow> string" where
  "pad_buffer x = x @ replicate (REDIS_AUTHPASS_MAX_LEN - length x) NUL"

definition time_independent_strcmp :: "string \<Rightarrow> string \<Rightarrow> int" where
  "time_independent_strcmp a b =
     (let alen = length (cstr a); blen = length (cstr b) in
      if alen > REDIS_AUTHPASS_MAX_LEN \<or> blen > REDIS_AUTHPASS_MAX_LEN then 1
      else
        let diff = fold (\<lambda>(x, y) diff. diff OR (int (uchar x) XOR int (uchar y)))
              (zip (pad_buffer (cstr a)) (pad_buffer (cstr b))) 0
        in diff OR (int alen XOR int blen))"

end
