(* ===== verification/Table_Correct.thy ===== *)
theory Table_Correct
  imports Command_Table
begin

unbundle bit_operations_syntax

declare One_nat_def [simp del]

text \<open>
  The command table: it can be built, and the positions of keys it describes are arguments of every command
  line of an accepted length. The comparison of passwords decides equality.
\<close>

subsection \<open>Key positions\<close>

lemma key_positions_ok:
  "1 \<le> j \<Longrightarrow> 1 \<le> step \<Longrightarrow> lim < ac \<Longrightarrow> lim - j + 1 < int n \<Longrightarrow> 0 < n \<Longrightarrow>
    \<exists>ks. key_positions n j lim step ac = Some ks \<and> (\<forall>k \<in> set ks. j \<le> k \<and> k \<le> lim) \<and> sorted_wrt (<) ks
      \<and> (j \<le> lim \<longrightarrow> ks \<noteq> [] \<and> hd ks = j)"
proof (induction n arbitrary: j)
  case (Suc n)
  show ?case
  proof (cases "j > lim")
    case False
    have "lim - (j + step) + 1 < int n" "0 < n" using Suc.prems False by auto
    then obtain ks where ks: "key_positions n (j + step) lim step ac = Some ks" "\<forall>k \<in> set ks. j + step \<le> k \<and> k \<le> lim" "sorted_wrt (<) ks"
      using Suc.IH [of "j + step"] Suc.prems by auto
    have "\<forall>k \<in> set ks. j < k \<and> k \<le> lim" using ks(2) Suc.prems(2) by force
    then show ?thesis using ks(1,3) False Suc.prems(3) by auto
  qed simp
qed auto

text \<open>The smallest number of arguments that the arity of a command allows.\<close>

definition min_args :: "command \<Rightarrow> int" where
  "min_args r = (if arity r > 0 then arity r else - arity r)"

definition keys_row_ok :: "command \<Rightarrow> bool" where
  "keys_row_ok r \<longleftrightarrow> firstkey r = 0 \<or> (1 \<le> firstkey r \<and> 1 \<le> keystep r \<and> lastkey r < min_args r)"

definition arity_ok :: "command \<Rightarrow> nat \<Rightarrow> bool" where
  "arity_ok r n \<longleftrightarrow> \<not> (arity r > 0 \<and> arity r \<noteq> int n \<or> int n < - arity r)"

lemma arity_min: "arity_ok r n \<Longrightarrow> min_args r \<le> int n"
  by (auto simp: arity_ok_def min_args_def)

lemma keys_rows: "list_all (\<lambda>r. keys_row_ok r) redisCommandTable"
  by code_simp

text \<open>C17: the assertion on key positions cannot fail: for every command of the table and every number of arguments that its
  arity allows, the positions computed from its row are arguments of the command line, in ascending order and beginning with
  the first key.\<close>
theorem key_positions_in_range:
  assumes "r \<in> set redisCommandTable" "arity_ok r n"
  shows "\<exists>ks. getKeysUsingCommandTable r n = Some ks \<and> (\<forall>k \<in> set ks. 1 \<le> k \<and> k < int n) \<and> sorted_wrt (<) ks
    \<and> (ks \<noteq> [] \<longrightarrow> hd ks = firstkey r)"
proof (cases "firstkey r = 0")
  case True
  then show ?thesis by (simp add: getKeysUsingCommandTable_def)
next
  case False
  define lim where "lim = (if lastkey r < 0 then int n + lastkey r else lastkey r)"
  have row: "1 \<le> firstkey r" "1 \<le> keystep r" "lastkey r < min_args r"
    using keys_rows assms(1) False by (auto simp: list_all_iff keys_row_ok_def)
  then have lim: "lim < int n" using arity_min [OF assms(2)] by (simp add: lim_def)
  have "lim - firstkey r + 1 < int (nat (lim - firstkey r) + 2)" "0 < nat (lim - firstkey r) + 2" by linarith+
  from key_positions_ok [OF row(1,2) lim this] obtain ks where ks:
    "key_positions (nat (lim - firstkey r) + 2) (firstkey r) lim (keystep r) (int n) = Some ks"
    "\<forall>k \<in> set ks. firstkey r \<le> k \<and> k \<le> lim" "sorted_wrt (<) ks" "firstkey r \<le> lim \<longrightarrow> ks \<noteq> [] \<and> hd ks = firstkey r" by blast
  moreover have "ks \<noteq> [] \<Longrightarrow> firstkey r \<le> lim" using ks(2) by (cases ks) auto
  ultimately show ?thesis
    using False lim row(1) unfolding getKeysUsingCommandTable_def lim_def [symmetric] by (auto simp: Let_def)
qed

theorem key_positions_in_range_witness:
  "\<exists>ks. getKeysUsingCommandTable (cmd ''mset'' ''msetCommand'' (-3) ''wm'' NoGetKeys 1 (-1) 2) 7 = Some ks \<and> (\<forall>k \<in> set ks. 1 \<le> k \<and> k < 7)"
proof -
  have r: "cmd ''mset'' ''msetCommand'' (-3) ''wm'' NoGetKeys 1 (-1) 2 \<in> set redisCommandTable"
    by (simp add: redisCommandTable_def)
  show ?thesis using key_positions_in_range [OF r, of 7] by (auto simp: arity_ok_def cmd_def)
qed

subsection \<open>Passwords\<close>

lemma or_zero: "a OR b = (0 :: int) \<longleftrightarrow> a = 0 \<and> b = 0"
  by (metis or_eq_0_iff)

lemma xor_zero: "a XOR b = (0 :: int) \<longleftrightarrow> a = b"
  by (metis xor.assoc xor.left_neutral xor.right_neutral xor_self_eq)

lemma fold_diff:
  "fold (\<lambda>(x, y) diff. diff OR (int (uchar x) XOR int (uchar y))) ps d = 0 \<longleftrightarrow> d = 0 \<and> (\<forall>(x, y) \<in> set ps. x = y)"
proof (induction ps arbitrary: d)
  case (Cons p ps)
  have "int (uchar x) XOR int (uchar y) = 0 \<longleftrightarrow> x = y" for x y
    by (simp add: xor_zero uchar_def)
  then show ?case using Cons by (cases p) (simp add: or_zero)
qed simp

lemma pad_length: "length x \<le> REDIS_AUTHPASS_MAX_LEN \<Longrightarrow> length (pad_buffer x) = REDIS_AUTHPASS_MAX_LEN"
  by (simp add: pad_buffer_def)

lemma pad_inj: "length x = length y \<Longrightarrow> pad_buffer x = pad_buffer y \<longleftrightarrow> x = y"
  by (simp add: pad_buffer_def)

text \<open>The comparison of passwords, which looks at every byte of two buffers of fixed length whatever the arguments, returns 0 exactly
  when the two C strings are equal, if both fit the buffers; longer strings are never equal to anything.\<close>
theorem time_independent_strcmp_correct:
  "time_independent_strcmp a b = 0 \<longleftrightarrow> cstr a = cstr b \<and> length (cstr a) \<le> REDIS_AUTHPASS_MAX_LEN"
proof (cases "length (cstr a) > REDIS_AUTHPASS_MAX_LEN \<or> length (cstr b) > REDIS_AUTHPASS_MAX_LEN")
  case True
  then show ?thesis by (auto simp: time_independent_strcmp_def Let_def)
next
  case False
  then have l: "length (pad_buffer (cstr a)) = length (pad_buffer (cstr b))" by (simp add: pad_length)
  have "time_independent_strcmp a b = 0
      \<longleftrightarrow> (\<forall>(x, y) \<in> set (zip (pad_buffer (cstr a)) (pad_buffer (cstr b))). x = y) \<and> length (cstr a) = length (cstr b)"
    using False by (simp add: time_independent_strcmp_def Let_def or_zero fold_diff xor_zero)
  also have "\<dots> \<longleftrightarrow> pad_buffer (cstr a) = pad_buffer (cstr b) \<and> length (cstr a) = length (cstr b)"
    using l by (auto simp: list_eq_iff_zip_eq)
  also have "\<dots> \<longleftrightarrow> cstr a = cstr b" using pad_inj by auto
  finally show ?thesis using False by auto
qed

end
