(* ===== verification/Db_Basics.thy ===== *)
theory Db_Basics
  imports Db Pubsub_Correct
begin

unbundle bit_operations_syntax

text \<open>
  The primitives of the keyspace as total transformers of the state, and what can be observed of
  the state after each. The abstract keyspace \<open>live\<close> is what a client of a master can see: a key whose time
  has passed is not there, whether or not it has been deleted yet.
\<close>

named_theorems frames "fields that a transformer leaves alone"

subsection \<open>Frames\<close>

lemma upd_client_frame [frames, simp]:
  "dbs (upd_client c f s) = dbs s" "dbnum (upd_client c f s) = dbnum s" "client_list (upd_client c f s) = client_list s"
  "dirty (upd_client c f s) = dirty s" "lruclock (upd_client c f s) = lruclock s"
  "child_active (upd_client c f s) = child_active s" "loading (upd_client c f s) = loading s"
  "is_slave (upd_client c f s) = is_slave s" "lua_time (upd_client c f s) = lua_time s" "now (upd_client c f s) = now s"
  "aof_on (upd_client c f s) = aof_on s" "notify_flags (upd_client c f s) = notify_flags s"
  "order (upd_client c f s) = order s" "aof_log (upd_client c f s) = aof_log s" "slave_log (upd_client c f s) = slave_log s"
  "pubsub_channels (upd_client c f s) = pubsub_channels s" "pubsub_patterns (upd_client c f s) = pubsub_patterns s"
  "srv_ready_keys (upd_client c f s) = srv_ready_keys s" "limits (upd_client c f s) = limits s"
  by (simp_all add: upd_client_def)

lemma upd_db_frame [frames, simp]:
  "clients (upd_db i f s) = clients s" "dbnum (upd_db i f s) = dbnum s" "client_list (upd_db i f s) = client_list s"
  "dirty (upd_db i f s) = dirty s" "lruclock (upd_db i f s) = lruclock s"
  "child_active (upd_db i f s) = child_active s" "loading (upd_db i f s) = loading s"
  "is_slave (upd_db i f s) = is_slave s" "lua_time (upd_db i f s) = lua_time s" "now (upd_db i f s) = now s"
  "aof_on (upd_db i f s) = aof_on s" "notify_flags (upd_db i f s) = notify_flags s"
  "order (upd_db i f s) = order s" "aof_log (upd_db i f s) = aof_log s" "slave_log (upd_db i f s) = slave_log s"
  "pubsub_channels (upd_db i f s) = pubsub_channels s" "pubsub_patterns (upd_db i f s) = pubsub_patterns s"
  "srv_ready_keys (upd_db i f s) = srv_ready_keys s" "limits (upd_db i f s) = limits s"
  by (simp_all add: upd_db_def)

lemma upd_db_dbs: "dbs (upd_db i f s) j = (if j = i then f (dbs s i) else dbs s j)"
  by (simp add: upd_db_def)

text \<open>
  Everything a command leaves alone, but for the databases, the counters, the logs, and of each client the
  output, the arguments and the mark of a touched watch.
\<close>

definition core :: "client \<Rightarrow> client" where
  "core cl = cl\<lparr>reply := [], argv := [], dirty_cas := False\<rparr>"

text \<open>No client waits for a list.\<close>

definition no_blocked :: "'z server \<Rightarrow> bool" where
  "no_blocked s \<longleftrightarrow> (\<forall>i k. blocking_keys (dbs s i) k = None)"

definition same_conf :: "'z server \<Rightarrow> 'z server \<Rightarrow> bool" where
  "same_conf s s' \<longleftrightarrow> dbnum s' = dbnum s \<and> client_list s' = client_list s \<and> lruclock s' = lruclock s
     \<and> child_active s' = child_active s \<and> loading s' = loading s \<and> is_slave s' = is_slave s
     \<and> lua_time s' = lua_time s \<and> now s' = now s \<and> aof_on s' = aof_on s \<and> notify_flags s' = notify_flags s
     \<and> order s' = order s \<and> limits s' = limits s \<and> pubsub_channels s' = pubsub_channels s \<and> pubsub_patterns s' = pubsub_patterns s
     \<and> (\<forall>i. watched_keys (dbs s' i) = watched_keys (dbs s i) \<and> blocking_keys (dbs s' i) = blocking_keys (dbs s i))
     \<and> (no_blocked s \<longrightarrow> srv_ready_keys s' = srv_ready_keys s)
     \<and> (\<forall>c. core (clients s' c) = core (clients s c) \<and> (dirty_cas (clients s c) \<longrightarrow> dirty_cas (clients s' c)))"

lemma same_conf_refl [simp]: "same_conf s s"
  by (simp add: same_conf_def)

lemma same_conf_trans [trans]: "same_conf s s' \<Longrightarrow> same_conf s' s'' \<Longrightarrow> same_conf s s''"
  by (simp add: same_conf_def no_blocked_def)

lemma same_conf_idle: "same_conf s s' \<Longrightarrow> no_blocked s' = no_blocked s \<and> (no_blocked s \<longrightarrow> srv_ready_keys s' = srv_ready_keys s)"
  by (simp add: same_conf_def no_blocked_def)

lemma core_fields:
  "core cl' = core cl \<Longrightarrow> cdb cl' = cdb cl \<and> writable cl' = writable cl \<and> prepareClientToWrite cl' = prepareClientToWrite cl
     \<and> multi cl' = multi cl \<and> channels cl' = channels cl \<and> patterns cl' = patterns cl \<and> mstate cl' = mstate cl
     \<and> cwatched cl' = cwatched cl \<and> dirty_exec cl' = dirty_exec cl \<and> force_repl cl' = force_repl cl \<and> force_aof cl' = force_aof cl
     \<and> lua_client cl' = lua_client cl \<and> pubsub_flag cl' = pubsub_flag cl \<and> master_link cl' = master_link cl
     \<and> close_after_reply cl' = close_after_reply cl"
  by (cases cl, cases cl') (simp add: core_def writable_def prepareClientToWrite_def)

lemma core_upd [simp]:
  "core (cl\<lparr>reply := r\<rparr>) = core cl" "core (cl\<lparr>argv := a\<rparr>) = core cl" "core (cl\<lparr>dirty_cas := d\<rparr>) = core cl"
  by (simp_all add: core_def)

lemma same_conf_client:
  assumes "same_conf s s'"
  shows "cdb (clients s' c) = cdb (clients s c)" "writable (clients s' c) = writable (clients s c)"
    "prepareClientToWrite (clients s' c) = prepareClientToWrite (clients s c)" "multi (clients s' c) = multi (clients s c)"
    "channels (clients s' c) = channels (clients s c)" "patterns (clients s' c) = patterns (clients s c)"
    "mstate (clients s' c) = mstate (clients s c)" "cwatched (clients s' c) = cwatched (clients s c)"
    "dirty_exec (clients s' c) = dirty_exec (clients s c)" "pubsub_flag (clients s' c) = pubsub_flag (clients s c)"
    "force_repl (clients s' c) = force_repl (clients s c)" "force_aof (clients s' c) = force_aof (clients s c)"
  using assms core_fields [of "clients s' c" "clients s c"] unfolding same_conf_def by simp_all

lemma published_cong:
  "pubsub_channels s' = pubsub_channels s \<Longrightarrow> pubsub_patterns s' = pubsub_patterns s \<Longrightarrow> published s' = published s"
  by (simp add: published_def subscribers_def fun_eq_iff)

lemma notified_cong:
  "pubsub_channels s' = pubsub_channels s \<Longrightarrow> pubsub_patterns s' = pubsub_patterns s \<Longrightarrow> notify_flags s' = notify_flags s
     \<Longrightarrow> notified s' = notified s"
  using published_cong [of s' s] by (simp add: notified_def fun_eq_iff)

lemma same_conf_fields:
  assumes "same_conf s s'"
  shows "dbnum s' = dbnum s" "loading s' = loading s" "is_slave s' = is_slave s" "lua_time s' = lua_time s" "now s' = now s"
    "notify_flags s' = notify_flags s" "order s' = order s" "lruclock s' = lruclock s" "aof_on s' = aof_on s"
    "child_active s' = child_active s" "pubsub_patterns s' = pubsub_patterns s" "published s' = published s"
    "notified s' = notified s" "watched_keys (dbs s' i) = watched_keys (dbs s i)" "limits s' = limits s"
proof -
  show "published s' = published s" "notified s' = notified s"
    using published_cong [of s' s] notified_cong [of s' s] assms unfolding same_conf_def by blast+
qed (use assms in \<open>simp_all add: same_conf_def\<close>)

text \<open>Each transformer keeps the configuration.\<close>

lemma conf_push [frames, intro]: "same_conf s (push f s)"
  by (simp add: same_conf_def push_client)

lemma conf_dirty_argv [frames, intro]:
  "same_conf s (upd_client c (\<lambda>cl. cl\<lparr>argv := a\<rparr>) s)" "same_conf s (upd_client c (\<lambda>cl. cl\<lparr>dirty_cas := True\<rparr>) s)"
  by (simp_all add: same_conf_def)

lemma conf_set [frames, intro]: "same_conf s (set_ddict i k v s)" "same_conf s (set_expires i k t s)"
  by (simp_all add: same_conf_def set_ddict_def set_expires_def upd_db_dbs)

lemma conf_counters [frames, intro]:
  "same_conf s (add_dirty n s)" "same_conf s (s\<lparr>stat_hits := h\<rparr>)" "same_conf s (s\<lparr>stat_misses := m\<rparr>)"
  "same_conf s (s\<lparr>stat_expired := e\<rparr>)" "same_conf s (s\<lparr>aof_log := l\<rparr>)" "same_conf s (s\<lparr>slave_log := l\<rparr>)"
  by (simp_all add: same_conf_def add_dirty_def)

lemma conf_ready [frames, intro]: "same_conf s (signalListAsReady i k s)"
  by (simp add: signalListAsReady_def same_conf_def upd_db_dbs no_blocked_def)

subsection \<open>Marks of watching clients\<close>

definition mark :: "nat set \<Rightarrow> 'z server \<Rightarrow> 'z server" where
  "mark C s = s\<lparr>clients := \<lambda>d. if d \<in> C then (clients s d)\<lparr>dirty_cas := True\<rparr> else clients s d\<rparr>"

definition watchers :: "'z server \<Rightarrow> nat \<Rightarrow> string \<Rightarrow> nat set" where
  "watchers s i k = (case watched_keys (dbs s i) k of None \<Rightarrow> {} | Some cs \<Rightarrow> set cs)"

lemma set_dirty_mark: "set_dirty_cas c s = mark {c} s"
  by (simp add: set_dirty_cas_def mark_def upd_client_def fun_eq_iff)

lemma mark_mark [simp]: "mark C (mark D s) = mark (C \<union> D) s"
  by (simp add: mark_def fun_eq_iff)

lemma mark_empty [simp]: "mark {} s = s"
  by (simp add: mark_def)

lemma fold_dirty: "fold set_dirty_cas cs s = mark (set cs) s"
  by (induction cs arbitrary: s) (simp_all add: set_dirty_mark Un_commute)

lemma signal_mark: "signalModifiedKey i k s = mark (watchers s i k) s"
  by (simp add: signalModifiedKey_def touchWatchedKey_def watchers_def fold_dirty split: option.split)

lemma mark_frame [frames, simp]:
  "dbs (mark C s) = dbs s" "dirty (mark C s) = dirty s" "aof_log (mark C s) = aof_log s" "slave_log (mark C s) = slave_log s"
  "stat_hits (mark C s) = stat_hits s" "stat_misses (mark C s) = stat_misses s"
  "reply (clients (mark C s) d) = reply (clients s d)" "argv (clients (mark C s) d) = argv (clients s d)"
  by (simp_all add: mark_def)

lemma conf_mark [frames, intro]: "same_conf s (mark C s)"
  by (simp add: same_conf_def mark_def)

lemma mark_cas: "dirty_cas (clients (mark C s) d) \<longleftrightarrow> d \<in> C \<or> dirty_cas (clients s d)"
  by (simp add: mark_def)

subsection \<open>Well-formed states\<close>

fun val_ok :: "'z oval \<Rightarrow> bool" where
  "val_ok (StrRaw x) = arg_ok x"
| "val_ok (StrInt v) = in_ll v"
| "val_ok (ListV z xs) = ((\<forall>x \<in> set xs. arg_ok x) \<and> int (length xs) \<le> (if z then 2147483647 else LLONG_MAX))"
| "val_ok _ = True"

definition db_ok :: "'z redisDb \<Rightarrow> bool" where
  "db_ok db \<longleftrightarrow> dom (expires db) \<subseteq> dom (ddict db) \<and> finite (dom (ddict db))
     \<and> (\<forall>k x. ddict db k = Some x \<longrightarrow> arg_ok k \<and> val_ok (oval x))
     \<and> (\<forall>k t. expires db k = Some t \<longrightarrow> in_ll t)"

text \<open>The limits keep a compact list within the range of an \<open>int\<close>.\<close>

definition limits_ok :: "limits \<Rightarrow> bool" where
  "limits_ok l \<longleftrightarrow> list_max_ziplist_entries l < 2147483647"

lemma limits_ok_simps [simp]: "limits_ok \<lparr>list_max_ziplist_entries = n, list_max_ziplist_value = m\<rparr> \<longleftrightarrow> n < 2147483647"
  by (simp add: limits_ok_def)

definition conf_ok :: "'z server \<Rightarrow> bool" where
  "conf_ok s \<longleftrightarrow> patterns_safe s \<and> dbnum s \<le> 2147483647 \<and> (\<forall>c. cdb (clients s c) < dbnum s)
     \<and> 0 < now s \<and> now s \<le> 4611686018427387904 \<and> (\<forall>t. lua_time s = Some t \<longrightarrow> t \<le> now s) \<and> limits_ok (limits s)"

definition server_ok :: "'z server \<Rightarrow> bool" where
  "server_ok s \<longleftrightarrow> conf_ok s \<and> (\<forall>i. db_ok (dbs s i))"

lemma conf_ok_same: "same_conf s s' \<Longrightarrow> conf_ok s' = conf_ok s"
  by (simp add: conf_ok_def same_conf_client same_conf_fields patterns_safe_def)

lemma server_ok_same: "same_conf s s' \<Longrightarrow> dbs s' = dbs s \<Longrightarrow> server_ok s' = server_ok s"
  by (simp add: server_ok_def conf_ok_same)

lemma server_ok_db: "server_ok s \<Longrightarrow> db_ok (dbs s i)"
  by (simp add: server_ok_def)

lemma server_ok_limits: "server_ok s \<Longrightarrow> limits_ok (limits s)"
  by (simp add: server_ok_def conf_ok_def)

lemma server_ok_cdb: "server_ok s \<Longrightarrow> int (cdb (clients s c)) \<le> LLONG_MAX"
proof -
  assume "server_ok s"
  then have "cdb (clients s c) < dbnum s" "dbnum s \<le> 2147483647" by (simp_all add: server_ok_def conf_ok_def)
  then show ?thesis by simp
qed

lemma dbs_set:
  "dbs (set_ddict i k v s) j = (if j = i then (dbs s i)\<lparr>ddict := (ddict (dbs s i))(k := v)\<rparr> else dbs s j)"
  "dbs (set_expires i k t s) j = (if j = i then (dbs s i)\<lparr>expires := (expires (dbs s i))(k := t)\<rparr> else dbs s j)"
  by (simp_all add: set_ddict_def set_expires_def upd_db_dbs)

lemma db_ok_put: "db_ok db \<Longrightarrow> arg_ok k \<Longrightarrow> val_ok (oval x) \<Longrightarrow> db_ok (db\<lparr>ddict := (ddict db)(k \<mapsto> x)\<rparr>)"
  unfolding db_ok_def by (simp add: subset_insertI2)

lemma db_ok_expire: "db_ok db \<Longrightarrow> ddict db k = Some x \<Longrightarrow> in_ll t \<Longrightarrow> db_ok (db\<lparr>expires := (expires db)(k \<mapsto> t)\<rparr>)"
  unfolding db_ok_def by (simp add: domI)

lemma db_ok_unexpire: "db_ok db \<Longrightarrow> db_ok (db\<lparr>expires := (expires db)(k := None)\<rparr>)"
  unfolding db_ok_def by (simp add: Diff_subset_conv subset_insertI2)

lemma db_ok_del:
  "db_ok db \<Longrightarrow> db_ok (db\<lparr>expires := (expires db)(k := None), ddict := (ddict db)(k := None)\<rparr>)"
  unfolding db_ok_def by (simp add: Diff_mono)

lemma server_ok_change:
  "server_ok s \<Longrightarrow> same_conf s s' \<Longrightarrow> (\<And>j. j \<noteq> i \<Longrightarrow> dbs s' j = dbs s j) \<Longrightarrow> db_ok (dbs s' i) \<Longrightarrow> server_ok s'"
  unfolding server_ok_def by (metis conf_ok_same)

lemma ok_set_ddict:
  "server_ok s \<Longrightarrow> arg_ok k \<Longrightarrow> val_ok (oval x) \<Longrightarrow> server_ok (set_ddict i k (Some x) s)"
  by (rule server_ok_change [where i = i, OF _ conf_set(1)]) (simp_all add: dbs_set db_ok_put server_ok_db)

lemma ok_set_expires:
  "server_ok s \<Longrightarrow> ddict (dbs s i) k = Some x \<Longrightarrow> in_ll t \<Longrightarrow> server_ok (set_expires i k (Some t) s)"
  by (rule server_ok_change [where i = i, OF _ conf_set(2)]) (simp_all add: dbs_set db_ok_expire server_ok_db)

lemma ok_del_expires: "server_ok s \<Longrightarrow> server_ok (set_expires i k None s)"
  by (rule server_ok_change [where i = i, OF _ conf_set(2)]) (simp_all add: dbs_set db_ok_unexpire server_ok_db)

lemma ok_delete: "server_ok s \<Longrightarrow> server_ok (fst (dbDelete i k s))"
  unfolding dbDelete_def fst_conv
  by (rule server_ok_change [where i = i, OF _ same_conf_trans [OF conf_set(2) conf_set(1)]])
     (simp_all add: dbDelete_def dbs_set db_ok_del server_ok_db)

lemma conf_delete [frames, intro]: "same_conf s (fst (dbDelete i k s))"
  by (simp add: dbDelete_def) (rule same_conf_trans [OF conf_set(2) conf_set(1)])

subsection \<open>Expired keys\<close>

definition cur_time :: "'z server \<Rightarrow> int" where
  "cur_time s = (case lua_time s of Some t \<Rightarrow> t | None \<Rightarrow> now s)"

definition expired :: "'z server \<Rightarrow> nat \<Rightarrow> string \<Rightarrow> bool" where
  "expired s i k = (case expires (dbs s i) k of None \<Rightarrow> False
     | Some t \<Rightarrow> 0 \<le> t \<and> \<not> loading s \<and> t < cur_time s)"

text \<open>What a client of a master can see: the value and the time of expiry of each live key.\<close>

type_synonym 'z keyspace = "nat \<Rightarrow> string \<Rightarrow> ('z oval \<times> int option) option"

definition live :: "'z server \<Rightarrow> 'z keyspace" where
  "live s i k = (case ddict (dbs s i) k of None \<Rightarrow> None
     | Some x \<Rightarrow> if expired s i k then None else Some (oval x, expires (dbs s i) k))"

definition ks_upd :: "'z keyspace \<Rightarrow> nat \<Rightarrow> string \<Rightarrow> ('z oval \<times> int option) option \<Rightarrow> 'z keyspace" where
  "ks_upd ks i k e = ks(i := (ks i)(k := e))"

lemma ks_upd_apply: "ks_upd ks i k e j l = (if j = i \<and> l = k then e else ks j l)"
  by (simp add: ks_upd_def)

lemma ks_upd_simps [simp]:
  "ks_upd (ks_upd ks i k e) i k e' = ks_upd ks i k e'" "ks_upd ks i k (ks i k) = ks"
  by (simp_all add: ks_upd_def)

lemma cur_time_same: "same_conf s s' \<Longrightarrow> cur_time s' = cur_time s"
  by (simp add: cur_time_def same_conf_fields(4,5) split: option.split)

lemma expired_same: "same_conf s s' \<Longrightarrow> expires (dbs s' i) k = expires (dbs s i) k \<Longrightarrow> expired s' i k = expired s i k"
  using cur_time_same [of s s'] by (simp add: expired_def same_conf_fields(2) split: option.split)

lemma live_same: "same_conf s s' \<Longrightarrow> dbs s' = dbs s \<Longrightarrow> live s' = live s"
  by (simp add: live_def fun_eq_iff expired_same split: option.split)

lemma live_set_ddict:
  "live (set_ddict i k (Some x) s) = ks_upd (live s) i k (if expired s i k then None else Some (oval x, expires (dbs s i) k))"
  by (auto simp: live_def fun_eq_iff ks_upd_apply dbs_set expired_same [OF conf_set(1)] split: option.splits)

lemma expired_set_expires:
  "expired (set_expires i k t s) j l = (if j = i \<and> l = k
     then (case t of None \<Rightarrow> False | Some t \<Rightarrow> 0 \<le> t \<and> \<not> loading s \<and> t < cur_time s) else expired s j l)"
  by (auto simp: expired_def cur_time_def dbs_set same_conf_fields [OF conf_set(2)] split: option.splits)

lemma live_set_expires:
  "live (set_expires i k t s) = ks_upd (live s) i k (case ddict (dbs s i) k of None \<Rightarrow> None
     | Some x \<Rightarrow> if case t of None \<Rightarrow> False | Some t \<Rightarrow> 0 \<le> t \<and> \<not> loading s \<and> t < cur_time s
                then None else Some (oval x, t))"
  by (auto simp: live_def fun_eq_iff ks_upd_apply dbs_set expired_set_expires split: option.splits)

lemma live_delete: "live (fst (dbDelete i k s)) = ks_upd (live s) i k None"
proof -
  have "expired (set_ddict i k None (set_expires i k None s)) j l = (if j = i \<and> l = k then False else expired s j l)" for j l
    using expired_same [OF conf_set(1), of i k None "set_expires i k None s" j l]
    by (auto simp: dbs_set expired_set_expires)
  then show ?thesis
    by (auto simp: live_def fun_eq_iff ks_upd_apply dbs_set dbDelete_def split: option.splits)
qed

text \<open>What expiring a key does: the key goes, the deletion is logged, and the notification is sent.\<close>

definition expire_log :: "nat \<Rightarrow> string \<Rightarrow> 'z server \<Rightarrow> 'z server" where
  "expire_log i k s = push (notified s NOTIFY_EXPIRED ''expired'' k i)
     (propagateExpire i k (s\<lparr>stat_expired := stat_expired s + 1\<rparr>))"

definition purge :: "nat \<Rightarrow> string \<Rightarrow> 'z server \<Rightarrow> 'z server" where
  "purge i k s = (if expired s i k \<and> \<not> is_slave s then fst (dbDelete i k (expire_log i k s)) else s)"

lemma propagate_conf: "same_conf s (propagateExpire i k s)"
  by (simp add: propagateExpire_def feedAppendOnlyFile_def replicationFeedSlaves_def Let_def same_conf_def)

lemma propagate_frame [simp]: "dbs (propagateExpire i k s) = dbs s" "clients (propagateExpire i k s) = clients s"
  "dirty (propagateExpire i k s) = dirty s"
  by (simp_all add: propagateExpire_def feedAppendOnlyFile_def replicationFeedSlaves_def Let_def)

lemma propagate_mid: "same_conf s (propagateExpire i k (s\<lparr>stat_expired := n\<rparr>))"
  by (rule same_conf_trans [OF conf_counters(4) propagate_conf])

lemma expire_log_conf: "same_conf s (expire_log i k s)"
  unfolding expire_log_def by (rule same_conf_trans [OF propagate_mid conf_push])

lemma expire_log_dbs [simp]: "dbs (expire_log i k s) = dbs s" "dirty (expire_log i k s) = dirty s"
  by (simp_all add: expire_log_def)

lemma purge_conf [frames, intro]: "same_conf s (purge i k s)"
  by (simp add: purge_def same_conf_trans [OF expire_log_conf conf_delete])

lemma purge_ok: "server_ok s \<Longrightarrow> server_ok (purge i k s)"
  by (simp add: purge_def ok_delete server_ok_same [OF expire_log_conf])

lemma purge_live: "\<not> is_slave s \<Longrightarrow> live (purge i k s) = live s"
proof -
  have "live s i k = None" if "expired s i k" using that by (simp add: live_def split: option.split)
  then have "expired s i k \<Longrightarrow> ks_upd (live s) i k None = live s" by (metis ks_upd_simps(2))
  then show ?thesis
    by (simp add: purge_def live_delete live_same [OF expire_log_conf])
qed

lemma purge_expired: "\<not> is_slave s \<Longrightarrow> \<not> expired (purge i k s) i k"
proof (cases "expired s i k")
  case False
  then show ?thesis by (simp add: purge_def)
next
  case True
  assume "\<not> is_slave s"
  then have "expires (dbs (purge i k s) i) k = None"
    using True by (simp add: purge_def dbDelete_def dbs_set)
  then show ?thesis by (simp add: expired_def)
qed

lemma purge_ddict: "ddict (dbs (purge i k s) i) k = (if expired s i k \<and> \<not> is_slave s then None else ddict (dbs s i) k)"
  by (simp add: purge_def dbDelete_def dbs_set)

lemma server_ok_expires: "server_ok s \<Longrightarrow> expires (dbs s i) k = Some t \<Longrightarrow> \<exists>x. ddict (dbs s i) k = Some x"
  using server_ok_db [of s i] by (auto simp: db_ok_def dom_def)

lemma arg_ok_key: "server_ok s \<Longrightarrow> ddict (dbs s i) k = Some x \<Longrightarrow> arg_ok k \<and> val_ok (oval x)"
  using server_ok_db [of s i] by (auto simp: db_ok_def)

lemma getExpire_eq: "server_ok s \<Longrightarrow> getExpire i k s = Some (case expires (dbs s i) k of None \<Rightarrow> -1 | Some t \<Rightarrow> t)"
  using server_ok_expires by (fastforce simp: getExpire_def split: option.split)

lemma expire_eq:
  assumes ok: "server_ok s" and i: "int i \<le> LLONG_MAX"
  shows "expireIfNeeded i k s = Some (purge i k s, expired s i k)"
proof (cases "expires (dbs s i) k")
  case None
  then show ?thesis using getExpire_eq [OF ok] by (simp add: expireIfNeeded_def expired_def purge_def)
next
  case (Some t)
  note g = getExpire_eq [OF ok, of i k]
  obtain x where x: "ddict (dbs s i) k = Some x" using server_ok_expires [OF ok Some] by blast
  define p where "p = propagateExpire i k (s\<lparr>stat_expired := stat_expired s + 1\<rparr>)"
  have p: "same_conf s p" "dbs p = dbs s" unfolding p_def by (rule propagate_mid) simp
  have log: "push (notified s NOTIFY_EXPIRED ''expired'' k i) p = expire_log i k s"
    by (simp add: expire_log_def p_def)
  show ?thesis
  proof (cases "expired s i k \<and> \<not> is_slave s")
    case True
    have "patterns_safe p" using ok same_conf_fields(11) [OF p(1)]
      by (simp add: patterns_safe_def server_ok_def conf_ok_def)
    then have "notifyKeyspaceEvent NOTIFY_EXPIRED ''expired'' k i p = Some (expire_log i k s)"
      using notify_push [of "''expired''" k i p NOTIFY_EXPIRED] arg_ok_key [OF ok x] i same_conf_fields(13) [OF p(1)] log
      by simp
    moreover have "dbDelete i k (expire_log i k s) = (fst (dbDelete i k (expire_log i k s)), True)"
      using x by (simp add: dbDelete_def dbExists_def)
    moreover have "expireIfNeeded i k s = do { s1 \<leftarrow> notifyKeyspaceEvent NOTIFY_EXPIRED ''expired'' k i p; Some (dbDelete i k s1) }"
      using True Some g by (simp add: expireIfNeeded_def expired_def cur_time_def p_def)
    ultimately show ?thesis using True by (simp add: purge_def)
  next
    case False
    then show ?thesis using Some g by (auto simp: expireIfNeeded_def expired_def cur_time_def purge_def Let_def)
  qed
qed

end
