(* ===== verification/Db_Steps.thy ===== *)
theory Db_Steps
  imports Db_Basics "HOL-Library.Sublist"
begin

unbundle bit_operations_syntax

declare One_nat_def [simp del]

text \<open>
  One relation says what a piece of a command did: \<open>run c s s' K n x W\<close> means that the state went from
  \<open>s\<close> to \<open>s'\<close>, the visible keyspace is now \<open>K\<close>, \<open>n\<close> changes were counted, the client \<open>c\<close> was sent
  \<open>x\<close>, and just the clients of \<open>W\<close> have had a watched key touched. Pieces compose.
\<close>

definition run :: "nat \<Rightarrow> 'z server \<Rightarrow> 'z server \<Rightarrow> 'z keyspace \<Rightarrow> int \<Rightarrow> string \<Rightarrow> nat set \<Rightarrow> bool" where
  "run c s s' K n x W \<longleftrightarrow> same_conf s s' \<and> server_ok s' \<and> live s' = K \<and> dirty s' = dirty s + n
     \<and> reply (clients s' c) = reply (clients s c) @ (if writable (clients s c) then x else [])
     \<and> (\<forall>d. prefix (reply (clients s d)) (reply (clients s' d)))
     \<and> (\<forall>d. dirty_cas (clients s' d) \<longleftrightarrow> dirty_cas (clients s d) \<or> d \<in> W)"

text \<open>
  When a command of \<open>c\<close> may start: on a well-formed master, and \<open>c\<close>, as a client that issues commands, is
  subscribed to nothing.
\<close>

definition ready :: "nat \<Rightarrow> 'z server \<Rightarrow> bool" where
  "ready c s \<longleftrightarrow> server_ok s \<and> \<not> is_slave s \<and> (\<forall>ch m. published s ch m c = [])"

lemma readyD: "ready c s \<Longrightarrow> server_ok s" "ready c s \<Longrightarrow> \<not> is_slave s" "ready c s \<Longrightarrow> notified s ty ev k i c = []"
  by (simp_all add: ready_def notified_def)

lemma ready_unsubscribed:
  "server_ok s \<Longrightarrow> \<not> is_slave s \<Longrightarrow> subs_ok s \<Longrightarrow> channels (clients s c) = {} \<Longrightarrow> patterns (clients s c) = [] \<Longrightarrow> ready c s"
  by (simp add: ready_def published_delivered delivered_def)

lemma runD:
  assumes "run c s s' K n x W"
  shows "same_conf s s'" "server_ok s'" "live s' = K" "dirty s' = dirty s + n"
    "reply (clients s' c) = reply (clients s c) @ (if writable (clients s c) then x else [])"
    "dirty_cas (clients s' d) \<longleftrightarrow> dirty_cas (clients s d) \<or> d \<in> W"
  using assms by (simp_all add: run_def)

lemma run_conf:
  assumes "run c s s' K n x W"
  shows "cdb (clients s' d) = cdb (clients s d)" "writable (clients s' d) = writable (clients s d)"
    "now s' = now s" "is_slave s' = is_slave s" "loading s' = loading s" "dbnum s' = dbnum s" "watchers s' i k = watchers s i k"
    "cur_time s' = cur_time s" "limits s' = limits s"
  using same_conf_client [OF runD(1) [OF assms]] same_conf_fields [OF runD(1) [OF assms]]
    cur_time_same [OF runD(1) [OF assms]] by (simp_all add: watchers_def)

lemma run_ready: "run c s s' K n x W \<Longrightarrow> ready c s \<Longrightarrow> ready c s'"
  using same_conf_fields(3,12) [of s s'] by (simp add: run_def ready_def)

lemma run_trans:
  assumes "run c s s1 K n x W" "run c s1 s2 K' m y V"
  shows "run c s s2 K' (n + m) (x @ y) (W \<union> V)"
  using assms same_conf_trans [OF runD(1) [OF assms(1)] runD(1) [OF assms(2)]] run_conf(2) [OF assms(1), of c]
  by (auto simp: run_def intro: prefix_order.trans)

lemma run_refl: "server_ok s \<Longrightarrow> run c s s (live s) 0 [] {}"
  by (simp add: run_def)

lemma run_weaken:
  "run c s s' K n x W \<Longrightarrow> K = K' \<Longrightarrow> n = n' \<Longrightarrow> x = x' \<Longrightarrow> W = W' \<Longrightarrow> run c s s' K' n' x' W'"
  by simp

text \<open>The transformers that touch neither the databases nor the counters.\<close>

lemma run_plain:
  assumes "server_ok s" "same_conf s s'" "dbs s' = dbs s" "dirty s' = dirty s" "clients s' = clients s"
  shows "run c s s' (live s) 0 [] {}"
  using assms server_ok_same [OF assms(2,3)] live_same [OF assms(2,3)] by (simp add: run_def)

lemma run_push: "server_ok s \<Longrightarrow> run c s (push f s) (live s) 0 (f c) {}"
proof -
  assume ok: "server_ok s"
  have "server_ok (push f s)" "live (push f s) = live s"
    using ok server_ok_same [OF conf_push, of f s] live_same [OF conf_push, of f s] by simp_all
  then show ?thesis by (simp add: run_def conf_push push_client)
qed

lemma run_reply: "server_ok s \<Longrightarrow> run c s (push (to c x) s) (live s) 0 x {}"
  using run_push [of s c "to c x"] by simp

lemma run_note: "ready c s \<Longrightarrow> run c s (push (notified s ty ev k i) s) (live s) 0 [] {}"
  using run_push [of s c "notified s ty ev k i"] readyD [of c s] by simp

lemma run_mark: "server_ok s \<Longrightarrow> run c s (mark W s) (live s) 0 [] W"
proof -
  assume ok: "server_ok s"
  have "server_ok (mark W s)" "live (mark W s) = live s"
    using ok server_ok_same [OF conf_mark, of W s] live_same [OF conf_mark, of W s] by simp_all
  then show ?thesis by (auto simp: run_def conf_mark mark_cas)
qed

lemma run_dirty: "server_ok s \<Longrightarrow> run c s (add_dirty n s) (live s) n [] {}"
proof -
  assume ok: "server_ok s"
  have d: "dbs (add_dirty n s) = dbs s" by (simp add: add_dirty_def)
  have "server_ok (add_dirty n s)" "live (add_dirty n s) = live s"
    using ok server_ok_same [OF conf_counters(1) d] live_same [OF conf_counters(1) d] by simp_all
  then show ?thesis by (simp add: run_def conf_counters) (simp add: add_dirty_def)
qed

lemma clients_set [simp]: "clients (set_ddict i k v s) = clients s" "clients (set_expires i k t s) = clients s"
  "dirty (set_ddict i k v s) = dirty s" "dirty (set_expires i k t s) = dirty s"
  by (simp_all add: set_ddict_def set_expires_def)

lemma run_db:
  assumes "same_conf s s'" "server_ok s'" "clients s' = clients s" "dirty s' = dirty s"
  shows "run c s s' (live s') 0 [] {}"
  using assms by (simp add: run_def)

subsection \<open>Lookups\<close>

lemma run_expire:
  assumes r: "ready c s" and i: "int i \<le> LLONG_MAX"
  shows "expireIfNeeded i k s = Some (purge i k s, expired s i k) \<and> run c s (purge i k s) (live s) 0 [] {}"
proof -
  note ok = readyD(1,2) [OF r]
  have "run c s (purge i k s) (live s) 0 [] {}"
  proof (cases "expired s i k")
    case True
    have e: "clients (purge i k s) d = clients (expire_log i k s) d" "dirty (purge i k s) = dirty s" for d
      using True ok by (simp_all add: purge_def dbDelete_def)
    have "reply (clients (expire_log i k s) d) = reply (clients s d)
        @ (if writable (clients s d) then notified s NOTIFY_EXPIRED ''expired'' k i d else [])"
      "dirty_cas (clients (expire_log i k s) d) = dirty_cas (clients s d)" for d
      by (simp_all add: expire_log_def push_client)
    then show ?thesis
      using purge_conf purge_ok [OF ok(1)] purge_live [OF ok(2)] readyD(3) [OF r] by (simp add: run_def e)
  next
    case False
    then show ?thesis using run_refl [OF ok(1)] by (simp add: purge_def)
  qed
  then show ?thesis using expire_eq [OF ok(1) i] by simp
qed

text \<open>After a lookup the key is not expired, and the table holds what a client sees.\<close>

definition settled :: "'z server \<Rightarrow> nat \<Rightarrow> string \<Rightarrow> 'z robj option \<Rightarrow> bool" where
  "settled s i k v \<longleftrightarrow> \<not> expired s i k \<and> ddict (dbs s i) k = v"

lemma settled_live: "settled s i k v \<Longrightarrow> live s i k = map_option (\<lambda>x. (oval x, expires (dbs s i) k)) v"
  by (auto simp: settled_def live_def split: option.split)

lemma settled_same: "same_conf s s' \<Longrightarrow> dbs s' = dbs s \<Longrightarrow> settled s' i k v = settled s i k v"
  by (simp add: settled_def expired_same)

lemma lookupKey_run:
  assumes r: "ready c s" and n: "\<not> expired s i k"
  shows "\<exists>s' v. lookupKey i k s = (s', v) \<and> run c s s' (live s) 0 [] {} \<and> settled s' i k v
    \<and> map_option oval v = map_option oval (ddict (dbs s i) k) \<and> expires (dbs s' i) k = expires (dbs s i) k"
proof (cases "ddict (dbs s i) k")
  case None
  then show ?thesis using run_refl [OF readyD(1) [OF r]] n by (auto simp: lookupKey_def settled_def)
next
  case (Some x)
  define x' where "x' = (if child_active s then x else x\<lparr>lru := lruclock s\<rparr>)"
  define t where "t = set_ddict i k (Some x') s"
  have o: "oval x' = oval x" by (simp add: x'_def)
  have "server_ok t" unfolding t_def
    using ok_set_ddict [OF readyD(1) [OF r]] arg_ok_key [OF readyD(1) [OF r] Some] o by simp
  then have "run c s t (live t) 0 [] {}" by (intro run_db) (simp_all add: t_def conf_set)
  moreover have "live s i k = Some (oval x, expires (dbs s i) k)" using Some n by (simp add: live_def)
  then have "live t = live s" unfolding t_def live_set_ddict using n o by (metis ks_upd_simps(2))
  moreover have "expired t i k = expired s i k"
    unfolding t_def by (rule expired_same [OF conf_set(1)]) (simp add: dbs_set)
  ultimately show ?thesis
    using Some n o by (auto simp: lookupKey_def Let_def settled_def dbs_set simp flip: x'_def t_def) (simp_all add: t_def dbs_set)
qed

lemma lookupKeyWrite_run:
  assumes r: "ready c s" and i: "int i \<le> LLONG_MAX"
  shows "\<exists>s' v. lookupKeyWrite i k s = Some (s', v) \<and> run c s s' (live s) 0 [] {} \<and> settled s' i k v
    \<and> live s i k = map_option (\<lambda>x. (oval x, expires (dbs s' i) k)) v"
proof -
  note e = run_expire [OF r i, of k]
  have r1: "ready c (purge i k s)" using run_ready [OF conjunct2 [OF e] r] .
  obtain s' v where l: "lookupKey i k (purge i k s) = (s', v)" "run c (purge i k s) s' (live (purge i k s)) 0 [] {}"
    "settled s' i k v"
    using lookupKey_run [OF r1 purge_expired [OF readyD(2) [OF r]]] by blast
  have "run c s s' (live s) 0 [] {}"
    using run_trans [OF conjunct2 [OF e] l(2)] runD(3) [OF conjunct2 [OF e]] by simp
  moreover have "live s i k = live s' i k" using calculation by (simp add: run_def)
  ultimately show ?thesis
    using e l settled_live [OF l(3)] by (simp add: lookupKeyWrite_def)
qed

lemma lookupKeyRead_run:
  assumes r: "ready c s" and i: "int i \<le> LLONG_MAX"
  shows "\<exists>s' v. lookupKeyRead i k s = Some (s', v) \<and> run c s s' (live s) 0 [] {} \<and> settled s' i k v
    \<and> live s i k = map_option (\<lambda>x. (oval x, expires (dbs s' i) k)) v"
proof -
  obtain s1 v where w: "lookupKeyWrite i k s = Some (s1, v)" "run c s s1 (live s) 0 [] {}" "settled s1 i k v"
    "live s i k = map_option (\<lambda>x. (oval x, expires (dbs s1 i) k)) v"
    using lookupKeyWrite_run [OF r i] by blast
  define t where "t = (case v of None \<Rightarrow> s1\<lparr>stat_misses := stat_misses s1 + 1\<rparr> | Some x \<Rightarrow> s1\<lparr>stat_hits := stat_hits s1 + 1\<rparr>)"
  have t: "same_conf s1 t" "dbs t = dbs s1" "dirty t = dirty s1" "clients t = clients s1"
    by (simp_all add: t_def conf_counters split: option.split)
  have "run c s t (live s) 0 [] {}"
    using run_trans [OF w(2) run_plain [OF runD(2) [OF w(2)] t]] runD(3) [OF w(2)] by simp
  moreover have "lookupKeyRead i k s = Some (t, v)"
    using w(1) by (cases v) (auto simp: lookupKeyRead_def lookupKeyWrite_def t_def split: bind_splits prod.splits)
  ultimately show ?thesis using w(3,4) settled_same [OF t(1,2)] t(2) by simp
qed

subsection \<open>Changes\<close>

lemma notify_run:
  assumes r: "ready c s" and k: "arg_ok k" and i: "int i \<le> LLONG_MAX" and ev: "length ev \<le> 100"
  shows "\<exists>s'. notifyKeyspaceEvent ty ev k i s = Some s' \<and> run c s s' (live s) 0 [] {} \<and> dbs s' = dbs s"
proof -
  have "patterns_safe s" using readyD(1) [OF r] by (simp add: server_ok_def conf_ok_def)
  then show ?thesis using notify_push [OF ev k i, of s ty] run_note [OF r] by simp
qed

lemma signal_run:
  "ready c s \<Longrightarrow> run c s (signalModifiedKey i k s) (live s) 0 [] (watchers s i k) \<and> dbs (signalModifiedKey i k s) = dbs s"
  by (simp add: signal_mark run_mark readyD)

text \<open>A change is signalled, notified and counted; most commands end that way.\<close>

lemma change_run:
  assumes r: "ready c s" and k: "arg_ok k" and i: "int i \<le> LLONG_MAX" and ev: "length ev \<le> 100"
  shows "\<exists>s'. notifyKeyspaceEvent ty ev k i (signalModifiedKey i k s) = Some s'
    \<and> run c s (add_dirty n s') (live s) n [] (watchers s i k) \<and> dbs (add_dirty n s') = dbs s"
proof -
  note a = signal_run [OF r, of i k]
  obtain s' where b: "notifyKeyspaceEvent ty ev k i (signalModifiedKey i k s) = Some s'"
    "run c (signalModifiedKey i k s) s' (live (signalModifiedKey i k s)) 0 [] {}" "dbs s' = dbs (signalModifiedKey i k s)"
    using notify_run [OF run_ready [OF conjunct1 [OF a] r] k i ev] by blast
  have ab: "run c s s' (live s) 0 [] (watchers s i k)"
    using run_trans [OF conjunct1 [OF a] b(2)] runD(3) [OF conjunct1 [OF a]] by simp
  show ?thesis
    using b(1,3) a run_trans [OF ab run_dirty [OF runD(2) [OF ab]], of n] runD(3) [OF ab] by (simp add: add_dirty_def)
qed

lemma delete_run:
  assumes r: "ready c s"
  shows "run c s (fst (dbDelete i k s)) (ks_upd (live s) i k None) 0 [] {}"
proof -
  have "run c s (fst (dbDelete i k s)) (live (fst (dbDelete i k s))) 0 [] {}"
    by (rule run_db [OF conf_delete ok_delete [OF readyD(1) [OF r]]]) (simp_all add: dbDelete_def)
  then show ?thesis by (simp only: live_delete)
qed

lemma put_run:
  assumes r: "ready c s" and n: "\<not> expired s i k" and k: "arg_ok k" "val_ok (oval x)"
  shows "run c s (set_ddict i k (Some x) s) (ks_upd (live s) i k (Some (oval x, expires (dbs s i) k))) 0 [] {}
    \<and> settled (set_ddict i k (Some x) s) i k (Some x)
    \<and> expires (dbs (set_ddict i k (Some x) s) i) k = expires (dbs s i) k"
proof -
  have "run c s (set_ddict i k (Some x) s) (live (set_ddict i k (Some x) s)) 0 [] {}"
    by (rule run_db [OF conf_set(1) ok_set_ddict [OF readyD(1) [OF r] k]]) simp_all
  moreover have "expired (set_ddict i k (Some x) s) i k = expired s i k"
    by (rule expired_same [OF conf_set(1)]) (simp add: dbs_set)
  ultimately show ?thesis using n by (simp add: live_set_ddict settled_def dbs_set)
qed

lemma expire_free: "server_ok s \<Longrightarrow> ddict (dbs s i) k = None \<Longrightarrow> expires (dbs s i) k = None"
  using server_ok_expires by (metis option.exhaust option.simps(3))

lemma add_run:
  assumes r: "ready c s" and n: "ddict (dbs s i) k = None" and k: "arg_ok k" "val_ok (oval x)"
  shows "\<exists>s'. dbAdd i k x s = Some s' \<and> run c s s' (ks_upd (live s) i k (Some (oval x, None))) 0 [] {}
    \<and> settled s' i k (Some x) \<and> expires (dbs s' i) k = None"
proof -
  have e: "expires (dbs s i) k = None" using expire_free [OF readyD(1) [OF r] n] .
  then have "\<not> expired s i k" by (simp add: expired_def)
  from put_run [OF r this k] e have p:
    "run c s (set_ddict i k (Some x) s) (ks_upd (live s) i k (Some (oval x, None))) 0 [] {}"
    "settled (set_ddict i k (Some x) s) i k (Some x)" "expires (dbs (set_ddict i k (Some x) s) i) k = None"
    by simp_all
  let ?t = "set_ddict i k (Some x) s"
  have conf: "same_conf ?t (signalListAsReady i k ?t)" by (rule conf_ready)
  have d: "ddict (dbs (signalListAsReady i k ?t) j) = ddict (dbs ?t j)"
    "expires (dbs (signalListAsReady i k ?t) j) = expires (dbs ?t j)" "clients (signalListAsReady i k ?t) = clients ?t"
    "dirty (signalListAsReady i k ?t) = dirty ?t" for j
    by (simp_all add: signalListAsReady_def upd_db_dbs)
  have "live (signalListAsReady i k ?t) = live ?t"
    by (simp add: live_def fun_eq_iff d expired_same [OF conf] split: option.split)
  moreover have "server_ok (signalListAsReady i k ?t)"
    using runD(2) [OF p(1)] conf_ok_same [OF conf] by (simp add: server_ok_def db_ok_def d)
  ultimately have "run c ?t (signalListAsReady i k ?t) (live ?t) 0 [] {}" using conf by (simp add: run_def d)
  moreover have "settled (signalListAsReady i k ?t) i k (Some x)"
    using p(2) by (simp add: settled_def d expired_same [OF conf])
  ultimately have "run c s (signalListAsReady i k ?t) (ks_upd (live s) i k (Some (oval x, None))) 0 [] {}"
    "settled (signalListAsReady i k ?t) i k (Some x)" "expires (dbs (signalListAsReady i k ?t) i) k = None"
    using run_trans [OF p(1)] runD(3) [OF p(1)] p(3) by (simp_all add: d)
  then show ?thesis using n p by (simp add: dbAdd_def Let_def)
qed

lemma expires_run:
  assumes r: "ready c s" and d: "ddict (dbs s i) k = Some x" and t: "case t of None \<Rightarrow> True | Some u \<Rightarrow> in_ll u"
  shows "run c s (set_expires i k t s)
      (ks_upd (live s) i k (if case t of None \<Rightarrow> False | Some u \<Rightarrow> 0 \<le> u \<and> \<not> loading s \<and> u < cur_time s
         then None else Some (oval x, t))) 0 [] {}"
proof -
  have "server_ok (set_expires i k t s)"
    using ok_set_expires [OF readyD(1) [OF r] d] ok_del_expires [OF readyD(1) [OF r]] t by (cases t) simp_all
  then have "run c s (set_expires i k t s) (live (set_expires i k t s)) 0 [] {}"
    by (rule run_db [OF conf_set(2)]) simp_all
  then show ?thesis using d by (simp add: live_set_expires)
qed

lemma setKey_run:
  assumes r: "ready c s" and i: "int i \<le> LLONG_MAX" and k: "arg_ok k" "val_ok (oval x)"
  shows "\<exists>s'. setKey i k x s = Some s' \<and> run c s s' (ks_upd (live s) i k (Some (oval x, None))) 0 [] (watchers s i k)
    \<and> settled s' i k (Some x)"
proof -
  obtain s1 v where l: "lookupKeyWrite i k s = Some (s1, v)" "run c s s1 (live s) 0 [] {}" "settled s1 i k v"
    using lookupKeyWrite_run [OF r i] by blast
  note r1 = run_ready [OF l(2) r]
  obtain s2 where s2: "(case v of None \<Rightarrow> dbAdd i k x s1 | Some _ \<Rightarrow> dbOverwrite i k x s1) = Some s2"
    "\<exists>t. run c s1 s2 (ks_upd (live s1) i k (Some (oval x, t))) 0 [] {}" "settled s2 i k (Some x)"
  proof (cases v)
    case None
    then have "ddict (dbs s1 i) k = None" using l(3) by (simp add: settled_def)
    from add_run [OF r1 this k] None that show ?thesis by auto
  next
    case (Some y)
    then have "\<not> expired s1 i k" "ddict (dbs s1 i) k = Some y" using l(3) by (simp_all add: settled_def)
    with put_run [OF r1 this(1) k] Some that show ?thesis by (auto simp: dbOverwrite_def)
  qed
  then obtain t where t: "run c s1 s2 (ks_upd (live s1) i k (Some (oval x, t))) 0 [] {}" by blast
  note r2 = run_ready [OF t r1]
  have d2: "ddict (dbs s2 i) k = Some x" using s2(3) by (simp add: settled_def)
  have e: "run c s2 (set_expires i k None s2) (ks_upd (live s2) i k (Some (oval x, None))) 0 [] {}"
    using expires_run [OF r2 d2, of None] by simp
  let ?s3 = "set_expires i k None s2"
  note m = signal_run [OF run_ready [OF e r2], of i k]
  have "live s1 = live s" "live s2 = ks_upd (live s1) i k (Some (oval x, t))" "watchers ?s3 i k = watchers s i k"
    using runD(3) [OF l(2)] runD(3) [OF t] run_conf(7) [OF l(2)] run_conf(7) [OF t] run_conf(7) [OF e] by simp_all
  then have "run c s (signalModifiedKey i k ?s3) (ks_upd (live s) i k (Some (oval x, None))) 0 [] (watchers s i k)"
    using run_trans [OF run_trans [OF l(2) run_trans [OF t e]] conjunct1 [OF m]] runD(3) [OF e] by simp
  moreover have "settled (signalModifiedKey i k ?s3) i k (Some x)"
    using m d2 settled_same [of ?s3 "signalModifiedKey i k ?s3" i k "Some x"]
    by (simp add: signal_mark conf_mark settled_def dbs_set expired_set_expires)
  ultimately show ?thesis
    using l(1) s2(1) d2 by (simp add: setKey_def removeExpire_def)
qed

text \<open>A reply ends the command.\<close>

lemma end_reply:
  assumes "run c s s' K n x W"
  shows "run c s (push (to c y) s') K n (x @ y) W"
  using run_trans [OF assms run_reply [OF runD(2) [OF assms]], of y] runD(3) [OF assms] by simp

end
