(* ===== verification/String_Correct.thy ===== *)
theory String_Correct
  imports T_String Db_Steps
begin

unbundle bit_operations_syntax

declare One_nat_def [simp del]

text \<open>
  What the string commands do to the visible keyspace, and what they answer, on every branch.
\<close>

subsection \<open>Values\<close>

lemma val_ok_str: "val_ok v \<Longrightarrow> str_ok v"
  by (cases v) (auto simp: arg_ok_def)

lemma tryObjectEncoding_str [simp]: "str_val (tryObjectEncoding x) = x" "otype (tryObjectEncoding x) = REDIS_STRING"
  by (auto simp: tryObjectEncoding_def string2l_string2ll string2ll_iff split: option.split)

lemma tryObjectEncoding_ok: "arg_ok x \<Longrightarrow> val_ok (tryObjectEncoding x)"
  by (auto simp: tryObjectEncoding_def string2l_string2ll string2ll_iff split: option.split)

lemma str_len: "val_ok v \<Longrightarrow> otype v = REDIS_STRING \<Longrightarrow> stringObjectLen v = Some (length (str_val v))"
proof (cases v)
  case (StrInt n)
  assume "val_ok v"
  then have n: "in_ll n" using StrInt by simp
  then have "ll2string (replicate 32 NUL) 32 n = (length (show_int n), show_int n @ NUL # drop (Suc (length (show_int n))) (replicate 32 NUL))"
    by (intro ll2string_ok) (use length_show_int [OF n] in simp_all)
  then show ?thesis using StrInt by (simp add: stringObjectLen_def)
qed (simp_all add: stringObjectLen_def)

lemma str_val_length: "val_ok v \<Longrightarrow> length (str_val v) \<le> 536870912"
  using length_show_int by (cases v) (force simp: arg_ok_def)+

lemma in_ll_len: "val_ok v \<Longrightarrow> in_ll (int (length (str_val v)))"
  using str_val_length [of v] by (simp add: in_ll_def)

text \<open>The value that a number command reads: 0 for a missing key.\<close>

definition num_val :: "('z oval \<times> int option) option \<Rightarrow> int option" where
  "num_val e = (case e of None \<Rightarrow> Some 0
     | Some (StrInt v, t) \<Rightarrow> Some v | Some (StrRaw x, t) \<Rightarrow> string_ll x | _ \<Rightarrow> None)"

lemma string_ll_range: "string_ll x = Some v \<Longrightarrow> in_ll v"
  by (auto simp: string_ll_def strtoll_def Let_def in_ll_def split: if_splits list.splits prod.splits)

lemma digit_not_space: "is_digit c \<Longrightarrow> \<not> isspace c \<and> c \<noteq> CHR ''-'' \<and> c \<noteq> CHR ''+'' \<and> c \<noteq> NUL"
  by (auto simp: isspace_def is_digit_def uchar_def)

lemma all_digits: "\<forall>c \<in> set ds. is_digit c \<Longrightarrow> takeWhile is_digit ds = ds \<and> dropWhile is_digit ds = []"
  by (simp add: takeWhile_eq_all_conv)

lemma string_ll_show: "in_ll v \<Longrightarrow> string_ll (show_int v) = Some v"
proof -
  assume v: "in_ll v"
  define ds where "ds = show_nat (nat \<bar>v\<bar>)"
  have s: "show_int v = (if v < 0 then CHR ''-'' # ds else ds)" by (simp add: show_int_def ds_def)
  have digits: "\<forall>c \<in> set ds. is_digit c" using show_nat_digits by (auto simp: ds_def)
  obtain d ds' where ds: "ds = d # ds'" by (metis ds_def show_nat_ne list.exhaust)
  then have d: "\<not> isspace d \<and> d \<noteq> CHR ''-'' \<and> d \<noteq> CHR ''+''" using digits digit_not_space by simp
  have "cstr (show_int v) = show_int v"
    unfolding cstr_def takeWhile_eq_all_conv s using digits digit_not_space by auto
  moreover have m: "\<not> isspace CHR ''-''" by (simp add: isspace_def)
  then have "strtoll (show_int v) = (v, [], False)"
    using v d all_digits [OF digits] digits_val_show_nat [of "nat \<bar>v\<bar>"]
    by (auto simp: strtoll_def s Let_def ds in_ll_def simp flip: ds_def)
  ultimately show ?thesis using d m by (simp add: string_ll_def s ds)
qed

subsection \<open>Reads\<close>

definition int_error :: string where "int_error = error_reply ''value is not an integer or out of range''"

lemma arg_ll_run:
  assumes "ready c s"
  shows "getLongLongFromObjectOrReply c (Some (StrRaw a)) None s
      = Some (case string_ll a of None \<Rightarrow> (push (to c int_error) s, None) | Some v \<Rightarrow> (s, Some v))"
    and "getLongFromObjectOrReply c (Some (StrRaw a)) None s
      = Some (case string_ll a of None \<Rightarrow> (push (to c int_error) s, None) | Some v \<Rightarrow> (s, Some v))"
  using string_ll_range [of a]
  by (auto simp: getLongLongFromObjectOrReply_def getLongFromObjectOrReply_def getLongLongFromObject_def
      push_simps int_error_def in_ll_def split: option.split)

lemma readOrReply_run:
  assumes r: "ready c s"
  shows "\<exists>s' v. lookupKeyReadOrReply c k rep s = Some (s', v)
    \<and> run c s s' (live s) 0 (if v = None then rep else []) {} \<and> settled s' (cdb (clients s c)) k v
    \<and> live s (cdb (clients s c)) k = map_option (\<lambda>x. (oval x, expires (dbs s' (cdb (clients s c))) k)) v"
proof -
  let ?i = "cdb (clients s c)"
  obtain s' v where l: "lookupKeyRead ?i k s = Some (s', v)" "run c s s' (live s) 0 [] {}" "settled s' ?i k v"
    "live s ?i k = map_option (\<lambda>x. (oval x, expires (dbs s' ?i) k)) v"
    using lookupKeyRead_run [OF r server_ok_cdb [OF readyD(1) [OF r]]] by blast
  show ?thesis
    using l end_reply [OF l(2), of rep] settled_same [OF conf_push, of "to c rep" s' ?i k v]
    by (cases v) (simp_all add: lookupKeyReadOrReply_def addReply_push)
qed

lemma settled_val: "run c s s' K n x W \<Longrightarrow> settled s' i k (Some y) \<Longrightarrow> arg_ok k \<and> val_ok (oval y)"
  using arg_ok_key [of s' i k y] by (simp add: settled_def run_def)

text \<open>What \<open>GET\<close> answers.\<close>

definition get_reply :: "('z oval \<times> int option) option \<Rightarrow> string" where
  "get_reply e = (case e of None \<Rightarrow> shared_nullbulk
     | Some (v, t) \<Rightarrow> if otype v = REDIS_STRING then bulk (str_val v) else shared_wrongtypeerr)"

lemma getGeneric_run:
  assumes r: "ready c s"
  defines "i \<equiv> cdb (clients s c)" and "k \<equiv> arg c 1 s"
  shows "\<exists>s' b. getGenericCommand c s = Some (s', b) \<and> run c s s' (live s) 0 (get_reply (live s i k)) {}
    \<and> (b \<longleftrightarrow> (case live s i k of None \<Rightarrow> True | Some (v, t) \<Rightarrow> otype v = REDIS_STRING))"
proof -
  obtain s' v where l: "lookupKeyReadOrReply c k shared_nullbulk s = Some (s', v)"
    "run c s s' (live s) 0 (if v = None then shared_nullbulk else []) {}" "settled s' i k v"
    "live s i k = map_option (\<lambda>x. (oval x, expires (dbs s' i) k)) v"
    using readOrReply_run [OF r] unfolding i_def by blast
  show ?thesis
  proof (cases v)
    case None
    then show ?thesis using l by (auto simp: getGenericCommand_def get_reply_def simp flip: k_def)
  next
    case (Some y)
    note vy = settled_val [OF l(2) l(3) [unfolded Some]]
    show ?thesis
    proof (cases "otype (oval y) = REDIS_STRING")
      case True
      then show ?thesis
        using l Some end_reply [OF l(2), of "bulk (str_val (oval y))"] val_ok_str [OF conjunct2 [OF vy]]
        by (auto simp: getGenericCommand_def get_reply_def push_simps simp flip: k_def)
    next
      case False
      then show ?thesis
        using l Some end_reply [OF l(2), of shared_wrongtypeerr]
        by (auto simp: getGenericCommand_def get_reply_def push_simps simp flip: k_def)
    qed
  qed
qed

lemma get_run:
  assumes "ready c s"
  shows "\<exists>s'. getCommand c s = Some s' \<and> run c s s' (live s) 0 (get_reply (live s (cdb (clients s c)) (arg c 1 s))) {}"
  using getGeneric_run [OF assms] by (auto simp: getCommand_def)

lemma checkType_run:
  assumes "run c s s' K n x W"
  shows "checkType c v REDIS_STRING s' = (if otype v = REDIS_STRING then (s', False) else (push (to c shared_wrongtypeerr) s', True))"
    and "run c s (push (to c shared_wrongtypeerr) s') K n (x @ shared_wrongtypeerr) W"
  using end_reply [OF assms] by (simp_all add: checkType_def addReply_push)

lemma strlen_run:
  assumes r: "ready c s"
  defines "e \<equiv> live s (cdb (clients s c)) (arg c 1 s)"
  shows "\<exists>s'. strlenCommand c s = Some s' \<and> run c s s' (live s) 0
    (case e of None \<Rightarrow> int_reply 0
     | Some (v, t) \<Rightarrow> if otype v = REDIS_STRING then int_reply (int (length (str_val v))) else shared_wrongtypeerr) {}"
proof -
  obtain s' v where l: "lookupKeyReadOrReply c (arg c 1 s) shared_czero s = Some (s', v)"
    "run c s s' (live s) 0 (if v = None then shared_czero else []) {}" "settled s' (cdb (clients s c)) (arg c 1 s) v"
    "e = map_option (\<lambda>x. (oval x, expires (dbs s' (cdb (clients s c))) (arg c 1 s))) v"
    using readOrReply_run [OF r] unfolding e_def by blast
  show ?thesis
  proof (cases v)
    case None
    then show ?thesis using l by (simp add: strlenCommand_def int_reply_def shared_czero_def show_int_small)
  next
    case (Some y)
    note vy = conjunct2 [OF settled_val [OF l(2) l(3) [unfolded Some]]]
    show ?thesis
      using l Some checkType_run(1) [OF l(2), of "oval y"] checkType_run(2) [OF l(2)] str_len [OF vy] in_ll_len [OF vy]
        end_reply [OF l(2), of "int_reply (int (length (str_val (oval y))))"]
      by (simp add: strlenCommand_def push_simps)
  qed
qed

subsection \<open>SET and its variants\<close>

text \<open>
  The time to live asked for: absent, refused with an error, or a time in the future. No overflow
  is the condition on the argument under which the sums of the code are the sums of mathematics.
\<close>

definition expire_request :: "int \<Rightarrow> string \<Rightarrow> string option \<Rightarrow> bool \<Rightarrow> string + int option" where
  "expire_request t0 cmd expire seconds = (case expire of None \<Rightarrow> Inr None
     | Some e \<Rightarrow> (case string_ll e of None \<Rightarrow> Inl int_error
         | Some v \<Rightarrow> if v \<le> 0 then Inl (error_reply (''invalid expire time in '' @ cmd))
                    else Inr (Some (t0 + (if seconds then v * 1000 else v)))))"

definition no_overflow :: "int \<Rightarrow> string option \<Rightarrow> bool \<Rightarrow> bool" where
  "no_overflow t0 expire seconds \<longleftrightarrow> (\<forall>e v. expire = Some e \<longrightarrow> string_ll e = Some v \<longrightarrow>
     t0 + (if seconds then v * 1000 else v) \<le> LLONG_MAX)"

text \<open>What the whole command does: the new keyspace, the number of changes, the reply and the touched keys.\<close>

definition set_effect :: "'z keyspace \<Rightarrow> nat \<Rightarrow> string \<Rightarrow> 'z oval \<Rightarrow> set_flags \<Rightarrow> string + int option
    \<Rightarrow> string \<Rightarrow> string \<Rightarrow> 'z keyspace \<times> int \<times> string" where
  "set_effect ks i k val fl req ok_reply abort_reply = (case req of
       Inl err \<Rightarrow> (ks, 0, err)
     | Inr t \<Rightarrow>
         if set_nx fl \<and> ks i k \<noteq> None \<or> set_xx fl \<and> ks i k = None then (ks, 0, abort_reply)
         else (ks_upd ks i k (Some (val, t)), 1, ok_reply))"

definition or_default :: "string option \<Rightarrow> string \<Rightarrow> string" where
  "or_default x d = (case x of None \<Rightarrow> d | Some r \<Rightarrow> r)"

lemma clean_text: "\<forall>ch \<in> set m. ch \<noteq> CHR 0x0D \<and> ch \<noteq> CHR 0x0A
    \<Longrightarrow> addReplyErrorFormat c m s = push (to c (error_reply m)) s"
  by (simp add: addReplyErrorFormat_def map_idI flip: addReplyError_def) (simp add: push_simps)

lemma cur_time_now: "server_ok s \<Longrightarrow> cur_time s \<le> now s"
  by (auto simp: server_ok_def conf_ok_def cur_time_def split: option.split)

lemma future_expire:
  assumes "server_ok s" "0 < v" "now s + v \<le> LLONG_MAX"
  shows "in_ll (now s + v)" "\<not> now s + v < cur_time s" "0 \<le> now s + v"
  using assms cur_time_now [of s] by (auto simp: server_ok_def conf_ok_def in_ll_def)

lemma run_keyD: "run c s s' K n x W \<Longrightarrow> ddict (dbs s' i) k = Some y \<Longrightarrow> arg_ok k"
  using arg_ok_key [of s' i k y] by (simp add: run_def)

lemma set_write_run:
  assumes r: "ready c s" and i: "int i \<le> LLONG_MAX" and k: "arg_ok k" "val_ok v"
    and t: "case t of None \<Rightarrow> True | Some u \<Rightarrow> in_ll u \<and> \<not> u < cur_time s \<and> 0 \<le> u"
  shows "\<exists>s'. do {
       s4 \<leftarrow> setKey i k (createObject s v) s;
       s5 \<leftarrow> (case t of None \<Rightarrow> Some (add_dirty 1 s4) | Some u \<Rightarrow> setExpire i k u (add_dirty 1 s4));
       s6 \<leftarrow> notifyKeyspaceEvent NOTIFY_STRING ''set'' k i s5;
       if t \<noteq> None then notifyKeyspaceEvent NOTIFY_GENERIC ''expire'' k i s6 else Some s6 } = Some s'
     \<and> run c s s' (ks_upd (live s) i k (Some (v, t))) 1 [] (watchers s i k)"
proof -
  have o: "oval (createObject s v) = v" by (simp add: createObject_def)
  obtain s4 where s4: "setKey i k (createObject s v) s = Some s4"
    "run c s s4 (ks_upd (live s) i k (Some (v, None))) 0 [] (watchers s i k)" "settled s4 i k (Some (createObject s v))"
    using setKey_run [OF r i k(1), of "createObject s v"] k(2) o by auto
  note r4 = run_ready [OF s4(2) r]
  have d: "run c s4 (add_dirty 1 s4) (live s4) 1 [] {}" by (rule run_dirty [OF readyD(1) [OF r4]])
  have sd: "run c s (add_dirty 1 s4) (ks_upd (live s) i k (Some (v, None))) 1 [] (watchers s i k)"
    using run_trans [OF s4(2) d] runD(3) [OF s4(2)] by simp
  note rd = run_ready [OF sd r]
  have dd: "ddict (dbs (add_dirty 1 s4) i) k = Some (createObject s v)"
    using s4(3) by (simp add: settled_def add_dirty_def)
  obtain s5 where s5: "(case t of None \<Rightarrow> Some (add_dirty 1 s4) | Some u \<Rightarrow> setExpire i k u (add_dirty 1 s4)) = Some s5"
    "run c s s5 (ks_upd (live s) i k (Some (v, t))) 1 [] (watchers s i k)"
  proof (cases t)
    case None
    then show ?thesis using that sd by simp
  next
    case (Some u)
    have "run c (add_dirty 1 s4) (set_expires i k t (add_dirty 1 s4)) (ks_upd (live (add_dirty 1 s4)) i k (Some (v, t))) 0 [] {}"
      using expires_run [OF rd dd, of t] t Some run_conf(8) [OF sd] o by simp
    then show ?thesis
      using that [of "set_expires i k t (add_dirty 1 s4)"] run_trans [OF sd, of _ _ 0 "[]" "{}"] runD(3) [OF sd] dd Some
      by (simp add: setExpire_def)
  qed
  note r5 = run_ready [OF s5(2) r]
  obtain s6 where s6: "notifyKeyspaceEvent NOTIFY_STRING ''set'' k i s5 = Some s6" "run c s5 s6 (live s5) 0 [] {}"
    using notify_run [OF r5 k(1) i, of "''set''"] by auto
  have ss6: "run c s s6 (ks_upd (live s) i k (Some (v, t))) 1 [] (watchers s i k)"
    using run_trans [OF s5(2) s6(2)] runD(3) [OF s5(2)] by simp
  obtain s7 where s7: "notifyKeyspaceEvent NOTIFY_GENERIC ''expire'' k i s6 = Some s7" "run c s6 s7 (live s6) 0 [] {}"
    using notify_run [OF run_ready [OF ss6 r] k(1) i, of "''expire''"] by auto
  have "run c s s7 (ks_upd (live s) i k (Some (v, t))) 1 [] (watchers s i k)"
    using run_trans [OF ss6 s7(2)] runD(3) [OF ss6] by simp
  then show ?thesis using s4(1) s5(1) s6(1) s7(1) ss6 by (cases t) simp_all
qed

lemma bind_pair: "do { (a, b) \<leftarrow> m; f a b } = Some r \<longleftrightarrow> (\<exists>a b. m = Some (a, b) \<and> f a b = Some r)"
  by (auto simp: bind_eq_Some_conv)

lemma set_guard_run:
  assumes r: "ready c s" and i: "int i \<le> LLONG_MAX"
  shows "\<exists>s'. do {
       (s2, busy) \<leftarrow> (if set_nx fl then map_option (apsnd (\<lambda>v. v \<noteq> None)) (lookupKeyWrite i k s) else Some (s, False));
       (s3, missing) \<leftarrow> (if \<not> busy \<and> set_xx fl then map_option (apsnd (\<lambda>v. v = None)) (lookupKeyWrite i k s2)
                        else Some (s2, False));
       Some (s3, busy \<or> missing) }
     = Some (s', set_nx fl \<and> live s i k \<noteq> None \<or> set_xx fl \<and> live s i k = None)
     \<and> run c s s' (live s) 0 [] {}"
proof -
  obtain s1 v where l: "lookupKeyWrite i k s = Some (s1, v)" "run c s s1 (live s) 0 [] {}"
    "live s i k = map_option (\<lambda>x. (oval x, expires (dbs s1 i) k)) v"
    using lookupKeyWrite_run [OF r i] by blast
  obtain s2 w where m: "lookupKeyWrite i k s1 = Some (s2, w)" "run c s1 s2 (live s1) 0 [] {}"
    "live s1 i k = map_option (\<lambda>x. (oval x, expires (dbs s2 i) k)) w"
    using lookupKeyWrite_run [OF run_ready [OF l(2) r] i] by blast
  have "run c s s2 (live s) 0 [] {}" using run_trans [OF l(2) m(2)] runD(3) [OF l(2)] by simp
  moreover have "live s1 i k = live s i k" using runD(3) [OF l(2)] by simp
  ultimately show ?thesis
    using l m run_refl [OF readyD(1) [OF r]]
    by (cases "set_nx fl"; cases "set_xx fl"; cases "live s i k") auto
qed

definition set_core :: "nat \<Rightarrow> nat \<Rightarrow> string \<Rightarrow> 'z oval \<Rightarrow> set_flags \<Rightarrow> bool \<Rightarrow> int \<Rightarrow> string \<Rightarrow> string \<Rightarrow> 'z server \<Rightarrow> 'z server option" where
  "set_core c i key val fl has_expire milliseconds ok_reply abort_reply s1 = do {
     (s2, busy) \<leftarrow> (if set_nx fl then map_option (apsnd (\<lambda>v. v \<noteq> None)) (lookupKeyWrite i key s1)
                   else Some (s1, False));
     (s3, missing) \<leftarrow> (if \<not> busy \<and> set_xx fl
                      then map_option (apsnd (\<lambda>v. v = None)) (lookupKeyWrite i key s2) else Some (s2, False));
     if busy \<or> missing then Some (addReply c abort_reply s3)
     else do {
       s4 \<leftarrow> setKey i key (createObject s3 val) s3;
       s5 \<leftarrow> (if has_expire then setExpire i key (wrap_ll (now s4 + milliseconds)) (add_dirty 1 s4)
             else Some (add_dirty 1 s4));
       s6 \<leftarrow> notifyKeyspaceEvent NOTIFY_STRING ''set'' key i s5;
       s7 \<leftarrow> (if has_expire then notifyKeyspaceEvent NOTIFY_GENERIC ''expire'' key i s6 else Some s6);
       Some (addReply c ok_reply s7) } }"

lemma set_core_run:
  assumes r: "ready c s" and i: "int i \<le> LLONG_MAX" and k: "arg_ok k" "val_ok v"
    and t: "if has_expire then 0 < ms \<and> now s + ms \<le> LLONG_MAX else True"
  defines "e \<equiv> (if has_expire then Some (now s + ms) else None)"
  shows "\<exists>s'. set_core c i k v fl has_expire ms okr abr s = Some s'
    \<and> (if set_nx fl \<and> live s i k \<noteq> None \<or> set_xx fl \<and> live s i k = None
       then run c s s' (live s) 0 abr {}
       else run c s s' (ks_upd (live s) i k (Some (v, e))) 1 okr (watchers s i k))"
proof -
  define stop where "stop = (set_nx fl \<and> live s i k \<noteq> None \<or> set_xx fl \<and> live s i k = None)"
  obtain s1 where g: "do {
       (s2, busy) \<leftarrow> (if set_nx fl then map_option (apsnd (\<lambda>v. v \<noteq> None)) (lookupKeyWrite i k s) else Some (s, False));
       (s3, missing) \<leftarrow> (if \<not> busy \<and> set_xx fl then map_option (apsnd (\<lambda>v. v = None)) (lookupKeyWrite i k s2)
                        else Some (s2, False));
       Some (s3, busy \<or> missing) } = Some (s1, stop)" and s1: "run c s s1 (live s) 0 [] {}"
    using set_guard_run [OF r i, of fl k] unfolding stop_def by blast
  obtain s2 busy missing where b: "(if set_nx fl then map_option (apsnd (\<lambda>v. v \<noteq> None)) (lookupKeyWrite i k s) else Some (s, False)) = Some (s2, busy)"
    "(if \<not> busy \<and> set_xx fl then map_option (apsnd (\<lambda>v. v = None)) (lookupKeyWrite i k s2) else Some (s2, False)) = Some (s1, missing)"
    "busy \<or> missing \<longleftrightarrow> stop"
    using g unfolding bind_pair option.inject prod.inject by blast
  note r1 = run_ready [OF s1 r]
  have now: "now s1 = now s" "cur_time s1 = cur_time s" "watchers s1 i k = watchers s i k" "live s1 = live s"
    using run_conf(3,7,8) [OF s1] runD(3) [OF s1] by simp_all
  have "case e of None \<Rightarrow> True | Some u \<Rightarrow> in_ll u \<and> \<not> u < cur_time s1 \<and> 0 \<le> u"
    using t future_expire [OF readyD(1) [OF r], of ms] by (simp add: e_def now)
  from set_write_run [OF r1 i k this] obtain s' where w: "do {
       s4 \<leftarrow> setKey i k (createObject s1 v) s1;
       s5 \<leftarrow> (case e of None \<Rightarrow> Some (add_dirty 1 s4) | Some u \<Rightarrow> setExpire i k u (add_dirty 1 s4));
       s6 \<leftarrow> notifyKeyspaceEvent NOTIFY_STRING ''set'' k i s5;
       if e \<noteq> None then notifyKeyspaceEvent NOTIFY_GENERIC ''expire'' k i s6 else Some s6 } = Some s'"
    "run c s1 s' (ks_upd (live s1) i k (Some (v, e))) 1 [] (watchers s1 i k)"
    by blast
  obtain s4 where s4: "setKey i k (createObject s1 v) s1 = Some s4"
    "run c s1 s4 (ks_upd (live s1) i k (Some (v, None))) 0 [] (watchers s1 i k)"
    using setKey_run [OF r1 i k(1), of "createObject s1 v"] k(2) by (auto simp: createObject_def)
  have "wrap_ll (now s4 + ms) = now s + ms" if has_expire
    using that t future_expire(1) [OF readyD(1) [OF r], of ms] run_conf(3) [OF s4(2)] now by simp
  then have w1: "do {
       s5 \<leftarrow> (if has_expire then setExpire i k (wrap_ll (now s4 + ms)) (add_dirty 1 s4) else Some (add_dirty 1 s4));
       s6 \<leftarrow> notifyKeyspaceEvent NOTIFY_STRING ''set'' k i s5;
       if has_expire then notifyKeyspaceEvent NOTIFY_GENERIC ''expire'' k i s6 else Some s6 } = Some s'"
    using w(1) s4(1) by (cases has_expire) (simp_all add: e_def)
  have "run c s s' (ks_upd (live s) i k (Some (v, e))) 1 [] (watchers s i k)"
    using run_trans [OF s1 w(2)] now by simp
  note fin = end_reply [OF this, of okr]
  have core: "set_core c i k v fl has_expire ms okr abr s = (if stop then Some (addReply c abr s1)
      else map_option (addReply c okr) (do {
       s5 \<leftarrow> (if has_expire then setExpire i k (wrap_ll (now s4 + ms)) (add_dirty 1 s4) else Some (add_dirty 1 s4));
       s6 \<leftarrow> notifyKeyspaceEvent NOTIFY_STRING ''set'' k i s5;
       if has_expire then notifyKeyspaceEvent NOTIFY_GENERIC ''expire'' k i s6 else Some s6 }))"
    unfolding set_core_def b(1) bind_eq_Some_conv Option.bind.simps prod.case b(2) b(3) s4(1)
    by (auto simp: map_option_bind bind_map_option comp_def intro: option.expand split: bind_splits)
  show ?thesis
    unfolding stop_def [symmetric]
    using core w1 end_reply [OF s1, of abr] fin by (cases stop) (simp_all add: addReply_push)
qed

lemma setGeneric_core:
  assumes "ready c s" "\<forall>ch \<in> set cmd. ch \<noteq> CHR 0x0D \<and> ch \<noteq> CHR 0x0A"
  shows "setGenericCommand c cmd fl key val expire seconds okr abr s =
    (case expire of None \<Rightarrow> set_core c (cdb (clients s c)) key val fl False 0 (or_default okr shared_ok) (or_default abr shared_nullbulk) s
     | Some e \<Rightarrow> (case string_ll e of None \<Rightarrow> Some (push (to c int_error) s)
         | Some v \<Rightarrow> if v \<le> 0 then Some (push (to c (error_reply (''invalid expire time in '' @ cmd))) s)
                    else set_core c (cdb (clients s c)) key val fl True (if seconds then wrap_ll (v * 1000) else v)
                      (or_default okr shared_ok) (or_default abr shared_nullbulk) s))"
proof -
  have m: "\<forall>ch \<in> set (''invalid expire time in '' @ cmd). ch \<noteq> CHR 0x0D \<and> ch \<noteq> CHR 0x0A" using assms(2) by simp
  note err = clean_text [OF m, of c s]
  show ?thesis
  proof (cases expire)
    case None
    then show ?thesis
      unfolding setGenericCommand_def set_core_def or_default_def Let_def None by (simp cong: if_cong)
  next
    case (Some e)
    then show ?thesis
      using err unfolding setGenericCommand_def Let_def arg_ll_run(1) [OF assms(1)]
      by (cases "string_ll e") (simp_all add: set_core_def or_default_def cong: if_cong)
  qed
qed

theorem setGeneric_run:
  assumes r: "ready c s" and cmd: "\<forall>ch \<in> set cmd. ch \<noteq> CHR 0x0D \<and> ch \<noteq> CHR 0x0A"
    and k: "arg_ok key" "val_ok val" and no: "no_overflow (now s) expire seconds"
  defines "i \<equiv> cdb (clients s c)"
  shows "\<exists>s'. setGenericCommand c cmd fl key val expire seconds okr abr s = Some s'
    \<and> (case set_effect (live s) i key val fl (expire_request (now s) cmd expire seconds)
           (or_default okr shared_ok) (or_default abr shared_nullbulk) of
         (K, n, x) \<Rightarrow> run c s s' K n x (if n = 0 then {} else watchers s i key))"
proof -
  have i: "int i \<le> LLONG_MAX" unfolding i_def by (rule server_ok_cdb [OF readyD(1) [OF r]])
  note rep = run_reply [OF readyD(1) [OF r]]
  show ?thesis
  proof (cases expire)
    case None
    then show ?thesis
      using set_core_run [OF r i k, of False 0 fl "or_default okr shared_ok" "or_default abr shared_nullbulk"]
      by (auto simp: setGeneric_core [OF r cmd] set_effect_def expire_request_def simp flip: i_def)
  next
    case (Some e)
    show ?thesis
    proof (cases "string_ll e")
      case None
      then show ?thesis
        using Some rep by (simp add: setGeneric_core [OF r cmd] set_effect_def expire_request_def)
    next
      case (Some v)
      show ?thesis
      proof (cases "v \<le> 0")
        case True
        then show ?thesis
          using Some \<open>expire = Some e\<close> rep by (simp add: setGeneric_core [OF r cmd] set_effect_def expire_request_def)
      next
        case False
        let ?ms = "if seconds then v * 1000 else v"
        have ms: "0 < ?ms" "now s + ?ms \<le> LLONG_MAX"
          using False no Some \<open>expire = Some e\<close> by (simp_all add: no_overflow_def)
        have "0 < now s" using readyD(1) [OF r] by (simp add: server_ok_def conf_ok_def)
        then have "in_ll ?ms" using ms by (simp only: in_ll_def) linarith
        then have w: "(if seconds then wrap_ll (v * 1000) else v) = ?ms" by (cases seconds) simp_all
        show ?thesis
          unfolding setGeneric_core [OF r cmd] \<open>expire = Some e\<close> option.case Some w i_def [symmetric]
          using set_core_run [OF r i k, of True ?ms fl "or_default okr shared_ok" "or_default abr shared_nullbulk"] ms False
          by (auto simp: set_effect_def expire_request_def Some)
      qed
    qed
  qed
qed

subsection \<open>Updates of one value\<close>

lemma store_run:
  assumes r: "ready c s" and st: "settled s i k v" and k: "arg_ok k" "val_ok (oval x)"
  shows "\<exists>s'. (case v of Some _ \<Rightarrow> dbOverwrite i k x s | None \<Rightarrow> dbAdd i k x s) = Some s'
    \<and> run c s s' (ks_upd (live s) i k (Some (oval x, expires (dbs s i) k))) 0 [] {}
    \<and> settled s' i k (Some x) \<and> expires (dbs s' i) k = expires (dbs s i) k"
proof (cases v)
  case None
  then have "ddict (dbs s i) k = None" using st by (simp add: settled_def)
  from add_run [OF r this k] None expire_free [OF readyD(1) [OF r] this] show ?thesis by auto
next
  case (Some y)
  then have "\<not> expired s i k" "ddict (dbs s i) k = Some y" using st by (simp_all add: settled_def)
  with put_run [OF r this(1) k] Some show ?thesis by (auto simp: dbOverwrite_def)
qed

lemma modify_run:
  assumes r: "ready c s" and st: "settled s i k (Some y)" and k: "arg_ok k" "arg_ok x"
  shows "run c s (modify_value i k (StrRaw x) s) (ks_upd (live s) i k (Some (StrRaw x, expires (dbs s i) k))) 0 [] {}"
proof -
  have "\<not> expired s i k" "ddict (dbs s i) k = Some y" using st by (simp_all add: settled_def)
  with put_run [OF r this(1) k(1), of "y\<lparr>oval := StrRaw x\<rparr>"] k(2) show ?thesis by (simp add: modify_value_def)
qed

text \<open>\<open>dbUnshareStringValue\<close> and the change of the string it returns.\<close>

lemma unshare_modify_run:
  assumes r: "ready c s" and st: "settled s i k (Some y)" and k: "arg_ok k" "arg_ok x"
    and y: "otype (oval y) = REDIS_STRING" "val_ok (oval y)"
  shows "\<exists>s'. dbUnshareStringValue i k y s = Some (s', str_val (oval y))
    \<and> run c s (modify_value i k (StrRaw x) s') (ks_upd (live s) i k (Some (StrRaw x, expires (dbs s i) k))) 0 [] {}"
proof (cases "oval y")
  case (StrRaw z)
  then show ?thesis using modify_run [OF r st k] by (simp add: dbUnshareStringValue_def)
next
  case (StrInt n)
  let ?o = "createObject s (StrRaw (ll2str n))"
  have o: "val_ok (oval ?o)" using y(2) StrInt length_show_int [of n] by (simp add: createObject_def arg_ok_def)
  obtain s1 where s1: "dbOverwrite i k ?o s = Some s1"
    "run c s s1 (ks_upd (live s) i k (Some (oval ?o, expires (dbs s i) k))) 0 [] {}"
    "settled s1 i k (Some ?o)" "expires (dbs s1 i) k = expires (dbs s i) k"
    using store_run [OF r st k(1) o] by auto
  have "run c s (modify_value i k (StrRaw x) s1) (ks_upd (live s) i k (Some (StrRaw x, expires (dbs s i) k))) 0 [] {}"
    using run_trans [OF s1(2) modify_run [OF run_ready [OF s1(2) r] s1(3) k]] runD(3) [OF s1(2)] s1(4) by simp
  then show ?thesis using StrInt s1(1) y(2) by (simp add: dbUnshareStringValue_def)
qed (use y(1) in simp_all)

definition entry_ttl :: "('z oval \<times> int option) option \<Rightarrow> int option" where
  "entry_ttl e = (case e of None \<Rightarrow> None | Some (v, t) \<Rightarrow> t)"

lemma settled_ttl:
  "ready c s \<Longrightarrow> settled s i k v \<Longrightarrow> live s i k = map_option (\<lambda>x. (oval x, expires (dbs s i) k)) v
     \<and> entry_ttl (live s i k) = expires (dbs s i) k"
  using settled_live [of s i k v] expire_free [of s i k] readyD(1) [of c s]
  by (cases v) (simp_all add: entry_ttl_def settled_def)

text \<open>The last steps: the value is stored, and the change is signalled, notified, counted and answered.\<close>

lemma finish_run:
  assumes r: "ready c s" and w: "run c s s1 (ks_upd (live s) i k e) 0 [] {}" and k: "arg_ok k" and i: "int i \<le> LLONG_MAX"
    and ev: "length ev \<le> 100"
  shows "\<exists>s2. notifyKeyspaceEvent ty ev k i (signalModifiedKey i k s1) = Some s2
    \<and> run c s (push (to c x) (add_dirty 1 s2)) (ks_upd (live s) i k e) 1 x (watchers s i k)"
proof -
  obtain s2 where s2: "notifyKeyspaceEvent ty ev k i (signalModifiedKey i k s1) = Some s2"
    "run c s1 (add_dirty 1 s2) (live s1) 1 [] (watchers s1 i k)"
    using change_run [OF run_ready [OF w r] k i ev] by blast
  have "run c s (add_dirty 1 s2) (ks_upd (live s) i k e) 1 [] (watchers s i k)"
    using run_trans [OF w s2(2)] runD(3) [OF w] run_conf(7) [OF w] by simp
  from end_reply [OF this] s2(1) show ?thesis by simp
qed

lemma incr_overflows_iff: "in_ll a \<Longrightarrow> in_ll b \<Longrightarrow> incr_overflows a b \<longleftrightarrow> \<not> in_ll (a + b)"
  by (auto simp: incr_overflows_def in_ll_def)

definition is_string :: "('z oval \<times> int option) option \<Rightarrow> bool" where
  "is_string e = (case e of None \<Rightarrow> True | Some (v, t) \<Rightarrow> otype v = REDIS_STRING)"

definition incr_effect :: "'z keyspace \<Rightarrow> nat \<Rightarrow> string \<Rightarrow> int \<Rightarrow> 'z keyspace \<times> int \<times> string" where
  "incr_effect ks i k incr =
     (if \<not> is_string (ks i k) then (ks, 0, shared_wrongtypeerr)
      else case num_val (ks i k) of
        None \<Rightarrow> (ks, 0, int_error)
      | Some v \<Rightarrow>
          if in_ll (v + incr) then (ks_upd ks i k (Some (StrInt (v + incr), entry_ttl (ks i k))), 1, int_reply (v + incr))
          else (ks, 0, error_reply ''increment or decrement would overflow''))"

lemma num_val_object:
  assumes "e = map_option (\<lambda>x. (oval x, t)) v" "is_string e" "\<forall>x. v = Some x \<longrightarrow> val_ok (oval x)"
  shows "getLongLongFromObject (map_option oval v) = Some (num_val e)" "num_val e = Some n \<Longrightarrow> in_ll n"
  using assms string_ll_range
  by (cases v; cases "oval (the v)"; force simp: getLongLongFromObject_def num_val_def is_string_def in_ll_def)+

lemma incr_run:
  assumes r: "ready c s" and k: "arg_ok (arg c 1 s)" and n: "in_ll incr"
  shows "\<exists>s'. incrDecrCommand c incr s = Some s'
    \<and> (case incr_effect (live s) (cdb (clients s c)) (arg c 1 s) incr of
         (K, n, x) \<Rightarrow> run c s s' K n x (if n = 0 then {} else watchers s (cdb (clients s c)) (arg c 1 s)))"
proof -
  define i key where "i = cdb (clients s c)" and "key = arg c 1 s"
  have i: "int i \<le> LLONG_MAX" unfolding i_def by (rule server_ok_cdb [OF readyD(1) [OF r]])
  obtain s1 v where l: "lookupKeyWrite i key s = Some (s1, v)" "run c s s1 (live s) 0 [] {}" "settled s1 i key v"
    using lookupKeyWrite_run [OF r i] by blast
  note r1 = run_ready [OF l(2) r]
  have e: "live s i key = map_option (\<lambda>x. (oval x, expires (dbs s1 i) key)) v" "entry_ttl (live s i key) = expires (dbs s1 i) key"
    using settled_ttl [OF r1 l(3)] unfolding runD(3) [OF l(2)] by blast+
  have vok: "\<forall>x. v = Some x \<longrightarrow> val_ok (oval x)" using settled_val [OF l(2)] l(3) by blast
  have type: "(case v of None \<Rightarrow> (s1, False) | Some val \<Rightarrow> checkType c (oval val) REDIS_STRING s1)
      = (if is_string (live s i key) then (s1, False) else (push (to c shared_wrongtypeerr) s1, True))"
    using checkType_run(1) [OF l(2)] by (cases v) (simp_all add: e is_string_def)
  note unf = incrDecrCommand_def Let_def i_def [symmetric] key_def [symmetric] l(1) Option.bind.simps prod.case type
  show ?thesis
  proof (cases "is_string (live s i key)")
    case False
    then show ?thesis
      using end_reply [OF l(2), of shared_wrongtypeerr] unfolding unf by (simp add: incr_effect_def)
  next
    case True
    note nv = num_val_object [OF e(1) True vok]
    show ?thesis
    proof (cases "num_val (live s i key)")
      case None
      then show ?thesis
        using True nv(1) end_reply [OF l(2), of int_error] unfolding unf
        by (simp add: incr_effect_def getLongLongFromObjectOrReply_def push_simps int_error_def)
    next
      case (Some old)
      have old: "in_ll old" using nv(2) [OF Some] .
      show ?thesis
      proof (cases "in_ll (old + incr)")
        case False
        then show ?thesis
          using True nv(1) Some end_reply [OF l(2), of "error_reply ''increment or decrement would overflow''"]
            incr_overflows_iff [OF old n] unfolding unf
          by (simp add: incr_effect_def getLongLongFromObjectOrReply_def push_simps)
      next
        case in_range: True
        let ?new = "StrInt (old + incr)"
        obtain s2 where s2: "(case v of Some _ \<Rightarrow> dbOverwrite i key (createObject s1 ?new) s1
            | None \<Rightarrow> dbAdd i key (createObject s1 ?new) s1) = Some s2"
          "run c s1 s2 (ks_upd (live s1) i key (Some (?new, expires (dbs s1 i) key))) 0 [] {}"
          using store_run [OF r1 l(3) k [folded key_def], of "createObject s1 ?new"] in_range by (auto simp: createObject_def)
        have w: "run c s s2 (ks_upd (live s) i key (Some (?new, expires (dbs s1 i) key))) 0 [] {}"
          using run_trans [OF l(2) s2(2)] runD(3) [OF l(2)] by simp
        obtain s3 where s3: "notifyKeyspaceEvent NOTIFY_STRING ''incrby'' key i (signalModifiedKey i key s2) = Some s3"
          "run c s (push (to c (int_reply (old + incr))) (add_dirty 1 s3))
             (ks_upd (live s) i key (Some (?new, expires (dbs s1 i) key))) 1 (int_reply (old + incr)) (watchers s i key)"
          using finish_run [OF r w k [folded key_def] i, of "''incrby''"] by auto
        have out: "addReplyObj c ?new (addReply c '':'' t) = Some (push (to c ('':'' @ show_int (old + incr))) t)" for t :: "'a server"
          using in_range by (cases "prepareClientToWrite (clients t c)")
            (simp_all add: addReplyObj_def addReply_push push_def writable_def to_def fun_eq_iff)
        show ?thesis
          using True nv(1) Some in_range incr_overflows_iff [OF old n] s2(1) s3 out e(2) unfolding unf
          by (simp add: incr_effect_def getLongLongFromObjectOrReply_def createStringObjectFromLongLong_def addReply_push
              int_reply_def cong: option.case_cong)
      qed
    qed
  qed
qed

end
