(* ===== verification/String_Updates.thy ===== *)
theory String_Updates
  imports String_Correct
begin

unbundle bit_operations_syntax

declare One_nat_def [simp del]

text \<open>
  The remaining string commands: \<open>APPEND\<close>, \<open>SETRANGE\<close>, \<open>GETRANGE\<close>, \<open>GETSET\<close>, the arguments of the counters, and
  the commands on several keys.
\<close>

subsection \<open>APPEND\<close>

definition too_long :: string where "too_long = error_reply ''string exceeds maximum allowed size (512MB)''"

lemma checkStringLength_push:
  "checkStringLength c n s = (if n > 536870912 then (push (to c too_long) s, False) else (s, True))"
  by (simp add: checkStringLength_def push_simps too_long_def)

definition entry_str :: "('z oval \<times> int option) option \<Rightarrow> string" where
  "entry_str e = (case e of None \<Rightarrow> [] | Some (v, t) \<Rightarrow> str_val v)"

text \<open>A string is stored in place of the old one, with the same time to live, and its length is answered.\<close>

definition grow_effect :: "'z keyspace \<Rightarrow> nat \<Rightarrow> string \<Rightarrow> 'z oval \<Rightarrow> 'z keyspace \<times> int \<times> string" where
  "grow_effect ks i k v = (ks_upd ks i k (Some (v, entry_ttl (ks i k))), 1, int_reply (int (length (str_val v))))"

definition append_effect :: "'z keyspace \<Rightarrow> nat \<Rightarrow> string \<Rightarrow> string \<Rightarrow> 'z keyspace \<times> int \<times> string" where
  "append_effect ks i k app =
     (if \<not> is_string (ks i k) then (ks, 0, shared_wrongtypeerr)
      else if ks i k = None then grow_effect ks i k (tryObjectEncoding app)
      else if length (entry_str (ks i k)) + length app > 536870912 then (ks, 0, too_long)
      else grow_effect ks i k (StrRaw (entry_str (ks i k) @ app)))"

lemma settled_keep:
  assumes "run c s s1 (live s) 0 [] {}" "ready c s" "settled s1 i k v"
  shows "live s i k = map_option (\<lambda>x. (oval x, expires (dbs s1 i) k)) v" "entry_ttl (live s i k) = expires (dbs s1 i) k"
    "\<And>y. v = Some y \<Longrightarrow> arg_ok k \<and> val_ok (oval y)"
  using settled_ttl [OF run_ready [OF assms(1,2)] assms(3)] settled_val [OF assms(1)] assms(3)
  unfolding runD(3) [OF assms(1)] by blast+

lemma append_run:
  assumes r: "ready c s" and k: "arg_ok (arg c 1 s)" "arg_ok (arg c 2 s)"
  shows "\<exists>s'. appendCommand c s = Some s'
    \<and> (case append_effect (live s) (cdb (clients s c)) (arg c 1 s) (arg c 2 s) of
         (K, n, x) \<Rightarrow> run c s s' K n x (if n = 0 then {} else watchers s (cdb (clients s c)) (arg c 1 s)))"
proof -
  define i key app where "i = cdb (clients s c)" and "key = arg c 1 s" and "app = arg c 2 s"
  note k' = k [folded key_def app_def]
  have i: "int i \<le> LLONG_MAX" unfolding i_def by (rule server_ok_cdb [OF readyD(1) [OF r]])
  obtain s1 v where l: "lookupKeyWrite i key s = Some (s1, v)" "run c s s1 (live s) 0 [] {}" "settled s1 i key v"
    using lookupKeyWrite_run [OF r i] by blast
  note r1 = run_ready [OF l(2) r]
  note e = settled_keep [OF l(2) r l(3)]
  note unf = appendCommand_def Let_def i_def [symmetric] key_def [symmetric] app_def [symmetric] l(1) Option.bind.simps prod.case
  have fin: "\<exists>s5. notifyKeyspaceEvent NOTIFY_STRING ''append'' key i (signalModifiedKey i key s2) = Some s5
      \<and> run c s (addReplyLongLong c (int n) (add_dirty 1 s5)) (ks_upd (live s) i key x) 1 (int_reply (int n)) (watchers s i key)"
    if "run c s s2 (ks_upd (live s) i key x) 0 [] {}" "n \<le> 536870912" for s2 x n
    using finish_run [OF r that(1) k'(1) i, of "''append''"] that(2) by (simp add: push_simps in_ll_def)
  show ?thesis
  proof (cases v)
    case None
    let ?o = "tryObjectEncoding app :: 'a oval"
    have o: "stringObjectLen ?o = Some (length app)" using str_len [OF tryObjectEncoding_ok [OF k'(2)]] by simp
    have "ddict (dbs s1 i) key = None" using l(3) None by (simp add: settled_def)
    from add_run [OF r1 this k'(1), of "createObject s1 ?o"] obtain s2 where
      s2: "dbAdd i key (createObject s1 ?o) s1 = Some s2" "run c s1 s2 (ks_upd (live s1) i key (Some (?o, None))) 0 [] {}"
      using tryObjectEncoding_ok [OF k'(2)] by (auto simp: createObject_def)
    have "run c s s2 (ks_upd (live s) i key (Some (?o, None))) 0 [] {}"
      using run_trans [OF l(2) s2(2)] runD(3) [OF l(2)] by simp
    from fin [OF this, of "length app"] k'(2) obtain s5 where
      "notifyKeyspaceEvent NOTIFY_STRING ''append'' key i (signalModifiedKey i key s2) = Some s5"
      "run c s (addReplyLongLong c (int (length app)) (add_dirty 1 s5)) (ks_upd (live s) i key (Some (?o, None))) 1
        (int_reply (int (length app))) (watchers s i key)"
      by (auto simp: arg_ok_def)
    then show ?thesis
      using None e(1) s2(1) o unfolding unf
      by (simp add: append_effect_def grow_effect_def is_string_def entry_ttl_def)
  next
    case (Some y)
    note y = e(3) [OF Some]
    have live: "live s i key = Some (oval y, expires (dbs s1 i) key)" using e(1) Some by simp
    show ?thesis
    proof (cases "otype (oval y) = REDIS_STRING")
      case False
      then show ?thesis
        using live Some checkType_run [OF l(2)] unfolding unf by (simp add: append_effect_def is_string_def)
    next
      case True
      note len = str_len [OF conjunct2 [OF y] True]
      show ?thesis
      proof (cases "length (str_val (oval y)) + length app > 536870912")
        case big: True
        then show ?thesis
          using True live Some len checkType_run(1) [OF l(2)] end_reply [OF l(2), of too_long] unfolding unf
          by (simp add: append_effect_def is_string_def entry_str_def checkStringLength_push)
      next
        case False
        then have ok: "arg_ok (str_val (oval y) @ app)" by (simp add: arg_ok_def)
        obtain s2 where s2: "dbUnshareStringValue i key y s1 = Some (s2, str_val (oval y))"
          "run c s1 (modify_value i key (StrRaw (str_val (oval y) @ app)) s2)
             (ks_upd (live s1) i key (Some (StrRaw (str_val (oval y) @ app), expires (dbs s1 i) key))) 0 [] {}"
          using unshare_modify_run [OF r1 l(3) [unfolded Some] k'(1) ok True] y by blast
        have "run c s (modify_value i key (StrRaw (str_val (oval y) @ app)) s2)
             (ks_upd (live s) i key (Some (StrRaw (str_val (oval y) @ app), expires (dbs s1 i) key))) 0 [] {}"
          using run_trans [OF l(2) s2(2)] runD(3) [OF l(2)] by simp
        from fin [OF this, of "length (str_val (oval y) @ app)"] ok
        show ?thesis
          using False True live Some len s2(1) checkType_run(1) [OF l(2)] e(2) unfolding unf
          by (auto simp: append_effect_def grow_effect_def is_string_def entry_str_def checkStringLength_push arg_ok_def)
      qed
    qed
  qed
qed

subsection \<open>SETRANGE\<close>

lemma length_overlay: "v \<noteq> [] \<Longrightarrow> length (overlay x off v) = max (length x) (off + length v)"
  by (simp add: overlay_def)

text \<open>Each byte of the result is a byte of the data, an old byte, or a zero byte of the gap.\<close>

lemma overlay_nth:
  assumes "j < max (length x) (off + length v)" "v \<noteq> []"
  shows "overlay x off v ! j = (if off \<le> j \<and> j < off + length v then v ! (j - off)
    else if j < length x then x ! j else NUL)"
proof -
  define pre where "pre = take off (x @ replicate (off - length x) NUL)"
  have pre: "length pre = off" "\<And>j. j < off \<Longrightarrow> pre ! j = (if j < length x then x ! j else NUL)"
    by (auto simp: pre_def nth_append)
  have "overlay x off v = pre @ v @ drop (off + length v) x" by (simp add: overlay_def pre_def)
  then show ?thesis using assms pre by (auto simp: nth_append)
qed

text \<open>What is done once the offset has been read.\<close>

definition setrange_core :: "'z keyspace \<Rightarrow> nat \<Rightarrow> string \<Rightarrow> nat \<Rightarrow> string \<Rightarrow> 'z keyspace \<times> int \<times> string" where
  "setrange_core ks i k off data =
     (if \<not> is_string (ks i k) then (ks, 0, shared_wrongtypeerr)
      else if data = [] then (ks, 0, int_reply (int (length (entry_str (ks i k)))))
      else if off + length data > 536870912 then (ks, 0, too_long)
      else grow_effect ks i k (StrRaw (overlay (entry_str (ks i k)) off data)))"

definition setrange_effect :: "'z keyspace \<Rightarrow> nat \<Rightarrow> string \<Rightarrow> string \<Rightarrow> string \<Rightarrow> 'z keyspace \<times> int \<times> string" where
  "setrange_effect ks i k a data = (case string_ll a of None \<Rightarrow> (ks, 0, int_error)
     | Some off \<Rightarrow> if off < 0 then (ks, 0, error_reply ''offset is out of range'')
                  else setrange_core ks i k (nat off) data)"

definition setrange_fits :: "string \<Rightarrow> string \<Rightarrow> bool" where
  "setrange_fits a data \<longleftrightarrow> (\<forall>off. string_ll a = Some off \<longrightarrow> off + int (length data) \<le> LLONG_MAX)"

lemma overlay_ok: "off + length data \<le> 536870912 \<Longrightarrow> arg_ok x \<Longrightarrow> data \<noteq> [] \<Longrightarrow> arg_ok (overlay x off data)"
  by (simp add: arg_ok_def length_overlay)

lemma setrange_write_run:
  assumes r: "ready c s" and k: "arg_ok key" and i: "int i \<le> LLONG_MAX" and ne: "data \<noteq> []"
    and fits: "off + length data \<le> 536870912" "arg_ok x"
    and w: "run c s (modify_value i key (StrRaw (overlay x off data)) s2)
      (ks_upd (live s) i key (Some (StrRaw (overlay x off data), t))) 0 [] {}"
  shows "\<exists>s'. setrange_write i key off data x c s2 = Some s'
    \<and> run c s s' (ks_upd (live s) i key (Some (StrRaw (overlay x off data), t))) 1
        (int_reply (int (length (overlay x off data)))) (watchers s i key)"
proof -
  define x' where "x' = overlay x off data"
  have "length x' \<le> 536870912" using overlay_ok [OF fits ne] by (simp add: x'_def arg_ok_def)
  then have "addReplyLongLong c (int (length x')) u = push (to c (int_reply (int (length x')))) u" for u :: "'a server"
    by (simp add: push_simps in_ll_def)
  then show ?thesis
    using finish_run [OF r w k i, of "''setrange''" NOTIFY_STRING "int_reply (int (length x'))"] fits(1)
    by (auto simp: setrange_write_def Let_def x'_def [symmetric])
qed

lemma setrange_missing_run:
  assumes r: "ready c s" and k: "arg_ok key" and i: "int i \<le> LLONG_MAX"
    and l: "run c s s1 (live s) 0 [] {}" "settled s1 i key None"
  shows "\<exists>s'. setrange_missing c i key off (int (off + length data)) data s1 = Some s'
    \<and> (case setrange_core (live s) i key off data of
         (K, n, x) \<Rightarrow> run c s s' K n x (if n = 0 then {} else watchers s i key))"
proof -
  note r1 = run_ready [OF l(1) r]
  have live: "live s i key = None" "entry_ttl (live s i key) = None"
    using settled_keep [OF l(1) r l(2)] by (simp_all add: entry_ttl_def)
  note spec = setrange_core_def live(1) is_string_def entry_str_def option.case
  consider "data = []" | "data \<noteq> []" "off + length data > 536870912" | "data \<noteq> []" "off + length data \<le> 536870912"
    by linarith
  then show ?thesis
  proof cases
    case 1
    then show ?thesis
      using end_reply [OF l(1), of shared_czero] unfolding spec
      by (simp add: setrange_missing_def push_simps shared_czero_def int_reply_def show_int_small)
  next
    case 2
    then show ?thesis
      using end_reply [OF l(1), of too_long] unfolding spec
      by (simp add: setrange_missing_def checkStringLength_push del: of_nat_add)
  next
    case 3
    have "ddict (dbs s1 i) key = None" using l(2) by (simp add: settled_def)
    from add_run [OF r1 this k, of "createObject s1 (StrRaw [])"] obtain s2 where
      s2: "dbAdd i key (createObject s1 (StrRaw [])) s1 = Some s2"
      "run c s1 s2 (ks_upd (live s1) i key (Some (StrRaw [], None))) 0 [] {}"
      "settled s2 i key (Some (createObject s1 (StrRaw [])))" "expires (dbs s2 i) key = None"
      by (auto simp: createObject_def arg_ok_def)
    have ss2: "run c s s2 (ks_upd (live s) i key (Some (StrRaw [], None))) 0 [] {}"
      using run_trans [OF l(1) s2(2)] runD(3) [OF l(1)] by simp
    have nil: "arg_ok []" by (simp add: arg_ok_def)
    have "run c s (modify_value i key (StrRaw (overlay [] off data)) s2)
        (ks_upd (live s) i key (Some (StrRaw (overlay [] off data), None))) 0 [] {}"
      using run_trans [OF ss2 modify_run [OF run_ready [OF ss2 r] s2(3) k overlay_ok [OF 3(2) nil 3(1)]]]
        runD(3) [OF ss2] s2(4) by simp
    from setrange_write_run [OF r k i 3 nil this] s2(1) 3 show ?thesis
      unfolding spec by (auto simp: setrange_missing_def checkStringLength_push grow_effect_def live(1) entry_ttl_def simp del: of_nat_add)
  qed
qed

lemma setrange_present_run:
  assumes r: "ready c s" and k: "arg_ok key" and i: "int i \<le> LLONG_MAX"
    and l: "run c s s1 (live s) 0 [] {}" "settled s1 i key (Some y)"
  shows "\<exists>s'. setrange_present c i key off (int (off + length data)) data y s1 = Some s'
    \<and> (case setrange_core (live s) i key off data of
         (K, n, x) \<Rightarrow> run c s s' K n x (if n = 0 then {} else watchers s i key))"
proof -
  note r1 = run_ready [OF l(1) r]
  note e = settled_keep [OF l(1) r l(2)]
  note y = conjunct2 [OF e(3) [OF refl]]
  have live: "live s i key = Some (oval y, expires (dbs s1 i) key)" using e(1) by simp
  note spec = setrange_core_def live is_string_def entry_str_def option.case prod.case
  note ty = checkType_run(1) [OF l(1), of "oval y"]
  define x where "x = str_val (oval y)"
  have len: "stringObjectLen (oval y) = Some (length x)" if "otype (oval y) = REDIS_STRING"
    using str_len [OF y that] by (simp add: x_def)
  have x: "arg_ok x" "in_ll (int (length x))" using str_val_length [OF y] in_ll_len [OF y] by (simp_all add: x_def arg_ok_def)
  consider "otype (oval y) \<noteq> REDIS_STRING" | "otype (oval y) = REDIS_STRING" "data = []"
    | "otype (oval y) = REDIS_STRING" "data \<noteq> []" "off + length data > 536870912"
    | "otype (oval y) = REDIS_STRING" "data \<noteq> []" "off + length data \<le> 536870912" by linarith
  then show ?thesis
  proof cases
    case 1
    then show ?thesis using ty checkType_run(2) [OF l(1)] unfolding spec by (simp add: setrange_present_def)
  next
    case 2
    then show ?thesis
      using ty len x end_reply [OF l(1), of "int_reply (int (length x))"] unfolding spec
      by (simp add: setrange_present_def push_simps x_def)
  next
    case 3
    then show ?thesis
      using ty len end_reply [OF l(1), of too_long] unfolding spec
      by (simp add: setrange_present_def checkStringLength_push del: of_nat_add)
  next
    case 4
    let ?x = "overlay x off data"
    obtain s2 where s2: "dbUnshareStringValue i key y s1 = Some (s2, x)"
      "run c s1 (modify_value i key (StrRaw ?x) s2) (ks_upd (live s1) i key (Some (StrRaw ?x, expires (dbs s1 i) key))) 0 [] {}"
      using unshare_modify_run [OF r1 l(2) k overlay_ok [OF 4(3) x(1) 4(2)] 4(1) y] unfolding x_def by blast
    have "run c s (modify_value i key (StrRaw ?x) s2) (ks_upd (live s) i key (Some (StrRaw ?x, expires (dbs s1 i) key))) 0 [] {}"
      using run_trans [OF l(1) s2(2)] runD(3) [OF l(1)] by simp
    from setrange_write_run [OF r k i 4(2,3) x(1) this] s2(1) 4 ty len show ?thesis
      unfolding spec by (auto simp: setrange_present_def checkStringLength_push grow_effect_def live entry_ttl_def x_def simp del: of_nat_add)
  qed
qed

lemma setrange_run:
  assumes r: "ready c s" and k: "arg_ok (arg c 1 s)" and fits: "setrange_fits (arg c 2 s) (arg c 3 s)"
  shows "\<exists>s'. setrangeCommand c s = Some s'
    \<and> (case setrange_effect (live s) (cdb (clients s c)) (arg c 1 s) (arg c 2 s) (arg c 3 s) of
         (K, n, x) \<Rightarrow> run c s s' K n x (if n = 0 then {} else watchers s (cdb (clients s c)) (arg c 1 s)))"
proof -
  define i where "i = cdb (clients s c)"
  have i: "int i \<le> LLONG_MAX" unfolding i_def by (rule server_ok_cdb [OF readyD(1) [OF r]])
  note rep = run_reply [OF readyD(1) [OF r], of c]
  consider "string_ll (arg c 2 s) = None" | n where "string_ll (arg c 2 s) = Some n" "n < 0"
    | n where "string_ll (arg c 2 s) = Some n" "0 \<le> n" by (cases "string_ll (arg c 2 s)") force+
  then show ?thesis
  proof cases
    case 3
    have "n + int (length (arg c 3 s)) \<le> LLONG_MAX" using fits 3(1) unfolding setrange_fits_def by blast
    with 3(2) have "wrap_ll (n + int (length (arg c 3 s))) = n + int (length (arg c 3 s))" by (intro wrap_ll_id) (simp add: in_ll_def)
    then have tot: "wrap_ll (n + int (length (arg c 3 s))) = int (nat n + length (arg c 3 s))" using 3(2) by simp
    obtain s1 v where l: "lookupKeyWrite i (arg c 1 s) s = Some (s1, v)" "run c s s1 (live s) 0 [] {}" "settled s1 i (arg c 1 s) v"
      using lookupKeyWrite_run [OF r i] by blast
    have cmd: "setrangeCommand c s = (case v of
         None \<Rightarrow> setrange_missing c i (arg c 1 s) (nat n) (int (nat n + length (arg c 3 s))) (arg c 3 s) s1
       | Some val \<Rightarrow> setrange_present c i (arg c 1 s) (nat n) (int (nat n + length (arg c 3 s))) (arg c 3 s) val s1)"
      using 3 l(1) tot arg_ll_run(2) [OF r] by (simp add: setrangeCommand_def Let_def i_def [symmetric] cong: option.case_cong)
    have spec: "setrange_effect (live s) i (arg c 1 s) (arg c 2 s) (arg c 3 s) = setrange_core (live s) i (arg c 1 s) (nat n) (arg c 3 s)"
      using 3 by (simp add: setrange_effect_def)
    show ?thesis
      unfolding cmd i_def [symmetric] spec
      using setrange_missing_run [OF r k i l(2), where off = "nat n" and data = "arg c 3 s"]
        setrange_present_run [OF r k i l(2), where off = "nat n" and data = "arg c 3 s"] l(3)
      by (cases v) (simp_all only: option.case)
  qed (use rep arg_ll_run(2) [OF r] in \<open>simp_all add: setrangeCommand_def setrange_effect_def push_simps\<close>)
qed

subsection \<open>GETRANGE\<close>

text \<open>
  The bytes whose positions lie in the range; a negative index counts from the end. An end before the
  first byte is taken for the first byte.
\<close>

definition slice :: "string \<Rightarrow> int \<Rightarrow> int \<Rightarrow> string" where
  "slice x a b =
     (let n = int (length x); lo = (if a < 0 then n + a else a); hi = (if b < 0 then n + b else b)
      in nths x {p. lo \<le> int p \<and> int p \<le> max 0 hi})"

lemma nths_interval: "nths x {l..<l + m} = take m (drop l x)"
proof -
  have "take m (drop l x) = nths (drop l x) {..<m}" by simp
  also have "\<dots> = nths x ((+) l ` {..<m})" by (rule nths_drop)
  also have "(+) l ` {..<m} = {l..<l + m}" by (simp add: lessThan_atLeast0 add.commute)
  finally show ?thesis ..
qed

lemma nths_cong_set: "(\<And>p. p < length x \<Longrightarrow> p \<in> A \<longleftrightarrow> p \<in> B) \<Longrightarrow> nths x A = nths x B"
  unfolding nths_def by (rule arg_cong [where f = "map fst"], rule filter_cong) (auto simp: set_zip)

lemma nths_empty_range: "(\<And>p. p < length x \<Longrightarrow> p \<notin> A) \<Longrightarrow> nths x A = []"
  by (auto simp: nths_def filter_empty_conv set_zip)

lemma range_slice:
  assumes "range_bounds (int (length x)) a b = (start, end1)"
  shows "slice x a b = (if start > end1 \<or> x = [] then [] else take (nat (end1 - start + 1)) (drop (nat start) x))"
proof -
  define lo hi where "lo = (if a < 0 then int (length x) + a else a)" and "hi = (if b < 0 then int (length x) + b else b)"
  have se: "start = max 0 lo" "end1 = min (max 0 hi) (int (length x) - 1)"
    using assms by (auto simp: range_bounds_def Let_def lo_def hi_def)
  have sl: "slice x a b = nths x {p. lo \<le> int p \<and> int p \<le> max 0 hi}" by (simp add: slice_def Let_def lo_def hi_def)
  show ?thesis
  proof (cases "start > end1 \<or> x = []")
    case True
    then show ?thesis unfolding sl using se by (auto intro!: nths_empty_range)
  next
    case False
    have "nths x {p. lo \<le> int p \<and> int p \<le> max 0 hi} = nths x {nat start..<nat start + nat (end1 - start + 1)}"
      using False se by (intro nths_cong_set) (auto simp: min_def max_def split: if_splits)
    then show ?thesis using False unfolding sl nths_interval by simp
  qed
qed

lemma range_in_ll: "val_ok v \<Longrightarrow> length x \<le> length (str_val v) \<Longrightarrow> in_ll (int (length x))"
  using str_val_length [of v] by (simp add: in_ll_def)

definition getrange_reply :: "('z oval \<times> int option) option \<Rightarrow> string \<Rightarrow> string \<Rightarrow> string" where
  "getrange_reply e a b =
     (case (string_ll a, string_ll b) of
        (Some n, Some m) \<Rightarrow> if is_string e then bulk (slice (entry_str e) n m) else shared_wrongtypeerr
      | _ \<Rightarrow> int_error)"

lemma emptybulk: "shared_emptybulk = bulk []"
  by (simp add: shared_emptybulk_def bulk_def show_int_small)

lemma slice_nil [simp]: "slice [] a b = []"
  by (simp add: slice_def Let_def)

lemma slice_length: "length (slice x a b) \<le> length x"
  by (simp add: slice_def Let_def length_nths) (metis (no_types, lifting) card_mono finite_lessThan card_lessThan mem_Collect_eq subsetI lessThan_iff)

lemma getrange_run:
  assumes r: "ready c s"
  defines "e \<equiv> live s (cdb (clients s c)) (arg c 1 s)"
  shows "\<exists>s'. getrangeCommand c s = Some s' \<and> run c s s' (live s) 0 (getrange_reply e (arg c 2 s) (arg c 3 s)) {}"
proof -
  note rep = run_reply [OF readyD(1) [OF r], of c int_error]
  consider "string_ll (arg c 2 s) = None" | n where "string_ll (arg c 2 s) = Some n" "string_ll (arg c 3 s) = None"
    | n m where "string_ll (arg c 2 s) = Some n" "string_ll (arg c 3 s) = Some m"
    by (cases "string_ll (arg c 2 s)"; cases "string_ll (arg c 3 s)") auto
  then show ?thesis
  proof cases
    case 3
    obtain s' v where l: "lookupKeyReadOrReply c (arg c 1 s) shared_emptybulk s = Some (s', v)"
      "run c s s' (live s) 0 (if v = None then shared_emptybulk else []) {}" "settled s' (cdb (clients s c)) (arg c 1 s) v"
      "e = map_option (\<lambda>x. (oval x, expires (dbs s' (cdb (clients s c))) (arg c 1 s))) v"
      using readOrReply_run [OF r] unfolding e_def by blast
    note unf = getrangeCommand_def arg_ll_run(1) [OF r] 3 option.case Option.bind.simps prod.case l(1)
    show ?thesis
    proof (cases v)
      case None
      then show ?thesis using l unfolding unf getrange_reply_def by (simp add: is_string_def entry_str_def emptybulk)
    next
      case (Some y)
      note vy = conjunct2 [OF settled_val [OF l(2) l(3) [unfolded Some]]]
      define x where "x = str_val (oval y)"
      have e: "e = Some (oval y, expires (dbs s' (cdb (clients s c))) (arg c 1 s))" using l(4) Some by simp
      show ?thesis
      proof (cases "otype (oval y) = REDIS_STRING")
        case False
        then show ?thesis
          using Some e checkType_run [OF l(2)] unfolding unf getrange_reply_def by (simp add: is_string_def)
      next
        case True
        obtain a b where ab: "range_bounds (int (length x)) n m = (a, b)" by force
        have len: "in_ll (int (length (slice x n m)))"
          using range_in_ll [OF vy, of "slice x n m"] slice_length [of x n m] by (simp add: x_def)
        note cb = cbuffer_push [OF len, of c s']
        have "(if a > b \<or> x = [] then addReply c shared_emptybulk s'
            else addReplyBulkCBuffer c (take (nat (b - a + 1)) (drop (nat a) x)) s') = push (to c (bulk (slice x n m))) s'"
          using range_slice [OF ab] cb by (cases "a > b \<or> x = []") (simp_all add: addReply_push emptybulk)
        then show ?thesis
          using Some e True ab decoded_val [OF True val_ok_str [OF vy]] checkType_run(1) [OF l(2), of "oval y"]
            end_reply [OF l(2), of "bulk (slice x n m)"] unfolding unf getrange_reply_def
          by (simp add: is_string_def entry_str_def flip: x_def split del: if_split)
      qed
    qed
  qed (use rep arg_ll_run(1) [OF r] in \<open>simp_all add: getrangeCommand_def getrange_reply_def\<close>)
qed

subsection \<open>GETSET and the arguments of the counters\<close>

definition getset_effect :: "'z keyspace \<Rightarrow> nat \<Rightarrow> string \<Rightarrow> string \<Rightarrow> 'z keyspace \<times> int \<times> string" where
  "getset_effect ks i k x =
     (if is_string (ks i k) then (ks_upd ks i k (Some (tryObjectEncoding x, None)), 1, get_reply (ks i k))
      else (ks, 0, shared_wrongtypeerr))"

lemma getset_run:
  assumes r: "ready c s" and k: "arg_ok (arg c 1 s)" "arg_ok (arg c 2 s)"
  shows "\<exists>s'. getsetCommand c s = Some s'
    \<and> (case getset_effect (live s) (cdb (clients s c)) (arg c 1 s) (arg c 2 s) of
         (K, n, x) \<Rightarrow> run c s s' K n x (if n = 0 then {} else watchers s (cdb (clients s c)) (arg c 1 s)))"
proof -
  define i key where "i = cdb (clients s c)" and "key = arg c 1 s"
  have i: "int i \<le> LLONG_MAX" unfolding i_def by (rule server_ok_cdb [OF readyD(1) [OF r]])
  obtain s1 b where g: "getGenericCommand c s = Some (s1, b)" "run c s s1 (live s) 0 (get_reply (live s i key)) {}"
    "b \<longleftrightarrow> is_string (live s i key)"
    using getGeneric_run [OF r] unfolding i_def key_def is_string_def by blast
  note unf = getsetCommand_def Let_def i_def [symmetric] key_def [symmetric] g(1) Option.bind.simps prod.case
  show ?thesis
  proof (cases "is_string (live s i key)")
    case False
    then have "get_reply (live s i key) = shared_wrongtypeerr"
      by (auto simp: is_string_def get_reply_def split: option.splits)
    then show ?thesis using g False unfolding unf by (simp add: getset_effect_def)
  next
    case True
    let ?o = "tryObjectEncoding (arg c 2 s) :: 'a oval"
    note r1 = run_ready [OF g(2) r]
    obtain s2 where s2: "setKey i key (createObject s1 ?o) s1 = Some s2"
      "run c s1 s2 (ks_upd (live s1) i key (Some (?o, None))) 0 [] (watchers s1 i key)"
      using setKey_run [OF r1 i k(1) [folded key_def], of "createObject s1 ?o"] tryObjectEncoding_ok [OF k(2)]
      by (auto simp: createObject_def)
    note r2 = run_ready [OF s2(2) r1]
    obtain s3 where s3: "notifyKeyspaceEvent NOTIFY_STRING ''set'' key i s2 = Some s3" "run c s2 s3 (live s2) 0 [] {}"
      using notify_run [OF r2 k(1) [folded key_def] i, of "''set''"] by auto
    have "run c s s3 (ks_upd (live s) i key (Some (?o, None))) 0 (get_reply (live s i key)) (watchers s i key)"
      using run_trans [OF run_trans [OF g(2) s2(2)] s3(2)] runD(3) [OF s2(2)] runD(3) [OF g(2)] run_conf(7) [OF g(2)] by simp
    from run_trans [OF this run_dirty [OF runD(2) [OF this]], of 1] runD(3) [OF this]
    show ?thesis using g(3) True s2(1) s3(1) unfolding unf by (simp add: getset_effect_def)
  qed
qed

definition incrby_effect :: "'z keyspace \<Rightarrow> nat \<Rightarrow> string \<Rightarrow> (int \<Rightarrow> int) \<Rightarrow> string \<Rightarrow> 'z keyspace \<times> int \<times> string" where
  "incrby_effect ks i k f a = (case string_ll a of None \<Rightarrow> (ks, 0, int_error) | Some v \<Rightarrow> incr_effect ks i k (f v))"

lemma incrby_run:
  assumes r: "ready c s" and k: "arg_ok (arg c 1 s)"
  shows "\<exists>s'. incrbyCommand c s = Some s'
    \<and> (case incrby_effect (live s) (cdb (clients s c)) (arg c 1 s) id (arg c 2 s) of
         (K, n, x) \<Rightarrow> run c s s' K n x (if n = 0 then {} else watchers s (cdb (clients s c)) (arg c 1 s)))"
    "string_ll (arg c 2 s) \<noteq> Some LLONG_MIN \<Longrightarrow> \<exists>s'. decrbyCommand c s = Some s'
    \<and> (case incrby_effect (live s) (cdb (clients s c)) (arg c 1 s) uminus (arg c 2 s) of
         (K, n, x) \<Rightarrow> run c s s' K n x (if n = 0 then {} else watchers s (cdb (clients s c)) (arg c 1 s)))"
proof -
  note rep = run_reply [OF readyD(1) [OF r], of c int_error]
  show "\<exists>s'. incrbyCommand c s = Some s'
    \<and> (case incrby_effect (live s) (cdb (clients s c)) (arg c 1 s) id (arg c 2 s) of
         (K, n, x) \<Rightarrow> run c s s' K n x (if n = 0 then {} else watchers s (cdb (clients s c)) (arg c 1 s)))"
    using rep incr_run [OF r k string_ll_range] arg_ll_run(1) [OF r]
    by (cases "string_ll (arg c 2 s)") (simp_all add: incrbyCommand_def incrby_effect_def)
  show "\<exists>s'. decrbyCommand c s = Some s'
    \<and> (case incrby_effect (live s) (cdb (clients s c)) (arg c 1 s) uminus (arg c 2 s) of
         (K, n, x) \<Rightarrow> run c s s' K n x (if n = 0 then {} else watchers s (cdb (clients s c)) (arg c 1 s)))"
    if "string_ll (arg c 2 s) \<noteq> Some LLONG_MIN"
  proof (cases "string_ll (arg c 2 s)")
    case (Some v)
    then have "in_ll (- v)" using that string_ll_range [OF Some] by (auto simp: in_ll_def)
    then show ?thesis using incr_run [OF r k] arg_ll_run(1) [OF r] Some by (simp add: decrbyCommand_def incrby_effect_def)
  qed (use rep arg_ll_run(1) [OF r] in \<open>simp add: decrbyCommand_def incrby_effect_def\<close>)
qed

subsection \<open>MGET and MSET\<close>

definition mget_item :: "('z oval \<times> int option) option \<Rightarrow> string" where
  "mget_item e = (if is_string e then get_reply e else shared_nullbulk)"

lemma mget_loop_run:
  "ready c s \<Longrightarrow> int i \<le> LLONG_MAX \<Longrightarrow>
     \<exists>s'. mget_loop c i keys s = Some s' \<and> run c s s' (live s) 0 (concat (map (\<lambda>k. mget_item (live s i k)) keys)) {}"
proof (induction keys arbitrary: s)
  case Nil
  then show ?case using run_refl [OF readyD(1)] by auto
next
  case (Cons k keys)
  obtain s1 v where l: "lookupKeyRead i k s = Some (s1, v)" "run c s s1 (live s) 0 [] {}" "settled s1 i k v"
    "live s i k = map_option (\<lambda>x. (oval x, expires (dbs s1 i) k)) v"
    using lookupKeyRead_run [OF Cons.prems] by blast
  have "(case v of None \<Rightarrow> Some (addReply c shared_nullbulk s1)
       | Some val \<Rightarrow> if otype (oval val) \<noteq> REDIS_STRING then Some (addReply c shared_nullbulk s1) else addReplyBulk c (oval val) s1)
     = Some (push (to c (mget_item (live s i k))) s1)"
    using l(4) settled_val [OF l(2)] l(3)
    by (cases v) (simp_all add: val_ok_str push_simps mget_item_def get_reply_def is_string_def)
  moreover note w = end_reply [OF l(2), of "mget_item (live s i k)"]
  obtain s' where "mget_loop c i keys (push (to c (mget_item (live s i k))) s1) = Some s'"
    "run c (push (to c (mget_item (live s i k))) s1) s' (live (push (to c (mget_item (live s i k))) s1)) 0
      (concat (map (\<lambda>k'. mget_item (live (push (to c (mget_item (live s i k))) s1) i k')) keys)) {}"
    using Cons.IH [OF run_ready [OF w Cons.prems(1)] Cons.prems(2)] by blast
  ultimately show ?case using l(1) run_trans [OF w] runD(3) [OF w] by fastforce
qed

lemma mget_run:
  assumes r: "ready c s" and n: "int (argc (clients s c)) \<le> LLONG_MAX"
  shows "\<exists>s'. mgetCommand c s = Some s' \<and> run c s s' (live s) 0
    (''*'' @ show_int (int (argc (clients s c)) - 1) @ CRLF
     @ concat (map (\<lambda>k. mget_item (live s (cdb (clients s c)) k)) (args_from c 1 s))) {}"
proof -
  let ?h = "''*'' @ show_int (int (argc (clients s c)) - 1) @ CRLF"
  have i: "int (cdb (clients s c)) \<le> LLONG_MAX" by (rule server_ok_cdb [OF readyD(1) [OF r]])
  note w = run_reply [OF readyD(1) [OF r], of c ?h]
  have "in_ll (int (argc (clients s c)) - 1)" using n by (simp add: in_ll_def)
  then have m: "addReplyMultiBulkLen c (int (argc (clients s c)) - 1) s = push (to c ?h) s" by (rule mbulklen_push)
  obtain s' where s': "mget_loop c (cdb (clients s c)) (args_from c 1 s) (push (to c ?h) s) = Some s'"
    "run c (push (to c ?h) s) s' (live (push (to c ?h) s)) 0
      (concat (map (\<lambda>k. mget_item (live (push (to c ?h) s) (cdb (clients s c)) k)) (args_from c 1 s))) {}"
    using mget_loop_run [OF run_ready [OF w r] i] by blast
  then show ?thesis unfolding mgetCommand_def m using run_trans [OF w s'(2)] runD(3) [OF w] by simp
qed

text \<open>The keys and values of \<open>MSET\<close> are stored one after the other.\<close>

definition ks_puts :: "'z keyspace \<Rightarrow> nat \<Rightarrow> (string \<times> string) list \<Rightarrow> 'z keyspace" where
  "ks_puts ks i kvs = fold (\<lambda>(k, x) ks. ks_upd ks i k (Some (tryObjectEncoding x, None))) kvs ks"

definition key_watchers :: "'z server \<Rightarrow> nat \<Rightarrow> string list \<Rightarrow> nat set" where
  "key_watchers s i ks = \<Union> (watchers s i ` set ks)"

lemma key_watchers_Cons [simp]: "key_watchers s i [] = {}" "key_watchers s i (k # ks) = watchers s i k \<union> key_watchers s i ks"
  by (simp_all add: key_watchers_def)

lemma key_watchers_run: "run c s s' K n x W \<Longrightarrow> key_watchers s' i ks = key_watchers s i ks"
  by (simp add: key_watchers_def run_conf(7))

lemma busy_loop_run:
  "ready c s \<Longrightarrow> int i \<le> LLONG_MAX \<Longrightarrow> \<exists>s'. busy_loop i ks b s = Some (s', b + length (filter (\<lambda>k. live s i k \<noteq> None) ks))
     \<and> run c s s' (live s) 0 [] {}"
proof (induction ks arbitrary: s b)
  case Nil
  then show ?case using run_refl [OF readyD(1)] by simp
next
  case (Cons k ks)
  obtain s1 v where l: "lookupKeyWrite i k s = Some (s1, v)" "run c s s1 (live s) 0 [] {}"
    "live s i k = map_option (\<lambda>x. (oval x, expires (dbs s1 i) k)) v"
    using lookupKeyWrite_run [OF Cons.prems] by blast
  let ?b = "if v \<noteq> None then b + 1 else b"
  obtain s' where "busy_loop i ks ?b s1 = Some (s', ?b + length (filter (\<lambda>k. live s1 i k \<noteq> None) ks))" "run c s1 s' (live s1) 0 [] {}"
    using Cons.IH [OF run_ready [OF l(2) Cons.prems(1)] Cons.prems(2)] by blast
  then show ?case using l run_trans [OF l(2)] runD(3) [OF l(2)] by (cases v) fastforce+
qed

lemma mset_loop_run:
  "ready c s \<Longrightarrow> int i \<le> LLONG_MAX \<Longrightarrow> \<forall>(k, x) \<in> set kvs. arg_ok k \<and> arg_ok x \<Longrightarrow>
     \<exists>s'. mset_loop i kvs s = Some s' \<and> run c s s' (ks_puts (live s) i kvs) 0 [] (key_watchers s i (map fst kvs))"
proof (induction kvs arbitrary: s)
  case Nil
  then show ?case using run_refl [OF readyD(1)] by (simp add: ks_puts_def)
next
  case (Cons kx kvs)
  obtain k x where kx: "kx = (k, x)" by force
  then have ok: "arg_ok k" "val_ok (tryObjectEncoding x)" using Cons.prems(3) tryObjectEncoding_ok by auto
  let ?o = "tryObjectEncoding x :: 'a oval"
  obtain s1 where s1: "setKey i k (createObject s ?o) s = Some s1"
    "run c s s1 (ks_upd (live s) i k (Some (?o, None))) 0 [] (watchers s i k)"
    using setKey_run [OF Cons.prems(1,2) ok(1), of "createObject s ?o"] tryObjectEncoding_ok Cons.prems(3)
    by (auto simp: createObject_def kx)
  obtain s2 where s2: "notifyKeyspaceEvent NOTIFY_STRING ''set'' k i s1 = Some s2" "run c s1 s2 (live s1) 0 [] {}"
    using notify_run [OF run_ready [OF s1(2) Cons.prems(1)] ok(1) Cons.prems(2), of "''set''"] by auto
  have w: "run c s s2 (ks_upd (live s) i k (Some (?o, None))) 0 [] (watchers s i k)"
    using run_trans [OF s1(2) s2(2)] runD(3) [OF s1(2)] by simp
  have "\<forall>(k, x) \<in> set kvs. arg_ok k \<and> arg_ok x" using Cons.prems(3) by simp
  from Cons.IH [OF run_ready [OF w Cons.prems(1)] Cons.prems(2) this] obtain s' where
    "mset_loop i kvs s2 = Some s'" "run c s2 s' (ks_puts (live s2) i kvs) 0 [] (key_watchers s2 i (map fst kvs))" by blast
  then show ?case
    using s1(1) s2(1) run_trans [OF w] runD(3) [OF w] key_watchers_run [OF w, of i "map fst kvs"]
    by (fastforce simp: kx ks_puts_def)
qed

definition mset_effect :: "'z keyspace \<Rightarrow> nat \<Rightarrow> bool \<Rightarrow> string list \<Rightarrow> 'z keyspace \<times> int \<times> string" where
  "mset_effect ks i nx args =
     (if odd (length args) then (ks, 0, error_reply ''wrong number of arguments for MSET'')
      else if nx \<and> (\<exists>(k, x) \<in> set (arg_pairs args). ks i k \<noteq> None) then (ks, 0, shared_czero)
      else (ks_puts ks i (arg_pairs args), int (length args div 2), if nx then shared_cone else shared_ok))"

lemma arg_pairs_ok: "\<forall>x \<in> set args. arg_ok x \<Longrightarrow> \<forall>(k, x) \<in> set (arg_pairs args). arg_ok k \<and> arg_ok x"
  by (induction args rule: arg_pairs.induct) auto

lemma mset_run:
  assumes r: "ready c s" and a: "argv (clients s c) = name # args" "\<forall>x \<in> set args. arg_ok x" "args \<noteq> []"
  shows "\<exists>s'. msetGenericCommand c nx s = Some s'
    \<and> (case mset_effect (live s) (cdb (clients s c)) nx args of
         (K, n, x) \<Rightarrow> run c s s' K n x (if n = 0 then {} else key_watchers s (cdb (clients s c)) (map fst (arg_pairs args))))"
proof -
  define i kvs where "i = cdb (clients s c)" and "kvs = arg_pairs args"
  have i: "int i \<le> LLONG_MAX" unfolding i_def by (rule server_ok_cdb [OF readyD(1) [OF r]])
  have n: "argc (clients s c) = Suc (length args)" and fr: "args_from c 1 s = args"
    using a(1) by (simp_all add: argc_def args_from_def One_nat_def)
  note unf = msetGenericCommand_def mset_effect_def Let_def n fr i_def [symmetric] kvs_def [symmetric] even_Suc not_not
  show ?thesis
  proof (cases "odd (length args)")
    case True
    then show ?thesis unfolding unf using run_reply [OF readyD(1) [OF r], of c] by (simp add: push_simps)
  next
    case False
    define busy where "busy = (nx \<and> (\<exists>(k, x) \<in> set kvs. live s i k \<noteq> None))"
    obtain s1 b where s1: "(if nx then busy_loop i (map fst kvs) 0 s else Some (s, 0)) = Some (s1, b)" "b \<noteq> 0 \<longleftrightarrow> busy"
      "run c s s1 (live s) 0 [] {}"
    proof (cases nx)
      case True
      obtain s1 where "busy_loop i (map fst kvs) 0 s = Some (s1, length (filter (\<lambda>k. live s i k \<noteq> None) (map fst kvs)))"
        "run c s s1 (live s) 0 [] {}"
        using busy_loop_run [OF r i, of "map fst kvs" 0] by auto
      then show ?thesis using that True by (force simp: busy_def filter_empty_conv)
    next
      case False
      then show ?thesis using that [of s 0] run_refl [OF readyD(1) [OF r]] by (simp add: busy_def)
    qed
    show ?thesis
    proof (cases busy)
      case True
      then show ?thesis
        unfolding unf using False s1 end_reply [OF s1(3), of shared_czero] by (simp add: addReply_push busy_def)
    next
      case free: False
      obtain s2 where s2: "mset_loop i kvs s1 = Some s2"
        "run c s1 s2 (ks_puts (live s1) i kvs) 0 [] (key_watchers s1 i (map fst kvs))"
        using mset_loop_run [OF run_ready [OF s1(3) r] i arg_pairs_ok [OF a(2)]] unfolding kvs_def by blast
      have "run c s s2 (ks_puts (live s) i kvs) 0 [] (key_watchers s i (map fst kvs))"
        using run_trans [OF s1(3) s2(2)] runD(3) [OF s1(3)] key_watchers_run [OF s1(3)] by simp
      from run_trans [OF this run_dirty [OF runD(2) [OF this]], of "int (length args div 2)"] runD(3) [OF this]
      have "run c s (add_dirty (int (length args div 2)) s2) (ks_puts (live s) i kvs) (int (length args div 2)) []
        (key_watchers s i (map fst kvs))" by simp
      from end_reply [OF this, of "if nx then shared_cone else shared_ok"]
      show ?thesis
        unfolding unf busy_def [symmetric] using False free s1 s2(1) a(3) by (auto simp: addReply_push length_0_conv elim!: evenE)
    qed
  qed
qed

end
