(* ===== verification/Key_Correct.thy ===== *)
theory Key_Correct
  imports String_Updates
begin

unbundle bit_operations_syntax

declare One_nat_def [simp del]

text \<open>
  What the commands on keys do to the visible keyspace, and what they answer: \<open>DEL\<close>, \<open>EXISTS\<close>, \<open>TYPE\<close>, \<open>RENAME\<close>, \<open>MOVE\<close>,
  the commands on times to live, \<open>FLUSHDB\<close> and \<open>KEYS\<close>.
\<close>

subsection \<open>DEL, EXISTS and TYPE\<close>

definition ks_dels :: "'z keyspace \<Rightarrow> nat \<Rightarrow> string list \<Rightarrow> 'z keyspace" where
  "ks_dels ks i keys = fold (\<lambda>k ks. ks_upd ks i k None) keys ks"

lemma ks_dels_apply: "ks_dels ks i keys j k = (if j = i \<and> k \<in> set keys then None else ks j k)"
  by (induction keys arbitrary: ks) (auto simp: ks_dels_def ks_upd_apply)

text \<open>The keys that are there, each once.\<close>

definition present :: "'z keyspace \<Rightarrow> nat \<Rightarrow> string list \<Rightarrow> string set" where
  "present ks i keys = {k \<in> set keys. ks i k \<noteq> None}"

lemma present_Cons:
  "present ks i (k # keys) = (if ks i k = None then present ks i keys else insert k (present (ks_upd ks i k None) i keys))"
  by (auto simp: present_def ks_upd_apply)

lemma present_fresh: "k \<notin> present (ks_upd ks i k None) i keys" "finite (present ks i keys)"
  by (simp_all add: present_def ks_upd_apply)

lemma purge_exists: "ready c s \<Longrightarrow> dbExists i k (purge i k s) \<longleftrightarrow> live s i k \<noteq> None"
  using readyD(2) [of c s] by (auto simp: dbExists_def purge_ddict live_def split: option.split)

lemma del_loop_run:
  "ready c s \<Longrightarrow> int i \<le> LLONG_MAX \<Longrightarrow> \<forall>k \<in> set keys. arg_ok k \<Longrightarrow>
     \<exists>s'. del_loop i keys d s = Some (s', d + int (card (present (live s) i keys)))
       \<and> run c s s' (ks_dels (live s) i keys) (int (card (present (live s) i keys))) [] (\<Union> (watchers s i ` present (live s) i keys))"
proof (induction keys arbitrary: s d)
  case Nil
  then show ?case using run_refl [OF readyD(1)] by (simp add: ks_dels_def present_def)
next
  case (Cons k keys)
  note e = run_expire [OF Cons.prems(1,2), of k]
  let ?p = "purge i k s"
  note rp = run_ready [OF conjunct2 [OF e] Cons.prems(1)]
  have k: "arg_ok k" and ks: "\<forall>k \<in> set keys. arg_ok k" using Cons.prems(3) by simp_all
  define q where "q = fst (dbDelete i k ?p)"
  have del: "dbDelete i k ?p = (q, live s i k \<noteq> None)"
    using purge_exists [OF Cons.prems(1), of i k] by (simp add: dbDelete_def q_def)
  have "run c s q (ks_upd (live s) i k None) 0 [] {}"
    using run_trans [OF conjunct2 [OF e] delete_run [OF rp]] runD(3) [OF conjunct2 [OF e]] by (simp add: q_def)
  note w = this run_ready [OF this Cons.prems(1)]
  show ?case
  proof (cases "live s i k")
    case None
    obtain s' where s': "del_loop i keys d q = Some (s', d + int (card (present (live q) i keys)))"
      "run c q s' (ks_dels (live q) i keys) (int (card (present (live q) i keys))) [] (\<Union> (watchers q i ` present (live q) i keys))"
      using Cons.IH [OF w(2) Cons.prems(2) ks] by blast
    have same: "ks_upd (live s) i k None = live s" using None by (metis ks_upd_simps(2))
    then have "live q = live s" using runD(3) [OF w(1)] by simp
    then have "run c s s' (ks_dels (live s) i (k # keys)) (int (card (present (live s) i (k # keys)))) []
        (\<Union> (watchers s i ` present (live s) i (k # keys)))"
      using run_trans [OF w(1) s'(2)] run_conf(7) [OF w(1)] None same by (simp add: present_Cons ks_dels_def)
    then show ?thesis using e del s'(1) None \<open>live q = live s\<close> by (simp add: present_Cons)
  next
    case (Some x)
    obtain s3 where s3: "notifyKeyspaceEvent NOTIFY_GENERIC ''del'' k i (signalModifiedKey i k q) = Some s3"
      "run c q (add_dirty 1 s3) (live q) 1 [] (watchers q i k)"
      using change_run [OF w(2) k Cons.prems(2), of "''del''"] by auto
    have v: "run c s (add_dirty 1 s3) (ks_upd (live s) i k None) 1 [] (watchers s i k)"
      using run_trans [OF w(1) s3(2)] runD(3) [OF w(1)] run_conf(7) [OF w(1)] by simp
    let ?t = "add_dirty 1 s3"
    obtain s' where s': "del_loop i keys (d + 1) ?t = Some (s', d + 1 + int (card (present (live ?t) i keys)))"
      "run c ?t s' (ks_dels (live ?t) i keys) (int (card (present (live ?t) i keys))) [] (\<Union> (watchers ?t i ` present (live ?t) i keys))"
      using Cons.IH [OF run_ready [OF v Cons.prems(1)] Cons.prems(2) ks] by blast
    have "run c s s' (ks_dels (live s) i (k # keys)) (int (card (present (live s) i (k # keys)))) []
        (\<Union> (watchers s i ` present (live s) i (k # keys)))"
      using run_trans [OF v s'(2)] runD(3) [OF v] run_conf(7) [OF v] Some
      by (simp add: present_Cons ks_dels_def present_fresh)
    then show ?thesis using e del s3(1) s'(1) Some runD(3) [OF v] by (simp add: present_Cons present_fresh)
  qed
qed

definition del_effect :: "'z keyspace \<Rightarrow> nat \<Rightarrow> string list \<Rightarrow> 'z keyspace \<times> int \<times> string" where
  "del_effect ks i keys =
     (let n = int (card (present ks i keys)) in (ks_dels ks i keys, n, int_reply n))"

lemma del_run:
  assumes r: "ready c s" and k: "\<forall>x \<in> set (args_from c 1 s). arg_ok x" and n: "int (argc (clients s c)) \<le> LLONG_MAX"
  shows "\<exists>s'. delCommand c s = Some s' \<and> (case del_effect (live s) (cdb (clients s c)) (args_from c 1 s) of
    (K, n, x) \<Rightarrow> run c s s' K n x (\<Union> (watchers s (cdb (clients s c)) ` present (live s) (cdb (clients s c)) (args_from c 1 s))))"
proof -
  define i keys where "i = cdb (clients s c)" and "keys = args_from c 1 s"
  have i: "int i \<le> LLONG_MAX" unfolding i_def by (rule server_ok_cdb [OF readyD(1) [OF r]])
  obtain s' where s': "del_loop i keys 0 s = Some (s', int (card (present (live s) i keys)))"
    "run c s s' (ks_dels (live s) i keys) (int (card (present (live s) i keys))) [] (\<Union> (watchers s i ` present (live s) i keys))"
    using del_loop_run [OF r i k, of 0] unfolding keys_def by auto
  have "card (present (live s) i keys) \<le> card (set keys)" by (rule card_mono) (auto simp: present_def)
  then have "card (present (live s) i keys) \<le> argc (clients s c)"
    using card_length [of keys] by (simp add: keys_def args_from_def argc_def)
  then have "in_ll (int (card (present (live s) i keys)))" using n by (simp add: in_ll_def)
  then show ?thesis
    unfolding delCommand_def i_def [symmetric] keys_def [symmetric] del_effect_def Let_def
    using s' end_reply [OF s'(2), of "int_reply (int (card (present (live s) i keys)))"] by (simp add: push_simps)
qed

lemma exists_run:
  assumes r: "ready c s"
  shows "\<exists>s'. existsCommand c s = Some s' \<and> run c s s' (live s) 0
    (int_reply (if live s (cdb (clients s c)) (arg c 1 s) = None then 0 else 1)) {}"
proof -
  have i: "int (cdb (clients s c)) \<le> LLONG_MAX" by (rule server_ok_cdb [OF readyD(1) [OF r]])
  note e = run_expire [OF r i, of "arg c 1 s"]
  show ?thesis
    using e end_reply [OF conjunct2 [OF e]] purge_exists [OF r]
    by (cases "live s (cdb (clients s c)) (arg c 1 s)")
       (simp_all add: existsCommand_def Let_def addReply_push shared_cone_def shared_czero_def int_reply_def show_int_small)
qed

lemma type_run:
  assumes r: "ready c s"
  shows "\<exists>s'. typeCommand c s = Some s' \<and> run c s s' (live s) 0
    (''+'' @ (case live s (cdb (clients s c)) (arg c 1 s) of None \<Rightarrow> ''none'' | Some (v, t) \<Rightarrow> type_name (otype v)) @ CRLF) {}"
proof -
  have i: "int (cdb (clients s c)) \<le> LLONG_MAX" by (rule server_ok_cdb [OF readyD(1) [OF r]])
  obtain s1 v where l: "lookupKeyRead (cdb (clients s c)) (arg c 1 s) s = Some (s1, v)" "run c s s1 (live s) 0 [] {}"
    "live s (cdb (clients s c)) (arg c 1 s) = map_option (\<lambda>x. (oval x, expires (dbs s1 (cdb (clients s c))) (arg c 1 s))) v"
    using lookupKeyRead_run [OF r i] by blast
  then show ?thesis using end_reply [OF l(2)] by (cases v) (simp_all add: typeCommand_def push_simps)
qed

subsection \<open>RENAME\<close>

text \<open>
  The time to live moves with the value; -1 is how \<open>getExpire\<close> says that there is none.
\<close>

definition moved_ttl :: "int option \<Rightarrow> int option" where
  "moved_ttl t = (if t = Some (-1) then None else t)"

definition rename_effect :: "'z keyspace \<Rightarrow> nat \<Rightarrow> bool \<Rightarrow> string \<Rightarrow> string \<Rightarrow> 'z keyspace \<times> int \<times> string" where
  "rename_effect ks i nx src dst =
     (if src = dst then (ks, 0, shared_sameobjecterr)
      else case ks i src of None \<Rightarrow> (ks, 0, shared_nokeyerr)
        | Some (v, t) \<Rightarrow>
            if nx \<and> ks i dst \<noteq> None then (ks, 0, shared_czero)
            else (ks_upd (ks_upd ks i dst (Some (v, moved_ttl t))) i src None, 1,
                  if nx then shared_cone else shared_ok))"

lemma writeOrReply_run:
  assumes r: "ready c s"
  shows "\<exists>s' v. lookupKeyWriteOrReply c k rep s = Some (s', v)
    \<and> run c s s' (live s) 0 (if v = None then rep else []) {} \<and> settled s' (cdb (clients s c)) k v
    \<and> live s (cdb (clients s c)) k = map_option (\<lambda>x. (oval x, expires (dbs s' (cdb (clients s c))) k)) v"
proof -
  let ?i = "cdb (clients s c)"
  obtain s' v where l: "lookupKeyWrite ?i k s = Some (s', v)" "run c s s' (live s) 0 [] {}" "settled s' ?i k v"
    "live s ?i k = map_option (\<lambda>x. (oval x, expires (dbs s' ?i) k)) v"
    using lookupKeyWrite_run [OF r server_ok_cdb [OF readyD(1) [OF r]]] by blast
  show ?thesis
    using l end_reply [OF l(2), of rep] settled_same [OF conf_push, of "to c rep" s' ?i k v]
    by (cases v) (simp_all add: lookupKeyWriteOrReply_def addReply_push)
qed

text \<open>A value is stored under a fresh key, with a time to live that is not over.\<close>

lemma place_run:
  assumes r: "ready c s" and k: "arg_ok k" "val_ok (oval x)" and t: "case t of None \<Rightarrow> True | Some u \<Rightarrow> in_ll u"
    and a: "\<not> (case t of None \<Rightarrow> False | Some u \<Rightarrow> 0 \<le> u \<and> \<not> loading s \<and> u < cur_time s)"
    and w: "live s i k = map_option (\<lambda>x. (oval x, e)) w" "settled s i k w"
  shows "\<exists>s'. do { s4 \<leftarrow> dbAdd i k x (if w \<noteq> None then fst (dbDelete i k s) else s);
       case t of None \<Rightarrow> Some s4 | Some u \<Rightarrow> setExpire i k u s4 } = Some s'
     \<and> run c s s' (ks_upd (live s) i k (Some (oval x, t))) 0 [] {}"
proof -
  define s1 where "s1 = (if w \<noteq> None then fst (dbDelete i k s) else s)"
  have "run c s s1 (ks_upd (live s) i k None) 0 [] {}"
  proof (cases w)
    case None
    then show ?thesis using run_refl [OF readyD(1) [OF r]] w by (simp add: s1_def) (metis ks_upd_simps(2))
  qed (use delete_run [OF r] in \<open>simp add: s1_def\<close>)
  note w1 = this run_ready [OF this r]
  have "ddict (dbs s1 i) k = None"
    using w(2) by (cases w) (simp_all add: s1_def settled_def dbDelete_def dbs_set)
  from add_run [OF w1(2) this k] obtain s4 where s4: "dbAdd i k x s1 = Some s4"
    "run c s1 s4 (ks_upd (live s1) i k (Some (oval x, None))) 0 [] {}" "settled s4 i k (Some x)" by blast
  have ss4: "run c s s4 (ks_upd (live s) i k (Some (oval x, None))) 0 [] {}"
    using run_trans [OF w1(1) s4(2)] runD(3) [OF w1(1)] by simp
  have d: "ddict (dbs s4 i) k = Some x" using s4(3) by (simp add: settled_def)
  show ?thesis
  proof (cases t)
    case None
    then show ?thesis using s4(1) ss4 by (simp add: s1_def)
  next
    case (Some u)
    have "run c s (set_expires i k t s4) (ks_upd (live s) i k (Some (oval x, t))) 0 [] {}"
      using run_trans [OF ss4 expires_run [OF run_ready [OF ss4 r] d, of t]] runD(3) [OF ss4] run_conf(5,8) [OF ss4] t a Some
      by (auto split: if_splits)
    then show ?thesis using s4(1) d Some by (simp add: s1_def setExpire_def)
  qed
qed

lemma live_ttl:
  assumes "server_ok s" "live s i k = Some (v, t)"
  shows "case t of None \<Rightarrow> True | Some u \<Rightarrow> in_ll u"
    "\<not> (case t of None \<Rightarrow> False | Some u \<Rightarrow> 0 \<le> u \<and> \<not> loading s \<and> u < cur_time s)"
    "val_ok v \<and> arg_ok k"
  using assms server_ok_db [of s i]
  by (auto simp: live_def expired_def db_ok_def split: option.splits if_splits)

lemma rename_signals:
  assumes r: "ready c s" and k: "arg_ok src" "arg_ok dst" and i: "int i \<le> LLONG_MAX"
  shows "\<exists>s8 s9. notifyKeyspaceEvent NOTIFY_GENERIC ''rename_from'' src i (signalModifiedKey i dst (signalModifiedKey i src s)) = Some s8
    \<and> notifyKeyspaceEvent NOTIFY_GENERIC ''rename_to'' dst i s8 = Some s9
    \<and> run c s (push (to c x) (add_dirty 1 s9)) (live s) 1 x (watchers s i src \<union> watchers s i dst)"
proof -
  note a = conjunct1 [OF signal_run [OF r, of i src]]
  note b = conjunct1 [OF signal_run [OF run_ready [OF a r], of i dst]]
  have ab: "run c s (signalModifiedKey i dst (signalModifiedKey i src s)) (live s) 0 [] (watchers s i src \<union> watchers s i dst)"
    using run_trans [OF a b] runD(3) [OF a] run_conf(7) [OF a] by simp
  obtain s8 where s8: "notifyKeyspaceEvent NOTIFY_GENERIC ''rename_from'' src i
      (signalModifiedKey i dst (signalModifiedKey i src s)) = Some s8"
    "run c (signalModifiedKey i dst (signalModifiedKey i src s)) s8 (live (signalModifiedKey i dst (signalModifiedKey i src s))) 0 [] {}"
    using notify_run [OF run_ready [OF ab r] k(1) i, of "''rename_from''"] by auto
  have w8: "run c s s8 (live s) 0 [] (watchers s i src \<union> watchers s i dst)"
    using run_trans [OF ab s8(2)] runD(3) [OF ab] by simp
  obtain s9 where s9: "notifyKeyspaceEvent NOTIFY_GENERIC ''rename_to'' dst i s8 = Some s9" "run c s8 s9 (live s8) 0 [] {}"
    using notify_run [OF run_ready [OF w8 r] k(2) i, of "''rename_to''"] by auto
  have w9: "run c s s9 (live s) 0 [] (watchers s i src \<union> watchers s i dst)"
    using run_trans [OF w8 s9(2)] runD(3) [OF w8] by simp
  have "run c s (add_dirty 1 s9) (live s) 1 [] (watchers s i src \<union> watchers s i dst)"
    using run_trans [OF w9 run_dirty [OF runD(2) [OF w9]]] runD(3) [OF w9] by simp
  from end_reply [OF this] s8(1) s9(1) show ?thesis by simp
qed

lemma rename_run:
  assumes r: "ready c s" and k: "arg_ok (arg c 2 s)"
  shows "\<exists>s'. renameGenericCommand c nx s = Some s'
    \<and> (case rename_effect (live s) (cdb (clients s c)) nx (arg c 1 s) (arg c 2 s) of
         (K, n, x) \<Rightarrow> run c s s' K n x (if n = 0 then {} else
           watchers s (cdb (clients s c)) (arg c 1 s) \<union> watchers s (cdb (clients s c)) (arg c 2 s)))"
proof -
  define i src dst where "i = cdb (clients s c)" and "src = arg c 1 s" and "dst = arg c 2 s"
  note k = k [folded dst_def]
  have i: "int i \<le> LLONG_MAX" unfolding i_def by (rule server_ok_cdb [OF readyD(1) [OF r]])
  note unf0 = renameGenericCommand_def rename_effect_def Let_def i_def [symmetric] src_def [symmetric] dst_def [symmetric]
  show ?thesis
  proof (cases "src = dst")
    case True
    then show ?thesis unfolding unf0 using run_reply [OF readyD(1) [OF r], of c] by (simp add: addReply_push)
  next
    case ne: False
    obtain s1 v where l: "lookupKeyWriteOrReply c src shared_nokeyerr s = Some (s1, v)"
      "run c s s1 (live s) 0 (if v = None then shared_nokeyerr else []) {}" "settled s1 i src v"
      "live s i src = map_option (\<lambda>x. (oval x, expires (dbs s1 i) src)) v"
      using writeOrReply_run [OF r] unfolding i_def by blast
    note r1 = run_ready [OF l(2) r]
    note unf = unf0 if_not_P [OF ne] l(1) Option.bind.simps prod.case
    show ?thesis
    proof (cases v)
      case None
      then show ?thesis unfolding unf using l by simp
    next
      case (Some y)
      define t where "t = expires (dbs s1 i) src"
      have e: "live s i src = Some (oval y, t)" using l(4) Some by (simp add: t_def)
      have ss1: "run c s s1 (live s) 0 [] {}" using l(2) Some by simp
      have g: "getExpire i src s1 = Some (case t of None \<Rightarrow> -1 | Some t \<Rightarrow> t)"
        unfolding t_def by (rule getExpire_eq [OF readyD(1) [OF r1]])
      obtain s2 w where m: "lookupKeyWrite i dst s1 = Some (s2, w)" "run c s1 s2 (live s1) 0 [] {}" "settled s2 i dst w"
        "live s1 i dst = map_option (\<lambda>x. (oval x, expires (dbs s2 i) dst)) w"
        using lookupKeyWrite_run [OF r1 i] by blast
      have ss2: "run c s s2 (live s) 0 [] {}" using run_trans [OF ss1 m(2)] runD(3) [OF ss1] by simp
      have w: "live s i dst = map_option (\<lambda>x. (oval x, expires (dbs s2 i) dst)) w"
        using m(4) runD(3) [OF ss1] by simp
      note unf = unf option.case Some g m(1)
      show ?thesis
      proof (cases "nx \<and> w \<noteq> None")
        case True
        then show ?thesis
          unfolding unf using w e end_reply [OF ss2, of shared_czero] by (auto simp: addReply_push)
      next
        case False
        note r2 = run_ready [OF ss2 r]
        note lt = live_ttl [OF readyD(1) [OF r] e]
        have t: "case moved_ttl t of None \<Rightarrow> True | Some u \<Rightarrow> in_ll u"
          "\<not> (case moved_ttl t of None \<Rightarrow> False | Some u \<Rightarrow> 0 \<le> u \<and> \<not> loading s2 \<and> u < cur_time s2)"
          using lt run_conf(5,8) [OF ss2] by (auto simp: moved_ttl_def split: option.splits)
        have w2: "live s2 i dst = map_option (\<lambda>x. (oval x, expires (dbs s2 i) dst)) w"
          using w runD(3) [OF ss2] by simp
        obtain s5 where s5: "do { s4 \<leftarrow> dbAdd i dst y (if w \<noteq> None then fst (dbDelete i dst s2) else s2);
            case moved_ttl t of None \<Rightarrow> Some s4 | Some u \<Rightarrow> setExpire i dst u s4 } = Some s5"
          "run c s2 s5 (ks_upd (live s2) i dst (Some (oval y, moved_ttl t))) 0 [] {}"
          using place_run [OF r2 k _ t w2 m(3), of y] lt(3) by blast
        have exp: "(if (case t of None \<Rightarrow> -1 | Some u \<Rightarrow> u) \<noteq> -1 then setExpire i dst (case t of None \<Rightarrow> -1 | Some u \<Rightarrow> u) s4 else Some s4)
            = (case moved_ttl t of None \<Rightarrow> Some s4 | Some u \<Rightarrow> setExpire i dst u s4)" for s4 :: "'a server"
          by (auto simp: moved_ttl_def split: option.split)
        have ss5: "run c s s5 (ks_upd (live s) i dst (Some (oval y, moved_ttl t))) 0 [] {}"
          using run_trans [OF ss2 s5(2)] runD(3) [OF ss2] by simp
        define s6 where "s6 = fst (dbDelete i src s5)"
        have ss6: "run c s s6 (ks_upd (ks_upd (live s) i dst (Some (oval y, moved_ttl t))) i src None) 0 [] {}"
          using run_trans [OF ss5 delete_run [OF run_ready [OF ss5 r]]] runD(3) [OF ss5] by (simp add: s6_def)
        define x where "x = (if nx then shared_cone else shared_ok)"
        from rename_signals [OF run_ready [OF ss6 r] conjunct2 [OF lt(3)] k i, of x]
        obtain s8 s9 where s9: "notifyKeyspaceEvent NOTIFY_GENERIC ''rename_from'' src i
            (signalModifiedKey i dst (signalModifiedKey i src s6)) = Some s8"
          "notifyKeyspaceEvent NOTIFY_GENERIC ''rename_to'' dst i s8 = Some s9"
          "run c s6 (push (to c x) (add_dirty 1 s9)) (live s6) 1 x (watchers s6 i src \<union> watchers s6 i dst)" by blast
        have fin: "run c s (push (to c x) (add_dirty 1 s9)) (ks_upd (ks_upd (live s) i dst (Some (oval y, moved_ttl t))) i src None) 1 x
            (watchers s i src \<union> watchers s i dst)"
          using run_trans [OF ss6 s9(3)] runD(3) [OF ss6] run_conf(7) [OF ss6] by simp
        obtain s4 where s4: "dbAdd i dst y (if w \<noteq> None then fst (dbDelete i dst s2) else s2) = Some s4"
          "(case moved_ttl t of None \<Rightarrow> Some s4 | Some u \<Rightarrow> setExpire i dst u s4) = Some s5"
          using s5(1) by (auto simp: bind_eq_Some_conv)
        show ?thesis
          unfolding unf exp using False w e s4 s9(1,2) fin
          by (auto simp: addReply_push x_def simp flip: s6_def)
      qed
    qed
  qed
qed

subsection \<open>Times to live\<close>

text \<open>
  \<open>EXPIRE\<close> and its variants: a time that is past deletes the key at once, unless the server is
  loading; \<open>when\<close> is the time asked for.
\<close>

definition expire_at :: "int \<Rightarrow> bool \<Rightarrow> int \<Rightarrow> int" where
  "expire_at basetime seconds v = (if seconds then v * 1000 else v) + basetime"

definition expire_effect :: "'z keyspace \<Rightarrow> nat \<Rightarrow> string \<Rightarrow> (int \<Rightarrow> bool) \<Rightarrow> (int \<Rightarrow> int) \<Rightarrow> string \<Rightarrow> 'z keyspace \<times> int \<times> string" where
  "expire_effect ks i k over when a = (case string_ll a of None \<Rightarrow> (ks, 0, int_error)
     | Some n \<Rightarrow> (case ks i k of None \<Rightarrow> (ks, 0, shared_czero)
         | Some (v, t) \<Rightarrow> (ks_upd ks i k (if over (when n) then None else Some (v, Some (when n))), 1, shared_cone)))"

definition time_over :: "int \<Rightarrow> bool \<Rightarrow> int \<Rightarrow> bool" where
  "time_over t0 load t \<longleftrightarrow> t \<le> t0 \<and> \<not> load"

definition expire_fits :: "int \<Rightarrow> bool \<Rightarrow> string \<Rightarrow> bool" where
  "expire_fits basetime seconds a \<longleftrightarrow> (\<forall>v. string_ll a = Some v \<longrightarrow>
     in_ll (if seconds then v * 1000 else v) \<and> in_ll (expire_at basetime seconds v))"

lemma expire_delete_run:
  assumes r: "ready c s" and k: "arg_ok key" and i: "int i \<le> LLONG_MAX" and d: "ddict (dbs s i) key \<noteq> None"
  shows "\<exists>s5. notifyKeyspaceEvent NOTIFY_GENERIC ''del'' key i (signalModifiedKey i key
      (upd_client c (\<lambda>cl. cl\<lparr>argv := a\<rparr>) (add_dirty 1 (fst (dbDelete i key s))))) = Some s5
    \<and> run c s (push (to c x) s5) (ks_upd (live s) i key None) 1 x (watchers s i key)"
proof -
  note a = delete_run [OF r, of i key]
  note ra = run_ready [OF a r]
  note b = run_dirty [OF readyD(1) [OF ra], of c 1]
  have ab: "run c s (add_dirty 1 (fst (dbDelete i key s))) (ks_upd (live s) i key None) 1 [] {}"
    using run_trans [OF a b] runD(3) [OF a] by simp
  let ?s1 = "add_dirty 1 (fst (dbDelete i key s))"
  let ?s2 = "upd_client c (\<lambda>cl. cl\<lparr>argv := a\<rparr>) ?s1"
  have c2: "same_conf ?s1 ?s2" by (rule conf_dirty_argv(1))
  have "run c ?s1 ?s2 (live ?s1) 0 [] {}"
    using server_ok_same [OF c2] live_same [OF c2] runD(2) [OF ab] c2 by (simp add: run_def upd_client_def)
  from run_trans [OF ab this] runD(3) [OF ab]
  have s2: "run c s ?s2 (ks_upd (live s) i key None) 1 [] {}" by simp
  note m = conjunct1 [OF signal_run [OF run_ready [OF s2 r], of i key]]
  have s3: "run c s (signalModifiedKey i key ?s2) (ks_upd (live s) i key None) 1 [] (watchers s i key)"
    using run_trans [OF s2 m] runD(3) [OF s2] run_conf(7) [OF s2] by simp
  obtain s5 where s5: "notifyKeyspaceEvent NOTIFY_GENERIC ''del'' key i (signalModifiedKey i key ?s2) = Some s5"
    "run c (signalModifiedKey i key ?s2) s5 (live (signalModifiedKey i key ?s2)) 0 [] {}"
    using notify_run [OF run_ready [OF s3 r] k i, of "''del''"] by auto
  have "run c s s5 (ks_upd (live s) i key None) 1 [] (watchers s i key)"
    using run_trans [OF s3 s5(2)] runD(3) [OF s3] by simp
  from end_reply [OF this, of x] s5(1) show ?thesis by simp
qed

lemma expire_set_run:
  assumes r: "ready c s" and k: "arg_ok key" and i: "int i \<le> LLONG_MAX" and d: "settled s i key (Some y)"
    and t: "in_ll t" "\<not> (0 \<le> t \<and> \<not> loading s \<and> t < cur_time s)"
  shows "\<exists>s4. do { s3 \<leftarrow> setExpire i key t s;
       notifyKeyspaceEvent NOTIFY_GENERIC ''expire'' key i (signalModifiedKey i key (push (to c x) s3)) } = Some s4
    \<and> run c s (add_dirty 1 s4) (ks_upd (live s) i key (Some (oval y, Some t))) 1 x (watchers s i key)"
proof -
  have dd: "ddict (dbs s i) key = Some y" using d by (simp add: settled_def)
  let ?s3 = "set_expires i key (Some t) s"
  have "run c s ?s3 (ks_upd (live s) i key (Some (oval y, Some t))) 0 [] {}"
    using expires_run [OF r dd, of "Some t"] t by (auto split: if_splits)
  note s3 = end_reply [OF this, of x]
  obtain s4 where s4: "notifyKeyspaceEvent NOTIFY_GENERIC ''expire'' key i (signalModifiedKey i key (push (to c x) ?s3)) = Some s4"
    "run c (push (to c x) ?s3) (add_dirty 1 s4) (live (push (to c x) ?s3)) 1 [] (watchers (push (to c x) ?s3) i key)"
    using change_run [OF run_ready [OF s3 r] k i, of "''expire''"] by auto
  show ?thesis
    using run_trans [OF s3 s4(2)] runD(3) [OF s3] run_conf(7) [OF s3] s4(1) dd by (simp add: setExpire_def)
qed

text \<open>The time the code computes, with the wrap-around of 64 bits.\<close>

definition expire_wrapped :: "int \<Rightarrow> bool \<Rightarrow> int \<Rightarrow> int" where
  "expire_wrapped basetime seconds v = wrap_ll ((if seconds then wrap_ll (v * 1000) else v) + basetime)"

lemma expire_wrapped_run:
  assumes r: "ready c s"
  shows "\<exists>s'. expireGenericCommand c basetime seconds s = Some s'
    \<and> (case expire_effect (live s) (cdb (clients s c)) (arg c 1 s) (time_over (now s) (loading s)) (expire_wrapped basetime seconds) (arg c 2 s) of
         (K, n, x) \<Rightarrow> run c s s' K n x (if n = 0 then {} else watchers s (cdb (clients s c)) (arg c 1 s)))"
proof -
  define i key where "i = cdb (clients s c)" and "key = arg c 1 s"
  have i: "int i \<le> LLONG_MAX" unfolding i_def by (rule server_ok_cdb [OF readyD(1) [OF r]])
  note unf0 = expireGenericCommand_def expire_effect_def Let_def i_def [symmetric] key_def [symmetric] arg_ll_run(1) [OF r]
    Option.bind.simps prod.case
  show ?thesis
  proof (cases "string_ll (arg c 2 s)")
    case None
    then show ?thesis using run_reply [OF readyD(1) [OF r], of c int_error] unfolding unf0 by simp
  next
    case (Some n)
    define t where "t = expire_wrapped basetime seconds n"
    have t: "wrap_ll ((if seconds then wrap_ll (n * 1000) else n) + basetime) = t" "in_ll t"
      by (simp_all add: t_def expire_wrapped_def)
    obtain s2 v where l: "lookupKeyRead i key s = Some (s2, v)" "run c s s2 (live s) 0 [] {}" "settled s2 i key v"
      "live s i key = map_option (\<lambda>x. (oval x, expires (dbs s2 i) key)) v"
      using lookupKeyRead_run [OF r i] by blast
    note r2 = run_ready [OF l(2) r]
    have now: "now s2 = now s" "loading s2 = loading s" "\<not> is_slave s2" "cur_time s2 = cur_time s"
      using run_conf(3,5,8) [OF l(2)] readyD(2) [OF r2] by simp_all
    note unf = unf0 Some option.case l(1) t(1) t_def [symmetric]
    show ?thesis
    proof (cases v)
      case None
      then show ?thesis using l(4) end_reply [OF l(2), of shared_czero] unfolding unf by (simp add: addReply_push)
    next
      case (Some y)
      note y = settled_val [OF l(2) l(3) [unfolded Some]]
      have live: "live s i key = Some (oval y, expires (dbs s2 i) key)" using l(4) Some by simp
      have d: "ddict (dbs s2 i) key = Some y" using l(3) Some by (simp add: settled_def)
      show ?thesis
      proof (cases "time_over (now s) (loading s) t")
        case True
        then have over: "t \<le> now s2 \<and> \<not> loading s2 \<and> \<not> is_slave s2" using now by (simp add: time_over_def)
        obtain s5 where s5: "notifyKeyspaceEvent NOTIFY_GENERIC ''del'' key i (signalModifiedKey i key
            (upd_client c (\<lambda>cl. cl\<lparr>argv := [''DEL'', key]\<rparr>) (add_dirty 1 (fst (dbDelete i key s2))))) = Some s5"
          "run c s2 (push (to c shared_cone) s5) (ks_upd (live s2) i key None) 1 shared_cone (watchers s2 i key)"
          using expire_delete_run [OF r2 _ i, of key] y d by blast
        have "dbDelete i key s2 = (fst (dbDelete i key s2), True)" using d by (simp add: dbDelete_def dbExists_def)
        then obtain q where q: "dbDelete i key s2 = (q, True)" "fst (dbDelete i key s2) = q" by blast
        show ?thesis
          using Some live over s5(1) run_trans [OF l(2) s5(2)] runD(3) [OF l(2)] run_conf(7) [OF l(2)] True
          unfolding unf q by (simp add: addReply_push)
      next
        case False
        have "\<not> (0 \<le> t \<and> \<not> loading s2 \<and> t < cur_time s2)"
          using False now cur_time_now [OF readyD(1) [OF r]] by (auto simp: time_over_def)
        from expire_set_run [OF r2 conjunct1 [OF y] i _ t(2) this, of y shared_cone] l(3) Some
        obtain s4 where s4: "do { s3 \<leftarrow> setExpire i key t s2;
            notifyKeyspaceEvent NOTIFY_GENERIC ''expire'' key i (signalModifiedKey i key (push (to c shared_cone) s3)) } = Some s4"
          "run c s2 (add_dirty 1 s4) (ks_upd (live s2) i key (Some (oval y, Some t))) 1 shared_cone (watchers s2 i key)" by blast
        have "\<not> (t \<le> now s2 \<and> \<not> loading s2 \<and> \<not> is_slave s2)" using False now by (simp add: time_over_def)
        then show ?thesis
          using Some live s4(1) run_trans [OF l(2) s4(2)] runD(3) [OF l(2)] run_conf(7) [OF l(2)] False
          unfolding unf by (auto simp: addReply_push bind_eq_Some_conv)
      qed
    qed
  qed
qed

lemma expire_run:
  assumes r: "ready c s" and fits: "expire_fits basetime seconds (arg c 2 s)"
  shows "\<exists>s'. expireGenericCommand c basetime seconds s = Some s'
    \<and> (case expire_effect (live s) (cdb (clients s c)) (arg c 1 s) (time_over (now s) (loading s)) (expire_at basetime seconds) (arg c 2 s) of
         (K, n, x) \<Rightarrow> run c s s' K n x (if n = 0 then {} else watchers s (cdb (clients s c)) (arg c 1 s)))"
proof -
  have "expire_wrapped basetime seconds v = expire_at basetime seconds v" if "string_ll (arg c 2 s) = Some v" for v
    using fits that by (auto simp: expire_fits_def expire_wrapped_def expire_at_def)
  then have "expire_effect ks i k over (expire_wrapped basetime seconds) (arg c 2 s)
      = expire_effect ks i k over (expire_at basetime seconds) (arg c 2 s)" for ks :: "'a keyspace" and i k over
    by (simp add: expire_effect_def split: option.split)
  then show ?thesis using expire_wrapped_run [OF r, of basetime seconds] by simp
qed

text \<open>\<open>TTL\<close> rounds to the nearest second.\<close>

definition ttl_reply :: "int \<Rightarrow> bool \<Rightarrow> ('z oval \<times> int option) option \<Rightarrow> string" where
  "ttl_reply t0 ms e = int_reply (case e of None \<Rightarrow> -2
     | Some (v, None) \<Rightarrow> -1
     | Some (v, Some t) \<Rightarrow> (let left = max 0 (t - t0) in if ms then left else (left + 500) div 1000))"

definition ttl_fits :: "int \<Rightarrow> ('z oval \<times> int option) option \<Rightarrow> bool" where
  "ttl_fits t0 e \<longleftrightarrow> (\<forall>t. entry_ttl e = Some t \<longrightarrow> 0 \<le> t \<and> t - t0 + 500 \<le> LLONG_MAX)"

lemma now_bounds: "server_ok s \<Longrightarrow> 0 < now s \<and> now s \<le> 4611686018427387904"
  by (simp add: server_ok_def conf_ok_def)

lemma ttl_run:
  assumes r: "ready c s"
  defines "e \<equiv> live s (cdb (clients s c)) (arg c 1 s)"
  assumes fits: "ttl_fits (now s) e"
  shows "\<exists>s'. ttlGenericCommand c ms s = Some s' \<and> run c s s' (live s) 0 (ttl_reply (now s) ms e) {}"
proof -
  define i key where "i = cdb (clients s c)" and "key = arg c 1 s"
  have i: "int i \<le> LLONG_MAX" unfolding i_def by (rule server_ok_cdb [OF readyD(1) [OF r]])
  obtain s1 v where l: "lookupKeyRead i key s = Some (s1, v)" "run c s s1 (live s) 0 [] {}" "settled s1 i key v"
    "live s i key = map_option (\<lambda>x. (oval x, expires (dbs s1 i) key)) v"
    using lookupKeyRead_run [OF r i] by blast
  note unf = ttlGenericCommand_def Let_def i_def [symmetric] key_def [symmetric] l(1) Option.bind.simps prod.case
  note g = getExpire_eq [OF readyD(1) [OF run_ready [OF l(2) r]], of i key]
  have rep: "run c s (push (to c (int_reply n)) s1) (live s) 0 (int_reply n) {}" for n
    using end_reply [OF l(2), of "int_reply n"] by simp
  show ?thesis
  proof (cases v)
    case None
    have "in_ll (-2)" by (simp add: in_ll_def)
    then show ?thesis using None l(4) rep [of "-2"] unfolding unf e_def ttl_reply_def by (simp add: longlong_push)
  next
    case (Some y)
    have m1: "in_ll (-1)" by (simp add: in_ll_def)
    show ?thesis
    proof (cases "expires (dbs s1 i) key")
      case None
      then show ?thesis
        using Some l(4) g rep [of "-1"] m1 unfolding unf e_def ttl_reply_def by (simp add: longlong_push)
    next
      case t: (Some t)
      have e: "e = Some (oval y, Some t)" using l(4) Some t by (simp add: e_def i_def key_def)
      then have b: "0 \<le> t" "t - now s + 500 \<le> LLONG_MAX" using fits by (simp_all add: ttl_fits_def entry_ttl_def)
      note n = now_bounds [OF readyD(1) [OF r]]
      define left where "left = max 0 (t - now s)"
      have now: "now s1 = now s" using run_conf(3) [OF l(2)] .
      have w: "max 0 (wrap_ll (t - now s1)) = left" "wrap_ll (left + 500) = left + 500" "in_ll left" "0 \<le> left"
        "in_ll ((left + 500) div 1000)"
        using b n by (auto simp: left_def now in_ll_def max_def)
      have out: "addReplyLongLong c (if ms then left else c_div (left + 500) 1000) s1
          = push (to c (int_reply (if ms then left else (left + 500) div 1000))) s1"
        using w by (simp add: longlong_push c_div_def)
      show ?thesis
        unfolding unf g Option.bind.simps e ttl_reply_def
        using Some t b w out rep by (cases ms) (simp_all add: Let_def flip: left_def)
    qed
  qed
qed

subsection \<open>PERSIST and MOVE\<close>

text \<open>
  On a key that is not expired, \<open>PERSIST\<close> removes the time to live. It tells no watching client, and it does not
  look whether the key is expired.
\<close>

definition persist_effect :: "'z keyspace \<Rightarrow> nat \<Rightarrow> string \<Rightarrow> 'z keyspace \<times> int \<times> string" where
  "persist_effect ks i k = (case ks i k of Some (v, Some t) \<Rightarrow> (ks_upd ks i k (Some (v, None)), 1, shared_cone)
     | _ \<Rightarrow> (ks, 0, shared_czero))"

lemma persist_run:
  assumes r: "ready c s" and e: "\<not> expired s (cdb (clients s c)) (arg c 1 s)"
  shows "\<exists>s'. persistCommand c s = Some s'
    \<and> (case persist_effect (live s) (cdb (clients s c)) (arg c 1 s) of (K, n, x) \<Rightarrow> run c s s' K n x {})"
proof -
  define i key where "i = cdb (clients s c)" and "key = arg c 1 s"
  note unf = persistCommand_def persist_effect_def Let_def i_def [symmetric] key_def [symmetric]
  note e = e [folded i_def key_def]
  show ?thesis
  proof (cases "ddict (dbs s i) key")
    case None
    then have "live s i key = None" by (simp add: live_def)
    then show ?thesis using None run_reply [OF readyD(1) [OF r], of c] unfolding unf by (simp add: addReply_push)
  next
    case (Some y)
    then have live: "live s i key = Some (oval y, expires (dbs s i) key)" using e by (simp add: live_def)
    have a: "run c s (set_expires i key None s) (ks_upd (live s) i key (Some (oval y, None))) 0 [] {}"
      using expires_run [OF r Some, of None] by simp
    show ?thesis
    proof (cases "expires (dbs s i) key")
      case None
      then have "ks_upd (live s) i key (Some (oval y, None)) = live s" using live by (metis ks_upd_simps(2))
      then show ?thesis using None Some live end_reply [OF a, of shared_czero] unfolding unf
        by (simp add: addReply_push removeExpire_def)
    next
      case (Some t)
      note b = end_reply [OF a, of shared_cone]
      show ?thesis
        using Some \<open>ddict (dbs s i) key = Some y\<close> live run_trans [OF b run_dirty [OF runD(2) [OF b]], of 1] runD(3) [OF b]
        unfolding unf by (simp add: addReply_push removeExpire_def)
    qed
  qed
qed

text \<open>
  \<open>MOVE\<close> stores the value in the other database without its time to live, and tells no watching client of
  either key.
\<close>

definition move_effect :: "'z keyspace \<Rightarrow> nat \<Rightarrow> nat \<Rightarrow> string \<Rightarrow> string \<Rightarrow> 'z keyspace \<times> int \<times> string" where
  "move_effect ks n i k a = (case string_ll a of None \<Rightarrow> (ks, 0, shared_outofrangeerr)
     | Some d \<Rightarrow>
         if d < 0 \<or> d \<ge> int n then (ks, 0, shared_outofrangeerr)
         else if nat d = i then (ks, 0, shared_sameobjecterr)
         else case ks i k of None \<Rightarrow> (ks, 0, shared_czero)
           | Some (v, t) \<Rightarrow>
               if ks (nat d) k \<noteq> None then (ks, 0, shared_czero)
               else (ks_upd (ks_upd ks (nat d) k (Some (v, None))) i k None, 1, shared_cone))"

lemma selectDb_back:
  "int (cdb (clients s c)) < int (dbnum s) \<Longrightarrow> fst (selectDb c (int (cdb (clients s c))) (fst (selectDb c d s))) = s"
  by (simp add: selectDb_def upd_client_def)

lemma move_core_run:
  assumes r: "ready c s" and i: "int i \<le> LLONG_MAX" and j: "int j \<le> LLONG_MAX" and ne: "i \<noteq> j"
  shows "\<exists>s'. do {
      (s2, v) \<leftarrow> lookupKeyWrite i key s;
      case v of None \<Rightarrow> Some (addReply c shared_czero s2)
      | Some val \<Rightarrow> do {
          (s3, w) \<leftarrow> lookupKeyWrite j key s2;
          if w \<noteq> None then Some (addReply c shared_czero s3)
          else do {
            s4 \<leftarrow> dbAdd j key val s3;
            Some (addReply c shared_cone (add_dirty 1 (fst (dbDelete i key s4)))) } } } = Some s'
    \<and> (case (case live s i key of None \<Rightarrow> (live s, 0, shared_czero)
             | Some (v, t) \<Rightarrow> if live s j key \<noteq> None then (live s, 0, shared_czero)
                 else (ks_upd (ks_upd (live s) j key (Some (v, None))) i key None, 1, shared_cone)) of
         (K, n, x) \<Rightarrow> run c s s' K n x {})"
proof -
  obtain s2 v where l: "lookupKeyWrite i key s = Some (s2, v)" "run c s s2 (live s) 0 [] {}" "settled s2 i key v"
    "live s i key = map_option (\<lambda>x. (oval x, expires (dbs s2 i) key)) v"
    using lookupKeyWrite_run [OF r i] by blast
  show ?thesis
  proof (cases v)
    case None
    then show ?thesis using l(1,4) end_reply [OF l(2), of shared_czero] by (simp add: addReply_push)
  next
    case (Some y)
    note y = settled_val [OF l(2) l(3) [unfolded Some]]
    obtain s3 w where m: "lookupKeyWrite j key s2 = Some (s3, w)" "run c s2 s3 (live s2) 0 [] {}" "settled s3 j key w"
      "live s2 j key = map_option (\<lambda>x. (oval x, expires (dbs s3 j) key)) w"
      using lookupKeyWrite_run [OF run_ready [OF l(2) r] j] by blast
    have ss3: "run c s s3 (live s) 0 [] {}" using run_trans [OF l(2) m(2)] runD(3) [OF l(2)] by simp
    have w: "live s j key = map_option (\<lambda>x. (oval x, expires (dbs s3 j) key)) w" using m(4) runD(3) [OF l(2)] by simp
    have live: "live s i key = Some (oval y, expires (dbs s2 i) key)" using l(4) Some by simp
    show ?thesis
    proof (cases w)
      case (Some z)
      then show ?thesis using \<open>v = Some y\<close> live w l(1) m(1) end_reply [OF ss3, of shared_czero] by (simp add: addReply_push)
    next
      case None
      then have "ddict (dbs s3 j) key = None" using m(3) by (simp add: settled_def)
      from add_run [OF run_ready [OF ss3 r] this _, of y] y obtain s4 where
        s4: "dbAdd j key y s3 = Some s4" "run c s3 s4 (ks_upd (live s3) j key (Some (oval y, None))) 0 [] {}" by blast
      have ss4: "run c s s4 (ks_upd (live s) j key (Some (oval y, None))) 0 [] {}"
        using run_trans [OF ss3 s4(2)] runD(3) [OF ss3] by simp
      have d: "run c s (fst (dbDelete i key s4)) (ks_upd (ks_upd (live s) j key (Some (oval y, None))) i key None) 0 [] {}"
        using run_trans [OF ss4 delete_run [OF run_ready [OF ss4 r]]] runD(3) [OF ss4] by simp
      have "run c s (add_dirty 1 (fst (dbDelete i key s4)))
          (ks_upd (ks_upd (live s) j key (Some (oval y, None))) i key None) 1 [] {}"
        using run_trans [OF d run_dirty [OF runD(2) [OF d]]] runD(3) [OF d] by simp
      from end_reply [OF this, of shared_cone] show ?thesis
        using None Some live w l(1) m(1) s4(1) by (simp add: addReply_push)
    qed
  qed
qed

lemma move_run:
  assumes r: "ready c s"
  shows "\<exists>s'. moveCommand c s = Some s'
    \<and> (case move_effect (live s) (dbnum s) (cdb (clients s c)) (arg c 1 s) (arg c 2 s) of (K, n, x) \<Rightarrow> run c s s' K n x {})"
proof -
  define i key where "i = cdb (clients s c)" and "key = arg c 1 s"
  have conf: "i < dbnum s" "dbnum s \<le> 2147483647" using readyD(1) [OF r] by (simp_all add: i_def server_ok_def conf_ok_def)
  then have i: "int i \<le> LLONG_MAX" by simp
  note rep = run_reply [OF readyD(1) [OF r], of c]
  note unf0 = moveCommand_def move_effect_def i_def [symmetric] key_def [symmetric]
  have g: "getLongLongFromObject (Some (StrRaw (arg c 2 s) :: 'a oval)) = Some (string_ll (arg c 2 s))"
    by (simp add: getLongLongFromObject_def)
  show ?thesis
  proof (cases "string_ll (arg c 2 s)")
    case None
    then show ?thesis using rep [of shared_outofrangeerr] g unfolding unf0 by (simp add: addReply_push)
  next
    case (Some d)
    show ?thesis
    proof (cases "d < 0 \<or> d \<ge> int (dbnum s)")
      case True
      then show ?thesis
        using rep [of shared_outofrangeerr] Some g unfolding unf0 by (simp add: addReply_push selectDb_def)
    next
      case False
      then have d: "\<not> (d < -2147483648 \<or> d > 2147483647 \<or> \<not> snd (selectDb c d s))" "int (nat d) \<le> LLONG_MAX"
        "cdb (clients (fst (selectDb c d s)) c) = nat d"
        using conf by (auto simp: selectDb_def upd_client_def)
      have same_db: "fst (selectDb c (int i) (fst (selectDb c d s))) = s"
        unfolding i_def by (rule selectDb_back) (use conf in \<open>simp add: i_def\<close>)
      note unf = unf0 Let_def g Some Option.bind.simps option.case if_not_P [OF d(1)] d(3) same_db if_not_P [OF False]
      show ?thesis
      proof (cases "i = nat d")
        case True
        then show ?thesis using rep [of shared_sameobjecterr] unfolding unf by (simp add: addReply_push)
      next
        case ne: False
        then have ne': "nat d \<noteq> i" by simp
        show ?thesis
          unfolding unf if_not_P [OF ne] if_not_P [OF ne'] by (rule move_core_run [OF r i d(2) ne])
      qed
    qed
  qed
qed

end
