(* ===== verification/Keyspace_All.thy ===== *)
theory Keyspace_All
  imports Key_Correct
begin

unbundle bit_operations_syntax

declare One_nat_def [simp del]

text \<open>
  The commands that look at a whole database: \<open>KEYS\<close>, \<open>RANDOMKEY\<close>, \<open>FLUSHDB\<close> and \<open>FLUSHALL\<close>.
\<close>

subsection \<open>KEYS\<close>

definition selected :: "'z keyspace \<Rightarrow> nat \<Rightarrow> string \<Rightarrow> string list \<Rightarrow> string list" where
  "selected ks i p keys = filter (\<lambda>k. ks i k \<noteq> None \<and> (cstr p = ''*'' \<or> matches p k)) keys"

lemma live_expired: "server_ok s \<Longrightarrow> ddict (dbs s i) k \<noteq> None \<Longrightarrow> expired s i k \<longleftrightarrow> live s i k = None"
  by (auto simp: live_def split: if_splits)

lemma key_bulk: "arg_ok k \<Longrightarrow> addReplyBulk c (StrRaw k) s = Some (push (to c (bulk k)) s)"
  using bulk_push [of "StrRaw k" c s] by (simp add: arg_ok_def)

lemma keys_loop_run:
  assumes p: "cstr p = ''*'' \<or> safe_pattern p"
  shows "ready c s \<Longrightarrow> int i \<le> LLONG_MAX \<Longrightarrow> distinct keys \<Longrightarrow> \<forall>k \<in> set keys. ddict (dbs s i) k \<noteq> None \<Longrightarrow>
     \<exists>s'. keys_loop c i p (cstr p = ''*'') keys n s = Some (s', n + int (length (selected (live s) i p keys)))
       \<and> run c s s' (live s) 0 (concat (map bulk (selected (live s) i p keys))) {}"
proof (induction keys arbitrary: s n)
  case Nil
  then show ?case using run_refl [OF readyD(1)] by (simp add: selected_def)
next
  case (Cons k keys)
  define m where "m \<longleftrightarrow> cstr p = ''*'' \<or> matches p k"
  have "stringmatchlen p k False \<noteq> None" if "cstr p \<noteq> ''*''" using p that by (auto simp: safe_pattern_def)
  then have match: "(if cstr p = ''*'' then Some True else stringmatchlen p k False) = Some m"
    by (auto simp: m_def matches_def)
  show ?case
  proof (cases m)
    case False
    then show ?thesis
      using Cons.IH [OF Cons.prems(1,2), of n] Cons.prems(3,4) match by (auto simp: selected_def m_def)
  next
    case True
    note e = run_expire [OF Cons.prems(1,2), of k]
    let ?p = "purge i k s"
    have k: "arg_ok k" using Cons.prems(4) arg_ok_key [OF readyD(1) [OF Cons.prems(1)], of i k] by auto
    have dd: "\<forall>l \<in> set keys. ddict (dbs ?p i) l \<noteq> None"
      using Cons.prems(3,4) by (auto simp: purge_def dbDelete_def dbs_set)
    have exp: "expired s i k \<longleftrightarrow> live s i k = None"
      using live_expired [OF readyD(1) [OF Cons.prems(1)]] Cons.prems(4) by simp
    show ?thesis
    proof (cases "expired s i k")
      case True
      obtain s' where s': "keys_loop c i p (cstr p = ''*'') keys n ?p = Some (s', n + int (length (selected (live ?p) i p keys)))"
        "run c ?p s' (live ?p) 0 (concat (map bulk (selected (live ?p) i p keys))) {}"
        using Cons.IH [OF run_ready [OF conjunct2 [OF e] Cons.prems(1)] Cons.prems(2) _ dd, of n] Cons.prems(3) by auto
      have "selected (live s) i p (k # keys) = selected (live s) i p keys" using exp True by (simp add: selected_def)
      then show ?thesis
        using e s'(1) run_trans [OF conjunct2 [OF e] s'(2)] runD(3) [OF conjunct2 [OF e]] match \<open>m\<close> True by auto
    next
      case False
      define t where "t = push (to c (bulk k)) ?p"
      have w: "run c s t (live s) 0 (bulk k) {}" using end_reply [OF conjunct2 [OF e], of "bulk k"] by (simp add: t_def)
      have "\<forall>l \<in> set keys. ddict (dbs t i) l \<noteq> None" using dd by (simp add: t_def)
      then obtain s' where s': "keys_loop c i p (cstr p = ''*'') keys (n + 1) t
          = Some (s', n + 1 + int (length (selected (live t) i p keys)))"
        "run c t s' (live t) 0 (concat (map bulk (selected (live t) i p keys))) {}"
        using Cons.IH [OF run_ready [OF w Cons.prems(1)] Cons.prems(2), of "n + 1"] Cons.prems(3) by auto
      have sel: "selected (live s) i p (k # keys) = k # selected (live s) i p keys"
        using exp False \<open>m\<close> by (simp add: selected_def m_def)
      show ?thesis
        unfolding sel
        using e s'(1) run_trans [OF w s'(2)] runD(3) [OF w] match \<open>m\<close> False
        by (auto simp: key_bulk [OF k] simp flip: t_def)
    qed
  qed
qed

definition keys_reply :: "'z server \<Rightarrow> nat \<Rightarrow> string \<Rightarrow> string" where
  "keys_reply s i p = (let ks = selected (live s) i p (order s (dom (ddict (dbs s i))))
     in ''*'' @ show_int (int (length ks)) @ CRLF @ concat (map bulk ks))"

lemma keys_run:
  assumes r: "ready c s" and p: "cstr (arg c 1 s) = ''*'' \<or> safe_pattern (arg c 1 s)"
    and c: "\<not> close_after_reply (clients s c)"
    and o: "\<And>A. finite A \<Longrightarrow> distinct (order s A) \<and> set (order s A) = A"
  shows "\<exists>s'. keysCommand c s = Some s' \<and> run c s s' (live s) 0 (keys_reply s (cdb (clients s c)) (arg c 1 s)) {}"
proof -
  define i pat keys where "i = cdb (clients s c)" and "pat = arg c 1 s" and "keys = order s (dom (ddict (dbs s i)))"
  have i: "int i \<le> LLONG_MAX" unfolding i_def by (rule server_ok_cdb [OF readyD(1) [OF r]])
  have "finite (dom (ddict (dbs s i)))" using server_ok_db [OF readyD(1) [OF r]] by (simp add: db_ok_def)
  then have keys: "distinct keys" "\<forall>k \<in> set keys. ddict (dbs s i) k \<noteq> None" using o by (auto simp: keys_def)
  define sel where "sel = selected (live s) i pat keys"
  obtain s' where s': "keys_loop c i pat (cstr pat = ''*'') keys 0 s = Some (s', int (length sel))"
    "run c s s' (live s) 0 (concat (map bulk sel)) {}"
    using keys_loop_run [OF p r i keys, of 0] by (auto simp: pat_def sel_def)
  define h where "h = ''*'' @ show_int (int (length sel)) @ CRLF"
  define t where "t = setDeferredMultiBulkLength c (addDeferredMultiBulkLength c s) (int (length sel)) s'"
  have out: "reply (clients s' c) = reply (clients s c) @ (if writable (clients s c) then concat (map bulk sel) else [])"
    using runD(5) [OF s'(2)] .
  have wr: "writable (clients s c) \<longleftrightarrow> prepareClientToWrite (clients s c)" using c by (simp add: writable_def)
  have t: "t = (if writable (clients s c) then upd_client c (\<lambda>cl. cl\<lparr>reply := reply (clients s c) @ h @ concat (map bulk sel)\<rparr>) s' else s')"
    using out wr by (simp add: t_def addDeferredMultiBulkLength_def setDeferredMultiBulkLength_def upd_client_def h_def)
  have conf: "same_conf s' t" unfolding t by (simp add: same_conf_def)
  have "dbs t = dbs s'" "dirty t = dirty s'" by (simp_all add: t)
  then have "run c s t (live s) 0 (h @ concat (map bulk sel)) {}"
    using s'(2) conf server_ok_same [OF conf] live_same [OF conf] same_conf_trans [OF runD(1) [OF s'(2)] conf]
    by (auto simp: run_def t upd_client_def)
  then show ?thesis
    using s'(1) unfolding keysCommand_def keys_reply_def Let_def
    by (simp add: h_def sel_def keys_def pat_def i_def t_def)
qed

subsection \<open>RANDOMKEY\<close>

text \<open>A draw that takes a key of the set. Each round removes an expired key, so the rounds are bounded.\<close>

definition fair_pick :: "(nat \<Rightarrow> string set \<Rightarrow> string) \<Rightarrow> bool" where
  "fair_pick pick \<longleftrightarrow> (\<forall>n A. finite A \<longrightarrow> A \<noteq> {} \<longrightarrow> pick n A \<in> A)"

lemma random_loop_run:
  assumes p: "fair_pick pick"
  shows "ready c s \<Longrightarrow> int i \<le> LLONG_MAX \<Longrightarrow> card (dom (ddict (dbs s i))) < n \<Longrightarrow>
    \<exists>s' k. random_loop pick n i s = Some (s', k) \<and> run c s s' (live s) 0 [] {}
      \<and> (case k of None \<Rightarrow> \<forall>k. live s i k = None | Some k \<Rightarrow> live s i k \<noteq> None \<and> arg_ok k)"
proof (induction n arbitrary: s)
  case 0
  then show ?case by simp
next
  case (Suc n)
  let ?keys = "dom (ddict (dbs s i))"
  have fin: "finite ?keys" using server_ok_db [OF readyD(1) [OF Suc.prems(1)]] by (simp add: db_ok_def)
  note refl = run_refl [OF readyD(1) [OF Suc.prems(1)], of c]
  show ?case
  proof (cases "?keys = {}")
    case True
    then have "live s i k = None" for k by (simp add: live_def)
    then show ?thesis using True refl by simp
  next
    case False
    define key where "key = pick n ?keys"
    have key: "key \<in> ?keys" using p False fin by (simp add: fair_pick_def key_def)
    then have dd: "ddict (dbs s i) key \<noteq> None" by auto
    have exp: "expired s i key \<longleftrightarrow> live s i key = None" using live_expired [OF readyD(1) [OF Suc.prems(1)] dd] .
    have ok: "arg_ok key" using dd arg_ok_key [OF readyD(1) [OF Suc.prems(1)], of i key] by auto
    note e = run_expire [OF Suc.prems(1,2), of key]
    note unf = random_loop.simps Let_def key_def [symmetric]
    consider "expires (dbs s i) key = None" | "expires (dbs s i) key \<noteq> None" "\<not> expired s i key" | "expired s i key"
      by (auto simp: expired_def)
    then show ?thesis
    proof cases
      case 1
      then have "live s i key \<noteq> None" using exp by (simp add: expired_def)
      then show ?thesis using 1 False ok refl unfolding unf by simp
    next
      case 2
      then show ?thesis using False ok e exp unfolding unf by auto
    next
      case 3
      let ?p = "purge i key s"
      have "dom (ddict (dbs ?p i)) = ?keys - {key}"
        using 3 readyD(2) [OF Suc.prems(1)] by (auto simp: purge_def dbDelete_def dbs_set)
      then have "card (dom (ddict (dbs ?p i))) < n" using key fin Suc.prems(3) card_Diff1_less [OF fin key] by simp
      from Suc.IH [OF run_ready [OF conjunct2 [OF e] Suc.prems(1)] Suc.prems(2) this] obtain s' k where
        s': "random_loop pick n i ?p = Some (s', k)" "run c ?p s' (live ?p) 0 [] {}"
        "case k of None \<Rightarrow> \<forall>k. live ?p i k = None | Some k \<Rightarrow> live ?p i k \<noteq> None \<and> arg_ok k" by blast
      have "expires (dbs s i) key \<noteq> None" using 3 by (auto simp: expired_def split: option.splits)
      then show ?thesis
        using s'(1) s'(3) [unfolded runD(3) [OF conjunct2 [OF e]]] 3 False e
          run_trans [OF conjunct2 [OF e] s'(2)] runD(3) [OF conjunct2 [OF e]] unfolding unf by auto
    qed
  qed
qed

lemma random_run:
  assumes p: "fair_pick pick" and r: "ready c s" and n: "card (dom (ddict (dbs s (cdb (clients s c))))) < n"
  shows "\<exists>s' k. randomkeyCommand pick n c s = Some s'
    \<and> run c s s' (live s) 0 (case k of None \<Rightarrow> shared_nullbulk | Some k \<Rightarrow> bulk k) {}
    \<and> (case k of None \<Rightarrow> \<forall>k. live s (cdb (clients s c)) k = None | Some k \<Rightarrow> live s (cdb (clients s c)) k \<noteq> None)"
proof -
  obtain s' k where l: "random_loop pick n (cdb (clients s c)) s = Some (s', k)" "run c s s' (live s) 0 [] {}"
    "case k of None \<Rightarrow> \<forall>k. live s (cdb (clients s c)) k = None | Some k \<Rightarrow> live s (cdb (clients s c)) k \<noteq> None \<and> arg_ok k"
    using random_loop_run [OF p r server_ok_cdb [OF readyD(1) [OF r]] n] by blast
  show ?thesis
    using l end_reply [OF l(2), of "case k of None \<Rightarrow> shared_nullbulk | Some k \<Rightarrow> bulk k"]
    by (intro exI [of _ "push (to c (case k of None \<Rightarrow> shared_nullbulk | Some k \<Rightarrow> bulk k)) s'"] exI [of _ k])
       (cases k, auto simp: randomkeyCommand_def addReply_push key_bulk)
qed

end
