(* ===== verification/Watch_Correct.thy ===== *)
theory Watch_Correct
  imports Keyspace_All
begin

unbundle bit_operations_syntax

declare One_nat_def [simp del]

text \<open>
  The two views of what is watched: the list of each client and the table of each database. They mirror
  each other, so the loop of \<open>unwatchAllKeys\<close> always finds its node, and a flush marks every client that
  watches a key which goes.
\<close>

definition watch_ok :: "'z server \<Rightarrow> bool" where
  "watch_ok s \<longleftrightarrow>
     (\<forall>i k cs. watched_keys (dbs s i) k = Some cs \<longrightarrow> cs \<noteq> [] \<and> distinct cs)
     \<and> (\<forall>c i k. c \<in> watchers s i k \<longleftrightarrow> (i, k) \<in> set (cwatched (clients s c)))
     \<and> (\<forall>c. distinct (cwatched (clients s c)) \<and> (cwatched (clients s c) \<noteq> [] \<longrightarrow> c \<in> set (client_list s)))"

text \<open>Only the tables and the lists of the clients matter, so no other command can break it.\<close>

lemma watch_ok_same: "same_conf s s' \<Longrightarrow> watch_ok s' = watch_ok s"
proof -
  assume c: "same_conf s s'"
  have "watched_keys (dbs s' i) = watched_keys (dbs s i)" "cwatched (clients s' d) = cwatched (clients s d)"
    "client_list s' = client_list s" for i d
    using same_conf_fields(14) [OF c] same_conf_client(8) [OF c] c by (simp_all add: same_conf_def)
  then show ?thesis by (simp add: watch_ok_def watchers_def)
qed

lemma watch_okD:
  assumes "watch_ok s"
  shows "watched_keys (dbs s i) k = Some cs \<Longrightarrow> cs \<noteq> [] \<and> distinct cs"
    "c \<in> watchers s i k \<longleftrightarrow> (i, k) \<in> set (cwatched (clients s c))" "distinct (cwatched (clients s c))"
    "cwatched (clients s c) \<noteq> [] \<Longrightarrow> c \<in> set (client_list s)"
  using assms by (auto simp: watch_ok_def)

lemma watch_tables_upd:
  "watchers (upd_db i (\<lambda>db. db\<lparr>watched_keys := (watched_keys db)(k := e)\<rparr>) s) j l
     = (if j = i \<and> l = k then (case e of None \<Rightarrow> {} | Some cs \<Rightarrow> set cs) else watchers s j l)"
  by (simp add: watchers_def upd_db_def)

lemma watchers_client [simp]: "watchers (upd_client c f s) i k = watchers s i k"
  by (simp add: watchers_def)

lemma clients_upd: "clients (upd_client c f s) d = (if d = c then f (clients s c) else clients s d)"
  by (simp add: upd_client_def)

lemma watchForKey_ok:
  assumes ok: "watch_ok s" and c: "c \<in> set (client_list s)"
  shows "watch_ok (watchForKey c k s)"
    "set (cwatched (clients (watchForKey c k s) d))
       = set (cwatched (clients s d)) \<union> (if d = c then {(cdb (clients s c), k)} else {})"
    "client_list (watchForKey c k s) = client_list s" "cdb (clients (watchForKey c k s) d) = cdb (clients s d)"
proof -
  define i where "i = cdb (clients s c)"
  define cs where "cs = (case watched_keys (dbs s i) k of None \<Rightarrow> [] | Some cs \<Rightarrow> cs)"
  have cs: "set cs = watchers s i k" "distinct cs"
    using watch_okD(1) [OF ok, of i k] by (auto simp: cs_def watchers_def split: option.split)
  define t where "t = upd_client c (\<lambda>cl. cl\<lparr>cwatched := cwatched cl @ [(i, k)]\<rparr>)
    (upd_db i (\<lambda>db. db\<lparr>watched_keys := (watched_keys db)(k \<mapsto> cs @ [c])\<rparr>) s)"
  have new: "watch_ok t" if n: "(i, k) \<notin> set (cwatched (clients s c))"
  proof -
    have wt: "watchers t j l = (if j = i \<and> l = k then insert c (watchers s i k) else watchers s j l)" for j l
      by (simp add: t_def watch_tables_upd cs(1))
    have "c \<notin> set cs" using n watch_okD(2) [OF ok] cs(1) by simp
    then have "watched_keys (dbs t j) l = Some ds \<Longrightarrow> ds \<noteq> [] \<and> distinct ds" for j l ds
      using watch_okD(1) [OF ok, of j l ds] cs(2) by (auto simp: t_def upd_db_dbs split: if_splits)
    moreover have "d \<in> watchers t j l \<longleftrightarrow> (j, l) \<in> set (cwatched (clients t d))" for d j l
      using watch_okD(2) [OF ok] unfolding wt by (auto simp: t_def clients_upd)
    moreover have "distinct (cwatched (clients t d)) \<and> (cwatched (clients t d) \<noteq> [] \<longrightarrow> d \<in> set (client_list t))" for d
      using watch_okD(3,4) [OF ok, of d] n c by (auto simp: t_def clients_upd)
    ultimately show ?thesis unfolding watch_ok_def by blast
  qed
  have eq: "watchForKey c k s = (if (i, k) \<in> set (cwatched (clients s c)) then s else t)"
    by (simp add: watchForKey_def Let_def t_def cs_def i_def)
  show "watch_ok (watchForKey c k s)" using ok new by (simp add: eq)
  show "set (cwatched (clients (watchForKey c k s) d)) = set (cwatched (clients s d)) \<union> (if d = c then {(cdb (clients s c), k)} else {})"
    unfolding eq by (auto simp: t_def clients_upd i_def)
  show "client_list (watchForKey c k s) = client_list s" "cdb (clients (watchForKey c k s) d) = cdb (clients s d)"
    by (simp_all add: eq t_def clients_upd)
qed

text \<open>One round of \<open>unwatchAllKeys\<close> takes a key off both views.\<close>

lemma unwatch_one_ok:
  assumes ok: "watch_ok s" and wk: "(i, k) \<in> set (cwatched (clients s c))"
  shows "\<exists>s'. unwatch_one c (i, k) s = Some s' \<and> watch_ok s'
    \<and> (\<forall>d. cwatched (clients s' d) = (if d = c then remove1 (i, k) (cwatched (clients s c)) else cwatched (clients s d)))
    \<and> (\<forall>d. clients s' d = (clients s d)\<lparr>cwatched := cwatched (clients s' d)\<rparr>)
    \<and> (\<forall>j. ddict (dbs s' j) = ddict (dbs s j) \<and> expires (dbs s' j) = expires (dbs s j) \<and> blocking_keys (dbs s' j) = blocking_keys (dbs s j))
    \<and> s' = s\<lparr>dbs := dbs s', clients := clients s'\<rparr>"
proof -
  have "c \<in> watchers s i k" using watch_okD(2) [OF ok] wk by simp
  then obtain cs where cs: "watched_keys (dbs s i) k = Some cs" "c \<in> set cs" by (auto simp: watchers_def split: option.splits)
  have ne: "cwatched (clients s c) \<noteq> []" using wk by auto
  have d: "distinct cs" using watch_okD(1) [OF ok cs(1)] by simp
  define e where "e = (if remove1 c cs = [] then None else Some (remove1 c cs))"
  define t where "t = upd_client c (\<lambda>cl. cl\<lparr>cwatched := remove1 (i, k) (cwatched cl)\<rparr>)
    (upd_db i (\<lambda>db. db\<lparr>watched_keys := (watched_keys db)(k := e)\<rparr>) s)"
  have "(case if ds = [] then None else Some ds of None \<Rightarrow> {} | Some cs \<Rightarrow> set cs) = set ds" for ds :: "nat list"
    by simp
  from this [of "remove1 c cs"] have "(case e of None \<Rightarrow> {} | Some cs \<Rightarrow> set cs) = set (remove1 c cs)" by (simp only: e_def)
  then have e: "(case e of None \<Rightarrow> {} | Some cs \<Rightarrow> set cs) = watchers s i k - {c}"
    using cs(1) d by (simp add: watchers_def)
  then have wt: "watchers t j l = (if j = i \<and> l = k then watchers s i k - {c} else watchers s j l)" for j l
    by (simp add: t_def watch_tables_upd)
  have "watched_keys (dbs t j) l = Some ds \<Longrightarrow> ds \<noteq> [] \<and> distinct ds" for j l ds
    using watch_okD(1) [OF ok, of j l ds] d by (auto simp: t_def e_def upd_db_dbs split: if_splits)
  moreover have "x \<in> watchers t j l \<longleftrightarrow> (j, l) \<in> set (cwatched (clients t x))" for x j l
    using watch_okD(2,3) [OF ok] unfolding wt by (auto simp: t_def clients_upd)
  moreover have "distinct (cwatched (clients t x)) \<and> (cwatched (clients t x) \<noteq> [] \<longrightarrow> x \<in> set (client_list t))" for x
    using watch_okD(3,4) [OF ok, of x] watch_okD(4) [OF ok, of c] ne by (auto simp: t_def clients_upd)
  ultimately have "watch_ok t" unfolding watch_ok_def by blast
  moreover have "unwatch_one c (i, k) s = Some t"
    using cs by (simp add: unwatch_one_def Let_def t_def e_def)
  ultimately show ?thesis
    by (intro exI [of _ t]) (simp add: t_def clients_upd upd_db_dbs, simp add: upd_client_def upd_db_def)
qed

definition unwatched :: "nat \<Rightarrow> 'z server \<Rightarrow> 'z server \<Rightarrow> bool" where
  "unwatched c s s' \<longleftrightarrow> watch_ok s'
    \<and> (\<forall>d. clients s' d = (if d = c then (clients s c)\<lparr>cwatched := []\<rparr> else clients s d))
    \<and> (\<forall>j. ddict (dbs s' j) = ddict (dbs s j) \<and> expires (dbs s' j) = expires (dbs s j) \<and> blocking_keys (dbs s' j) = blocking_keys (dbs s j))
    \<and> s' = s\<lparr>dbs := dbs s', clients := clients s'\<rparr>"

lemma unwatch_loop_ok:
  "watch_ok s \<Longrightarrow> cwatched (clients s c) = wks \<Longrightarrow> \<exists>s'. unwatch_loop c wks s = Some s' \<and> unwatched c s s'"
proof (induction wks arbitrary: s)
  case Nil
  then show ?case by (auto simp: unwatched_def)
next
  case (Cons wk wks)
  obtain i k where wk: "wk = (i, k)" by force
  have "(i, k) \<in> set (cwatched (clients s c))" using Cons.prems(2) wk by simp
  from unwatch_one_ok [OF Cons.prems(1) this] obtain s1 where s1: "unwatch_one c (i, k) s = Some s1" "watch_ok s1"
    "\<forall>d. cwatched (clients s1 d) = (if d = c then remove1 (i, k) (cwatched (clients s c)) else cwatched (clients s d))"
    "\<forall>d. clients s1 d = (clients s d)\<lparr>cwatched := cwatched (clients s1 d)\<rparr>"
    "\<forall>j. ddict (dbs s1 j) = ddict (dbs s j) \<and> expires (dbs s1 j) = expires (dbs s j) \<and> blocking_keys (dbs s1 j) = blocking_keys (dbs s j)" "s1 = s\<lparr>dbs := dbs s1, clients := clients s1\<rparr>"
    by blast
  have "cwatched (clients s1 c) = wks" using s1(3) Cons.prems(2) wk by simp
  from Cons.IH [OF s1(2) this] obtain s' where s': "unwatch_loop c wks s1 = Some s'" "unwatched c s1 s'" by blast
  have cl: "clients s' d = (if d = c then (clients s c)\<lparr>cwatched := []\<rparr> else clients s d)" for d
    using s'(2) s1(3) s1(4) [rule_format, of d] s1(4) [rule_format, of c] unfolding unwatched_def
    by (cases "d = c") (metis client.update_convs(16) client.surjective | simp)+
  have "s' = s\<lparr>dbs := dbs s', clients := clients s'\<rparr>"
    using s'(2) s1(6) unfolding unwatched_def by (metis (no_types, lifting) server.update_convs(1,3) server.surjective)
  then have "unwatched c s s'" using s'(2) s1(5) cl unfolding unwatched_def by simp
  then show ?case using s1(1) s'(1) wk by auto
qed

lemma unwatch_ok:
  assumes "watch_ok s"
  shows "\<exists>s'. unwatchAllKeys c s = Some s' \<and> unwatched c s s'"
  using unwatch_loop_ok [OF assms refl] by (simp add: unwatchAllKeys_def)

subsection \<open>Flushing\<close>

definition flush_hits :: "int \<Rightarrow> 'z server \<Rightarrow> nat \<Rightarrow> bool" where
  "flush_hits dbid s c \<longleftrightarrow>
     (\<exists>(i, k) \<in> set (cwatched (clients s c)). (dbid = -1 \<or> int i = dbid) \<and> ddict (dbs s i) k \<noteq> None)"

lemma mark_cong: "dbs s' = dbs s \<Longrightarrow> (\<And>d. cwatched (clients s' d) = cwatched (clients s d)) \<Longrightarrow> flush_hits i s' c = flush_hits i s c"
  by (simp add: flush_hits_def)

lemma cwatched_mark [simp]: "cwatched (clients (mark C s) d) = cwatched (clients s d)"
  by (simp add: mark_def)

lemma touch_client_mark: "touch_client dbid c s = mark (if flush_hits dbid s c then {c} else {}) s"
proof -
  let ?P = "\<lambda>(i, k). (dbid = -1 \<or> int i = dbid) \<and> ddict (dbs s i) k \<noteq> None"
  let ?F = "\<lambda>(i, key) s1. if (dbid = -1 \<or> int i = dbid) \<and> ddict (dbs s1 i) key \<noteq> None then set_dirty_cas c s1 else s1"
  have step: "?F wk (mark C s) = mark (if ?P wk then insert c C else C) s" for wk C
    by (cases wk) (auto simp: set_dirty_mark)
  have "fold ?F wks (mark C s) = mark (if \<exists>wk \<in> set wks. ?P wk then insert c C else C) s" for wks C
  proof (induction wks arbitrary: C)
    case (Cons wk wks)
    show ?case unfolding fold_simps step Cons.IH by (rule arg_cong [where f = "\<lambda>C. mark C s"]) auto
  qed simp
  from this [of "cwatched (clients s c)" "{}"] show ?thesis
    by (simp add: touch_client_def flush_hits_def case_prod_unfold)
qed

lemma touch_flush_mark: "touchWatchedKeysOnFlush dbid s = mark {c \<in> set (client_list s). flush_hits dbid s c} s"
proof -
  have "fold (touch_client dbid) cs (mark C s) = mark (C \<union> {c \<in> set cs. flush_hits dbid s c}) s" for cs C
  proof (induction cs arbitrary: C)
    case (Cons c cs)
    have "flush_hits dbid (mark C s) c = flush_hits dbid s c" by (rule mark_cong) simp_all
    then have "touch_client dbid c (mark C s) = mark (C \<union> (if flush_hits dbid s c then {c} else {})) s"
      by (simp add: touch_client_mark Un_commute)
    then show ?case using Cons.IH by (cases "flush_hits dbid s c") (auto intro!: arg_cong [where f = "\<lambda>C. mark C s"])
  qed simp
  from this [of "client_list s" "{}"] show ?thesis by (simp add: touchWatchedKeysOnFlush_def)
qed

lemma flush_hits_watchers:
  "watch_ok s \<Longrightarrow> {c \<in> set (client_list s). flush_hits dbid s c}
     = \<Union> {watchers s i k | i k. (dbid = -1 \<or> int i = dbid) \<and> ddict (dbs s i) k \<noteq> None}"
proof (rule set_eqI)
  fix c
  assume ok: "watch_ok s"
  have "flush_hits dbid s c \<Longrightarrow> c \<in> set (client_list s)"
    by (rule watch_okD(4) [OF ok]) (auto simp: flush_hits_def)
  then show "c \<in> {c \<in> set (client_list s). flush_hits dbid s c}
      \<longleftrightarrow> c \<in> \<Union> {watchers s i k | i k. (dbid = -1 \<or> int i = dbid) \<and> ddict (dbs s i) k \<noteq> None}"
    using watch_okD(2) [OF ok, of c] unfolding flush_hits_def by blast
qed

lemma empty_dict_run:
  assumes r: "ready c s"
  shows "run c s (dictEmptyDb i s) ((live s)(i := Map.empty)) 0 [] {}"
proof -
  let ?t = "dictEmptyDb i s"
  have conf: "same_conf s ?t" by (simp add: same_conf_def dictEmptyDb_def upd_db_dbs)
  have "db_ok (dbs ?t i)" by (simp add: dictEmptyDb_def upd_db_dbs db_ok_def)
  then have ok: "server_ok ?t"
    by (rule server_ok_change [OF readyD(1) [OF r] conf, rotated]) (simp add: dictEmptyDb_def upd_db_dbs)
  have "expired ?t j k = expired s j k" if "j \<noteq> i" for j k
    by (rule expired_same [OF conf]) (use that in \<open>simp add: dictEmptyDb_def upd_db_dbs\<close>)
  then have "live ?t = (live s)(i := Map.empty)"
    by (auto simp: live_def fun_eq_iff dictEmptyDb_def upd_db_dbs split: option.split)
  then show ?thesis using run_db [OF conf ok] by (simp add: dictEmptyDb_def)
qed

lemma flushdb_run:
  assumes r: "ready c s" and w: "watch_ok s"
  defines "i \<equiv> cdb (clients s c)"
  shows "run c s (flushdbCommand c s) ((live s)(i := Map.empty)) (int (card (dom (ddict (dbs s i))))) shared_ok
    (\<Union> {watchers s i k | k. ddict (dbs s i) k \<noteq> None})"
proof -
  define n W where "n = int (card (dom (ddict (dbs s i))))" and "W = \<Union> {watchers s i k | k. ddict (dbs s i) k \<noteq> None}"
  note a = run_dirty [OF readyD(1) [OF r], of c n]
  let ?s1 = "add_dirty n s"
  have conf: "same_conf s ?s1" by (rule conf_counters)
  have sig: "signalFlushedDb (int i) ?s1 = mark W ?s1"
  proof -
    have "watch_ok ?s1" using w watch_ok_same [OF conf] by simp
    moreover have "\<Union> {watchers ?s1 j k | j k. (int i = -1 \<or> int j = int i) \<and> ddict (dbs ?s1 j) k \<noteq> None} = W"
      by (auto simp: W_def watchers_def add_dirty_def)
    ultimately show ?thesis by (simp add: signalFlushedDb_def touch_flush_mark flush_hits_watchers)
  qed
  note b = run_mark [OF readyD(1) [OF run_ready [OF a r]], of c W]
  have ab: "run c s (mark W ?s1) (live s) n [] W" using run_trans [OF a b] runD(3) [OF a] by simp
  have "run c s (dictEmptyDb i (mark W ?s1)) ((live s)(i := Map.empty)) n [] W"
    using run_trans [OF ab empty_dict_run [OF run_ready [OF ab r]]] runD(3) [OF ab] by simp
  from end_reply [OF this, of shared_ok] show ?thesis
    unfolding flushdbCommand_def Let_def i_def [symmetric] n_def [symmetric] sig W_def [symmetric] addReply_push by simp
qed

end
