(* ===== verification/Bitops.thy ===== *)
theory Bitops
  imports T_String
begin

unbundle bit_operations_syntax

text \<open>
  Bit operations on strings (\<^verbatim>\<open>bitops.c\<close>): the population count, the search for the first bit of a kind and the combination
  of strings, each with its fast path over machine words, and the commands. Words are read from memory with the least
  significant byte first; the alignment of the strings is a parameter.
\<close>

subsection \<open>Memory\<close>

definition load_le :: "string \<Rightarrow> 'a::len word" where
  "load_le p = foldr (\<lambda>c w. word_of_nat (uchar c) OR push_bit 8 w) p 0"

definition store64 :: "64 word \<Rightarrow> string" where
  "store64 w = map (\<lambda>i. char_of (unat (drop_bit (8 * i) w AND 255))) [0..<8]"

subsection \<open>Counting bits\<close>

definition bitsinbyte :: "nat list" where
  "bitsinbyte = [0,1,1,2,1,2,2,3,1,2,2,3,2,3,3,4,1,2,2,3,2,3,3,4,2,3,3,4,3,4,4,5,1,2,2,3,2,3,3,4,2,3,3,4,3,4,4,5,2,3,3,4,3,4,4,5,3,4,4,5,4,5,5,6,
     1,2,2,3,2,3,3,4,2,3,3,4,3,4,4,5,2,3,3,4,3,4,4,5,3,4,4,5,4,5,5,6,2,3,3,4,3,4,4,5,3,4,4,5,4,5,5,6,3,4,4,5,4,5,5,6,4,5,5,6,5,6,6,7,
     1,2,2,3,2,3,3,4,2,3,3,4,3,4,4,5,2,3,3,4,3,4,4,5,3,4,4,5,4,5,5,6,2,3,3,4,3,4,4,5,3,4,4,5,4,5,5,6,3,4,4,5,4,5,5,6,4,5,5,6,5,6,6,7,
     2,3,3,4,3,4,4,5,3,4,4,5,4,5,5,6,3,4,4,5,4,5,5,6,4,5,5,6,5,6,6,7,3,4,4,5,4,5,5,6,4,5,5,6,5,6,6,7,4,5,5,6,5,6,6,7,5,6,6,7,6,7,7,8]"

text \<open>One of the four words of a round: pairs, nibbles, bytes, and the sum of the bytes by a multiplication.\<close>

definition pop_pairs :: "32 word \<Rightarrow> 32 word" where
  "pop_pairs aux = aux - (drop_bit 1 aux AND 0x55555555)"

definition pop_nibbles :: "32 word \<Rightarrow> 32 word" where
  "pop_nibbles aux = (aux AND 0x33333333) + (drop_bit 2 aux AND 0x33333333)"

definition pop_sum :: "32 word \<Rightarrow> 32 word" where
  "pop_sum aux = drop_bit 24 (((aux + drop_bit 4 aux) AND 0x0F0F0F0F) * 0x01010101)"

definition pop32 :: "32 word \<Rightarrow> 32 word" where
  "pop32 aux = pop_sum (pop_nibbles (pop_pairs aux))"

fun pop_words :: "string \<Rightarrow> nat \<Rightarrow> string \<times> nat" where
  "pop_words p bits =
     (if length p \<ge> 16 then
        pop_words (drop 16 p)
          (bits + unat (pop32 (load_le (take 4 p)) + pop32 (load_le (take 4 (drop 4 p))) + pop32 (load_le (take 4 (drop 8 p)))
             + pop32 (load_le (take 4 (drop 12 p)))))
      else (p, bits))"

declare pop_words.simps [simp del]

fun pop_bytes :: "string \<Rightarrow> nat \<Rightarrow> nat" where
  "pop_bytes [] bits = bits"
| "pop_bytes (c # p) bits = pop_bytes p (bits + bitsinbyte ! uchar c)"

fun pop_align :: "nat \<Rightarrow> string \<Rightarrow> nat \<Rightarrow> string \<times> nat" where
  "pop_align addr [] bits = ([], bits)"
| "pop_align addr (c # p) bits =
     (if addr mod 4 \<noteq> 0 then pop_align (addr + 1) p (bits + bitsinbyte ! uchar c) else (c # p, bits))"

definition redisPopcount :: "nat \<Rightarrow> string \<Rightarrow> nat" where
  "redisPopcount addr s =
     (let (p1, bits1) = pop_align addr s 0; (p2, bits2) = pop_words p1 bits1 in pop_bytes p2 bits2)"

subsection \<open>Searching for a bit\<close>

fun skip_bytes :: "nat \<Rightarrow> bool \<Rightarrow> string \<Rightarrow> nat \<Rightarrow> nat \<times> string \<times> nat" where
  "skip_bytes addr b [] pos = (addr, [], pos)"
| "skip_bytes addr b (c # p) pos =
     (if addr mod 8 \<noteq> 0 \<and> uchar c = (if b then 0 else 255) then skip_bytes (addr + 1) b p (pos + 8) else (addr, c # p, pos))"

fun skip_words :: "bool \<Rightarrow> string \<Rightarrow> nat \<Rightarrow> string \<times> nat" where
  "skip_words b p pos =
     (if length p \<ge> 8 \<and> (load_le (take 8 p) :: 64 word) = (if b then 0 else - 1) then skip_words b (drop 8 p) (pos + 64) else (p, pos))"

declare skip_words.simps [simp del]

text \<open>The bytes at hand as one word, the first one on the left, padded with zeros on the right.\<close>

fun load_be :: "nat \<Rightarrow> string \<Rightarrow> 64 word \<Rightarrow> 64 word" where
  "load_be 0 p word = word"
| "load_be (Suc j) [] word = load_be j [] (push_bit 8 word)"
| "load_be (Suc j) (c # p) word = load_be j p (push_bit 8 word OR word_of_nat (uchar c))"

lemma half_less: "one \<noteq> 0 \<Longrightarrow> unat (drop_bit (Suc 0) one) < unat (one :: 64 word)"
proof -
  assume "one \<noteq> 0"
  then have "unat one \<noteq> 0" by (simp add: unat_eq_zero)
  moreover have "unat (drop_bit (Suc 0) one) = unat one div 2"
    unfolding unat_drop_bit_eq by (simp add: drop_bit_eq_div)
  ultimately show ?thesis by presburger
qed

function scan_bits :: "bool \<Rightarrow> 64 word \<Rightarrow> 64 word \<Rightarrow> nat \<Rightarrow> nat option" where
  "scan_bits b word one pos =
     (if one = 0 then None
      else if ((one AND word) \<noteq> 0) = b then Some pos
      else scan_bits b word (drop_bit 1 one) (pos + 1))"
  by pat_completeness auto
termination
  by (relation "measure (\<lambda>(b, word, one, pos). unat one)") (auto intro!: half_less)

declare scan_bits.simps [simp del]

text \<open>\<open>None\<close> is the panic at the end of the function.\<close>

definition redisBitpos :: "nat \<Rightarrow> string \<Rightarrow> bool \<Rightarrow> int option" where
  "redisBitpos addr s b =
     (let (addr1, c, pos1) = skip_bytes addr b s 0;
          (l, pos2) = skip_words b c pos1;
          word = load_be 8 l 0
      in if b \<and> word = 0 then Some (-1)
         else map_option int (scan_bits b word (NOT (drop_bit 1 (- 1))) pos2))"

subsection \<open>Combining strings\<close>

datatype bitop = BITOP_AND | BITOP_OR | BITOP_XOR | BITOP_NOT

fun word_op :: "bitop \<Rightarrow> 'a::len word \<Rightarrow> 'a word \<Rightarrow> 'a word" where
  "word_op BITOP_AND x y = x AND y"
| "word_op BITOP_OR x y = x OR y"
| "word_op BITOP_XOR x y = x XOR y"
| "word_op BITOP_NOT x y = x"

text \<open>One word of the result, from the words at offset \<open>off\<close> of the sources; the sources of a \<open>NOT\<close> are just one.\<close>

definition block_word :: "bitop \<Rightarrow> string list \<Rightarrow> nat \<Rightarrow> 64 word" where
  "block_word op srcs off =
     (let word = (\<lambda>p. load_le (take 8 (drop off p))) in
      if op = BITOP_NOT then NOT (word (hd srcs))
      else foldl (\<lambda>lres p. word_op op lres (word p)) (word (hd srcs)) (tl srcs))"

fun bitop_fast :: "bitop \<Rightarrow> string list \<Rightarrow> nat \<Rightarrow> nat \<Rightarrow> string \<Rightarrow> string \<times> nat" where
  "bitop_fast op srcs minlen j res =
     (if minlen \<ge> 32 then
        bitop_fast op srcs (minlen - 32) (j + 32)
          (res @ store64 (block_word op srcs j) @ store64 (block_word op srcs (j + 8)) @ store64 (block_word op srcs (j + 16))
             @ store64 (block_word op srcs (j + 24)))
      else (res, j))"

declare bitop_fast.simps [simp del]

definition byte_at :: "string \<Rightarrow> nat \<Rightarrow> 8 word" where
  "byte_at x j = (if length x \<le> j then 0 else word_of_nat (uchar (x ! j)))"

definition bitop_byte :: "bitop \<Rightarrow> string list \<Rightarrow> nat \<Rightarrow> char" where
  "bitop_byte op srcs j =
     (let first = byte_at (hd srcs) j; output = (if op = BITOP_NOT then NOT first else first)
      in char_of (unat (foldl (\<lambda>output x. word_op op output (byte_at x j)) output (tl srcs))))"

fun min_loop :: "bool \<Rightarrow> nat \<Rightarrow> string option list \<Rightarrow> nat" where
  "min_loop first minlen [] = minlen"
| "min_loop first minlen (None # xs) = min_loop False 0 xs"
| "min_loop first minlen (Some x # xs) = min_loop False (if first \<or> length x < minlen then length x else minlen) xs"

definition source :: "string option \<Rightarrow> string" where
  "source x = (case x of None \<Rightarrow> [] | Some y \<Rightarrow> y)"

definition max_length :: "string option list \<Rightarrow> nat" where
  "max_length xs = foldl (\<lambda>maxlen x. if length (source x) > maxlen then length (source x) else maxlen) 0 xs"

text \<open>The string that is stored, when the longest source is not empty.\<close>

definition bitop_result :: "bitop \<Rightarrow> string option list \<Rightarrow> string" where
  "bitop_result op xs =
     (let srcs = map source xs; maxlen = max_length xs; minlen = min_loop True 0 xs;
          (res, j) = (if minlen \<noteq> 0 \<and> length xs \<le> 16 then bitop_fast op srcs minlen 0 [] else ([], 0))
      in res @ map (bitop_byte op srcs) [j..<maxlen])"

subsection \<open>The commands\<close>

definition getBitOffsetFromArgument :: "nat \<Rightarrow> string \<Rightarrow> 'z server \<Rightarrow> ('z server \<times> nat option) option" where
  "getBitOffsetFromArgument c x s = do {
     (s1, r) \<leftarrow> getLongLongFromObjectOrReply c (Some (StrRaw x)) (Some ''bit offset is not an integer or out of range'') s;
     Some (case r of None \<Rightarrow> (s1, None)
       | Some loffset \<Rightarrow>
           if loffset < 0 \<or> drop_bit 3 loffset \<ge> 512 * 1024 * 1024
           then (addReplyError c ''bit offset is not an integer or out of range'' s1, None)
           else (s1, Some (nat loffset))) }"

text \<open>The string with one bit changed, and the old value of the bit. \<open>sdsgrowzero\<close> pads it.\<close>

definition put_bit :: "string \<Rightarrow> nat \<Rightarrow> int \<Rightarrow> string \<times> bool" where
  "put_bit x bitoffset on =
     (let byte = drop_bit 3 bitoffset;
          y = x @ replicate (byte + 1 - length x) NUL;
          byteval = int (uchar (y ! byte));
          bitn = 7 - (bitoffset AND 7);
          bitval = byteval AND push_bit bitn 1;
          byteval = byteval AND NOT (push_bit bitn 1);
          byteval = byteval OR push_bit bitn (on AND 1)
      in (y[byte := char_of (nat byteval)], bitval \<noteq> 0))"

definition setbitCommand :: "nat \<Rightarrow> 'z server \<Rightarrow> 'z server option" where
  "setbitCommand c s =
     (let i = cdb (clients s c); key = arg c 1 s; value = arg c 3 s;
          finish = (\<lambda>x off on s3.
            let (y, old) = put_bit x off on; s4 = signalModifiedKey i key (modify_value i key (StrRaw y) s3) in do {
              s5 \<leftarrow> notifyKeyspaceEvent NOTIFY_STRING ''setbit'' key i s4;
              Some (addReply c (if old then shared_cone else shared_czero) (add_dirty 1 s5)) })
      in do {
        (s1, r1) \<leftarrow> getBitOffsetFromArgument c (arg c 2 s) s;
        case r1 of None \<Rightarrow> Some s1
        | Some off \<Rightarrow> do {
            (s2, r2) \<leftarrow> getLongFromObjectOrReply c (Some (StrRaw value)) (Some ''bit is not an integer or out of range'') s1;
            case r2 of None \<Rightarrow> Some s2
            | Some on \<Rightarrow>
                if on AND NOT 1 \<noteq> 0 then Some (addReplyError c ''bit is not an integer or out of range'' s2)
                else do {
                  (s3, v) \<leftarrow> lookupKeyWrite i key s2;
                  case v of
                    None \<Rightarrow> do {
                      s4 \<leftarrow> dbAdd i key (createObject s3 (StrRaw [])) s3;
                      finish [] off on s4 }
                  | Some val \<Rightarrow>
                      (case checkType c (oval val) REDIS_STRING s3 of
                         (s4, True) \<Rightarrow> Some s4
                       | (s4, False) \<Rightarrow> do {
                           (s5, x) \<leftarrow> dbUnshareStringValue i key val s4;
                           finish x off on s5 }) } } })"

definition getbitCommand :: "nat \<Rightarrow> 'z server \<Rightarrow> 'z server option" where
  "getbitCommand c s = do {
     (s1, r) \<leftarrow> getBitOffsetFromArgument c (arg c 2 s) s;
     case r of None \<Rightarrow> Some s1
     | Some off \<Rightarrow> do {
         (s2, v) \<leftarrow> lookupKeyReadOrReply c (arg c 1 s) shared_czero s1;
         case v of None \<Rightarrow> Some s2
         | Some val \<Rightarrow>
             (case checkType c (oval val) REDIS_STRING s2 of
                (s3, True) \<Rightarrow> Some s3
              | (s3, False) \<Rightarrow> do {
                  x \<leftarrow> getDecodedObject (oval val);
                  let byte = drop_bit 3 off; bitn = 7 - (off AND 7);
                      bitval = (if byte < length x then int (uchar (x ! byte)) AND push_bit bitn 1 else 0)
                  in Some (addReply c (if bitval \<noteq> 0 then shared_cone else shared_czero) s3) }) } }"

definition bitop_named :: "string \<Rightarrow> bitop option" where
  "bitop_named opname =
     (if strcaseeq opname ''and'' then Some BITOP_AND
      else if strcaseeq opname ''or'' then Some BITOP_OR
      else if strcaseeq opname ''xor'' then Some BITOP_XOR
      else if strcaseeq opname ''not'' then Some BITOP_NOT
      else None)"

text \<open>The sources; \<open>None\<close> when one of them is not a string, which has been answered.\<close>

fun gather :: "nat \<Rightarrow> nat \<Rightarrow> string list \<Rightarrow> 'z server \<Rightarrow> ('z server \<times> string option list option) option" where
  "gather c i [] s = Some (s, Some [])"
| "gather c i (key # keys) s = do {
     (s1, v) \<leftarrow> lookupKeyRead i key s;
     case v of
       None \<Rightarrow> do { (s2, r) \<leftarrow> gather c i keys s1; Some (s2, map_option ((#) None) r) }
     | Some val \<Rightarrow>
         (case checkType c (oval val) REDIS_STRING s1 of
            (s2, True) \<Rightarrow> Some (s2, None)
          | (s2, False) \<Rightarrow> do {
              x \<leftarrow> getDecodedObject (oval val);
              (s3, r) \<leftarrow> gather c i keys s2;
              Some (s3, map_option ((#) (Some x)) r) }) }"

definition bitopCommand :: "nat \<Rightarrow> 'z server \<Rightarrow> 'z server option" where
  "bitopCommand c s =
     (let i = cdb (clients s c); targetkey = arg c 2 s in
      case bitop_named (arg c 1 s) of
        None \<Rightarrow> Some (addReply c shared_syntaxerr s)
      | Some op \<Rightarrow>
          if op = BITOP_NOT \<and> length (argv (clients s c)) \<noteq> 4 then
            Some (addReplyError c ''BITOP NOT must be called with a single source key.'' s)
          else do {
            (s1, r) \<leftarrow> gather c i (args_from c 3 s) s;
            case r of None \<Rightarrow> Some s1
            | Some xs \<Rightarrow>
                let maxlen = max_length xs in do {
                  s2 \<leftarrow> (if maxlen \<noteq> 0 then do {
                      s2 \<leftarrow> setKey i targetkey (createObject s1 (StrRaw (bitop_result op xs))) s1;
                      notifyKeyspaceEvent NOTIFY_STRING ''set'' targetkey i s2 }
                    else (case dbDelete i targetkey s1 of
                        (s2, True) \<Rightarrow> notifyKeyspaceEvent NOTIFY_GENERIC ''del'' targetkey i (signalModifiedKey i targetkey s2)
                      | (s2, False) \<Rightarrow> Some s2));
                  Some (addReplyLongLong c (int maxlen) (add_dirty 1 s2)) } })"

text \<open>
  The answer to \<open>BITCOUNT\<close> and \<open>BITPOS\<close> reads the bytes in place; where they lie in memory is the argument \<open>addr\<close>.
\<close>

definition bitcountCommand :: "(string \<Rightarrow> nat) \<Rightarrow> nat \<Rightarrow> 'z server \<Rightarrow> 'z server option" where
  "bitcountCommand addr c s =
     (let argn = length (argv (clients s c));
          answer = (\<lambda>p (start, end1) s1.
            if start > end1 then Some (addReply c shared_czero s1)
            else let bytes = end1 - start + 1 in
              Some (addReplyLongLong c (int (redisPopcount (addr p + nat start) (take (nat bytes) (drop (nat start) p)))) s1))
      in do {
        (s1, v) \<leftarrow> lookupKeyReadOrReply c (arg c 1 s) shared_czero s;
        case v of None \<Rightarrow> Some s1
        | Some val \<Rightarrow>
            (case checkType c (oval val) REDIS_STRING s1 of
               (s2, True) \<Rightarrow> Some s2
             | (s2, False) \<Rightarrow> do {
                 p \<leftarrow> getDecodedObject (oval val);
                 if argn = 4 then do {
                   (s3, r1) \<leftarrow> getLongFromObjectOrReply c (Some (StrRaw (arg c 2 s))) None s2;
                   case r1 of None \<Rightarrow> Some s3
                   | Some start0 \<Rightarrow> do {
                       (s4, r2) \<leftarrow> getLongFromObjectOrReply c (Some (StrRaw (arg c 3 s))) None s3;
                       case r2 of None \<Rightarrow> Some s4
                       | Some end0 \<Rightarrow> answer p (range_bounds (int (length p)) start0 end0) s4 } }
                 else if argn = 2 then answer p (0, int (length p) - 1) s2
                 else Some (addReply c shared_syntaxerr s2) }) })"

definition bitposCommand :: "(string \<Rightarrow> nat) \<Rightarrow> nat \<Rightarrow> 'z server \<Rightarrow> 'z server option" where
  "bitposCommand addr c s =
     (let argn = length (argv (clients s c)) in do {
        (s1, r) \<leftarrow> getLongFromObjectOrReply c (Some (StrRaw (arg c 2 s))) None s;
        case r of None \<Rightarrow> Some s1
        | Some b \<Rightarrow>
            if b \<noteq> 0 \<and> b \<noteq> 1 then Some (addReplyError c ''The bit argument must be 1 or 0.'' s1)
            else do {
              (s2, v) \<leftarrow> lookupKeyRead (cdb (clients s c)) (arg c 1 s) s1;
              case v of None \<Rightarrow> Some (addReplyLongLong c (if b \<noteq> 0 then -1 else 0) s2)
              | Some val \<Rightarrow>
                  (case checkType c (oval val) REDIS_STRING s2 of
                     (s3, True) \<Rightarrow> Some s3
                   | (s3, False) \<Rightarrow> do {
                       p \<leftarrow> getDecodedObject (oval val);
                       let answer = (\<lambda>(start, end1) end_given s4.
                         if start > end1 then Some (addReplyLongLong c (-1) s4)
                         else let bytes = end1 - start + 1 in do {
                           pos \<leftarrow> redisBitpos (addr p + nat start) (take (nat bytes) (drop (nat start) p)) (b = 1);
                           Some (addReplyLongLong c
                             (if end_given \<and> b = 0 \<and> pos = bytes * 8 then -1 else if pos \<noteq> -1 then pos + start * 8 else pos) s4) }) in
                       if argn = 4 \<or> argn = 5 then do {
                         (s4, r1) \<leftarrow> getLongFromObjectOrReply c (Some (StrRaw (arg c 3 s))) None s3;
                         case r1 of None \<Rightarrow> Some s4
                         | Some start0 \<Rightarrow>
                             if argn = 5 then do {
                               (s5, r2) \<leftarrow> getLongFromObjectOrReply c (Some (StrRaw (arg c 4 s))) None s4;
                               case r2 of None \<Rightarrow> Some s5
                               | Some end0 \<Rightarrow> answer (range_bounds (int (length p)) start0 end0) True s5 }
                             else answer (range_bounds (int (length p)) start0 (int (length p) - 1)) False s4 }
                       else if argn = 3 then answer (0, int (length p) - 1) False s3
                       else Some (addReply c shared_syntaxerr s3) }) } })"

end
