(* ===== verification/Bitops_Correct.thy ===== *)
theory Bitops_Correct
  imports Bitops
begin

unbundle bit_operations_syntax

declare One_nat_def [simp del]

text \<open>
  A string denotes the set of the positions of its bits that are one, from left to right; the operations of
  \<^verbatim>\<open>bitops.c\<close> are stated on it.
\<close>

definition bit_of :: "string \<Rightarrow> nat \<Rightarrow> bool" where
  "bit_of x i \<longleftrightarrow> i div 8 < length x \<and> bit (uchar (x ! (i div 8))) (7 - i mod 8)"

definition ones :: "string \<Rightarrow> nat" where
  "ones x = card {i. bit_of x i}"

lemma bit_of_bound: "bit_of x i \<Longrightarrow> i < 8 * length x"
  by (auto simp: bit_of_def)

lemma finite_bits [simp]: "finite {i. bit_of x i}"
  by (rule finite_subset [of _ "{..<8 * length x}"]) (auto dest: bit_of_bound)

lemma bit_of_Nil [simp]: "\<not> bit_of [] i"
  by (simp add: bit_of_def)

lemma bit_of_append: "bit_of (x @ y) i = (if i < 8 * length x then bit_of x i else bit_of y (i - 8 * length x))"
proof (cases "i < 8 * length x")
  case True
  then show ?thesis by (auto simp: bit_of_def nth_append)
next
  case False
  then obtain j where "i = j + 8 * length x" by (metis add.commute le_add_diff_inverse not_less)
  then show ?thesis by (simp add: bit_of_def nth_append)
qed

lemma ones_append [simp]: "ones (x @ y) = ones x + ones y"
proof -
  have "{i. bit_of (x @ y) i} = {i. bit_of x i} \<union> (\<lambda>i. i + 8 * length x) ` {i. bit_of y i}"
  proof (intro set_eqI iffI)
    fix i assume "i \<in> {i. bit_of (x @ y) i}"
    then show "i \<in> {i. bit_of x i} \<union> (\<lambda>i. i + 8 * length x) ` {i. bit_of y i}"
      by (cases "i < 8 * length x") (auto simp: bit_of_append intro!: image_eqI [where x = "i - 8 * length x"])
  qed (auto simp: bit_of_append dest: bit_of_bound)
  moreover have "{i. bit_of x i} \<inter> (\<lambda>i. i + 8 * length x) ` {i. bit_of y i} = {}" by (auto dest: bit_of_bound)
  ultimately show ?thesis unfolding ones_def by (simp add: card_Un_disjoint card_image)
qed

lemma ones_Nil [simp]: "ones [] = 0"
  by (simp add: ones_def)

lemma ones_Cons: "ones (c # x) = ones [c] + ones x"
  using ones_append [of "[c]" x] by simp

subsection \<open>The table\<close>

definition byte_ones :: "int \<Rightarrow> nat" where
  "byte_ones n = length (filter (bit n) [0..<8])"

lemma byte_ones_card: "byte_ones (int n) = card {i. i < 8 \<and> bit n i}"
proof -
  have "byte_ones (int n) = card (set (filter (bit (int n)) [0..<8]))"
    unfolding byte_ones_def by (rule distinct_card [symmetric]) simp
  also have "set (filter (bit (int n)) [0..<8]) = {i. i < 8 \<and> bit n i}" by (auto simp: bit_of_nat_iff)
  finally show ?thesis .
qed

lemma table_check: "list_all (\<lambda>n. bitsinbyte ! nat n = byte_ones n) [0..255]"
  by code_simp

lemma table_ones: "bitsinbyte ! uchar c = ones [c]"
proof -
  have "bitsinbyte ! nat (int (uchar c)) = byte_ones (int (uchar c))"
  proof -
    have "int (uchar c) \<in> set [0..255]" using uchar_bound [of c] by (simp del: uchar_bound)
    then show ?thesis using table_check unfolding list_all_iff by blast
  qed
  then have "bitsinbyte ! uchar c = card {i. i < 8 \<and> bit (uchar c) i}" by (simp add: byte_ones_card)
  also have "{i. i < 8 \<and> bit (uchar c) i} = (\<lambda>i. 7 - i) ` {i. bit_of [c] i}"
  proof (intro set_eqI iffI)
    fix i assume "i \<in> {i. i < 8 \<and> bit (uchar c) i}"
    then have i: "i < 8" "bit (uchar c) i" by auto
    then have "bit_of [c] (7 - i)" by (simp add: bit_of_def)
    then show "i \<in> (\<lambda>i. 7 - i) ` {i. bit_of [c] i}" using i(1) by (intro image_eqI [where x = "7 - i"]) auto
  qed (auto simp: bit_of_def)
  also have "card \<dots> = ones [c]"
    unfolding ones_def by (rule card_image) (auto simp: inj_on_def dest!: bit_of_bound)
  finally show ?thesis .
qed

lemma ones_byte: "ones (c # x) = bitsinbyte ! uchar c + ones x"
  unfolding table_ones by (rule ones_Cons)

lemma pop_bytes_ones: "pop_bytes p n = n + ones p"
  by (induction p arbitrary: n) (simp_all add: ones_byte)

lemma pop_align_ones: "pop_align addr p n = (q, m) \<Longrightarrow> m + ones q = n + ones p"
  by (induction p arbitrary: addr n) (auto simp: ones_byte split: if_splits)

subsection \<open>Words byte by byte\<close>

lemma and_bytes:
  assumes "(a::nat) < 256" "m < 256"
  shows "(a + 256 * y) AND (m + 256 * M) = (a AND m) + 256 * (y AND M)"
proof -
  have t: "take_bit 8 (a + 256 * y) = a" "drop_bit 8 (a + 256 * y) = y" "take_bit 8 (m + 256 * M) = m" "drop_bit 8 (m + 256 * M) = M"
    using assms by (simp_all add: take_bit_eq_mod drop_bit_eq_div)
  have "(a + 256 * y) AND (m + 256 * M) = take_bit 8 ((a + 256 * y) AND (m + 256 * M)) + push_bit 8 (drop_bit 8 ((a + 256 * y) AND (m + 256 * M)))"
    by (metis add.commute bits_ident)
  then show ?thesis by (simp add: t push_bit_eq_mult)
qed

lemma shift_and_bytes:
  assumes "(a::nat) < 256" "m < 2 ^ (8 - k)" "k \<le> 8"
  shows "drop_bit k (a + 256 * y) AND (m + 256 * M) = (drop_bit k a AND m) + 256 * (drop_bit k y AND M)"
proof -
  let ?X = "a + 256 * y"
  have "m < 256" using assms(2) power_increasing [of "8 - k" 8 "2::nat"] by simp
  then have t: "take_bit 8 ?X = a" "drop_bit 8 ?X = y" "take_bit 8 (m + 256 * M) = m" "drop_bit 8 (m + 256 * M) = M" "take_bit (8 - k) m = m"
    using assms by (simp_all add: take_bit_eq_mod drop_bit_eq_div)
  have "take_bit 8 (drop_bit k ?X) AND m = take_bit 8 (drop_bit k ?X) AND take_bit (8 - k) m" by (simp add: t)
  also have "\<dots> = take_bit (8 - k) (drop_bit k ?X) AND m"
    by (rule bit_eqI) (auto simp: bit_simps assms(3))
  also have "take_bit (8 - k) (drop_bit k ?X) = drop_bit k a"
    by (simp add: take_bit_drop_bit assms(3) t)
  finally have low: "take_bit 8 (drop_bit k ?X) AND m = drop_bit k a AND m" .
  have high: "drop_bit 8 (drop_bit k ?X) = drop_bit k y"
    by (metis add.commute drop_bit_drop_bit t(2))
  have "drop_bit k ?X AND (m + 256 * M) = take_bit 8 (drop_bit k ?X AND (m + 256 * M)) + push_bit 8 (drop_bit 8 (drop_bit k ?X AND (m + 256 * M)))"
    by (metis add.commute bits_ident)
  then show ?thesis by (simp add: t(3,4) low high push_bit_eq_mult del: drop_bit_drop_bit)
qed

definition word_bytes :: "nat \<Rightarrow> nat \<Rightarrow> nat \<Rightarrow> nat \<Rightarrow> nat" where
  "word_bytes a b c d = a + 256 * (b + 256 * (c + 256 * d))"

definition f1 :: "nat \<Rightarrow> nat" where "f1 a = a - (drop_bit 1 a AND 0x55)"
definition f2 :: "nat \<Rightarrow> nat" where "f2 a = (a AND 0x33) + (drop_bit 2 a AND 0x33)"

text \<open>The 256 bytes.\<close>

lemma byte_check:
  "list_all (\<lambda>n::int. let x = n - (drop_bit 1 n AND 0x55); y = (x AND 0x33) + (drop_bit 2 x AND 0x33)
     in drop_bit 1 n AND 0x55 \<le> n \<and> y mod 16 \<le> 4 \<and> y div 16 \<le> 4 \<and> y mod 16 + y div 16 = int (byte_ones n)) [0..255]"
  by code_simp

lemma byte_facts:
  assumes "a < 256"
  shows "drop_bit 1 a AND 0x55 \<le> a" "f2 (f1 a) mod 16 \<le> 4" "f2 (f1 a) div 16 \<le> 4" "f2 (f1 a) mod 16 + f2 (f1 a) div 16 = byte_ones (int a)"
    "f1 a < 256"
proof -
  have "int a \<in> set [0..255]" using assms by simp
  then have chk: "let x = int a - (drop_bit 1 (int a) AND 0x55); y = (x AND 0x33) + (drop_bit 2 x AND 0x33)
     in drop_bit 1 (int a) AND 0x55 \<le> int a \<and> y mod 16 \<le> 4 \<and> y div 16 \<le> 4 \<and> y mod 16 + y div 16 = int (byte_ones (int a))"
    using byte_check unfolding list_all_iff by blast
  have d: "drop_bit 1 (int a) AND 0x55 = int (drop_bit 1 a AND 0x55)" by (simp add: of_nat_and_eq of_nat_drop_bit)
  show le: "drop_bit 1 a AND 0x55 \<le> a" using chk unfolding Let_def d by linarith
  have e: "int a - (drop_bit 1 (int a) AND 0x55) = int (f1 a)" unfolding d f1_def using le by simp
  have f: "(int (f1 a) AND 0x33) + (drop_bit 2 (int (f1 a)) AND 0x33) = int (f2 (f1 a))"
    by (simp add: f2_def of_nat_and_eq of_nat_drop_bit)
  note g = chk [unfolded Let_def e f]
  have h: "int (f2 (f1 a) mod 16) \<le> 4" "int (f2 (f1 a) div 16) \<le> 4" "int (f2 (f1 a) mod 16 + f2 (f1 a) div 16) = int (byte_ones (int a))"
    unfolding of_nat_add zmod_int zdiv_int using g by simp_all
  show "f2 (f1 a) mod 16 \<le> 4" "f2 (f1 a) div 16 \<le> 4" "f2 (f1 a) mod 16 + f2 (f1 a) div 16 = byte_ones (int a)"
    using h by linarith+
  show "f1 a < 256" using assms by (simp add: f1_def)
qed

lemma shift_and_word:
  assumes "(a::nat) < 256" "b < 256" "c < 256" "d < 256" "m < 2 ^ (8 - k)" "k \<le> 8"
  shows "drop_bit k (word_bytes a b c d) AND word_bytes m m m m
    = word_bytes (drop_bit k a AND m) (drop_bit k b AND m) (drop_bit k c AND m) (drop_bit k d AND m)"
proof -
  note sh = shift_and_bytes [OF _ assms(5,6)]
  show ?thesis unfolding word_bytes_def sh [OF assms(1)] sh [OF assms(2)] sh [OF assms(3)] ..
qed

lemma and_word:
  assumes "(a::nat) < 256" "b < 256" "c < 256" "d < 256" "m < 256"
  shows "word_bytes a b c d AND word_bytes m m m m = word_bytes (a AND m) (b AND m) (c AND m) (d AND m)"
  using shift_and_word [OF assms(1-4), of m 0] assms(5) by simp

lemma unat_numeral32: "n < 4294967296 \<Longrightarrow> unat (word_of_nat n :: 32 word) = n"
  by (simp add: unat_of_nat take_bit_eq_mod)

lemma word_bytes_bound: "a < 256 \<Longrightarrow> b < 256 \<Longrightarrow> c < 256 \<Longrightarrow> d < 256 \<Longrightarrow> word_bytes a b c d < 4294967296"
  by (simp add: word_bytes_def)

lemma word_bytes_mono: "a \<le> a' \<Longrightarrow> b \<le> b' \<Longrightarrow> c \<le> c' \<Longrightarrow> d \<le> d' \<Longrightarrow> word_bytes a b c d \<le> word_bytes a' b' c' d'"
  by (simp add: word_bytes_def)

lemma word_bytes_diff:
  "a \<le> a' \<Longrightarrow> b \<le> b' \<Longrightarrow> c \<le> c' \<Longrightarrow> d \<le> d' \<Longrightarrow>
    word_bytes a' b' c' d' - word_bytes a b c d = word_bytes (a' - a) (b' - b) (c' - c) (d' - d)"
  by (simp add: word_bytes_def)

lemma masks:
  "unat (0x55555555 :: 32 word) = word_bytes 0x55 0x55 0x55 0x55" "unat (0x33333333 :: 32 word) = word_bytes 0x33 0x33 0x33 0x33"
  "unat (0x0F0F0F0F :: 32 word) = word_bytes 0x0F 0x0F 0x0F 0x0F" "unat (0x01010101 :: 32 word) = word_bytes 1 1 1 1"
  by (simp_all add: word_bytes_def)

lemma pop_pairs_bytes:
  assumes w: "unat w = word_bytes a b c d" and b: "a < 256" "b < 256" "c < 256" "d < 256"
  shows "unat (pop_pairs w) = word_bytes (f1 a) (f1 b) (f1 c) (f1 d)"
proof -
  have m: "unat (drop_bit 1 w AND 0x55555555) = word_bytes (drop_bit 1 a AND 0x55) (drop_bit 1 b AND 0x55) (drop_bit 1 c AND 0x55) (drop_bit 1 d AND 0x55)"
    unfolding unsigned_and_eq unat_drop_bit_eq w masks by (rule shift_and_word) (use b in simp_all)
  note le = byte_facts(1) [OF b(1)] byte_facts(1) [OF b(2)] byte_facts(1) [OF b(3)] byte_facts(1) [OF b(4)]
  have "unat (drop_bit 1 w AND 0x55555555) \<le> unat w" unfolding m w using le by (rule word_bytes_mono)
  then have "unat (pop_pairs w) = unat w - unat (drop_bit 1 w AND 0x55555555)"
    unfolding pop_pairs_def by (simp only: unat_sub word_le_nat_alt)
  also have "\<dots> = word_bytes (f1 a) (f1 b) (f1 c) (f1 d)" unfolding m w f1_def using le by (rule word_bytes_diff)
  finally show ?thesis .
qed

lemma and_le_nat: "(a::nat) AND m \<le> m"
proof -
  have "int (a AND m) \<le> int m" unfolding of_nat_and_eq by (rule AND_upper2) simp
  then show ?thesis by simp
qed

lemma pop_nibbles_bytes:
  assumes w: "unat w = word_bytes a b c d" and b: "a < 256" "b < 256" "c < 256" "d < 256"
  shows "unat (pop_nibbles w) = word_bytes (f2 a) (f2 b) (f2 c) (f2 d)"
proof -
  have m1: "unat (w AND 0x33333333) = word_bytes (a AND 0x33) (b AND 0x33) (c AND 0x33) (d AND 0x33)"
    unfolding unsigned_and_eq w masks by (rule and_word) (use b in simp_all)
  have m2: "unat (drop_bit 2 w AND 0x33333333) = word_bytes (drop_bit 2 a AND 0x33) (drop_bit 2 b AND 0x33) (drop_bit 2 c AND 0x33) (drop_bit 2 d AND 0x33)"
    unfolding unsigned_and_eq unat_drop_bit_eq w masks by (rule shift_and_word) (use b in simp_all)
  have le: "x AND 0x33 \<le> 0x33" for x :: nat by (rule and_le_nat)
  have sum: "unat (w AND 0x33333333) + unat (drop_bit 2 w AND 0x33333333) = word_bytes (f2 a) (f2 b) (f2 c) (f2 d)"
    unfolding m1 m2 word_bytes_def f2_def by simp
  have "f2 x < 256" for x unfolding f2_def using le [of x] le [of "drop_bit 2 x"] by linarith
  then have "unat (w AND 0x33333333) + unat (drop_bit 2 w AND 0x33333333) < 2 ^ LENGTH(32)"
    unfolding sum using word_bytes_bound [of "f2 a" "f2 b" "f2 c" "f2 d"] by simp
  then show ?thesis unfolding pop_nibbles_def using sum by (simp add: unat_word_ariths take_bit_eq_mod)
qed

lemma pop_sum_bytes:
  assumes w: "unat w = word_bytes a b c d"
    and b: "a mod 16 \<le> 4" "a div 16 \<le> 4" "b mod 16 \<le> 4" "b div 16 \<le> 4" "c mod 16 \<le> 4" "c div 16 \<le> 4" "d mod 16 \<le> 4" "d div 16 \<le> 4"
  shows "unat (pop_sum w) = (a mod 16 + a div 16) + (b mod 16 + b div 16) + (c mod 16 + c div 16) + (d mod 16 + d div 16)"
proof -
  obtain a0 a1 b0 b1 c0 c1 d0 d1 where n: "a = a0 + 16 * a1" "b = b0 + 16 * b1" "c = c0 + 16 * c1" "d = d0 + 16 * d1"
    "a0 \<le> 4" "a1 \<le> 4" "b0 \<le> 4" "b1 \<le> 4" "c0 \<le> 4" "c1 \<le> 4" "d0 \<le> 4" "d1 \<le> 4"
    "a0 = a mod 16" "a1 = a div 16" "b0 = b mod 16" "b1 = b div 16" "c0 = c mod 16" "c1 = c div 16" "d0 = d mod 16" "d1 = d div 16"
    using b by (metis add.commute mult_div_mod_eq)
  have dv: "word_bytes a b c d div 16 = a1 + 16 * (b0 + 16 * (b1 + 16 * (c0 + 16 * (c1 + 16 * (d0 + 16 * d1)))))"
    using n(1-12) by (simp add: word_bytes_def)
  define s0 s1 s2 s3 where s: "s0 = a0 + a1 + 16 * (a1 + b0)" "s1 = b0 + b1 + 16 * (b1 + c0)" "s2 = c0 + c1 + 16 * (c1 + d0)" "s3 = d0 + d1 + 16 * d1"
  have sum: "word_bytes a b c d + word_bytes a b c d div 16 = word_bytes s0 s1 s2 s3"
    unfolding dv s by (simp add: word_bytes_def n(1-4))
  have sb: "s0 < 256" "s1 < 256" "s2 < 256" "s3 < 256" using n(5-12) by (simp_all add: s)
  have "unat (w + drop_bit 4 w) = word_bytes s0 s1 s2 s3"
    using sum word_bytes_bound [OF sb] by (simp add: unat_word_ariths unat_drop_bit_eq drop_bit_eq_div w)
  then have "unat ((w + drop_bit 4 w) AND 0x0F0F0F0F) = word_bytes (s0 AND 15) (s1 AND 15) (s2 AND 15) (s3 AND 15)"
    unfolding unsigned_and_eq masks using and_word [OF sb, of 15] by simp
  moreover have "x AND 15 = x mod 16" for x :: nat using take_bit_eq_mask [of 4 x] by (simp add: take_bit_eq_mod mask_eq_exp_minus_1)
  moreover have "s0 mod 16 = a0 + a1" "s1 mod 16 = b0 + b1" "s2 mod 16 = c0 + c1" "s3 mod 16 = d0 + d1"
  proof -
    have md: "(x + 16 * z) mod 16 = x" if "x \<le> 8" for x z :: nat using that by simp
    show "s0 mod 16 = a0 + a1" "s1 mod 16 = b0 + b1" "s2 mod 16 = c0 + c1" "s3 mod 16 = d0 + d1"
      unfolding s by (rule md, use n(5-12) in simp)+
  qed
  ultimately have e: "unat ((w + drop_bit 4 w) AND 0x0F0F0F0F) = word_bytes (a0 + a1) (b0 + b1) (c0 + c1) (d0 + d1)" by simp
  define e0 e1 e2 e3 where d: "e0 = a0 + a1" "e1 = b0 + b1" "e2 = c0 + c1" "e3 = d0 + d1"
  have eb: "e0 \<le> 8" "e1 \<le> 8" "e2 \<le> 8" "e3 \<le> 8" using n(5-12) by (simp_all add: d)
  define low high where lh: "low = e0 + 256 * (e0 + e1) + 65536 * (e0 + e1 + e2)" "high = (e1 + e2 + e3) + 256 * (e2 + e3) + 65536 * e3"
  have prod: "word_bytes e0 e1 e2 e3 * word_bytes 1 1 1 1 = low + 16777216 * (e0 + e1 + e2 + e3) + 4294967296 * high"
    unfolding lh word_bytes_def by (simp add: algebra_simps)
  have "low < 16777216" unfolding lh using eb by simp
  then have small: "low + 16777216 * (e0 + e1 + e2 + e3) < 4294967296" and div: "(low + 16777216 * (e0 + e1 + e2 + e3)) div 16777216 = e0 + e1 + e2 + e3"
    using eb by simp_all
  have "unat (((w + drop_bit 4 w) AND 0x0F0F0F0F) * 0x01010101) = (word_bytes e0 e1 e2 e3 * word_bytes 1 1 1 1) mod 4294967296"
    unfolding unat_word_ariths(2) e [folded d] masks by simp
  also have "\<dots> = low + 16777216 * (e0 + e1 + e2 + e3)" unfolding prod using small by simp
  finally have "unat (pop_sum w) = (low + 16777216 * (e0 + e1 + e2 + e3)) div 16777216"
    unfolding pop_sum_def unat_drop_bit_eq by (simp add: drop_bit_eq_div)
  then show ?thesis unfolding div by (simp add: d n(13-20))
qed

lemma ones_single: "ones [c] = byte_ones (int (uchar c))"
proof -
  have "int (uchar c) \<in> set [0..255]" using uchar_bound [of c] by (simp del: uchar_bound)
  then have "bitsinbyte ! nat (int (uchar c)) = byte_ones (int (uchar c))" using table_check unfolding list_all_iff by blast
  then show ?thesis by (simp add: table_ones)
qed

lemma pop32_ones:
  assumes "unat w = word_bytes (uchar a) (uchar b) (uchar c) (uchar d)"
  shows "unat (pop32 w) = ones [a, b, c, d]"
proof -
  note b = uchar_bound [of a] uchar_bound [of b] uchar_bound [of c] uchar_bound [of d]
  note f = byte_facts [OF b(1)] byte_facts [OF b(2)] byte_facts [OF b(3)] byte_facts [OF b(4)]
  have "unat (pop_nibbles (pop_pairs w)) = word_bytes (f2 (f1 (uchar a))) (f2 (f1 (uchar b))) (f2 (f1 (uchar c))) (f2 (f1 (uchar d)))"
    by (rule pop_nibbles_bytes [OF pop_pairs_bytes [OF assms b]]) (use f in simp_all)
  from pop_sum_bytes [OF this] f have "unat (pop32 w) = byte_ones (int (uchar a)) + byte_ones (int (uchar b)) + byte_ones (int (uchar c)) + byte_ones (int (uchar d))"
    unfolding pop32_def by simp
  then show ?thesis
    using ones_Cons [of a "[b, c, d]"] ones_Cons [of b "[c, d]"] ones_Cons [of c "[d]"] by (simp add: ones_single)
qed

subsection \<open>Words from memory\<close>

definition le_val :: "string \<Rightarrow> nat" where
  "le_val p = foldr (\<lambda>c v. uchar c + 256 * v) p 0"

lemma le_val_simps [simp]: "le_val [] = 0" "le_val (c # p) = uchar c + 256 * le_val p"
  by (simp_all add: le_val_def)

lemma le_val_bound: "le_val p < 256 ^ length p"
proof (induction p)
  case (Cons c p)
  then have "le_val p + 1 \<le> 256 ^ length p" by simp
  then have "256 * (le_val p + 1) \<le> 256 * 256 ^ length p" by (rule mult_le_mono2)
  then show ?case using uchar_bound [of c] by (simp del: uchar_bound)
qed simp

lemma or_shift: "c < 256 \<Longrightarrow> (c::nat) OR push_bit 8 v = c + 256 * v"
proof -
  assume c: "c < 256"
  then have t: "take_bit 8 c = c" by (simp add: take_bit_eq_mod)
  have "c AND push_bit 8 v = 0"
    by (subst t [symmetric], rule bit_eqI) (auto simp: bit_simps)
  then show ?thesis using disjunctive_add_eq_or [of c "push_bit 8 v"] by (simp add: push_bit_eq_mult)
qed

lemma load_le_val: "8 * length p \<le> LENGTH('a) \<Longrightarrow> unat (load_le p :: 'a::len word) = le_val p"
proof (induction p)
  case (Cons c p)
  then have IH: "unat (load_le p :: 'a word) = le_val p" by simp
  have "256 * le_val p < 256 * 256 ^ length p" using le_val_bound [of p] by simp
  also have "\<dots> = 2 ^ (8 * length (c # p))" by (simp add: power_mult power_add)
  also have "\<dots> \<le> 2 ^ LENGTH('a)" using Cons.prems by (intro power_increasing) simp_all
  finally have lt: "256 * le_val p < 2 ^ LENGTH('a)" .
  have "(256 :: nat) \<le> 2 ^ LENGTH('a)" using power_increasing [of 8 "LENGTH('a)" "2::nat"] Cons.prems by simp
  then have c: "unat (word_of_nat (uchar c) :: 'a word) = uchar c"
    using uchar_bound [of c] by (simp add: unat_of_nat take_bit_eq_mod del: uchar_bound)
  have "unat (load_le (c # p) :: 'a word) = uchar c OR take_bit LENGTH('a) (push_bit 8 (le_val p))"
    using IH by (simp add: load_le_def unsigned_or_eq unsigned_push_bit_eq c)
  also have "take_bit LENGTH('a) (push_bit 8 (le_val p)) = push_bit 8 (le_val p)"
    using lt by (simp add: take_bit_eq_mod push_bit_eq_mult)
  finally show ?case using or_shift [OF uchar_bound, of c "le_val p"] by simp
qed (simp add: load_le_def)

lemma take4: "4 \<le> length p \<Longrightarrow> \<exists>a b c d. take 4 p = [a, b, c, d]"
  by (intro exI [of _ "p ! 0"] exI [of _ "p ! 1"] exI [of _ "p ! 2"] exI [of _ "p ! 3"]) (simp add: list_eq_iff_nth_eq less_Suc_eq numeral_eq_Suc One_nat_def)

lemma pop_word_ones: "4 \<le> length p \<Longrightarrow> unat (pop32 (load_le (take 4 p))) = ones (take 4 p)"
  using take4 [of p] pop32_ones load_le_val [where 'a = 32, of "take 4 p"] by (fastforce simp: word_bytes_def)

lemma ones_bound: "ones x \<le> 8 * length x"
  unfolding ones_def using card_mono [of "{..<8 * length x}" "{i. bit_of x i}"] by (auto dest: bit_of_bound)

lemma sum4:
  assumes "unat a \<le> 32" "unat b \<le> 32" "unat c \<le> 32" "unat d \<le> 32"
  shows "unat (a + b + c + d :: 32 word) = unat a + unat b + unat c + unat d"
proof -
  have "unat (a + b) = unat a + unat b" using assms by (simp add: unat_word_ariths)
  moreover from this have "unat (a + b + c) = unat a + unat b + unat c" using assms by (simp add: unat_word_ariths)
  ultimately show ?thesis using assms by (simp add: unat_word_ariths)
qed

lemma pop_words_ones: "pop_words p n = (q, m) \<Longrightarrow> m + ones q = n + ones p"
proof (induction p n rule: pop_words.induct)
  case (1 p n)
  show ?case
  proof (cases "16 \<le> length p")
    case True
    let ?w = "\<lambda>k. pop32 (load_le (take 4 (drop k p)))"
    have w: "unat (?w k) = ones (take 4 (drop k p))" if "k + 4 \<le> length p" for k using pop_word_ones [of "drop k p"] that by simp
    have le: "unat (?w k) \<le> 32" if "k + 4 \<le> length p" for k using ones_bound [of "take 4 (drop k p)"] w [OF that] by simp
    have eq: "p = take 4 (drop 0 p) @ take 4 (drop 4 p) @ take 4 (drop 8 p) @ take 4 (drop 12 p) @ drop 16 p"
      using append_take_drop_id [of 4 p] append_take_drop_id [of 4 "drop 4 p"] append_take_drop_id [of 4 "drop 8 p"]
        append_take_drop_id [of 4 "drop 12 p"] by simp
    have "unat (?w 0 + ?w 4 + ?w 8 + ?w 12) = unat (?w 0) + unat (?w 4) + unat (?w 8) + unat (?w 12)"
      by (rule sum4; rule le) (use True in simp_all)
    also have "\<dots> = ones (take 4 (drop 0 p)) + ones (take 4 (drop 4 p)) + ones (take 4 (drop 8 p)) + ones (take 4 (drop 12 p))"
      using w [of 0] w [of 4] w [of 8] w [of 12] True by simp
    also have "\<dots> + ones (drop 16 p) = ones p" by (subst (6) eq) simp
    finally have s: "unat (?w 0 + ?w 4 + ?w 8 + ?w 12) + ones (drop 16 p) = ones p" by simp
    have "pop_words (drop 16 p) (n + unat (?w 0 + ?w 4 + ?w 8 + ?w 12)) = (q, m)"
      using "1.prems" True by (subst (asm) pop_words.simps) simp
    from "1.IH" [OF True this [unfolded drop_0]] s show ?thesis by simp
  next
    case False
    then show ?thesis using "1.prems" by (subst (asm) pop_words.simps) simp
  qed
qed

lemma redisPopcount_ones: "redisPopcount addr s = ones s"
proof -
  obtain p1 n1 where 1: "pop_align addr s 0 = (p1, n1)" by force
  obtain p2 n2 where 2: "pop_words p1 n1 = (p2, n2)" by force
  show ?thesis
    using pop_align_ones [OF 1] pop_words_ones [OF 2] by (simp add: redisPopcount_def 1 2 pop_bytes_ones)
qed

subsection \<open>The first bit\<close>

lemma bit_uchar_bound: "bit (uchar c) n \<Longrightarrow> n < 8"
proof -
  assume b: "bit (uchar c) n"
  have "take_bit 8 (uchar c) = uchar c" using uchar_bound [of c] by (simp add: take_bit_eq_mod del: uchar_bound)
  then show ?thesis using b by (metis bit_take_bit_iff)
qed

lemma bit_word_nat: "bit (word_of_nat n :: 'a::len word) k \<longleftrightarrow> k < LENGTH('a) \<and> bit n k"
  by (simp add: bit_of_nat_iff)

text \<open>The place in a word, with its bytes from the right, of a position in a string, with its bits from the left.\<close>

definition mirror :: "nat \<Rightarrow> nat" where
  "mirror i = 8 * (i div 8) + (7 - i mod 8)"

lemma mirror_parts [simp]: "mirror i div 8 = i div 8" "mirror i mod 8 = 7 - i mod 8" "7 - mirror i mod 8 = i mod 8"
proof -
  define k where "k = 7 - i mod 8"
  have k: "k < 8" "7 - k = i mod 8" unfolding k_def by presburger+
  show a: "mirror i div 8 = i div 8" "mirror i mod 8 = 7 - i mod 8" using k(1) by (simp_all add: mirror_def k_def [symmetric])
  show "7 - mirror i mod 8 = i mod 8" unfolding a using k(2) by (simp add: k_def)
qed

lemma mirror_less: "i < 64 \<Longrightarrow> mirror i < 64"
proof -
  assume "i < 64"
  then have "i div 8 \<le> 7" by simp
  then show ?thesis unfolding mirror_def by linarith
qed

lemma bit_load_le:
  "bit (load_le p :: 'a::len word) n \<longleftrightarrow> n < LENGTH('a) \<and> n div 8 < length p \<and> bit (uchar (p ! (n div 8))) (n mod 8)"
proof (induction p arbitrary: n)
  case (Cons c p)
  have l: "load_le (c # p) = (word_of_nat (uchar c) OR push_bit 8 (load_le p) :: 'a word)" by (simp add: load_le_def)
  show ?case
  proof (cases "n < 8")
    case True
    then show ?thesis by (auto simp: l bit_or_iff bit_push_bit_iff bit_word_nat)
  next
    case False
    then obtain k where n: "n = k + 8" by (metis add.commute le_add_diff_inverse not_less)
    have "\<not> bit (uchar c) n" using bit_uchar_bound False by blast
    moreover have "(k + 8) div 8 = Suc (k div 8)" by simp
    ultimately show ?thesis using Cons.IH [of k] by (auto simp: l n bit_or_iff bit_push_bit_iff bit_word_nat)
  qed
qed (simp add: load_le_def)

lemma bit_of_load:
  assumes "8 * length p \<le> LENGTH('a)"
  shows "bit_of p i \<longleftrightarrow> bit (load_le p :: 'a::len word) (mirror i)"
proof -
  have "mirror i < LENGTH('a)" if "i div 8 < length p"
  proof -
    have "mirror i < 8 * (i div 8) + 8" by (simp add: mirror_def)
    also have "\<dots> \<le> 8 * length p" using that by linarith
    finally show ?thesis using assms by simp
  qed
  then show ?thesis unfolding bit_load_le by (auto simp: bit_of_def)
qed

lemma load_zero: "8 * length p \<le> LENGTH('a) \<Longrightarrow> (load_le p :: 'a::len word) = 0 \<Longrightarrow> \<not> bit_of p i"
  using bit_of_load [where 'a = 'a and p = p] by simp

lemma load_ones: "length p = 8 \<Longrightarrow> (load_le p :: 64 word) = - 1 \<Longrightarrow> i < 64 \<Longrightarrow> bit_of p i"
  using bit_of_load [where 'a = 64 and p = p and i = i] mirror_less by simp

lemma load_bit: "bit (load_le p :: 'a::len word) n \<Longrightarrow> bit_of p (mirror n)"
  by (simp add: bit_load_le bit_of_def del: mirror_parts(2))

lemma load_not_zero: "(load_le p :: 'a::len word) \<noteq> 0 \<Longrightarrow> \<exists>i < 8 * length p. bit_of p i"
proof -
  assume "(load_le p :: 'a word) \<noteq> 0"
  then obtain n where "bit (load_le p :: 'a word) n" by (metis bit_0_eq bit_eqI bot_apply bot_bool_def)
  then show ?thesis using load_bit bit_of_bound by blast
qed

lemma load_not_ones: "length p = 8 \<Longrightarrow> (load_le p :: 64 word) \<noteq> - 1 \<Longrightarrow> \<exists>i < 64. \<not> bit_of p i"
proof -
  assume p: "length p = 8" "(load_le p :: 64 word) \<noteq> - 1"
  have "(load_le p :: 64 word) = - 1" if "\<forall>n < 64. bit (load_le p :: 64 word) n" using that by (intro bit_word_eqI) simp
  then obtain n where n: "n < 64" "\<not> bit (load_le p :: 64 word) n" using p(2) by blast
  then have "\<not> bit_of p (mirror n)" using p(1) by (simp add: bit_load_le bit_of_def del: mirror_parts(2))
  then show ?thesis using mirror_less [OF n(1)] by blast
qed

definition skipped :: "bool \<Rightarrow> string \<Rightarrow> nat \<Rightarrow> string \<Rightarrow> nat \<Rightarrow> bool" where
  "skipped b s pos p pos' \<longleftrightarrow> (\<exists>pre. s = pre @ p \<and> pos' = pos + 8 * length pre \<and> (\<forall>i < 8 * length pre. bit_of pre i \<noteq> b))"

lemma skipped_refl [simp]: "skipped b s pos s pos"
  by (simp add: skipped_def)

lemma skipped_step:
  assumes "\<forall>i < 8 * length pre. bit_of pre i \<noteq> b" "skipped b s (pos + 8 * length pre) p pos'"
  shows "skipped b (pre @ s) pos p pos'"
proof -
  obtain q where q: "s = q @ p" "pos' = pos + 8 * length pre + 8 * length q" "\<forall>i < 8 * length q. bit_of q i \<noteq> b"
    using assms(2) unfolding skipped_def by blast
  have "\<forall>i < 8 * length (pre @ q). bit_of (pre @ q) i \<noteq> b" using assms(1) q(3) by (auto simp: bit_of_append)
  then show ?thesis using q(1,2) unfolding skipped_def by (intro exI [of _ "pre @ q"]) simp
qed

lemma skipped_trans: "skipped b s pos p pos' \<Longrightarrow> skipped b p pos' q pos'' \<Longrightarrow> skipped b s pos q pos''"
  unfolding skipped_def [of b s pos p] using skipped_step by blast

lemma uniform_byte: "uchar c = (if b then 0 else 255) \<Longrightarrow> i < 8 \<Longrightarrow> bit_of [c] i \<noteq> b"
proof -
  assume u: "uchar c = (if b then 0 else 255)" and i: "i < 8"
  have m: "(255 :: nat) = mask 8" by (simp add: mask_eq_exp_minus_1)
  have "bit (255 :: nat) k" if "k < 8" for k using that unfolding m by (simp add: bit_mask_iff)
  then show ?thesis using u i by (cases b) (simp_all add: bit_of_def)
qed

lemma skip_bytes_skipped: "skip_bytes addr b s pos = (addr', p, pos') \<Longrightarrow> skipped b s pos p pos'"
proof (induction addr b s pos rule: skip_bytes.induct)
  case (2 addr b c s pos)
  show ?case
  proof (cases "addr mod 8 \<noteq> 0 \<and> uchar c = (if b then 0 else 255)")
    case True
    then have "skipped b s (pos + 8) p pos'" using 2 by simp
    then show ?thesis using skipped_step [of "[c]" b s pos p pos'] uniform_byte True by simp
  next
    case False
    then show ?thesis using "2.prems" by (simp only: skip_bytes.simps if_False prod.inject) simp
  qed
qed simp

lemma skip_words_skipped:
  "skip_words b s pos = (p, pos') \<Longrightarrow> skipped b s pos p pos' \<and> (length p < 8 \<or> (load_le (take 8 p) :: 64 word) \<noteq> (if b then 0 else - 1))"
proof (induction b s pos rule: skip_words.induct)
  case (1 b s pos)
  show ?case
  proof (cases "8 \<le> length s \<and> (load_le (take 8 s) :: 64 word) = (if b then 0 else - 1)")
    case True
    then have "skip_words b (drop 8 s) (pos + 64) = (p, pos')" using "1.prems" by (subst (asm) skip_words.simps) simp
    with "1.IH" [OF True] have IH: "skipped b (drop 8 s) (pos + 64) p pos'" "length p < 8 \<or> (load_le (take 8 p) :: 64 word) \<noteq> (if b then 0 else - 1)"
      by blast+
    have len: "length (take 8 s) = 8" using True by simp
    have "bit_of (take 8 s) i \<noteq> b" if "i < 64" for i
      using load_zero [where 'a = 64 and p = "take 8 s" and i = i] load_ones [OF len _ that] True by (cases b) auto
    then show ?thesis using skipped_step [of "take 8 s" b "drop 8 s" pos p pos'] IH len by simp
  next
    case False
    then show ?thesis using "1.prems" by (subst (asm) skip_words.simps) auto
  qed
qed

lemma bit_load_be:
  "n < 64 \<Longrightarrow> bit (load_be j p w) n = (if n < 8 * j then bit_of p (8 * j - 1 - n) else bit w (n - 8 * j))"
proof (induction j arbitrary: p w)
  case (Suc j)
  show ?case
  proof (cases p)
    case Nil
    then show ?thesis using Suc by (auto simp: bit_push_bit_iff diff_diff_eq add.commute)
  next
    case (Cons c q)
    have "bit_of (c # q) (8 * Suc j - 1 - n) = (if n < 8 * j then bit_of q (8 * j - 1 - n) else bit_of [c] (8 * Suc j - 1 - n))" if "n < 8 * Suc j"
      using that bit_of_append [of "[c]" q "8 * Suc j - 1 - n"] by (auto simp: diff_diff_eq intro!: arg_cong [where f = "bit_of q"])
    moreover have "bit_of [c] (8 * Suc j - 1 - n) = bit (uchar c) (n - 8 * j)" if "n < 8 * Suc j" "\<not> n < 8 * j"
    proof -
      have "8 * Suc j - 1 - n < 8" "7 - (8 * Suc j - 1 - n) = n - 8 * j" using that by simp_all
      then show ?thesis by (simp add: bit_of_def)
    qed
    moreover have "\<not> bit (uchar c) (n - 8 * j)" if "\<not> n < 8 * Suc j" using that bit_uchar_bound [of c "n - 8 * j"] by auto
    ultimately show ?thesis
      using Suc.IH [OF Suc.prems, of q "push_bit 8 w OR word_of_nat (uchar c)"] Suc.prems
      by (auto simp: Cons bit_or_iff bit_push_bit_iff bit_word_nat diff_diff_eq add.commute)
  qed
qed simp

lemma one_and: "k < 64 \<Longrightarrow> (push_bit k 1 AND w \<noteq> 0) \<longleftrightarrow> bit (w :: 64 word) k"
proof -
  assume k: "k < 64"
  have b: "bit (push_bit k 1 AND w) n \<longleftrightarrow> n = k \<and> bit w k" for n using k by (auto simp: bit_and_iff bit_push_bit_iff bit_1_iff simp del: push_bit_of_1)
  show ?thesis
  proof
    assume "push_bit k 1 AND w \<noteq> 0"
    then obtain n where "bit (push_bit k 1 AND w) n" by (metis bit_0_eq bit_eqI bot_apply bot_bool_def)
    then show "bit w k" using b by blast
  next
    assume "bit w k"
    then have "bit (push_bit k 1 AND w) k" using b by blast
    then show "push_bit k 1 AND w \<noteq> 0" by (metis bit_0_eq bot_apply bot_bool_def)
  qed
qed

lemma push_one_nonzero: "k < 64 \<Longrightarrow> push_bit k (1 :: 64 word) \<noteq> 0"
  using one_and [of k "push_bit k 1"] by (auto simp: bit_push_bit_iff bit_1_iff)

lemma scan_found:
  assumes "bit w j = b" "\<forall>i. j < i \<and> i \<le> k \<longrightarrow> bit w i \<noteq> b" "j \<le> k" "k < 64"
  shows "scan_bits b w (push_bit k 1) pos = Some (pos + (k - j))"
  using assms
proof (induction "k - j" arbitrary: k pos)
  case 0
  then show ?case using push_one_nonzero [of k] one_and [of k w] by (subst scan_bits.simps) auto
next
  case (Suc d)
  then have k: "j < k" by simp
  then obtain k' where k': "k = Suc k'" using gr0_conv_Suc [of k] by fastforce
  have "drop_bit 1 (push_bit k 1) = push_bit k' (1 :: 64 word)"
    using Suc.prems(4) by (intro bit_word_eqI) (auto simp: k' bit_simps One_nat_def)
  moreover have "bit w k \<noteq> b" using Suc.prems(2) k by simp
  moreover have "scan_bits b w (push_bit k' 1) (pos + 1) = Some (pos + 1 + (k' - j))"
    by (rule Suc.hyps(1)) (use Suc k' in auto)
  ultimately show ?case
    using push_one_nonzero [OF Suc.prems(4)] one_and [OF Suc.prems(4), of w] k by (subst scan_bits.simps) (auto simp: k')
qed

lemma top_bit: "NOT (drop_bit 1 (- 1)) = (push_bit 63 1 :: 64 word)"
proof -
  have "NOT (drop_bit 1 (- 1)) = (push_bit k 1 :: 64 word)" if "k = 63" for k
    by (rule bit_word_eqI) (use that in \<open>auto simp: bit_simps simp del: push_bit_of_1\<close>)
  then show ?thesis by blast
qed

text \<open>The first position that carries \<open>b\<close>.\<close>

definition first_bit :: "bool \<Rightarrow> string \<Rightarrow> nat option" where
  "first_bit b s = (if \<exists>i. bit_of s i = b then Some (LEAST i. bit_of s i = b) else None)"

lemma first_bitI: "bit_of s i = b \<Longrightarrow> (\<And>j. j < i \<Longrightarrow> bit_of s j \<noteq> b) \<Longrightarrow> first_bit b s = Some i"
  unfolding first_bit_def by (auto intro!: Least_equality simp: not_less [symmetric])

lemma word_first:
  assumes "\<exists>i < 64. bit_of l i = b"
  shows "\<exists>i. bit_of l i = b \<and> (\<forall>j < i. bit_of l j \<noteq> b) \<and> scan_bits b (load_be 8 l 0) (push_bit 63 1) pos = Some (pos + i)"
proof -
  define i where "i = (LEAST i. bit_of l i = b)"
  obtain i0 where i0: "i0 < 64" "bit_of l i0 = b" using assms by blast
  then have i: "bit_of l i = b" "i < 64" unfolding i_def using LeastI [of "\<lambda>i. bit_of l i = b" i0] Least_le [of "\<lambda>i. bit_of l i = b" i0] by auto
  have less: "\<forall>j < i. bit_of l j \<noteq> b" unfolding i_def using not_less_Least by blast
  have bits: "bit (load_be 8 l 0) n = bit_of l (63 - n)" if "n < 64" for n using bit_load_be [OF that, of 8 l 0] that by simp
  have "scan_bits b (load_be 8 l 0) (push_bit 63 1) pos = Some (pos + (63 - (63 - i)))"
  proof (rule scan_found)
    show "bit (load_be 8 l 0) (63 - i) = b" using bits [of "63 - i"] i by simp
    show "\<forall>n. 63 - i < n \<and> n \<le> 63 \<longrightarrow> bit (load_be 8 l 0) n \<noteq> b"
    proof (intro allI impI)
      fix n assume "63 - i < n \<and> n \<le> 63"
      then have "63 - n < i" "n < 64" using i(2) by auto
      then show "bit (load_be 8 l 0) n \<noteq> b" using bits less by blast
    qed
  qed simp_all
  then show ?thesis using i less by (intro exI [of _ i]) simp
qed

lemma skipped_first:
  assumes "skipped b s 0 l pos"
  shows "bit_of l i = b \<Longrightarrow> \<forall>j < i. bit_of l j \<noteq> b \<Longrightarrow> first_bit b s = Some (pos + i)" and "\<forall>i. bit_of l i \<noteq> b \<Longrightarrow> b \<Longrightarrow> first_bit b s = None"
proof -
  obtain pre where pre: "s = pre @ l" "pos = 8 * length pre" "\<forall>i < 8 * length pre. bit_of pre i \<noteq> b"
    using assms unfolding skipped_def by auto
  show "first_bit b s = Some (pos + i)" if "bit_of l i = b" "\<forall>j < i. bit_of l j \<noteq> b"
    by (rule first_bitI) (use pre that in \<open>auto simp: bit_of_append\<close>)
  show "first_bit b s = None" if "\<forall>i. bit_of l i \<noteq> b" "b" using pre that by (auto simp: first_bit_def bit_of_append)
qed

lemma redisBitpos_first: "redisBitpos addr s b = Some (case first_bit b s of None \<Rightarrow> -1 | Some i \<Rightarrow> int i)"
proof -
  obtain addr1 c pos1 where 1: "skip_bytes addr b s 0 = (addr1, c, pos1)" by (metis prod_cases3)
  obtain l pos2 where 2: "skip_words b c pos1 = (l, pos2)" by force
  note sw = skip_words_skipped [OF 2]
  have sk: "skipped b s 0 l pos2" using skipped_trans [OF skip_bytes_skipped [OF 1]] sw by blast
  define word where "word = load_be 8 l 0"
  have un: "redisBitpos addr s b = (if b \<and> word = 0 then Some (-1) else map_option int (scan_bits b word (push_bit 63 1) pos2))"
    unfolding redisBitpos_def 1 prod.case 2 Let_def top_bit word_def by (rule refl)
  have bits: "bit word n = bit_of l (63 - n)" if "n < 64" for n using bit_load_be [OF that, of 8 l 0] that by (simp add: word_def)
  show ?thesis
  proof (cases "\<exists>i < 64. bit_of l i = b")
    case True
    from word_first [OF True, of pos2] obtain i where i: "bit_of l i = b" "\<forall>j < i. bit_of l j \<noteq> b"
      "scan_bits b word (push_bit 63 1) pos2 = Some (pos2 + i)" unfolding word_def by blast
    have "\<not> (b \<and> word = 0)"
    proof
      assume w: "b \<and> word = 0"
      obtain n where "n < 64" "bit_of l n" using True w by auto
      then have "bit word (63 - n)" using bits [of "63 - n"] by simp
      then show False using w by simp
    qed
    then show ?thesis using skipped_first(1) [OF sk i(1,2)] i(3) un by auto
  next
    case False
    have b: "b"
    proof (rule ccontr)
      assume nb: "\<not> b"
      have "\<exists>i < 64. \<not> bit_of l i"
      proof (cases "length l < 8")
        case True
        then have "\<not> bit_of l (8 * length l)" using bit_of_bound [of l "8 * length l"] by auto
        then show ?thesis using True by (intro exI [of _ "8 * length l"]) simp
      next
        case len: False
        then obtain i where "i < 64" "\<not> bit_of (take 8 l) i" using load_not_ones [of "take 8 l"] sw nb by auto
        then show ?thesis using bit_of_append [of "take 8 l" "drop 8 l" i] len by auto
      qed
      then show False using False nb by blast
    qed
    have "length l < 8"
    proof (rule ccontr)
      assume len: "\<not> length l < 8"
      then obtain i where "i < 64" "bit_of (take 8 l) i" using load_not_zero [where 'a = 64 and p = "take 8 l"] sw b by auto
      then show False using bit_of_append [of "take 8 l" "drop 8 l" i] len False b by auto
    qed
    have none: "\<forall>i. bit_of l i \<noteq> b"
    proof
      fix i show "bit_of l i \<noteq> b" using False b bit_of_bound [of l i] \<open>length l < 8\<close> by (cases "i < 64") auto
    qed
    then have "word = 0" using bits b by (intro bit_word_eqI) simp
    then show ?thesis using un b skipped_first(2) [OF sk none b] by simp
  qed
qed

subsection \<open>Combining\<close>

fun bool_op :: "bitop \<Rightarrow> bool \<Rightarrow> bool \<Rightarrow> bool" where
  "bool_op BITOP_AND x y = (x \<and> y)"
| "bool_op BITOP_OR x y = (x \<or> y)"
| "bool_op BITOP_XOR x y = (x \<noteq> y)"
| "bool_op BITOP_NOT x y = x"

text \<open>One bit of the result from the bits of the sources.\<close>

definition bits_fold :: "bitop \<Rightarrow> bool list \<Rightarrow> bool" where
  "bits_fold op bs = foldl (bool_op op) (if op = BITOP_NOT then \<not> hd bs else hd bs) (tl bs)"

definition combined :: "bitop \<Rightarrow> string list \<Rightarrow> nat \<Rightarrow> bool" where
  "combined op srcs i = bits_fold op (map (\<lambda>p. bit_of p i) srcs)"

lemma bit_word_op: "n < LENGTH('a) \<Longrightarrow> bit (word_op op x y :: 'a::len word) n = bool_op op (bit x n) (bit y n)"
  by (cases op) (auto simp: bit_and_iff bit_or_iff bit_xor_iff)

lemma bit_foldl_word:
  "n < LENGTH('a) \<Longrightarrow> bit (foldl (\<lambda>w p. word_op op w (g p)) (v :: 'a::len word) ps) n = foldl (bool_op op) (bit v n) (map (\<lambda>p. bit (g p) n) ps)"
  by (induction ps arbitrary: v) (simp_all add: bit_word_op)

lemma bit_of_drop: "bit_of (drop off p) i = bit_of p (8 * off + i)"
  by (auto simp: bit_of_def)

lemma bit_of_take: "bit_of (take n p) i \<longleftrightarrow> i < 8 * n \<and> bit_of p i"
  by (auto simp: bit_of_def)

lemma bit_load_at:
  assumes "i < 64"
  shows "bit (load_le (take 8 (drop off p)) :: 64 word) (mirror i) = bit_of p (8 * off + i)"
  using bit_of_load [where 'a = 64 and p = "take 8 (drop off p)" and i = i] assms by (simp add: bit_of_take bit_of_drop)

lemma foldl_keep: "foldl (\<lambda>w p. w) v ps = v"
  by (induction ps) simp_all

lemma block_word_bit:
  assumes "i < 64" "srcs \<noteq> []"
  shows "bit (block_word op srcs off) (mirror i) = combined op srcs (8 * off + i)"
proof -
  define g where "g = (\<lambda>p. load_le (take 8 (drop off p)) :: 64 word)"
  have bg: "bit (g p) (mirror i) = bit_of p (8 * off + i)" for p unfolding g_def by (rule bit_load_at [OF assms(1)])
  have m: "mirror i < LENGTH(64)" using mirror_less [OF assms(1)] by simp
  have "block_word op srcs off = foldl (\<lambda>w p. word_op op w (g p)) (if op = BITOP_NOT then NOT (g (hd srcs)) else g (hd srcs)) (tl srcs)"
    by (simp add: block_word_def Let_def g_def foldl_keep)
  then have "bit (block_word op srcs off) (mirror i)
      = foldl (bool_op op) (bit (if op = BITOP_NOT then NOT (g (hd srcs)) else g (hd srcs)) (mirror i)) (map (\<lambda>p. bit_of p (8 * off + i)) (tl srcs))"
    by (simp only: bit_foldl_word [OF m] bg)
  then show ?thesis using assms(2) m by (simp add: combined_def bits_fold_def bg hd_map map_tl bit_not_iff)
qed

lemma uchar_char_of: "uchar (char_of (n :: nat)) = take_bit 8 n"
  by (simp add: uchar_def take_bit_eq_mod)

lemma bit_of_store: "bit_of (store64 w) i \<longleftrightarrow> i < 64 \<and> bit w (mirror i)"
proof (cases "i < 64")
  case True
  define q r where "q = i div 8" and "r = 7 - i mod 8"
  have qr: "q < 8" "r < 8" "mirror i = 8 * q + r" using True by (simp_all add: mirror_def q_def r_def less_mult_imp_div_less)
  have mk: "(255 :: 64 word) = mask 8" by (simp add: mask_eq_exp_minus_1)
  have "8 * q + r < 64" using qr(1,2) by simp
  then have "bit (uchar (store64 w ! q)) r = bit w (mirror i)"
    unfolding store64_def mk qr(3) using qr(1,2)
    by (simp add: uchar_char_of bit_take_bit_iff bit_unsigned_iff bit_and_iff bit_mask_iff bit_drop_bit_eq)
  then have "bit (uchar (store64 w ! (i div 8))) (7 - i mod 8) = bit w (mirror i)" by (simp add: q_def r_def)
  then show ?thesis using True qr(1) by (simp add: bit_of_def store64_def q_def)
next
  case False
  then show ?thesis using bit_of_bound [of "store64 w" i] by (auto simp: store64_def)
qed

lemma bit_byte_at: "i < 8 \<Longrightarrow> bit (byte_at x j) (7 - i) = bit_of x (8 * j + i)"
  by (auto simp: byte_at_def bit_of_def bit_word_nat)

lemma bitop_byte_bit:
  assumes "i < 8" "srcs \<noteq> []"
  shows "bit_of [bitop_byte op srcs j] i = combined op srcs (8 * j + i)"
proof -
  define v where "v = (if op = BITOP_NOT then NOT (byte_at (hd srcs) j) else byte_at (hd srcs) j)"
  have l: "7 - i < LENGTH(8)" by simp
  have "bit_of [bitop_byte op srcs j] i = bit (foldl (\<lambda>w p. word_op op w (byte_at p j)) v (tl srcs)) (7 - i)"
    using assms(1) l by (simp add: bit_of_def bitop_byte_def Let_def v_def uchar_char_of bit_take_bit_iff bit_unsigned_iff)
  also have "\<dots> = foldl (bool_op op) (bit v (7 - i)) (map (\<lambda>p. bit_of p (8 * j + i)) (tl srcs))"
    unfolding bit_foldl_word [OF l] bit_byte_at [OF assms(1)] ..
  also have "\<dots> = combined op srcs (8 * j + i)"
    using assms l by (simp add: combined_def bits_fold_def v_def hd_map map_tl bit_not_iff bit_byte_at)
  finally show ?thesis .
qed

text \<open>A part of the result that is right so far.\<close>

definition combines :: "bitop \<Rightarrow> string list \<Rightarrow> nat \<Rightarrow> string \<Rightarrow> bool" where
  "combines op srcs j x \<longleftrightarrow> (\<forall>i < 8 * length x. bit_of x i = combined op srcs (8 * j + i))"

lemma combines_append: "combines op srcs j x \<Longrightarrow> combines op srcs (j + length x) y \<Longrightarrow> combines op srcs j (x @ y)"
  unfolding combines_def
proof (intro allI impI)
  fix i assume x: "\<forall>i<8 * length x. bit_of x i = combined op srcs (8 * j + i)" and y: "\<forall>i<8 * length y. bit_of y i = combined op srcs (8 * (j + length x) + i)"
    and i: "i < 8 * length (x @ y)"
  show "bit_of (x @ y) i = combined op srcs (8 * j + i)"
  proof (cases "i < 8 * length x")
    case False
    then obtain k where "i = k + 8 * length x" by (metis add.commute le_add_diff_inverse not_less)
    then show ?thesis using y i by (auto simp: bit_of_append algebra_simps)
  qed (use x in \<open>simp add: bit_of_append\<close>)
qed

lemma combines_block: "srcs \<noteq> [] \<Longrightarrow> combines op srcs j (store64 (block_word op srcs j))"
  by (simp add: combines_def bit_of_store block_word_bit) (simp add: store64_def block_word_bit)

lemma combines_bytes: "srcs \<noteq> [] \<Longrightarrow> combines op srcs j (map (bitop_byte op srcs) [j..<n])"
proof (induction "n - j" arbitrary: j)
  case (Suc d)
  then have "[j..<n] = j # [Suc j..<n]" by (simp add: upt_rec)
  moreover have "combines op srcs j [bitop_byte op srcs j]" using bitop_byte_bit Suc.prems by (simp add: combines_def)
  moreover have "combines op srcs (Suc j) (map (bitop_byte op srcs) [Suc j..<n])" using Suc by auto
  ultimately show ?case using combines_append [of op srcs j "[bitop_byte op srcs j]"] by (simp add: One_nat_def)
qed (simp add: combines_def)

lemma length_store [simp]: "length (store64 w) = 8"
  by (simp add: store64_def)

lemma bitop_fast_combines:
  assumes "srcs \<noteq> []" "combines op srcs 0 res" "j = length res"
  shows "bitop_fast op srcs minlen j res = (res', j') \<Longrightarrow> combines op srcs 0 res' \<and> j' = length res' \<and> j' \<le> j + minlen"
  using assms
proof (induction op srcs minlen j res rule: bitop_fast.induct)
  case (1 op srcs minlen j res)
  show ?case
  proof (cases "32 \<le> minlen")
    case True
    let ?blk = "\<lambda>k. store64 (block_word op srcs k)"
    let ?new = "?blk j @ ?blk (j + 8) @ ?blk (j + 16) @ ?blk (j + 24)"
    have "combines op srcs j ?new"
      using combines_block [OF "1.prems"(2), of op] by (intro combines_append) (simp_all add: add.assoc)
    then have "combines op srcs 0 (res @ ?new)" using combines_append "1.prems"(3,4) by simp
    moreover have "bitop_fast op srcs (minlen - 32) (j + 32) (res @ ?new) = (res', j')"
      using "1.prems"(1) True by (subst (asm) bitop_fast.simps) simp
    ultimately show ?thesis using "1.IH" [OF True _ "1.prems"(2)] "1.prems"(4) True by simp
  next
    case False
    then show ?thesis using "1.prems" by (subst (asm) bitop_fast.simps) auto
  qed
qed

lemma min_loop_le: "min_loop False m xs \<le> m \<and> (\<forall>x \<in> set xs. min_loop False m xs \<le> length (source x))"
proof (induction xs arbitrary: m)
  case (Cons x xs)
  show ?case
  proof (cases x)
    case None
    then show ?thesis using Cons.IH [of 0] by (auto simp: source_def)
  next
    case (Some y)
    then show ?thesis using Cons.IH [of "if length y < m then length y else m"] by (fastforce simp: source_def)
  qed
qed simp

lemma min_loop_first: "x \<in> set xs \<Longrightarrow> min_loop True 0 xs \<le> length (source x)"
proof (cases xs)
  case (Cons y ys)
  assume "x \<in> set xs"
  then show ?thesis
    using Cons min_loop_le [of 0 ys] min_loop_le [of "length (source y)" ys] by (cases y) (auto simp: source_def)
qed simp

lemma max_fold: "foldl (\<lambda>maxlen x. if length (source x) > maxlen then length (source x) else maxlen) m xs
    = Max (insert m ((\<lambda>x. length (source x)) ` set xs))"
proof (induction xs arbitrary: m)
  case (Cons x xs)
  have "(if length (source x) > m then length (source x) else m) = max m (length (source x))" by simp
  then show ?case by (cases "xs = []") (simp_all only: foldl_Cons Cons.IH list.set image_insert image_empty, simp_all add: max.assoc)
qed simp

lemma max_length_ge: "x \<in> set xs \<Longrightarrow> length (source x) \<le> max_length xs"
  unfolding max_length_def max_fold by (rule Max_ge) auto

lemma bitop_result_combines:
  assumes "xs \<noteq> []"
  shows "length (bitop_result op xs) = max_length xs"
    and "bit_of (bitop_result op xs) i \<longleftrightarrow> i < 8 * max_length xs \<and> combined op (map source xs) i"
proof -
  let ?srcs = "map source xs"
  obtain res j where r: "(if min_loop True 0 xs \<noteq> 0 \<and> length xs \<le> 16 then bitop_fast op ?srcs (min_loop True 0 xs) 0 [] else ([], 0)) = (res, j)"
    by (metis prod.exhaust)
  have ne: "?srcs \<noteq> []" using assms by simp
  have "combines op ?srcs 0 res \<and> j = length res \<and> j \<le> min_loop True 0 xs"
    using r bitop_fast_combines [OF ne, of op "[]" 0 "min_loop True 0 xs" res j] by (auto simp: combines_def split: if_splits)
  moreover have "min_loop True 0 xs \<le> max_length xs"
    using min_loop_first max_length_ge assms by (meson hd_in_set le_trans)
  ultimately have c: "combines op ?srcs 0 res" "j = length res" "j \<le> max_length xs" by auto
  have eq: "bitop_result op xs = res @ map (bitop_byte op ?srcs) [j..<max_length xs]"
    unfolding bitop_result_def Let_def r by simp
  show len: "length (bitop_result op xs) = max_length xs" using c(2,3) by (simp add: eq)
  have "combines op ?srcs 0 (bitop_result op xs)"
    unfolding eq using combines_append [OF c(1)] combines_bytes [OF ne] c(2) by simp
  then show "bit_of (bitop_result op xs) i \<longleftrightarrow> i < 8 * max_length xs \<and> combined op ?srcs i"
    using len bit_of_bound [of "bitop_result op xs" i] by (auto simp: combines_def)
qed

end
