(* ===== verification/Bit_Commands.thy ===== *)
theory Bit_Commands
  imports Bitops_Correct String_Updates
begin

unbundle bit_operations_syntax

declare One_nat_def [simp del]

text \<open>
  What \<open>SETBIT\<close>, \<open>GETBIT\<close>, \<open>BITCOUNT\<close> and \<open>BITPOS\<close> do to the keyspace a client sees, on every branch.
\<close>

subsection \<open>One bit\<close>

lemma bits_low: "(n :: nat) AND 7 = n mod 8" "drop_bit 3 n = n div 8"
proof -
  have "(7 :: nat) = mask 3" by (simp add: mask_eq_exp_minus_1)
  then have "n AND 7 = take_bit 3 n" by (simp only: take_bit_eq_mask)
  then show "n AND 7 = n mod 8" by (simp add: take_bit_eq_mod)
qed (simp add: drop_bit_eq_div)

lemma int_bit: "(int n AND push_bit k 1 \<noteq> 0) = bit n k"
proof -
  have b: "bit (int n AND push_bit k 1) j \<longleftrightarrow> j = k \<and> bit n k" for j
    by (auto simp: bit_and_iff bit_push_bit_iff bit_1_iff bit_of_nat_iff simp del: push_bit_of_1)
  show ?thesis
  proof
    assume "int n AND push_bit k 1 \<noteq> 0"
    then obtain j where "bit (int n AND push_bit k 1) j" by (metis bit_0_eq bit_eqI bot_apply bot_bool_def)
    then show "bit n k" using b by blast
  next
    assume "bit n k"
    then have "bit (int n AND push_bit k 1) k" using b by blast
    then show "int n AND push_bit k 1 \<noteq> 0" by (metis bit_0_eq bot_apply bot_bool_def)
  qed
qed

definition padded :: "string \<Rightarrow> nat \<Rightarrow> string" where
  "padded x n = x @ replicate (n - length x) NUL"

lemma bit_of_nuls [simp]: "\<not> bit_of (replicate n NUL) i"
  by (auto simp: bit_of_def uchar_def)

lemma bit_of_padded [simp]: "bit_of (padded x n) i = bit_of x i"
  using bit_of_bound [of x i] by (auto simp: padded_def bit_of_append)

lemma length_padded [simp]: "length (padded x n) = max n (length x)"
  by (simp add: padded_def)

lemma put_bit_eq:
  "put_bit x off on = ((padded x (off div 8 + 1))[off div 8 := char_of (nat ((int (uchar (padded x (off div 8 + 1) ! (off div 8)))
     AND NOT (push_bit (7 - off mod 8) 1)) OR push_bit (7 - off mod 8) (on AND 1)))], bit_of x off)"
proof -
  let ?y = "padded x (off div 8 + 1)"
  have "off div 8 < length ?y" by (simp add: less_max_iff_disj)
  then have "bit_of ?y off = bit (uchar (?y ! (off div 8))) (7 - off mod 8)" unfolding bit_of_def by blast
  then have "bit_of x off = bit (uchar (?y ! (off div 8))) (7 - off mod 8)" by (simp only: bit_of_padded)
  then show ?thesis unfolding put_bit_def Let_def bits_low padded_def [symmetric] int_bit by simp
qed

text \<open>\<open>SETBIT\<close> changes one bit, and nothing else but the length.\<close>

lemma put_bit_bits:
  assumes on: "on = 0 \<or> on = 1"
  shows "bit_of (fst (put_bit x off on)) i = (if i = off then on = 1 else bit_of x i)"
    and "length (fst (put_bit x off on)) = max (length x) (off div 8 + 1)" and "snd (put_bit x off on) = bit_of x off"
proof -
  define y where "y = padded x (off div 8 + 1)"
  define k where "k = 7 - off mod 8"
  define v where "v = (int (uchar (y ! (off div 8))) AND NOT (push_bit k 1)) OR push_bit k (on AND 1)"
  have pb: "put_bit x off on = (y[off div 8 := char_of (nat v)], bit_of x off)"
    unfolding put_bit_eq y_def k_def v_def ..
  show "snd (put_bit x off on) = bit_of x off" by (simp add: pb)
  show "length (fst (put_bit x off on)) = max (length x) (off div 8 + 1)" by (simp add: pb y_def max.commute)
  have vb: "bit v j \<longleftrightarrow> (if j = k then on = 1 else bit (uchar (y ! (off div 8))) j)" for j
    unfolding v_def using on
    by (auto simp: bit_and_iff bit_or_iff bit_not_iff bit_push_bit_iff bit_1_iff bit_of_nat_iff simp del: push_bit_of_1)
  have v0: "0 \<le> v" unfolding v_def using on by (auto simp: or_nonnegative_int_iff)
  have ub: "bit (uchar (char_of (nat v))) j \<longleftrightarrow> j < 8 \<and> bit v j" for j
    using v0 by (simp add: uchar_char_of bit_take_bit_iff bit_nat_iff)
  show "bit_of (fst (put_bit x off on)) i = (if i = off then on = 1 else bit_of x i)"
  proof (cases "i div 8 = off div 8")
    case True
    have ym: "off div 8 < length y" by (simp add: y_def)
    have m: "7 - i mod 8 < 8" "(7 - i mod 8 = k) = (i = off)"
    proof -
      show "7 - i mod 8 < 8" by simp
      have "i mod 8 < 8" "off mod 8 < 8" by simp_all
      then have "(7 - i mod 8 = 7 - off mod 8) = (i mod 8 = off mod 8)" by linarith
      also have "\<dots> = (i = off)" using True by (metis mult_div_mod_eq)
      finally show "(7 - i mod 8 = k) = (i = off)" by (simp add: k_def)
    qed
    have "bit_of (fst (put_bit x off on)) i = bit (uchar (char_of (nat v))) (7 - i mod 8)"
      using ym True by (simp add: pb bit_of_def)
    also have "\<dots> = (if i = off then on = 1 else bit (uchar (y ! (off div 8))) (7 - i mod 8))" using ub vb m by auto
    also have "bit (uchar (y ! (off div 8))) (7 - i mod 8) = bit_of y i" using ym True by (simp add: bit_of_def)
    finally show ?thesis by (simp add: y_def)
  next
    case False
    then have "bit_of (fst (put_bit x off on)) i = bit_of y i" by (simp add: pb bit_of_def)
    then show ?thesis using False by (auto simp: y_def)
  qed
qed

subsection \<open>The offset\<close>

definition offset_error :: string where "offset_error = error_reply ''bit offset is not an integer or out of range''"
definition bit_error :: string where "bit_error = error_reply ''bit is not an integer or out of range''"

definition bit_offset :: "string \<Rightarrow> nat option" where
  "bit_offset a = (case string_ll a of None \<Rightarrow> None | Some n \<Rightarrow> if n < 0 \<or> n \<ge> 4294967296 then None else Some (nat n))"

lemma bit_offset_bound: "bit_offset a = Some off \<Longrightarrow> off div 8 < 536870912"
  by (auto simp: bit_offset_def split: option.splits if_splits)

lemma arg_ll_msg:
  "getLongLongFromObjectOrReply c (Some (StrRaw a)) (Some m) s
      = Some (case string_ll a of None \<Rightarrow> (push (to c (error_reply m)) s, None) | Some v \<Rightarrow> (s, Some v))"
  "getLongFromObjectOrReply c (Some (StrRaw a)) (Some m) s
      = Some (case string_ll a of None \<Rightarrow> (push (to c (error_reply m)) s, None) | Some v \<Rightarrow> (s, Some v))"
  using string_ll_range [of a]
  by (auto simp: getLongLongFromObjectOrReply_def getLongFromObjectOrReply_def getLongLongFromObject_def
      push_simps in_ll_def split: option.split)

lemma offset_run:
  "getBitOffsetFromArgument c a s = Some (case bit_offset a of None \<Rightarrow> (push (to c offset_error) s, None) | Some n \<Rightarrow> (s, Some n))"
proof -
  have "drop_bit 3 n \<ge> 512 * 1024 * 1024 \<longleftrightarrow> n \<ge> 4294967296" for n :: int by (simp add: drop_bit_eq_div) presburger
  then show ?thesis
    by (auto simp: getBitOffsetFromArgument_def arg_ll_msg bit_offset_def offset_error_def push_simps split: option.split)
qed

subsection \<open>SETBIT\<close>

definition setbit_effect :: "'z keyspace \<Rightarrow> nat \<Rightarrow> string \<Rightarrow> string \<Rightarrow> string \<Rightarrow> 'z keyspace \<times> int \<times> string" where
  "setbit_effect ks i k a b = (case bit_offset a of None \<Rightarrow> (ks, 0, offset_error)
     | Some off \<Rightarrow> (case string_ll b of None \<Rightarrow> (ks, 0, bit_error)
       | Some on \<Rightarrow>
           if on \<noteq> 0 \<and> on \<noteq> 1 then (ks, 0, bit_error)
           else if \<not> is_string (ks i k) then (ks, 0, shared_wrongtypeerr)
           else let x = entry_str (ks i k) in
             (ks_upd ks i k (Some (StrRaw (fst (put_bit x off on)), entry_ttl (ks i k))), 1,
              if bit_of x off then shared_cone else shared_czero)))"

lemma not_one: "(n :: int) AND NOT 1 \<noteq> 0 \<longleftrightarrow> n \<noteq> 0 \<and> n \<noteq> 1"
proof -
  have "n AND NOT 1 = n - n mod 2"
  proof -
    have "(n AND 1) AND (n AND NOT 1) = 0" by (rule bit_eqI) (auto simp: bit_and_iff bit_not_iff bit_1_iff)
    moreover have "(n AND 1) OR (n AND NOT 1) = n" by (rule bit_eqI) (auto simp: bit_and_iff bit_or_iff bit_not_iff)
    ultimately have "(n AND 1) + (n AND NOT 1) = n" using disjunctive_add_eq_or [of "n AND 1" "n AND NOT 1"] by simp
    then show ?thesis by (simp add: and_one_eq)
  qed
  then show ?thesis by presburger
qed

lemma put_bit_ok: "arg_ok x \<Longrightarrow> off div 8 < 536870912 \<Longrightarrow> on = 0 \<or> on = 1 \<Longrightarrow> arg_ok (fst (put_bit x off on))"
  by (simp add: arg_ok_def put_bit_bits(2))

lemma setbit_run:
  assumes r: "ready c s" and k: "arg_ok (arg c 1 s)"
  shows "\<exists>s'. setbitCommand c s = Some s'
    \<and> (case setbit_effect (live s) (cdb (clients s c)) (arg c 1 s) (arg c 2 s) (arg c 3 s) of
         (K, n, x) \<Rightarrow> run c s s' K n x (if n = 0 then {} else watchers s (cdb (clients s c)) (arg c 1 s)))"
proof -
  define i key where "i = cdb (clients s c)" and "key = arg c 1 s"
  note k' = k [folded key_def]
  have i: "int i \<le> LLONG_MAX" unfolding i_def by (rule server_ok_cdb [OF readyD(1) [OF r]])
  note rep = run_reply [OF readyD(1) [OF r], of c]
  note eff = setbit_effect_def i_def [symmetric] key_def [symmetric]
  consider "bit_offset (arg c 2 s) = None" | off where "bit_offset (arg c 2 s) = Some off" "string_ll (arg c 3 s) = None"
    | off on where "bit_offset (arg c 2 s) = Some off" "string_ll (arg c 3 s) = Some on" "on \<noteq> 0 \<and> on \<noteq> 1"
    | off on where "bit_offset (arg c 2 s) = Some off" "string_ll (arg c 3 s) = Some on" "on = 0 \<or> on = 1"
    by (cases "bit_offset (arg c 2 s)"; cases "string_ll (arg c 3 s)") auto
  then show ?thesis
  proof cases
    case 1
    then show ?thesis using rep [of offset_error] by (simp add: setbitCommand_def Let_def offset_run setbit_effect_def)
  next
    case 2
    then show ?thesis
      using rep [of bit_error] by (simp add: setbitCommand_def Let_def offset_run arg_ll_msg bit_error_def setbit_effect_def)
  next
    case 3
    then show ?thesis
      using rep [of bit_error] not_one [of on]
      by (simp add: setbitCommand_def Let_def offset_run arg_ll_msg bit_error_def setbit_effect_def push_simps)
  next
    case 4
    have n1: "(on AND NOT 1 \<noteq> 0) = False" using not_one [of on] 4(3) by simp
    obtain s1 v where l: "lookupKeyWrite i key s = Some (s1, v)" "run c s s1 (live s) 0 [] {}" "settled s1 i key v"
      using lookupKeyWrite_run [OF r i] by blast
    note r1 = run_ready [OF l(2) r]
    note e = settled_keep [OF l(2) r l(3)]
    define fin where "fin = (\<lambda>x s3. do {
        s5 \<leftarrow> notifyKeyspaceEvent NOTIFY_STRING ''setbit'' key i
                (signalModifiedKey i key (modify_value i key (StrRaw (fst (put_bit x off on))) s3));
        Some (addReply c (if bit_of x off then shared_cone else shared_czero) (add_dirty 1 s5)) } :: 'a server option)"
    have cmd: "setbitCommand c s = (case v of
         None \<Rightarrow> Option.bind (dbAdd i key (createObject s1 (StrRaw [])) s1) (fin [])
       | Some val \<Rightarrow> (case checkType c (oval val) REDIS_STRING s1 of
             (s4, True) \<Rightarrow> Some s4
           | (s4, False) \<Rightarrow> Option.bind (dbUnshareStringValue i key val s4) (\<lambda>(s5, x). fin x s5)))"
      unfolding setbitCommand_def Let_def offset_run arg_ll_msg 4(1,2) option.case prod.case Option.bind.simps n1 if_False
        i_def [symmetric] key_def [symmetric] l(1) fin_def
      by (simp add: case_prod_beta put_bit_bits(3) [OF 4(3)] split: option.split)
    have wrote: "\<exists>s'. fin x s3 = Some s' \<and> run c s s' (ks_upd (live s) i key e) 1 (if bit_of x off then shared_cone else shared_czero) (watchers s i key)"
      if "run c s (modify_value i key (StrRaw (fst (put_bit x off on))) s3) (ks_upd (live s) i key e) 0 [] {}" for x s3 e
      using finish_run [OF r that k' i, of "''setbit''" NOTIFY_STRING "if bit_of x off then shared_cone else shared_czero"]
      by (auto simp: fin_def addReply_push)
    note fits = put_bit_ok [OF _ bit_offset_bound [OF 4(1)] 4(3)]
    show ?thesis
    proof (cases v)
      case None
      have "ddict (dbs s1 i) key = None" using l(3) None by (simp add: settled_def)
      from add_run [OF r1 this k', of "createObject s1 (StrRaw [])"] obtain s2 where
        s2: "dbAdd i key (createObject s1 (StrRaw [])) s1 = Some s2"
        "run c s1 s2 (ks_upd (live s1) i key (Some (StrRaw [], None))) 0 [] {}"
        "settled s2 i key (Some (createObject s1 (StrRaw [])))" "expires (dbs s2 i) key = None"
        by (auto simp: createObject_def arg_ok_def)
      have ss2: "run c s s2 (ks_upd (live s) i key (Some (StrRaw [], None))) 0 [] {}"
        using run_trans [OF l(2) s2(2)] runD(3) [OF l(2)] by simp
      have nil: "arg_ok []" by (simp add: arg_ok_def)
      have "run c s (modify_value i key (StrRaw (fst (put_bit [] off on))) s2)
          (ks_upd (live s) i key (Some (StrRaw (fst (put_bit [] off on)), None))) 0 [] {}"
        using run_trans [OF ss2 modify_run [OF run_ready [OF ss2 r] s2(3) k' fits [OF nil]]]
          runD(3) [OF ss2] s2(4) by simp
      from wrote [OF this] show ?thesis
        using None s2(1) e(1) 4 unfolding cmd eff by (auto simp: is_string_def entry_str_def entry_ttl_def Let_def)
    next
      case (Some y)
      note vy = conjunct2 [OF e(3) [OF Some]]
      have live: "live s i key = Some (oval y, expires (dbs s1 i) key)" using e(1) Some by simp
      show ?thesis
      proof (cases "otype (oval y) = REDIS_STRING")
        case False
        then show ?thesis
          using Some live 4 checkType_run [OF l(2)] unfolding cmd eff by (auto simp: is_string_def)
      next
        case True
        have x: "arg_ok (str_val (oval y))" using str_val_length [OF vy] by (simp add: arg_ok_def)
        let ?x = "fst (put_bit (str_val (oval y)) off on)"
        obtain s2 where s2: "dbUnshareStringValue i key y s1 = Some (s2, str_val (oval y))"
          "run c s1 (modify_value i key (StrRaw ?x) s2) (ks_upd (live s1) i key (Some (StrRaw ?x, expires (dbs s1 i) key))) 0 [] {}"
          using unshare_modify_run [OF r1 l(3) [unfolded Some] k' fits [OF x] True vy] by blast
        have "run c s (modify_value i key (StrRaw ?x) s2) (ks_upd (live s) i key (Some (StrRaw ?x, expires (dbs s1 i) key))) 0 [] {}"
          using run_trans [OF l(2) s2(2)] runD(3) [OF l(2)] by simp
        from wrote [OF this] show ?thesis
          using True Some live s2(1) 4 checkType_run(1) [OF l(2)] unfolding cmd eff
          by (auto simp: is_string_def entry_str_def entry_ttl_def Let_def)
      qed
    qed
  qed
qed

subsection \<open>GETBIT\<close>

definition getbit_reply :: "('z oval \<times> int option) option \<Rightarrow> string \<Rightarrow> string" where
  "getbit_reply e a = (case bit_offset a of None \<Rightarrow> offset_error
     | Some off \<Rightarrow> if \<not> is_string e then shared_wrongtypeerr
                  else if bit_of (entry_str e) off then shared_cone else shared_czero)"

lemma peek_bit: "(if off div 8 < length x then int (uchar (x ! (off div 8))) AND push_bit (7 - off mod 8) 1 else 0) \<noteq> 0 \<longleftrightarrow> bit_of x off"
  using int_bit [of "uchar (x ! (off div 8))" "7 - off mod 8"] by (simp add: bit_of_def)

text \<open>The common part of the reading commands: the object is looked up, and a string is shown.\<close>

definition string_shown :: "nat \<Rightarrow> 'z server \<Rightarrow> 'z server \<Rightarrow> string \<Rightarrow> string \<Rightarrow> 'z robj option \<Rightarrow> bool" where
  "string_shown c s s' k rep v \<longleftrightarrow> (case v of
       None \<Rightarrow> live s (cdb (clients s c)) k = None \<and> run c s s' (live s) 0 rep {}
     | Some y \<Rightarrow> (\<exists>t. live s (cdb (clients s c)) k = Some (oval y, t)) \<and> val_ok (oval y) \<and> run c s s' (live s) 0 [] {}
         \<and> run c s (push (to c shared_wrongtypeerr) s') (live s) 0 shared_wrongtypeerr {}
         \<and> checkType c (oval y) REDIS_STRING s' = (if otype (oval y) = REDIS_STRING then (s', False) else (push (to c shared_wrongtypeerr) s', True))
         \<and> (otype (oval y) = REDIS_STRING \<longrightarrow> getDecodedObject (oval y) = Some (str_val (oval y))))"

lemma string_shownI:
  assumes "run c s s' (live s) 0 (if v = None then rep else []) {}" "settled s' (cdb (clients s c)) k v"
    "live s (cdb (clients s c)) k = map_option (\<lambda>x. (oval x, expires (dbs s' (cdb (clients s c))) k)) v"
  shows "string_shown c s s' k rep v"
proof (cases v)
  case None
  then show ?thesis using assms by (simp add: string_shown_def)
next
  case (Some y)
  have run: "run c s s' (live s) 0 [] {}" using assms(1) Some by simp
  have ok: "val_ok (oval y)" using settled_val [OF assms(1)] assms(2) Some by blast
  show ?thesis
    using assms(3) Some ok run checkType_run [OF run] decoded_val [OF _ val_ok_str [OF ok]] by (simp add: string_shown_def)
qed

lemma read_string_run:
  assumes r: "ready c s"
  shows "\<exists>s' v. lookupKeyReadOrReply c k rep s = Some (s', v) \<and> string_shown c s s' k rep v"
  using readOrReply_run [OF r, of k rep] string_shownI by blast

lemma getbit_run:
  assumes r: "ready c s"
  shows "\<exists>s'. getbitCommand c s = Some s'
    \<and> run c s s' (live s) 0 (getbit_reply (live s (cdb (clients s c)) (arg c 1 s)) (arg c 2 s)) {}"
proof (cases "bit_offset (arg c 2 s)")
  case None
  then show ?thesis
    using run_reply [OF readyD(1) [OF r], of c offset_error] by (simp add: getbitCommand_def offset_run getbit_reply_def)
next
  case (Some off)
  from read_string_run [OF r, of "arg c 1 s" shared_czero] obtain s' v where
    l: "lookupKeyReadOrReply c (arg c 1 s) shared_czero s = Some (s', v)" "string_shown c s s' (arg c 1 s) shared_czero v" by blast
  note unf = getbitCommand_def offset_run Some option.case Option.bind.simps prod.case l(1) Let_def bits_low
  show ?thesis
  proof (cases v)
    case None
    then show ?thesis using l(2) unfolding unf string_shown_def by (simp add: getbit_reply_def Some is_string_def entry_str_def)
  next
    case v: (Some y)
    note y = l(2) [unfolded string_shown_def v option.case]
    show ?thesis
    proof (cases "otype (oval y) = REDIS_STRING")
      case False
      then show ?thesis using y v unfolding unf by (auto simp: getbit_reply_def Some is_string_def)
    next
      case True
      let ?x = "if bit_of (str_val (oval y)) off then shared_cone else shared_czero"
      have "run c s (push (to c ?x) s') (live s) 0 ?x {}" using end_reply [of c s s' "live s" 0 "[]" "{}" ?x] y by auto
      then show ?thesis
        using y True v peek_bit [of off "str_val (oval y)"] unfolding unf
        by (auto simp: getbit_reply_def Some is_string_def entry_str_def addReply_push)
    qed
  qed
qed

subsection \<open>BITCOUNT\<close>

definition bitcount_reply :: "('z oval \<times> int option) option \<Rightarrow> string list \<Rightarrow> string" where
  "bitcount_reply e a =
     (if e = None then int_reply 0
      else if \<not> is_string e then shared_wrongtypeerr
      else if length a = 4 then
        (case string_ll (a ! 2) of None \<Rightarrow> int_error
         | Some n \<Rightarrow> (case string_ll (a ! 3) of None \<Rightarrow> int_error
             | Some m \<Rightarrow> int_reply (int (ones (slice (entry_str e) n m)))))
      else if length a = 2 then int_reply (int (ones (entry_str e)))
      else shared_syntaxerr)"

lemma count_range:
  assumes "range_bounds (int (length x)) n m = (start, end1)"
  shows "(if start > end1 then 0 else redisPopcount addr (take (nat (end1 - start + 1)) (drop (nat start) x))) = ones (slice x n m)"
  using range_slice [OF assms] by (simp add: redisPopcount_ones)

lemma ones_in_ll: "val_ok v \<Longrightarrow> length x \<le> length (str_val v) \<Longrightarrow> in_ll (int (ones x))"
  using ones_bound [of x] str_val_length [of v] by (simp add: in_ll_def)

lemma bitcount_run:
  assumes r: "ready c s"
  shows "\<exists>s'. bitcountCommand addr c s = Some s'
    \<and> run c s s' (live s) 0 (bitcount_reply (live s (cdb (clients s c)) (arg c 1 s)) (argv (clients s c))) {}"
proof -
  let ?a = "argv (clients s c)" and ?e = "live s (cdb (clients s c)) (arg c 1 s)"
  from read_string_run [OF r, of "arg c 1 s" shared_czero] obtain s' v where
    l: "lookupKeyReadOrReply c (arg c 1 s) shared_czero s = Some (s', v)" "string_shown c s s' (arg c 1 s) shared_czero v" by blast
  note unf = bitcountCommand_def Let_def l(1) option.case Option.bind.simps prod.case
  have zero: "shared_czero = int_reply 0" by (simp add: shared_czero_def int_reply_def show_int_small)
  show ?thesis
  proof (cases v)
    case None
    then show ?thesis using l(2) unfolding unf string_shown_def by (simp add: bitcount_reply_def zero)
  next
    case v: (Some y)
    then obtain t where y: "?e = Some (oval y, t)" "val_ok (oval y)" "run c s s' (live s) 0 [] {}"
      "run c s (push (to c shared_wrongtypeerr) s') (live s) 0 shared_wrongtypeerr {}"
      "checkType c (oval y) REDIS_STRING s' = (if otype (oval y) = REDIS_STRING then (s', False) else (push (to c shared_wrongtypeerr) s', True))"
      "otype (oval y) = REDIS_STRING \<longrightarrow> getDecodedObject (oval y) = Some (str_val (oval y))" using l(2) unfolding string_shown_def by auto
    show ?thesis
    proof (cases "otype (oval y) = REDIS_STRING")
      case False
      then show ?thesis using y v unfolding unf by (simp add: bitcount_reply_def is_string_def)
    next
      case True
      define x where "x = str_val (oval y)"
      note ch = y(5) [unfolded if_P [OF True]] and dec = mp [OF y(6) True, folded x_def]
      note tail = end_reply [OF y(3)]
      define ans where "ans = (\<lambda>(start, end1). if start > end1 then Some (addReply c shared_czero s')
            else Some (addReplyLongLong c (int (redisPopcount (addr x + nat start) (take (nat (end1 - start + 1)) (drop (nat start) x)))) s'))"
      have ans: "ans (range_bounds (int (length x)) n m) = Some (push (to c (int_reply (int (ones (slice x n m))))) s')" for n m
      proof -
        obtain a b where ab: "range_bounds (int (length x)) n m = (a, b)" by force
        have "in_ll (int (ones (slice x n m)))" using ones_in_ll [OF y(2)] slice_length [of x n m] by (simp add: x_def)
        then show ?thesis
          using count_range [OF ab, of "addr x + nat a"] unfolding ab ans_def
          by (cases "a > b") (auto simp: addReply_push push_simps zero)
      qed
      have whole: "ans (0, int (length x) - 1) = Some (push (to c (int_reply (int (ones x)))) s')"
      proof (cases "x = []")
        case True
        then show ?thesis by (simp add: ans_def addReply_push zero)
      next
        case False
        then have "take (nat (int (length x) - 1 - 0 + 1)) (drop (nat 0) x) = x" by simp
        then show ?thesis
          using False ones_in_ll [OF y(2), of x] by (simp add: ans_def redisPopcount_ones push_simps x_def)
      qed
      have spec: "bitcount_reply ?e ?a = (if length ?a = 4 then
          (case string_ll (arg c 2 s) of None \<Rightarrow> int_error
           | Some n \<Rightarrow> (case string_ll (arg c 3 s) of None \<Rightarrow> int_error | Some m \<Rightarrow> int_reply (int (ones (slice x n m)))))
        else if length ?a = 2 then int_reply (int (ones x)) else shared_syntaxerr)"
      proof -
        have ex: "entry_str ?e = x" "(\<not> is_string ?e) = False" "(?e = None) = False"
          using y(1) True by (simp_all add: is_string_def entry_str_def x_def)
        show ?thesis unfolding bitcount_reply_def ex if_False unfolding arg_def ..
      qed
      note rs = run_ready [OF y(3) r]
      have cmd: "bitcountCommand addr c s = (if length ?a = 4 then
          (case string_ll (arg c 2 s) of None \<Rightarrow> Some (push (to c int_error) s')
           | Some n \<Rightarrow> (case string_ll (arg c 3 s) of None \<Rightarrow> Some (push (to c int_error) s')
               | Some m \<Rightarrow> ans (range_bounds (int (length x)) n m)))
        else if length ?a = 2 then ans (0, int (length x) - 1) else Some (push (to c shared_syntaxerr) s'))"
        unfolding unf v ch dec ans_def
        by (simp add: addReply_push arg_ll_run(2) [OF rs] case_prod_beta split: option.split)
      show ?thesis
        unfolding cmd spec using ans whole tail by (auto split: option.split)
    qed
  qed
qed

subsection \<open>BITPOS\<close>

text \<open>The first bit \<open>b\<close> of the bytes from \<open>start\<close> to \<open>end1\<close>, as a position in the whole string.\<close>

definition bitpos_in :: "bool \<Rightarrow> string \<Rightarrow> int \<times> int \<Rightarrow> bool \<Rightarrow> int" where
  "bitpos_in b x rg end_given = (case rg of (start, end1) \<Rightarrow>
     if start > end1 then -1
     else (case first_bit b (take (nat (end1 - start + 1)) (drop (nat start) x)) of
         None \<Rightarrow> -1
       | Some p \<Rightarrow> if end_given \<and> \<not> b \<and> int p = (end1 - start + 1) * 8 then -1 else int p + start * 8))"

definition bitpos_reply :: "('z oval \<times> int option) option \<Rightarrow> string list \<Rightarrow> string" where
  "bitpos_reply e a = (case string_ll (a ! 2) of None \<Rightarrow> int_error
     | Some b \<Rightarrow>
         if b \<noteq> 0 \<and> b \<noteq> 1 then error_reply ''The bit argument must be 1 or 0.''
         else if e = None then int_reply (if b \<noteq> 0 then -1 else 0)
         else if \<not> is_string e then shared_wrongtypeerr
         else let x = entry_str e in
           if length a = 4 \<or> length a = 5 then
             (case string_ll (a ! 3) of None \<Rightarrow> int_error
              | Some n \<Rightarrow>
                  if length a = 5 then (case string_ll (a ! 4) of None \<Rightarrow> int_error
                    | Some m \<Rightarrow> int_reply (bitpos_in (b = 1) x (range_bounds (int (length x)) n m) True))
                  else int_reply (bitpos_in (b = 1) x (range_bounds (int (length x)) n (int (length x) - 1)) False))
           else if length a = 3 then int_reply (bitpos_in (b = 1) x (0, int (length x) - 1) False)
           else shared_syntaxerr)"

lemma first_bit_bound: "first_bit b x = Some p \<Longrightarrow> p \<le> 8 * length x"
proof -
  assume f: "first_bit b x = Some p"
  then have p: "p = (LEAST i. bit_of x i = b)" "\<exists>i. bit_of x i = b" by (auto simp: first_bit_def split: if_splits)
  show ?thesis
  proof (cases b)
    case True
    then have "bit_of x p" using LeastI_ex [OF p(2)] p(1) by simp
    then show ?thesis using bit_of_bound [of x p] by simp
  next
    case False
    then have "bit_of x (8 * length x) = b" using bit_of_bound [of x "8 * length x"] by auto
    then show ?thesis unfolding p(1) by (rule Least_le)
  qed
qed

lemma range_bounds_in: "range_bounds n a b = (lo, hi) \<Longrightarrow> 0 \<le> n \<Longrightarrow> 0 \<le> lo \<and> hi < max 1 n"
  by (auto simp: range_bounds_def Let_def)

lemma bitpos_in_ll:
  assumes "length x \<le> 536870912" "0 \<le> fst r" "snd r < max 1 (int (length x))"
  shows "in_ll (bitpos_in b x r g)"
proof -
  obtain lo hi where r: "r = (lo, hi)" by force
  show ?thesis
  proof (cases "lo > hi")
    case False
    let ?y = "take (nat (hi - lo + 1)) (drop (nat lo) x)"
    have b: "0 \<le> lo" "lo \<le> 536870912" using assms False by (simp_all add: r)
    have "int p + lo * 8 \<le> 8589934592" if "first_bit b ?y = Some p" for p
    proof -
      have "p \<le> 8 * length ?y" by (rule first_bit_bound [OF that])
      also have "\<dots> \<le> 8 * length x" by simp
      finally show ?thesis using b assms(1) by simp
    qed
    then show ?thesis using b by (auto simp: bitpos_in_def r in_ll_def split: option.split)
  qed (simp add: bitpos_in_def r in_ll_def)
qed

lemma bitpos_run:
  assumes r: "ready c s"
  shows "\<exists>s'. bitposCommand addr c s = Some s'
    \<and> run c s s' (live s) 0 (bitpos_reply (live s (cdb (clients s c)) (arg c 1 s)) (argv (clients s c))) {}"
proof -
  let ?a = "argv (clients s c)" and ?e = "live s (cdb (clients s c)) (arg c 1 s)"
  note rep = run_reply [OF readyD(1) [OF r], of c]
  consider "string_ll (arg c 2 s) = None" | b where "string_ll (arg c 2 s) = Some b" "b \<noteq> 0 \<and> b \<noteq> 1"
    | b where "string_ll (arg c 2 s) = Some b" "b = 0 \<or> b = 1" by (cases "string_ll (arg c 2 s)") auto
  then show ?thesis
  proof cases
    case 1
    then show ?thesis using rep [of int_error] by (simp add: bitposCommand_def Let_def arg_ll_run(2) [OF r] bitpos_reply_def arg_def)
  next
    case 2
    then show ?thesis
      using rep [of "error_reply ''The bit argument must be 1 or 0.''"]
      by (simp add: bitposCommand_def Let_def arg_ll_run(2) [OF r] bitpos_reply_def arg_def push_simps)
  next
    case 3
    have nb: "(b \<noteq> 0 \<and> b \<noteq> 1) = False" using 3(2) by blast
    obtain s' v where l: "lookupKeyRead (cdb (clients s c)) (arg c 1 s) s = Some (s', v)" "run c s s' (live s) 0 [] {}"
      "settled s' (cdb (clients s c)) (arg c 1 s) v" "?e = map_option (\<lambda>x. (oval x, expires (dbs s' (cdb (clients s c))) (arg c 1 s))) v"
      using lookupKeyRead_run [OF r server_ok_cdb [OF readyD(1) [OF r]]] by blast
    have sh: "string_shown c s s' (arg c 1 s) [] v" by (rule string_shownI) (use l in simp_all)
    note tail = end_reply [OF l(2)]
    note unf = bitposCommand_def Let_def arg_ll_run(2) [OF r] 3(1) option.case Option.bind.simps prod.case nb if_False l(1)
    have s2: "string_ll (?a ! 2) = Some b" using 3(1) by (simp add: arg_def)
    show ?thesis
    proof (cases v)
      case None
      then show ?thesis
        using sh tail [of "int_reply (if b \<noteq> 0 then -1 else 0)"] unfolding unf string_shown_def bitpos_reply_def s2
        by (simp add: push_simps in_ll_def)
    next
      case v: (Some y)
      then obtain t where y: "?e = Some (oval y, t)" "val_ok (oval y)"
        "run c s (push (to c shared_wrongtypeerr) s') (live s) 0 shared_wrongtypeerr {}"
        "checkType c (oval y) REDIS_STRING s' = (if otype (oval y) = REDIS_STRING then (s', False) else (push (to c shared_wrongtypeerr) s', True))"
        "otype (oval y) = REDIS_STRING \<longrightarrow> getDecodedObject (oval y) = Some (str_val (oval y))" using sh unfolding string_shown_def by auto
      show ?thesis
      proof (cases "otype (oval y) = REDIS_STRING")
        case False
        then show ?thesis using y v unfolding unf bitpos_reply_def s2 nb by (simp add: is_string_def)
      next
        case True
        define x where "x = str_val (oval y)"
        note ch = y(4) [unfolded if_P [OF True]] and dec = mp [OF y(5) True, folded x_def]
        have lx: "length x \<le> 536870912" using str_val_length [OF y(2)] by (simp add: x_def)
        define ans where "ans = (\<lambda>(start, end1) end_given. if start > end1 then Some (addReplyLongLong c (-1) s')
                         else do {
                           pos \<leftarrow> redisBitpos (addr x + nat start) (take (nat (end1 - start + 1)) (drop (nat start) x)) (b = 1);
                           Some (addReplyLongLong c
                             (if end_given \<and> b = 0 \<and> pos = (end1 - start + 1) * 8 then -1 else if pos \<noteq> -1 then pos + start * 8 else pos) s') })"
        have ans: "ans rg g = Some (push (to c (int_reply (bitpos_in (b = 1) x rg g))) s')"
          if "0 \<le> fst rg" "snd rg < max 1 (int (length x))" for rg g
        proof -
          obtain lo hi where rg: "rg = (lo, hi)" by force
          have "ans rg g = Some (addReplyLongLong c (bitpos_in (b = 1) x rg g) s')"
            using 3(2) by (auto simp: ans_def bitpos_in_def rg redisBitpos_first split: option.split)
          then show ?thesis using bitpos_in_ll [OF lx that, of "b = 1" g] by (simp add: push_simps)
        qed
        have rb: "ans (range_bounds (int (length x)) n m) g = Some (push (to c (int_reply (bitpos_in (b = 1) x (range_bounds (int (length x)) n m) g))) s')" for n m g
          using range_bounds_in [of "int (length x)" n m] by (intro ans) (metis of_nat_0_le_iff prod.collapse)+
        have whole: "ans (0, int (length x) - 1) g = Some (push (to c (int_reply (bitpos_in (b = 1) x (0, int (length x) - 1) g))) s')" for g
          by (rule ans) auto
        note rs = run_ready [OF l(2) r]
        have spec: "bitpos_reply ?e ?a = (if length ?a = 4 \<or> length ?a = 5 then
             (case string_ll (arg c 3 s) of None \<Rightarrow> int_error
              | Some n \<Rightarrow>
                  if length ?a = 5 then (case string_ll (arg c 4 s) of None \<Rightarrow> int_error
                    | Some m \<Rightarrow> int_reply (bitpos_in (b = 1) x (range_bounds (int (length x)) n m) True))
                  else int_reply (bitpos_in (b = 1) x (range_bounds (int (length x)) n (int (length x) - 1)) False))
           else if length ?a = 3 then int_reply (bitpos_in (b = 1) x (0, int (length x) - 1) False)
           else shared_syntaxerr)"
        proof -
          have ex: "entry_str ?e = x" "(\<not> is_string ?e) = False" "(?e = None) = False"
            using y(1) True by (simp_all add: is_string_def entry_str_def x_def)
          show ?thesis unfolding bitpos_reply_def s2 option.case nb ex if_False Let_def unfolding arg_def ..
        qed
        have cmd: "bitposCommand addr c s = (if length ?a = 4 \<or> length ?a = 5 then
             (case string_ll (arg c 3 s) of None \<Rightarrow> Some (push (to c int_error) s')
              | Some n \<Rightarrow>
                  if length ?a = 5 then (case string_ll (arg c 4 s) of None \<Rightarrow> Some (push (to c int_error) s')
                    | Some m \<Rightarrow> ans (range_bounds (int (length x)) n m) True)
                  else ans (range_bounds (int (length x)) n (int (length x) - 1)) False)
           else if length ?a = 3 then ans (0, int (length x) - 1) False
           else Some (push (to c shared_syntaxerr) s'))"
          unfolding unf v ch dec ans_def
          by (simp add: addReply_push arg_ll_run(2) [OF rs] case_prod_beta split: option.split)
        show ?thesis unfolding cmd spec using rb whole tail by (auto split: option.split)
      qed
    qed
  qed
qed

end
