(* ===== verification/T_List.thy ===== *)
theory T_List
  imports T_String
begin

unbundle bit_operations_syntax

text \<open>
  Lists (\<^verbatim>\<open>t_list.c\<close>): the operations on a list in either encoding, and the commands that do not block. The elements of a list
  are kept as the bytes they stand for: an entry of a compact list is read as a number when it is the notation of
  one, and a node of a linked list holds the object \<open>tryObjectEncoding\<close> makes of the bytes.
\<close>

subsection \<open>The two encodings\<close>

datatype list_end = REDIS_HEAD | REDIS_TAIL

text \<open>
  What the calls of \<^verbatim>\<open>ziplist.c\<close> return for an entry: its bytes, or a number (\<open>zipTryEncoding\<close> decides at
  the insertion).
\<close>

definition zipTryEncoding :: "string \<Rightarrow> int option" where
  "zipTryEncoding entry = (if length entry \<ge> 32 \<or> length entry = 0 then None else string2ll entry)"

definition ziplistGet :: "string \<Rightarrow> string + int" where
  "ziplistGet entry = (case zipTryEncoding entry of None \<Rightarrow> Inl entry | Some v \<Rightarrow> Inr v)"

definition ziplistCompare :: "string \<Rightarrow> string \<Rightarrow> bool" where
  "ziplistCompare entry s = (case ziplistGet entry of Inl str \<Rightarrow> length str = length s \<and> memcmp str s = 0
     | Inr zval \<Rightarrow> (case zipTryEncoding s of None \<Rightarrow> False | Some sval \<Rightarrow> zval = sval))"

text \<open>The position an index stands for. \<open>ziplistIndex\<close> takes an \<open>int\<close>, to which the callers convert a \<open>long\<close>.\<close>

definition c_int :: "int \<Rightarrow> int" where
  "c_int n = (n + 2147483648) mod 4294967296 - 2147483648"

definition listIndex :: "'a list \<Rightarrow> int \<Rightarrow> nat option" where
  "listIndex xs index =
     (if index < 0 then (let n = - index - 1 in if n < int (length xs) then Some (length xs - 1 - nat n) else None)
      else if index < int (length xs) then Some (nat index) else None)"

definition ziplistIndex :: "'a list \<Rightarrow> int \<Rightarrow> nat option" where
  "ziplistIndex xs index = listIndex xs (c_int index)"

definition createZiplistObject :: "'z oval" where
  "createZiplistObject = ListV True []"

text \<open>The object of an element, as \<open>listTypeGet\<close> and the handlers make it.\<close>

definition element :: "bool \<Rightarrow> string \<Rightarrow> 'z oval" where
  "element compact x = (if compact then (case ziplistGet x of Inl str \<Rightarrow> StrRaw str | Inr v \<Rightarrow> createStringObjectFromLongLong v)
     else tryObjectEncoding x)"

definition listTypeConvert :: "'z oval \<Rightarrow> 'z oval" where
  "listTypeConvert subject = (case subject of ListV z xs \<Rightarrow> ListV False xs | _ \<Rightarrow> subject)"

definition listTypeTryConversion :: "limits \<Rightarrow> 'z oval \<Rightarrow> 'z oval \<Rightarrow> 'z oval" where
  "listTypeTryConversion l subject value =
     (if obj_enc subject \<noteq> ENC_ZIPLIST then subject
      else case value of StrRaw x \<Rightarrow> if length x > list_max_ziplist_value l then listTypeConvert subject else subject | _ \<Rightarrow> subject)"

definition listTypeLength :: "'z oval \<Rightarrow> nat option" where
  "listTypeLength subject = (case subject of ListV z xs \<Rightarrow> Some (length xs) | _ \<Rightarrow> None)"

definition listTypePush :: "limits \<Rightarrow> 'z oval \<Rightarrow> 'z oval \<Rightarrow> list_end \<Rightarrow> 'z oval option" where
  "listTypePush l subject value where1 =
     (case listTypeTryConversion l subject value of
        ListV z xs \<Rightarrow>
          let z = (z \<and> \<not> length xs \<ge> list_max_ziplist_entries l) in do {
            x \<leftarrow> getDecodedObject value;
            Some (ListV z (if where1 = REDIS_HEAD then x # xs else xs @ [x])) }
      | _ \<Rightarrow> None)"

text \<open>The value that is popped, if there is one, and the list that is left.\<close>

definition listTypePop :: "'z oval \<Rightarrow> list_end \<Rightarrow> ('z oval option \<times> 'z oval) option" where
  "listTypePop subject where1 =
     (case subject of
        ListV z xs \<Rightarrow>
          if xs = [] then Some (None, subject)
          else if where1 = REDIS_HEAD then Some (Some (element z (hd xs)), ListV z (tl xs))
          else Some (Some (element z (last xs)), ListV z (butlast xs))
      | _ \<Rightarrow> None)"

definition listTypeEqual :: "bool \<Rightarrow> string \<Rightarrow> 'z oval \<Rightarrow> bool option" where
  "listTypeEqual compact x ob =
     (if compact then (case ob of StrRaw s \<Rightarrow> Some (ziplistCompare x s) | _ \<Rightarrow> None)
      else equalStringObjects ob (element False x))"

text \<open>The value at a key, in whose place a handler changes the object.\<close>

definition stored :: "nat \<Rightarrow> string \<Rightarrow> 'z server \<Rightarrow> 'z oval option" where
  "stored i key s = map_option oval (ddict (dbs s i) key)"

subsection \<open>Pushing\<close>

fun push_loop :: "limits \<Rightarrow> nat \<Rightarrow> string \<Rightarrow> list_end \<Rightarrow> string list \<Rightarrow> 'z oval option \<Rightarrow> 'z server
    \<Rightarrow> ('z server \<times> 'z oval option) option" where
  "push_loop l i key where1 [] lobj s = Some (s, lobj)"
| "push_loop l i key where1 (x # xs) lobj s = do {
     (s1, ob) \<leftarrow> (case lobj of Some ob \<Rightarrow> Some (s, ob)
       | None \<Rightarrow> do { s1 \<leftarrow> dbAdd i key (createObject s createZiplistObject) s; Some (s1, createZiplistObject) });
     ob1 \<leftarrow> listTypePush l ob (tryObjectEncoding x) where1;
     push_loop l i key where1 xs (Some ob1) (modify_value i key ob1 s1) }"

definition push_event :: "list_end \<Rightarrow> string" where
  "push_event where1 = (if where1 = REDIS_HEAD then ''lpush'' else ''rpush'')"

definition pushGenericCommand :: "limits \<Rightarrow> nat \<Rightarrow> list_end \<Rightarrow> 'z server \<Rightarrow> 'z server option" where
  "pushGenericCommand l c where1 s =
     (let i = cdb (clients s c); key = arg c 1 s; vals = args_from c 2 s in do {
        (s1, v) \<leftarrow> lookupKeyWrite i key s;
        if (case v of None \<Rightarrow> False | Some lobj \<Rightarrow> otype (oval lobj) \<noteq> REDIS_LIST) then Some (addReply c shared_wrongtypeerr s1)
        else do {
          (s2, lobj) \<leftarrow> push_loop l i key where1 vals (map_option oval v) s1;
          n \<leftarrow> (case lobj of None \<Rightarrow> Some 0 | Some ob \<Rightarrow> listTypeLength ob);
          let s3 = addReplyLongLong c (int n) s2; pushed = length vals in do {
            s4 \<leftarrow> (if pushed \<noteq> 0 then notifyKeyspaceEvent NOTIFY_LIST (push_event where1) key i (signalModifiedKey i key s3) else Some s3);
            Some (add_dirty (int pushed) s4) } } })"

definition lpushCommand :: "limits \<Rightarrow> nat \<Rightarrow> 'z server \<Rightarrow> 'z server option" where
  "lpushCommand l c s = pushGenericCommand l c REDIS_HEAD s"

definition rpushCommand :: "limits \<Rightarrow> nat \<Rightarrow> 'z server \<Rightarrow> 'z server option" where
  "rpushCommand l c s = pushGenericCommand l c REDIS_TAIL s"

text \<open>The position of the first element that is equal.\<close>

fun find_equal :: "bool \<Rightarrow> 'z oval \<Rightarrow> string list \<Rightarrow> nat option option" where
  "find_equal compact ob [] = Some None"
| "find_equal compact ob (x # xs) = do {
     e \<leftarrow> listTypeEqual compact x ob;
     if e then Some (Some 0) else map_option (map_option Suc) (find_equal compact ob xs) }"

text \<open>\<open>listTypeInsert\<close>: before or after the element at a position.\<close>

definition listTypeInsert :: "nat \<Rightarrow> string \<Rightarrow> list_end \<Rightarrow> string list \<Rightarrow> string list" where
  "listTypeInsert n x where1 xs = (let m = (if where1 = REDIS_TAIL then n + 1 else n) in take m xs @ x # drop m xs)"

definition pushxGenericCommand :: "limits \<Rightarrow> nat \<Rightarrow> 'z oval option \<Rightarrow> 'z oval \<Rightarrow> list_end \<Rightarrow> 'z server \<Rightarrow> 'z server option" where
  "pushxGenericCommand l c refval val where1 s =
     (let i = cdb (clients s c); key = arg c 1 s in do {
        (s1, v) \<leftarrow> lookupKeyReadOrReply c key shared_czero s;
        case v of None \<Rightarrow> Some s1
        | Some ob \<Rightarrow>
            (case checkType c (oval ob) REDIS_LIST s1 of
               (s2, True) \<Rightarrow> Some s2
             | (s2, False) \<Rightarrow>
                 (case refval of
                    None \<Rightarrow> do {
                      subject \<leftarrow> listTypePush l (oval ob) val where1;
                      let s3 = modify_value i key subject s2 in do {
                        s4 \<leftarrow> notifyKeyspaceEvent NOTIFY_LIST (push_event where1) key i (signalModifiedKey i key s3);
                        n \<leftarrow> listTypeLength subject;
                        Some (addReplyLongLong c (int n) (add_dirty 1 s4)) } }
                  | Some refv \<Rightarrow>
                      (case listTypeTryConversion l (oval ob) val of
                         ListV z xs \<Rightarrow> do {
                           f \<leftarrow> find_equal z refv xs;
                           x \<leftarrow> getDecodedObject val;
                           case f of
                             None \<Rightarrow> Some (addReply c shared_cnegone (modify_value i key (ListV z xs) s2))
                           | Some n \<Rightarrow>
                               let ys = listTypeInsert n x where1 xs;
                                   z1 = (z \<and> \<not> length ys > list_max_ziplist_entries l);
                                   s3 = modify_value i key (ListV z1 ys) s2 in do {
                                 s4 \<leftarrow> notifyKeyspaceEvent NOTIFY_LIST ''linsert'' key i (signalModifiedKey i key s3);
                                 Some (addReplyLongLong c (int (length ys)) (add_dirty 1 s4)) } }
                       | _ \<Rightarrow> None))) })"

definition lpushxCommand :: "limits \<Rightarrow> nat \<Rightarrow> 'z server \<Rightarrow> 'z server option" where
  "lpushxCommand l c s = pushxGenericCommand l c None (tryObjectEncoding (arg c 2 s)) REDIS_HEAD s"

definition rpushxCommand :: "limits \<Rightarrow> nat \<Rightarrow> 'z server \<Rightarrow> 'z server option" where
  "rpushxCommand l c s = pushxGenericCommand l c None (tryObjectEncoding (arg c 2 s)) REDIS_TAIL s"

definition linsertCommand :: "limits \<Rightarrow> nat \<Rightarrow> 'z server \<Rightarrow> 'z server option" where
  "linsertCommand l c s =
     (let refv = StrRaw (arg c 3 s); val = tryObjectEncoding (arg c 4 s) in
      if strcaseeq (arg c 2 s) ''after'' then pushxGenericCommand l c (Some refv) val REDIS_TAIL s
      else if strcaseeq (arg c 2 s) ''before'' then pushxGenericCommand l c (Some refv) val REDIS_HEAD s
      else Some (addReply c shared_syntaxerr s))"

subsection \<open>Reading\<close>

definition llenCommand :: "nat \<Rightarrow> 'z server \<Rightarrow> 'z server option" where
  "llenCommand c s = do {
     (s1, v) \<leftarrow> lookupKeyReadOrReply c (arg c 1 s) shared_czero s;
     case v of None \<Rightarrow> Some s1
     | Some ob \<Rightarrow>
         (case checkType c (oval ob) REDIS_LIST s1 of
            (s2, True) \<Rightarrow> Some s2
          | (s2, False) \<Rightarrow> do { n \<leftarrow> listTypeLength (oval ob); Some (addReplyLongLong c (int n) s2) }) }"

definition lindexCommand :: "nat \<Rightarrow> 'z server \<Rightarrow> 'z server option" where
  "lindexCommand c s = do {
     (s1, v) \<leftarrow> lookupKeyReadOrReply c (arg c 1 s) shared_nullbulk s;
     case v of None \<Rightarrow> Some s1
     | Some ob \<Rightarrow>
         (case checkType c (oval ob) REDIS_LIST s1 of
            (s2, True) \<Rightarrow> Some s2
          | (s2, False) \<Rightarrow> do {
              (s3, r) \<leftarrow> getLongFromObjectOrReply c (Some (StrRaw (arg c 2 s))) None s2;
              case r of None \<Rightarrow> Some s3
              | Some index \<Rightarrow>
                  (case oval ob of
                     ListV z xs \<Rightarrow>
                       (case (if z then ziplistIndex xs index else listIndex xs index) of
                          Some n \<Rightarrow> addReplyBulk c (element z (xs ! n)) s3
                        | None \<Rightarrow> Some (addReply c shared_nullbulk s3))
                   | _ \<Rightarrow> None) }) }"

fun reply_entries :: "nat \<Rightarrow> bool \<Rightarrow> string list \<Rightarrow> 'z server \<Rightarrow> 'z server option" where
  "reply_entries c compact [] s = Some s"
| "reply_entries c compact (x # xs) s = do {
     s1 \<leftarrow> (if compact then Some (case ziplistGet x of Inl str \<Rightarrow> addReplyBulkCBuffer c str s | Inr v \<Rightarrow> addReplyBulkLongLong c v s)
           else addReplyBulk c (element False x) s);
     reply_entries c compact xs s1 }"

text \<open>
  The bounds of a range of \<open>LRANGE\<close> and \<open>LTRIM\<close>, from 0; \<open>None\<close> is an empty range.
\<close>

definition list_range :: "int \<Rightarrow> int \<Rightarrow> int \<Rightarrow> (int \<times> int) option" where
  "list_range llen start end1 =
     (let start = (if start < 0 then llen + start else start);
          end1 = (if end1 < 0 then llen + end1 else end1);
          start = (if start < 0 then 0 else start)
      in if start > end1 \<or> start \<ge> llen then None
         else Some (start, if end1 \<ge> llen then llen - 1 else end1))"

text \<open>The far half of a linked list is reached from its tail; a null pointer would be followed otherwise.\<close>

definition range_entries :: "bool \<Rightarrow> string list \<Rightarrow> int \<Rightarrow> int \<Rightarrow> string list option" where
  "range_entries compact xs start rangelen =
     (let llen = int (length xs);
          first = (if compact then ziplistIndex xs start else listIndex xs (if start > llen div 2 then start - llen else start))
      in case first of None \<Rightarrow> None
         | Some n \<Rightarrow> if n + nat rangelen \<le> length xs then Some (take (nat rangelen) (drop n xs)) else None)"

definition lrangeCommand :: "nat \<Rightarrow> 'z server \<Rightarrow> 'z server option" where
  "lrangeCommand c s = do {
     (s1, r1) \<leftarrow> getLongFromObjectOrReply c (Some (StrRaw (arg c 2 s))) None s;
     case r1 of None \<Rightarrow> Some s1
     | Some start0 \<Rightarrow> do {
         (s2, r2) \<leftarrow> getLongFromObjectOrReply c (Some (StrRaw (arg c 3 s))) None s1;
         case r2 of None \<Rightarrow> Some s2
         | Some end0 \<Rightarrow> do {
             (s3, v) \<leftarrow> lookupKeyReadOrReply c (arg c 1 s) shared_emptymultibulk s2;
             case v of None \<Rightarrow> Some s3
             | Some ob \<Rightarrow>
                 (case checkType c (oval ob) REDIS_LIST s3 of
                    (s4, True) \<Rightarrow> Some s4
                  | (s4, False) \<Rightarrow>
                      (case oval ob of
                         ListV z xs \<Rightarrow>
                           (case list_range (int (length xs)) start0 end0 of
                              None \<Rightarrow> Some (addReply c shared_emptymultibulk s4)
                            | Some (start, end1) \<Rightarrow>
                                let rangelen = end1 - start + 1 in do {
                                  ys \<leftarrow> range_entries z xs start rangelen;
                                  reply_entries c z ys (addReplyMultiBulkLen c rangelen s4) })
                       | _ \<Rightarrow> None)) } } }"

subsection \<open>Changing and removing elements\<close>

definition lsetCommand :: "limits \<Rightarrow> nat \<Rightarrow> 'z server \<Rightarrow> 'z server option" where
  "lsetCommand l c s =
     (let i = cdb (clients s c); key = arg c 1 s; value = tryObjectEncoding (arg c 3 s) in do {
        (s1, v) \<leftarrow> lookupKeyWriteOrReply c key shared_nokeyerr s;
        case v of None \<Rightarrow> Some s1
        | Some ob \<Rightarrow>
            (case checkType c (oval ob) REDIS_LIST s1 of
               (s2, True) \<Rightarrow> Some s2
             | (s2, False) \<Rightarrow> do {
                 (s3, r) \<leftarrow> getLongFromObjectOrReply c (Some (StrRaw (arg c 2 s))) None s2;
                 case r of None \<Rightarrow> Some s3
                 | Some index \<Rightarrow>
                     (case listTypeTryConversion l (oval ob) value of
                        ListV z xs \<Rightarrow>
                          (case (if z then ziplistIndex xs index else listIndex xs index) of
                             None \<Rightarrow> Some (addReply c shared_outofrangeerr (modify_value i key (ListV z xs) s3))
                           | Some n \<Rightarrow> do {
                               x \<leftarrow> getDecodedObject value;
                               let s4 = addReply c shared_ok (modify_value i key (ListV z (xs[n := x])) s3) in do {
                                 s5 \<leftarrow> notifyKeyspaceEvent NOTIFY_LIST ''lset'' key i (signalModifiedKey i key s4);
                                 Some (add_dirty 1 s5) } })
                      | _ \<Rightarrow> None) }) })"

definition popGenericCommand :: "nat \<Rightarrow> list_end \<Rightarrow> 'z server \<Rightarrow> 'z server option" where
  "popGenericCommand c where1 s =
     (let i = cdb (clients s c); key = arg c 1 s in do {
        (s1, v) \<leftarrow> lookupKeyWriteOrReply c key shared_nullbulk s;
        case v of None \<Rightarrow> Some s1
        | Some ob \<Rightarrow>
            (case checkType c (oval ob) REDIS_LIST s1 of
               (s2, True) \<Rightarrow> Some s2
             | (s2, False) \<Rightarrow> do {
                 (value, subject) \<leftarrow> listTypePop (oval ob) where1;
                 case value of
                   None \<Rightarrow> Some (addReply c shared_nullbulk s2)
                 | Some x \<Rightarrow> do {
                     s3 \<leftarrow> addReplyBulk c x (modify_value i key subject s2);
                     s4 \<leftarrow> notifyKeyspaceEvent NOTIFY_LIST (if where1 = REDIS_HEAD then ''lpop'' else ''rpop'') key i s3;
                     n \<leftarrow> listTypeLength subject;
                     s5 \<leftarrow> (if n = 0 then do {
                         s5 \<leftarrow> notifyKeyspaceEvent NOTIFY_GENERIC ''del'' key i s4;
                         Some (fst (dbDelete i key s5)) } else Some s4);
                     Some (add_dirty 1 (signalModifiedKey i key s5)) } }) })"

definition lpopCommand :: "nat \<Rightarrow> 'z server \<Rightarrow> 'z server option" where
  "lpopCommand c s = popGenericCommand c REDIS_HEAD s"

definition rpopCommand :: "nat \<Rightarrow> 'z server \<Rightarrow> 'z server option" where
  "rpopCommand c s = popGenericCommand c REDIS_TAIL s"

text \<open>The numbers of elements to remove at both ends, and their removal.\<close>

definition trims :: "nat \<Rightarrow> int \<Rightarrow> int \<Rightarrow> nat \<times> nat" where
  "trims llen start end1 = (case list_range (int llen) start end1 of
       None \<Rightarrow> (llen, 0)
     | Some (start, end1) \<Rightarrow> (nat start, nat (int llen - end1 - 1)))"

definition delete_ends :: "nat \<Rightarrow> nat \<Rightarrow> string list \<Rightarrow> string list" where
  "delete_ends ltrim rtrim xs = (let ys = drop ltrim xs in take (length ys - rtrim) ys)"

definition ltrimCommand :: "nat \<Rightarrow> 'z server \<Rightarrow> 'z server option" where
  "ltrimCommand c s =
     (let i = cdb (clients s c); key = arg c 1 s in do {
        (s1, r1) \<leftarrow> getLongFromObjectOrReply c (Some (StrRaw (arg c 2 s))) None s;
        case r1 of None \<Rightarrow> Some s1
        | Some start0 \<Rightarrow> do {
            (s2, r2) \<leftarrow> getLongFromObjectOrReply c (Some (StrRaw (arg c 3 s))) None s1;
            case r2 of None \<Rightarrow> Some s2
            | Some end0 \<Rightarrow> do {
                (s3, v) \<leftarrow> lookupKeyWriteOrReply c key shared_ok s2;
                case v of None \<Rightarrow> Some s3
                | Some ob \<Rightarrow>
                    (case checkType c (oval ob) REDIS_LIST s3 of
                       (s4, True) \<Rightarrow> Some s4
                     | (s4, False) \<Rightarrow>
                         (case oval ob of
                            ListV z xs \<Rightarrow>
                              let (ltrim, rtrim) = trims (length xs) start0 end0; zs = delete_ends ltrim rtrim xs;
                                  s5 = modify_value i key (ListV z zs) s4 in do {
                                s6 \<leftarrow> notifyKeyspaceEvent NOTIFY_LIST ''ltrim'' key i s5;
                                s7 \<leftarrow> (if zs = [] then notifyKeyspaceEvent NOTIFY_GENERIC ''del'' key i (fst (dbDelete i key s6)) else Some s6);
                                Some (addReply c shared_ok (add_dirty 1 (signalModifiedKey i key s7))) }
                          | _ \<Rightarrow> None)) } } })"

text \<open>
  The elements that stay, in the order of the iteration, and the number of those removed; the loop ends when
  as many as asked for are gone.
\<close>

fun lrem_loop :: "bool \<Rightarrow> 'z oval \<Rightarrow> int \<Rightarrow> string list \<Rightarrow> int \<Rightarrow> (string list \<times> int) option" where
  "lrem_loop compact ob toremove [] removed = Some ([], removed)"
| "lrem_loop compact ob toremove (x # xs) removed = do {
     e \<leftarrow> listTypeEqual compact x ob;
     if e then
       if toremove \<noteq> 0 \<and> removed + 1 = toremove then Some (xs, removed + 1)
       else lrem_loop compact ob toremove xs (removed + 1)
     else do {
       (ys, r) \<leftarrow> lrem_loop compact ob toremove xs removed;
       Some (x # ys, r) } }"

definition lremCommand :: "nat \<Rightarrow> 'z server \<Rightarrow> 'z server option" where
  "lremCommand c s =
     (let i = cdb (clients s c); key = arg c 1 s; ob0 = (tryObjectEncoding (arg c 3 s) :: 'z oval) in do {
        (s1, r) \<leftarrow> getLongFromObjectOrReply c (Some (StrRaw (arg c 2 s))) None s;
        case r of None \<Rightarrow> Some s1
        | Some toremove0 \<Rightarrow> do {
            (s2, v) \<leftarrow> lookupKeyWriteOrReply c key shared_czero s1;
            case v of None \<Rightarrow> Some s2
            | Some subject \<Rightarrow>
                (case checkType c (oval subject) REDIS_LIST s2 of
                   (s3, True) \<Rightarrow> Some s3
                 | (s3, False) \<Rightarrow>
                     (case oval subject of
                        ListV z xs \<Rightarrow> do {
                          ob \<leftarrow> (if z then map_option StrRaw (getDecodedObject ob0) else Some ob0);
                          let back = (toremove0 < 0); toremove = (if back then wrap_ll (- toremove0) else toremove0) in do {
                            (ys, removed) \<leftarrow> lrem_loop z ob toremove (if back then rev xs else xs) 0;
                            let zs = (if back then rev ys else ys);
                                s4 = add_dirty removed (modify_value i key (ListV z zs) s3);
                                s5 = (if zs = [] then fst (dbDelete i key s4) else s4);
                                s6 = addReplyLongLong c removed s5 in
                            Some (if removed \<noteq> 0 then signalModifiedKey i key s6 else s6) } }
                      | _ \<Rightarrow> None)) } })"

subsection \<open>From one list to another\<close>

definition rpoplpushHandlePush :: "limits \<Rightarrow> nat \<Rightarrow> string \<Rightarrow> bool \<Rightarrow> 'z oval \<Rightarrow> 'z server \<Rightarrow> 'z server option" where
  "rpoplpushHandlePush l c dstkey dst_there value s =
     (let i = cdb (clients s c) in do {
        s1 \<leftarrow> (if \<not> dst_there then dbAdd i dstkey (createObject s createZiplistObject) s else Some s);
        let s2 = signalModifiedKey i dstkey s1 in do {
          dstobj \<leftarrow> stored i dstkey s2;
          ob \<leftarrow> listTypePush l dstobj value REDIS_HEAD;
          s3 \<leftarrow> notifyKeyspaceEvent NOTIFY_LIST ''lpush'' dstkey i (modify_value i dstkey ob s2);
          addReplyBulk c value s3 } })"

definition rpoplpushCommand :: "limits \<Rightarrow> nat \<Rightarrow> 'z server \<Rightarrow> 'z server option" where
  "rpoplpushCommand l c s =
     (let i = cdb (clients s c); src = arg c 1 s; dst = arg c 2 s in do {
        (s1, v) \<leftarrow> lookupKeyWriteOrReply c src shared_nullbulk s;
        case v of None \<Rightarrow> Some s1
        | Some sobj \<Rightarrow>
            (case checkType c (oval sobj) REDIS_LIST s1 of
               (s2, True) \<Rightarrow> Some s2
             | (s2, False) \<Rightarrow> do {
                 n \<leftarrow> listTypeLength (oval sobj);
                 if n = 0 then Some (addReply c shared_nullbulk s2)
                 else do {
                   (s3, d) \<leftarrow> lookupKeyWrite i dst s2;
                   case (case d of None \<Rightarrow> (s3, False) | Some dobj \<Rightarrow> checkType c (oval dobj) REDIS_LIST s3) of
                     (s4, True) \<Rightarrow> Some s4
                   | (s4, False) \<Rightarrow> do {
                       (value, subject) \<leftarrow> listTypePop (oval sobj) REDIS_TAIL;
                       x \<leftarrow> value;
                       s5 \<leftarrow> rpoplpushHandlePush l c dst (d \<noteq> None) x (modify_value i src subject s4);
                       s6 \<leftarrow> notifyKeyspaceEvent NOTIFY_LIST ''rpop'' src i s5;
                       left \<leftarrow> Option.bind (stored i src s6) listTypeLength;
                       s7 \<leftarrow> (if left = 0 then notifyKeyspaceEvent NOTIFY_GENERIC ''del'' src i (fst (dbDelete i src s6)) else Some s6);
                       Some (add_dirty 1 (signalModifiedKey i src s7)) } } }) })"

end
