(* ===== verification/List_Correct.thy ===== *)
theory List_Correct
  imports T_List String_Updates
begin

declare One_nat_def [simp del]

text \<open>
  The operations on lists without the keyspace: both encodings hold the same elements, compare and answer them in the
  same way, and each operation is one on lists of byte strings.
\<close>

subsection \<open>Elements\<close>

lemma string2ll_short: "string2ll x = Some v \<Longrightarrow> x = show_int v \<and> in_ll v \<and> length x \<le> 20 \<and> x \<noteq> []"
  using string2ll_iff [of x v] length_show_int [of v] by (auto simp: show_int_def)

lemma decoded_encoding [simp]: "getDecodedObject (tryObjectEncoding x) = Some x"
  by (auto simp: tryObjectEncoding_def string2l_string2ll dest: string2ll_short split: option.split)

lemma zipTryEncoding_eq: "zipTryEncoding x = string2ll x"
  using string2ll_short [of x] by (cases "string2ll x") (auto simp: zipTryEncoding_def)

lemma element_eq [simp]: "element z x = tryObjectEncoding x"
proof (cases "string2ll x")
  case (Some v)
  then show ?thesis
    using conjunct1 [OF conjunct2 [OF conjunct2 [OF string2ll_short [OF Some]]]]
    by (simp add: element_def ziplistGet_def zipTryEncoding_eq tryObjectEncoding_def string2l_string2ll createStringObjectFromLongLong_def)
qed (simp add: element_def ziplistGet_def zipTryEncoding_eq tryObjectEncoding_def string2l_string2ll)

lemma memcmp_same: "length x = length y \<Longrightarrow> memcmp x y = 0 \<longleftrightarrow> x = y"
proof (induction x y rule: memcmp.induct)
  case (1 a as b bs)
  then show ?case by (auto simp: uchar_def)
qed auto

lemma ziplistCompare_eq [simp]: "ziplistCompare x y \<longleftrightarrow> x = y"
proof (cases "string2ll x")
  case None
  then show ?thesis using memcmp_same [of x y] by (auto simp: ziplistCompare_def ziplistGet_def zipTryEncoding_eq)
next
  case (Some v)
  then show ?thesis
    using string2ll_short [of x] string2ll_short [of y]
    by (auto simp: ziplistCompare_def ziplistGet_def zipTryEncoding_eq split: option.split)
qed

lemma compare_decoded: "getDecodedObject a = Some x \<Longrightarrow> getDecodedObject b = Some y
    \<Longrightarrow> compareStringObjects a b = Some n \<Longrightarrow> n = 0 \<longleftrightarrow> x = y"
  using memcmp_same [of "take (min (length x) (length y)) x" "take (min (length x) (length y)) y"]
  by (auto simp: compareStringObjects_def Let_def split: if_splits)

lemma equal_decoded:
  assumes "getDecodedObject a = Some x" "getDecodedObject b = Some y" "str_ok a" "str_ok b"
  shows "equalStringObjects a b = Some (x = y)"
proof (cases "\<exists>v w. a = StrInt v \<and> b = StrInt w")
  case True
  then obtain v w where v: "a = StrInt v" "b = StrInt w" by blast
  then have "show_int v = x" "show_int w = y" "in_ll v" "in_ll w" using assms by simp_all
  then show ?thesis using v string2ll_show by (auto simp: equalStringObjects_def) (metis option.inject)
next
  case False
  obtain n where n: "compareStringObjects a b = Some n" using assms by (simp add: compareStringObjects_def Let_def)
  then have "equalStringObjects a b = Some (n = 0)" using False by (auto simp: equalStringObjects_def split: oval.split)
  then show ?thesis using compare_decoded [OF assms(1,2) n] by simp
qed

lemma encoding_ok: "arg_ok x \<Longrightarrow> str_ok (tryObjectEncoding x)"
  by (rule val_ok_str [OF tryObjectEncoding_ok])

lemma listTypeEqual_eq:
  assumes "arg_ok x" "arg_ok y"
  shows "listTypeEqual z x (if z then StrRaw y else tryObjectEncoding y) = Some (x = y)" "listTypeEqual z x (StrRaw y) = Some (x = y)"
proof -
  have "str_ok (StrRaw y)" using assms(2) by (simp add: arg_ok_def)
  then show "listTypeEqual z x (if z then StrRaw y else tryObjectEncoding y) = Some (x = y)" "listTypeEqual z x (StrRaw y) = Some (x = y)"
    using equal_decoded [of "tryObjectEncoding y" y "tryObjectEncoding x" x] equal_decoded [of "StrRaw y" y "tryObjectEncoding x" x]
      encoding_ok [OF assms(1)] encoding_ok [OF assms(2)]
    by (auto simp: listTypeEqual_def eq_commute [of y x])
qed

subsection \<open>Pushing\<close>

definition small :: "limits \<Rightarrow> string \<Rightarrow> bool" where
  "small l x \<longleftrightarrow> length x \<le> list_max_ziplist_value l \<or> string2ll x \<noteq> None"

definition add_at :: "list_end \<Rightarrow> string \<Rightarrow> string list \<Rightarrow> string list" where
  "add_at w x xs = (if w = REDIS_HEAD then x # xs else xs @ [x])"

lemma length_add_at [simp]: "length (add_at w x xs) = length xs + 1" "set (add_at w x xs) = insert x (set xs)" "add_at w x xs \<noteq> []"
  by (auto simp: add_at_def One_nat_def)

definition pushed :: "limits \<Rightarrow> list_end \<Rightarrow> string \<Rightarrow> bool \<times> string list \<Rightarrow> bool \<times> string list" where
  "pushed l w x p = (fst p \<and> small l x \<and> length (snd p) < list_max_ziplist_entries l, add_at w x (snd p))"

lemma listTypeTryConversion_eq:
  "listTypeTryConversion l (ListV z xs) (tryObjectEncoding x) = ListV (z \<and> small l x) xs"
  using string2ll_short [of x]
  by (auto simp: listTypeTryConversion_def listTypeConvert_def small_def tryObjectEncoding_def string2l_string2ll split: option.split)

lemma listTypePush_eq:
  "listTypePush l (ListV z xs) (tryObjectEncoding x) w = Some (ListV (fst (pushed l w x (z, xs))) (snd (pushed l w x (z, xs))))"
  by (simp add: listTypePush_def listTypeTryConversion_eq Let_def pushed_def add_at_def not_le)

definition pushed_all :: "limits \<Rightarrow> list_end \<Rightarrow> string list \<Rightarrow> bool \<times> string list \<Rightarrow> bool \<times> string list" where
  "pushed_all l w vals p = fold (pushed l w) vals p"

lemma pushed_all_simps [simp]:
  "pushed_all l w [] p = p" "pushed_all l w (x # vals) p = pushed_all l w vals (pushed l w x p)"
  by (simp_all add: pushed_all_def)

text \<open>The elements after several pushes do not depend on the limits.\<close>

lemma pushed_all_elements:
  "snd (pushed_all l w vals p) = (if w = REDIS_HEAD then rev vals @ snd p else snd p @ vals)"
  by (induction vals arbitrary: p) (auto simp: pushed_def add_at_def)

subsection \<open>Searching and removing\<close>

fun index_of :: "string \<Rightarrow> string list \<Rightarrow> nat option" where
  "index_of y [] = None"
| "index_of y (x # xs) = (if x = y then Some 0 else map_option Suc (index_of y xs))"

lemma find_equal_eq: "\<forall>x \<in> set xs. arg_ok x \<Longrightarrow> arg_ok y \<Longrightarrow> find_equal z (StrRaw y) xs = Some (index_of y xs)"
  by (induction xs) (auto simp: listTypeEqual_eq)

lemma index_of_less: "index_of y xs = Some n \<Longrightarrow> n < length xs \<and> xs ! n = y \<and> y \<notin> set (take n xs)"
  by (induction xs arbitrary: n) (auto split: if_splits)

lemma index_of_None: "index_of y xs = None \<longleftrightarrow> y \<notin> set xs"
  by (induction xs) auto

text \<open>The list without the first \<open>n\<close> elements that are equal, or without all of them.\<close>

fun remove_first :: "nat \<Rightarrow> string \<Rightarrow> string list \<Rightarrow> string list" where
  "remove_first n y [] = []"
| "remove_first n y (x # xs) = (if n = 0 then x # xs else if x = y then remove_first (n - 1) y xs else x # remove_first n y xs)"

lemma remove_first_0 [simp]: "remove_first 0 y xs = xs"
  by (cases xs) simp_all

lemma remove_first_all: "count_list xs y \<le> n \<Longrightarrow> remove_first n y xs = filter (\<lambda>x. x \<noteq> y) xs"
proof (induction xs arbitrary: n)
  case (Cons x xs)
  then show ?case by (cases "n = 0") (auto simp: count_list_0_iff filter_id_conv intro!: filter_True [symmetric] split: if_splits)
qed simp

lemma count_remove_first: "count_list (remove_first n y xs) y = count_list xs y - n"
  by (induction xs arbitrary: n) auto

lemma lrem_loop_eq:
  assumes "\<forall>x \<in> set xs. listTypeEqual z x ob = Some (x = y)" "0 \<le> r" "0 \<le> t \<longrightarrow> t = 0 \<or> r < t"
  shows "lrem_loop z ob t xs r = (if 0 < t then Some (remove_first (nat (t - r)) y xs, r + int (min (count_list xs y) (nat (t - r))))
    else Some (filter (\<lambda>x. x \<noteq> y) xs, r + int (count_list xs y)))"
  using assms
proof (induction xs arbitrary: r)
  case (Cons x xs)
  show ?case
  proof (cases "x = y")
    case False
    then show ?thesis using Cons by auto
  next
    case True
    show ?thesis
    proof (cases "t \<noteq> 0 \<and> r + 1 = t")
      case True
      then show ?thesis using \<open>x = y\<close> Cons.prems by (auto simp: One_nat_def)
    next
      case False
      have n: "0 < t \<Longrightarrow> nat (t - (r + 1)) = nat (t - r) - 1 \<and> nat (t - r) \<noteq> 0" using Cons.prems False by auto
      have "lrem_loop z ob t xs (r + 1) = (if 0 < t then Some (remove_first (nat (t - (r + 1))) y xs, r + 1 + int (min (count_list xs y) (nat (t - (r + 1)))))
          else Some (filter (\<lambda>x. x \<noteq> y) xs, r + 1 + int (count_list xs y)))"
        using Cons.prems False by (intro Cons.IH) auto
      then show ?thesis using \<open>x = y\<close> Cons.prems False n by auto
    qed
  qed
qed auto

subsection \<open>Positions and ranges\<close>

lemma c_int_id: "-2147483648 \<le> n \<Longrightarrow> n \<le> 2147483647 \<Longrightarrow> c_int n = n"
  by (simp add: c_int_def)

lemma c_int_range: "-2147483648 \<le> c_int n \<and> c_int n \<le> 2147483647"
  using pos_mod_bound [of 4294967296 "n + 2147483648"] pos_mod_sign [of 4294967296 "n + 2147483648"] by (simp add: c_int_def)

lemma listIndex_bound: "listIndex xs i = Some n \<Longrightarrow> n < length xs"
  by (auto simp: listIndex_def Let_def split: if_splits)

text \<open>The elements of a range, by the positions of the documentation: \<open>-1\<close> is the last one.\<close>

definition lslice :: "'a list \<Rightarrow> int \<Rightarrow> int \<Rightarrow> 'a list" where
  "lslice xs a b = (let n = int (length xs); pos = (\<lambda>i. if i < 0 then n + i else i)
     in nths xs {j. pos a \<le> int j \<and> int j \<le> pos b})"

lemma list_range_None: "list_range (int (length xs)) a b = None \<Longrightarrow> lslice xs a b = []"
  unfolding lslice_def Let_def list_range_def by (rule nths_empty_range) (auto split: if_splits)

lemma list_range_Some:
  assumes "list_range (int (length xs)) a b = Some (lo, hi)"
  shows "0 \<le> lo" "lo \<le> hi" "hi < int (length xs)" "lslice xs a b = take (nat (hi - lo + 1)) (drop (nat lo) xs)"
proof -
  show b: "0 \<le> lo" "lo \<le> hi" "hi < int (length xs)" using assms by (auto simp: list_range_def Let_def split: if_splits)
  have "lslice xs a b = nths xs {nat lo..<nat lo + nat (hi - lo + 1)}"
    unfolding lslice_def Let_def
    by (rule nths_cong_set) (use assms b in \<open>auto simp: list_range_def Let_def split: if_splits\<close>)
  then show "lslice xs a b = take (nat (hi - lo + 1)) (drop (nat lo) xs)" by (simp add: nths_interval)
qed

lemma range_entries_eq:
  assumes "list_range (int (length xs)) a b = Some (lo, hi)" "z \<longrightarrow> length xs \<le> 2147483648"
  shows "range_entries z xs lo (hi - lo + 1) = Some (lslice xs a b)"
proof -
  note r = list_range_Some [OF assms(1)]
  have "(if z then ziplistIndex xs lo else listIndex xs (if lo > int (length xs) div 2 then lo - int (length xs) else lo)) = Some (nat lo)"
    using r assms(2) c_int_id [of lo] by (auto simp: ziplistIndex_def listIndex_def Let_def nat_diff_distrib)
  then show ?thesis using r by (simp add: range_entries_def Let_def)
qed

lemma lslice_all [simp]: "lslice xs 0 (-1) = xs"
proof -
  have "lslice xs 0 (-1) = nths xs {0..<0 + length xs}" unfolding lslice_def Let_def by (rule nths_cong_set) auto
  then show ?thesis by (simp only: nths_interval) simp
qed

lemma lslice_set: "set (lslice xs a b) \<subseteq> set xs" "length (lslice xs a b) \<le> length xs"
proof -
  show "set (lslice xs a b) \<subseteq> set xs" by (simp add: lslice_def Let_def set_nths_subset)
  have "card {i. i < length xs \<and> P i} \<le> length xs" for P
    using card_mono [of "{..<length xs}" "{i. i < length xs \<and> P i}"] by auto
  then show "length (lslice xs a b) \<le> length xs" by (simp add: lslice_def Let_def length_nths)
qed

end
