(* ===== verification/Run_Steps.thy ===== *)
theory Run_Steps
  imports Key_Correct String_Updates
begin

declare One_nat_def [simp del]

text \<open>
  What a command did so far, extended by one primitive at a time. The rules compose: each takes what was done
  before and gives the state after the primitive as a term, so that the proof of a handler follows its text.
\<close>

lemma step_reply: "run c s s1 K n x W \<Longrightarrow> run c s (push (to c y) s1) K n (x @ y) W"
  by (rule end_reply)

lemma step_signal:
  assumes "run c s s1 K n x W" "ready c s"
  shows "run c s (signalModifiedKey i k s1) K n x (W \<union> watchers s i k)" "dbs (signalModifiedKey i k s1) = dbs s1"
  using signal_run [OF run_ready [OF assms], of i k] run_trans [OF assms(1), of "signalModifiedKey i k s1"] runD(3) [OF assms(1)]
    run_conf(7) [OF assms(1)] by fastforce+

lemma step_note:
  assumes "run c s s1 K n x W" "ready c s" "arg_ok k" "int i \<le> LLONG_MAX" "length ev \<le> 100"
  shows "notifyKeyspaceEvent ty ev k i s1 = Some (push (notified s1 ty ev k i) s1)"
    and "run c s (push (notified s1 ty ev k i) s1) K n x W"
proof -
  note r1 = run_ready [OF assms(1,2)]
  have "patterns_safe s1" using readyD(1) [OF r1] by (simp add: server_ok_def conf_ok_def)
  then show "notifyKeyspaceEvent ty ev k i s1 = Some (push (notified s1 ty ev k i) s1)" by (rule notify_push [OF assms(5,3,4)])
  show "run c s (push (notified s1 ty ev k i) s1) K n x W"
    using run_trans [OF assms(1) run_note [OF r1]] runD(3) [OF assms(1)] by simp
qed

lemma step_dirty: "run c s s1 K n x W \<Longrightarrow> run c s (add_dirty m s1) K (n + m) x W"
  using run_trans [OF _ run_dirty, of c s s1 K n x W m] runD(2,3) [of c s s1 K n x W] by fastforce

lemma step_delete: "run c s s1 K n x W \<Longrightarrow> ready c s \<Longrightarrow> run c s (fst (dbDelete i k s1)) (ks_upd K i k None) n x W"
  using run_trans [OF _ delete_run [OF run_ready]] runD(3) [of c s s1 K n x W] by fastforce

lemma modify_any_run:
  assumes r: "ready c s" and st: "settled s i k (Some y)" and k: "arg_ok k" "val_ok v"
  shows "run c s (modify_value i k v s) (ks_upd (live s) i k (Some (v, expires (dbs s i) k))) 0 [] {}"
    and "settled (modify_value i k v s) i k (Some (y\<lparr>oval := v\<rparr>))"
    and "expires (dbs (modify_value i k v s) i) k = expires (dbs s i) k"
proof -
  have d: "\<not> expired s i k" "ddict (dbs s i) k = Some y" using st by (simp_all add: settled_def)
  note p = put_run [OF r d(1) k(1), of "y\<lparr>oval := v\<rparr>"]
  show "run c s (modify_value i k v s) (ks_upd (live s) i k (Some (v, expires (dbs s i) k))) 0 [] {}"
    "settled (modify_value i k v s) i k (Some (y\<lparr>oval := v\<rparr>))" "expires (dbs (modify_value i k v s) i) k = expires (dbs s i) k"
    using p k(2) d(2) by (simp_all add: modify_value_def)
qed

lemma step_modify:
  assumes "run c s s1 K n x W" "ready c s" "settled s1 i k (Some y)" "val_ok v"
  shows "run c s (modify_value i k v s1) (ks_upd K i k (Some (v, expires (dbs s1 i) k))) n x W"
    and "settled (modify_value i k v s1) i k (Some (y\<lparr>oval := v\<rparr>))"
    and "expires (dbs (modify_value i k v s1) i) k = expires (dbs s1 i) k"
proof -
  have k: "arg_ok k" using settled_val [OF assms(1,3)] by simp
  note m = modify_any_run [OF run_ready [OF assms(1,2)] assms(3) k assms(4)]
  show "run c s (modify_value i k v s1) (ks_upd K i k (Some (v, expires (dbs s1 i) k))) n x W"
    using run_trans [OF assms(1) m(1)] runD(3) [OF assms(1)] by simp
  show "settled (modify_value i k v s1) i k (Some (y\<lparr>oval := v\<rparr>))" "expires (dbs (modify_value i k v s1) i) k = expires (dbs s1 i) k"
    by (rule m(2), rule m(3))
qed

lemma step_add:
  assumes "run c s s1 K n x W" "ready c s" "ddict (dbs s1 i) k = None" "arg_ok k" "val_ok (oval v)"
  shows "\<exists>s2. dbAdd i k v s1 = Some s2 \<and> run c s s2 (ks_upd K i k (Some (oval v, None))) n x W
    \<and> settled s2 i k (Some v) \<and> expires (dbs s2 i) k = None"
  using add_run [OF run_ready [OF assms(1,2)] assms(3-5)] run_trans [OF assms(1)] runD(3) [OF assms(1)] by fastforce

text \<open>Notifications after any of the primitives, for the simplifier.\<close>

lemma patterns_kept [simp]:
  "pubsub_patterns (set_ddict i k v s) = pubsub_patterns s" "pubsub_patterns (set_expires i k t s) = pubsub_patterns s"
  "pubsub_patterns (modify_value i k w s) = pubsub_patterns s" "pubsub_patterns (fst (dbDelete i k s)) = pubsub_patterns s"
  "pubsub_patterns (mark W s) = pubsub_patterns s" "pubsub_patterns (signalModifiedKey i k s) = pubsub_patterns s"
  "pubsub_patterns (add_dirty n s) = pubsub_patterns s"
  by (simp_all add: set_ddict_def set_expires_def modify_value_def dbDelete_def mark_def signal_mark add_dirty_def)

lemma run_notify:
  assumes "run c s s1 K n x W" "ready c s" "arg_ok k" "int i \<le> LLONG_MAX"
  shows "length ev \<le> 100 \<Longrightarrow> pubsub_patterns u = pubsub_patterns s1 \<Longrightarrow>
    notifyKeyspaceEvent ty ev k i u = Some (push (notified u ty ev k i) u)"
proof -
  assume u: "length ev \<le> 100" "pubsub_patterns u = pubsub_patterns s1"
  have "patterns_safe u" using readyD(1) [OF run_ready [OF assms(1,2)]] u(2) by (simp add: server_ok_def conf_ok_def patterns_safe_def)
  then show ?thesis by (rule notify_push [OF u(1) assms(3,4)])
qed

text \<open>What is at a key is not touched by replies, notifications, signals and counters.\<close>

lemma settled_steps [simp]:
  "settled (push f s) i k v = settled s i k v" "settled (mark W s) i k v = settled s i k v"
  "settled (add_dirty m s) i k v = settled s i k v" "settled (signalModifiedKey j l s) i k v = settled s i k v"
proof -
  show "settled (push f s) i k v = settled s i k v" "settled (mark W s) i k v = settled s i k v"
    by (rule settled_same [OF conf_push], simp, rule settled_same [OF conf_mark], simp)
  then show "settled (signalModifiedKey j l s) i k v = settled s i k v"
    using settled_same [OF conf_mark] by (simp add: signal_mark)
  show "settled (add_dirty m s) i k v = settled s i k v"
    by (rule settled_same [OF conf_counters(1)]) (simp add: add_dirty_def)
qed

lemma dbs_dirty [simp]: "dbs (add_dirty m s) = dbs s"
  by (simp add: add_dirty_def)

lemma type_checked:
  assumes "run c s s' K n x W"
  shows "checkType c v T s' = (if otype v = T then (s', False) else (push (to c shared_wrongtypeerr) s', True))"
    and "run c s (push (to c shared_wrongtypeerr) s') K n (x @ shared_wrongtypeerr) W"
  using end_reply [OF assms] by (simp_all add: checkType_def addReply_push)

end
