(* ===== verification/List_Commands.thy ===== *)
theory List_Commands
  imports List_Correct Run_Steps
begin

declare One_nat_def [simp del]

text \<open>
  What the commands on lists do to the keyspace a client sees, on every branch.
\<close>

subsection \<open>Lists in the keyspace\<close>

definition is_list :: "('z oval \<times> int option) option \<Rightarrow> bool" where
  "is_list e = (case e of None \<Rightarrow> True | Some (v, t) \<Rightarrow> otype v = REDIS_LIST)"

text \<open>The encoding and the elements; a missing key is an empty compact list.\<close>

definition entry_list :: "('z oval \<times> int option) option \<Rightarrow> bool \<times> string list" where
  "entry_list e = (case e of Some (ListV z xs, t) \<Rightarrow> (z, xs) | _ \<Rightarrow> (True, []))"

lemma entry_list_simps [simp]: "entry_list None = (True, [])" "entry_list (Some (ListV z xs, t)) = (z, xs)"
  by (simp_all add: entry_list_def)

lemma is_list_simps [simp]: "is_list None" "is_list (Some (ListV z xs, t))"
  by (simp_all add: is_list_def)

definition empty_list :: "('z oval \<times> int option) option \<Rightarrow> bool" where
  "empty_list e = (case e of Some (ListV z xs, t) \<Rightarrow> xs = [] | _ \<Rightarrow> False)"

text \<open>A list that is stored, or a key that goes with its last element.\<close>

definition list_entry :: "bool \<times> string list \<Rightarrow> int option \<Rightarrow> ('z oval \<times> int option) option" where
  "list_entry p t = (if snd p = [] then None else Some (ListV (fst p) (snd p), t))"

text \<open>The three cases of a lookup of a list.\<close>

lemma found_list [consumes 3, case_names missing wrong ok]:
  assumes "run c s s' (live s) 0 (if v = None then rep else []) {}" "settled s' (cdb (clients s c)) k v"
    "live s (cdb (clients s c)) k = map_option (\<lambda>x. (oval x, expires (dbs s' (cdb (clients s c))) k)) v"
  obtains (missing) "v = None" "live s (cdb (clients s c)) k = None" "run c s s' (live s) 0 rep {}"
  | (wrong) y t where "v = Some y" "otype (oval y) \<noteq> REDIS_LIST" "live s (cdb (clients s c)) k = Some (oval y, t)" "\<not> is_list (Some (oval y, t))"
      "checkType c (oval y) REDIS_LIST s' = (push (to c shared_wrongtypeerr) s', True)"
      "run c s (push (to c shared_wrongtypeerr) s') (live s) 0 shared_wrongtypeerr {}"
  | (ok) y z xs where "v = Some y" "oval y = ListV z xs"
      "live s (cdb (clients s c)) k = Some (ListV z xs, expires (dbs s' (cdb (clients s c))) k)" "val_ok (oval y)"
      "checkType c (ListV z xs) REDIS_LIST s' = (s', False)" "run c s s' (live s) 0 [] {}"
      "settled s' (cdb (clients s c)) k (Some y)" "arg_ok k"
proof (cases v)
  case None
  then show ?thesis using assms missing by simp
next
  case (Some y)
  note run = assms(1) [unfolded Some, simplified]
  note ty = type_checked(1) [OF run, of "oval y" REDIS_LIST] type_checked(2) [OF run]
  have ok: "arg_ok k \<and> val_ok (oval y)" using settled_val [OF run] assms(2) Some by blast
  show ?thesis
  proof (cases "otype (oval y) = REDIS_LIST")
    case False
    then show ?thesis using wrong [of y "expires (dbs s' (cdb (clients s c))) k"] Some assms(3) ty by (simp add: is_list_def)
  next
    case True
    then obtain z xs where y: "oval y = ListV z xs" by (cases "oval y") auto
    then show ?thesis using ok assms(2,3) Some ty run by (intro that(3) [of y z xs]) auto
  qed
qed

lemma read_list: 
  assumes "ready c s"
  shows "\<exists>s' v. lookupKeyReadOrReply c k rep s = Some (s', v) \<and> run c s s' (live s) 0 (if v = None then rep else []) {}
    \<and> settled s' (cdb (clients s c)) k v \<and> live s (cdb (clients s c)) k = map_option (\<lambda>x. (oval x, expires (dbs s' (cdb (clients s c))) k)) v"
  by (rule readOrReply_run [OF assms])

lemma list_elements: "val_ok v \<Longrightarrow> v = ListV z xs \<Longrightarrow> x \<in> set xs \<Longrightarrow> arg_ok x"
  by simp

lemma list_length_ll: "val_ok v \<Longrightarrow> v = ListV z xs \<Longrightarrow> in_ll (int (length xs))"
  by (auto simp: in_ll_def split: if_splits)

lemma bulk_element: "arg_ok x \<Longrightarrow> addReplyBulk c (tryObjectEncoding x) s = Some (push (to c (bulk x)) s)"
  using bulk_push [of "tryObjectEncoding x" c s] encoding_ok [of x] by simp

subsection \<open>LLEN and LINDEX\<close>

definition llen_reply :: "('z oval \<times> int option) option \<Rightarrow> string" where
  "llen_reply e = (if is_list e then int_reply (int (length (snd (entry_list e)))) else shared_wrongtypeerr)"

lemma zero_reply: "shared_czero = int_reply 0"
  by (simp add: shared_czero_def int_reply_def show_int_small)

lemma llen_run:
  assumes r: "ready c s"
  shows "\<exists>s'. llenCommand c s = Some s' \<and> run c s s' (live s) 0 (llen_reply (live s (cdb (clients s c)) (arg c 1 s))) {}"
proof -
  obtain s1 v where l: "lookupKeyReadOrReply c (arg c 1 s) shared_czero s = Some (s1, v)"
    "run c s s1 (live s) 0 (if v = None then shared_czero else []) {}" "settled s1 (cdb (clients s c)) (arg c 1 s) v"
    "live s (cdb (clients s c)) (arg c 1 s) = map_option (\<lambda>x. (oval x, expires (dbs s1 (cdb (clients s c))) (arg c 1 s))) v"
    using read_list [OF r] by blast
  note unf = llenCommand_def l(1) Option.bind.simps prod.case llen_reply_def
  show ?thesis
    using l(2-4)
  proof (cases rule: found_list)
    case missing
    then show ?thesis unfolding unf by (simp add: zero_reply)
  next
    case (wrong y t)
    then show ?thesis unfolding unf by simp
  next
    case (ok y z xs)
    then show ?thesis
      using end_reply [OF ok(6)] list_length_ll [OF ok(4,2)] unfolding unf by (simp add: listTypeLength_def push_simps del: val_ok.simps)
  qed
qed

definition lindex_reply :: "('z oval \<times> int option) option \<Rightarrow> string \<Rightarrow> string" where
  "lindex_reply e a =
     (if e = None then shared_nullbulk
      else if \<not> is_list e then shared_wrongtypeerr
      else case string_ll a of None \<Rightarrow> int_error
        | Some n \<Rightarrow> (case entry_list e of (z, xs) \<Rightarrow>
            (case (if z then ziplistIndex xs n else listIndex xs n) of None \<Rightarrow> shared_nullbulk | Some j \<Rightarrow> bulk (xs ! j))))"

lemma index_bound: "(if z then ziplistIndex xs n else listIndex xs n) = Some j \<Longrightarrow> j < length xs"
  by (auto simp: ziplistIndex_def split: if_splits dest: listIndex_bound)

lemma lindex_run:
  assumes r: "ready c s"
  shows "\<exists>s'. lindexCommand c s = Some s'
    \<and> run c s s' (live s) 0 (lindex_reply (live s (cdb (clients s c)) (arg c 1 s)) (arg c 2 s)) {}"
proof -
  obtain s1 v where l: "lookupKeyReadOrReply c (arg c 1 s) shared_nullbulk s = Some (s1, v)"
    "run c s s1 (live s) 0 (if v = None then shared_nullbulk else []) {}" "settled s1 (cdb (clients s c)) (arg c 1 s) v"
    "live s (cdb (clients s c)) (arg c 1 s) = map_option (\<lambda>x. (oval x, expires (dbs s1 (cdb (clients s c))) (arg c 1 s))) v"
    using read_list [OF r] by blast
  note unf = lindexCommand_def l(1) Option.bind.simps prod.case lindex_reply_def
  show ?thesis
    using l(2-4)
  proof (cases rule: found_list)
    case missing
    then show ?thesis unfolding unf by simp
  next
    case (wrong y t)
    then show ?thesis unfolding unf by simp
  next
    case (ok y z xs)
    note tail = end_reply [OF ok(6)] and rs = run_ready [OF ok(6) r]
    show ?thesis
    proof (cases "string_ll (arg c 2 s)")
      case None
      then show ?thesis using tail [of int_error] unfolding unf by (simp add: ok arg_ll_run(2) [OF rs])
    next
      case (Some n)
      show ?thesis
      proof (cases "if z then ziplistIndex xs n else listIndex xs n")
        case None
        then show ?thesis
          using Some tail [of shared_nullbulk] unfolding unf by (auto simp: ok arg_ll_run(2) [OF rs] addReply_push simp del: val_ok.simps)
      next
        case j: (Some j)
        have "arg_ok (xs ! j)" using list_elements [OF ok(4,2)] index_bound [OF j] by simp
        then show ?thesis
          using Some j tail [of "bulk (xs ! j)"] unfolding unf
          by (simp add: ok arg_ll_run(2) [OF rs] bulk_element del: val_ok.simps)
      qed
    qed
  qed
qed


subsection \<open>LRANGE\<close>

definition lrange_reply :: "('z oval \<times> int option) option \<Rightarrow> string \<Rightarrow> string \<Rightarrow> string" where
  "lrange_reply e a b = (case string_ll a of None \<Rightarrow> int_error
     | Some n \<Rightarrow> (case string_ll b of None \<Rightarrow> int_error
       | Some m \<Rightarrow>
           if \<not> is_list e then shared_wrongtypeerr
           else let ys = lslice (snd (entry_list e)) n m in ''*'' @ show_int (int (length ys)) @ CRLF @ concat (map bulk ys)))"

lemma entry_reply:
  assumes "arg_ok x"
  shows "(case ziplistGet x of Inl str \<Rightarrow> addReplyBulkCBuffer c str s | Inr v \<Rightarrow> addReplyBulkLongLong c v s) = push (to c (bulk x)) s"
proof (cases "string2ll x")
  case None
  then show ?thesis using assms by (simp add: ziplistGet_def zipTryEncoding_eq cbuffer_push arg_ok_def in_ll_def)
next
  case (Some v)
  note x = string2ll_short [OF Some]
  have "in_ll (int (length (show_int v)))" using conjunct1 [OF conjunct2 [OF x]] length_show_int [of v] by (simp add: in_ll_def)
  then show ?thesis
    using x Some by (simp add: ziplistGet_def zipTryEncoding_eq addReplyBulkLongLong_def cbuffer_push)
qed

lemma reply_entries_push: "\<forall>x \<in> set ys. arg_ok x \<Longrightarrow> reply_entries c z ys s = Some (push (to c (concat (map bulk ys))) s)"
  by (cases z; induction ys arbitrary: s) (simp_all add: entry_reply bulk_element)

lemma lslice_nil [simp]: "lslice [] a b = []"
  by (simp add: lslice_def)

lemma emptymulti: "shared_emptymultibulk = ''*'' @ show_int 0 @ CRLF"
  by (simp add: shared_emptymultibulk_def show_int_small)

lemma lrange_run:
  assumes r: "ready c s"
  shows "\<exists>s'. lrangeCommand c s = Some s'
    \<and> run c s s' (live s) 0 (lrange_reply (live s (cdb (clients s c)) (arg c 1 s)) (arg c 2 s) (arg c 3 s)) {}"
proof (cases "string_ll (arg c 2 s) = None \<or> string_ll (arg c 3 s) = None")
  case True
  then show ?thesis
    using run_reply [OF readyD(1) [OF r], of c int_error]
    by (cases "string_ll (arg c 2 s)") (auto simp: lrangeCommand_def arg_ll_run(2) [OF r] lrange_reply_def)
next
  case False
  then obtain n m where nm: "string_ll (arg c 2 s) = Some n" "string_ll (arg c 3 s) = Some m" by auto
  obtain s1 v where l: "lookupKeyReadOrReply c (arg c 1 s) shared_emptymultibulk s = Some (s1, v)"
    "run c s s1 (live s) 0 (if v = None then shared_emptymultibulk else []) {}" "settled s1 (cdb (clients s c)) (arg c 1 s) v"
    "live s (cdb (clients s c)) (arg c 1 s) = map_option (\<lambda>x. (oval x, expires (dbs s1 (cdb (clients s c))) (arg c 1 s))) v"
    using read_list [OF r] by blast
  note unf = lrangeCommand_def arg_ll_run(2) [OF r] nm l(1) Option.bind.simps prod.case option.case lrange_reply_def
  show ?thesis
    using l(2-4)
  proof (cases rule: found_list)
    case missing
    then show ?thesis unfolding unf by (simp add: emptymulti)
  next
    case (wrong y t)
    then show ?thesis unfolding unf by simp
  next
    case (ok y z xs)
    note tail = end_reply [OF ok(6)]
    show ?thesis
    proof (cases "list_range (int (length xs)) n m")
      case None
      then show ?thesis
        using tail [of shared_emptymultibulk] list_range_None [OF None] unfolding unf by (simp add: ok addReply_push emptymulti)
    next
      case (Some p)
      obtain lo hi where p: "p = (lo, hi)" by force
      note rg = list_range_Some [OF Some [unfolded p]]
      have z: "z \<longrightarrow> length xs \<le> 2147483648" using ok(2,4) by (auto split: if_splits)
      define ys where "ys = lslice xs n m"
      have ys: "range_entries z xs lo (hi - lo + 1) = Some ys" "int (length ys) = hi - lo + 1" "\<forall>x \<in> set ys. arg_ok x"
        using range_entries_eq [OF Some [unfolded p] z] rg(1-3) list_elements [OF ok(4,2)] lslice_set(1) [of xs n m]
        by (auto simp: ys_def) (simp add: rg(4))
      have ll: "in_ll (hi - lo + 1)" using list_length_ll [OF ok(4,2)] rg(1-3) by (simp add: in_ll_def)
      show ?thesis
        using ys(2) tail [of "''*'' @ show_int (int (length ys)) @ CRLF @ concat (map bulk ys)"] unfolding unf
        by (simp add: ok Some p ys(1) reply_entries_push [OF ys(3)] mbulklen_push [OF ll] flip: ys_def)
    qed
  qed
qed


subsection \<open>Pushes\<close>

definition push_effect :: "limits \<Rightarrow> list_end \<Rightarrow> 'z keyspace \<Rightarrow> nat \<Rightarrow> string \<Rightarrow> string list \<Rightarrow> 'z keyspace \<times> int \<times> string" where
  "push_effect l w ks i k vals =
     (if \<not> is_list (ks i k) then (ks, 0, shared_wrongtypeerr)
      else let p = pushed_all l w vals (entry_list (ks i k)) in
        (ks_upd ks i k (list_entry p (entry_ttl (ks i k))), int (length vals), int_reply (int (length (snd p)))))"

lemma pushed_ok:
  assumes "limits_ok l" "val_ok (ListV (fst p) (snd p) :: 'z oval)" "arg_ok x" "int (length (snd p)) + 1 \<le> LLONG_MAX"
  shows "val_ok (ListV (fst (pushed l w x p)) (snd (pushed l w x p)) :: 'z oval)"
  using assms by (auto simp: pushed_def limits_ok_def split: if_splits)

lemma push_loop_run:
  fixes s :: "'z server" and w1 :: list_end
  assumes r: "ready c s" and lim: "limits_ok l" and k: "arg_ok k"
    and w: "run c s s1 (ks_upd K i k e) 0 [] {}" "settled s1 i k v" "expires (dbs s1 i) k = t"
    and v: "case v of None \<Rightarrow> p = (True, []) \<and> t = None | Some y \<Rightarrow> oval y = ListV (fst p) (snd p)"
    and vals: "vals \<noteq> []" "\<forall>x \<in> set vals. arg_ok x" "int (length (snd p)) + int (length vals) \<le> LLONG_MAX"
  defines "q \<equiv> pushed_all l w1 vals p"
  shows "\<exists>s2. push_loop l i k w1 vals (map_option oval v) s1 = Some (s2, Some (ListV (fst q) (snd q)))
    \<and> run c s s2 (ks_upd K i k (Some (ListV (fst q) (snd q), t))) 0 [] {} \<and> val_ok (ListV (fst q) (snd q) :: 'z oval)"
  using w v vals unfolding q_def
proof (induction vals arbitrary: p s1 v e)
  case (Cons x vals)
  let ?q = "pushed l w1 x p"
  have x: "arg_ok x" and len: "int (length (snd p)) + 1 \<le> LLONG_MAX" using Cons.prems(6,7) by auto
  obtain s2 y where s2: "(case map_option oval v of Some ob \<Rightarrow> Some (s1, ob)
       | None \<Rightarrow> do { s1' \<leftarrow> dbAdd i k (createObject s1 createZiplistObject) s1; Some (s1', createZiplistObject) }) = Some (s2, ListV (fst p) (snd p))"
    "\<exists>e. run c s s2 (ks_upd K i k e) 0 [] {}" "settled s2 i k (Some y)" "expires (dbs s2 i) k = t"
    "val_ok (ListV (fst p) (snd p) :: 'z oval)"
  proof (cases v)
    case None
    then have p: "p = (True, [])" "t = None" using Cons.prems(4) by auto
    let ?o = "createObject s1 createZiplistObject"
    have "ddict (dbs s1 i) k = None" using Cons.prems(2) None by (simp add: settled_def)
    from step_add [OF Cons.prems(1) r this k, of ?o] obtain s2 where
      s2: "dbAdd i k ?o s1 = Some s2" "run c s s2 (ks_upd (ks_upd K i k e) i k (Some (oval ?o, None))) 0 [] {}"
      "settled s2 i k (Some ?o)" "expires (dbs s2 i) k = None" by (auto simp: createObject_def createZiplistObject_def)
    show ?thesis
      by (rule that [of s2 ?o]) (use s2 p None in \<open>auto simp: createObject_def createZiplistObject_def\<close>)
  next
    case (Some y)
    then have y: "oval y = ListV (fst p) (snd p)" using Cons.prems(4) by auto
    have "val_ok (oval y)" using settled_val [OF Cons.prems(1)] Cons.prems(2) Some by blast
    then show ?thesis
      by (intro that [of s1 y]) (use Some y Cons.prems(1-3) in auto)
  qed
  then obtain e2 where e2: "run c s s2 (ks_upd K i k e2) 0 [] {}" by blast
  have ok: "val_ok (ListV (fst ?q) (snd ?q) :: 'z oval)" by (rule pushed_ok [OF lim s2(5) x len])
  note m = step_modify [OF e2 r s2(3) ok]
  let ?s3 = "modify_value i k (ListV (fst ?q) (snd ?q)) s2"
  have m1: "run c s ?s3 (ks_upd K i k (Some (ListV (fst ?q) (snd ?q), t))) 0 [] {}" using m(1) s2(4) by simp
  have loop: "push_loop l i k w1 (x # vals) (map_option oval v) s1 = push_loop l i k w1 vals (Some (ListV (fst ?q) (snd ?q))) ?s3"
    using s2(1) by (simp add: listTypePush_eq)
  show ?case
  proof (cases "vals = []")
    case True
    then show ?thesis unfolding loop using m1 ok by simp
  next
    case False
    have "\<exists>s4. push_loop l i k w1 vals (map_option oval (Some (y\<lparr>oval := ListV (fst ?q) (snd ?q)\<rparr>))) ?s3
        = Some (s4, Some (ListV (fst (pushed_all l w1 vals ?q)) (snd (pushed_all l w1 vals ?q))))
      \<and> run c s s4 (ks_upd K i k (Some (ListV (fst (pushed_all l w1 vals ?q)) (snd (pushed_all l w1 vals ?q)), t))) 0 [] {}
      \<and> val_ok (ListV (fst (pushed_all l w1 vals ?q)) (snd (pushed_all l w1 vals ?q)) :: 'z oval)"
      by (rule Cons.IH [OF m1 m(2)]) (use m(3) s2(4) False Cons.prems(6,7) in \<open>auto simp: pushed_def\<close>)
    then show ?thesis unfolding loop by simp
  qed
qed simp


lemma push_run:
  assumes r: "ready c s" and lim: "limits_ok l" and k: "arg_ok (arg c 1 s)"
    and vals: "args_from c 2 s \<noteq> []" "\<forall>x \<in> set (args_from c 2 s). arg_ok x"
      "int (length (snd (entry_list (live s (cdb (clients s c)) (arg c 1 s))))) + int (length (args_from c 2 s)) \<le> LLONG_MAX"
  shows "\<exists>s'. pushGenericCommand l c w1 s = Some s'
    \<and> (case push_effect l w1 (live s) (cdb (clients s c)) (arg c 1 s) (args_from c 2 s) of
         (K, n, x) \<Rightarrow> run c s s' K n x (if n = 0 then {} else watchers s (cdb (clients s c)) (arg c 1 s)))"
proof -
  define i key vs where "i = cdb (clients s c)" and "key = arg c 1 s" and "vs = args_from c 2 s"
  note defs = i_def [symmetric] key_def [symmetric] vs_def [symmetric]
  note k = k [folded key_def] and vals = vals [folded i_def key_def vs_def]
  have i: "int i \<le> LLONG_MAX" unfolding i_def by (rule server_ok_cdb [OF readyD(1) [OF r]])
  obtain s1 v where l: "lookupKeyWrite i key s = Some (s1, v)" "run c s s1 (live s) 0 [] {}" "settled s1 i key v"
    using lookupKeyWrite_run [OF r i] by blast
  note e = settled_keep [OF l(2) r l(3)]
  note unf = pushGenericCommand_def Let_def defs l(1) Option.bind.simps prod.case push_effect_def
  show ?thesis
  proof (cases "\<exists>y. v = Some y \<and> otype (oval y) \<noteq> REDIS_LIST")
    case True
    then show ?thesis
      using e(1) end_reply [OF l(2), of shared_wrongtypeerr] unfolding unf by (auto simp: is_list_def addReply_push)
  next
    case False
    define p t q where "p = entry_list (live s i key)" and "t = expires (dbs s1 i) key" and "q = pushed_all l w1 vs p"
    have p: "case v of None \<Rightarrow> p = (True, []) \<and> t = None | Some y \<Rightarrow> oval y = ListV (fst p) (snd p)"
    proof (cases v)
      case (Some y)
      then obtain z xs where "oval y = ListV z xs" using False by (cases "oval y") auto
      then show ?thesis using e(1) Some by (simp add: p_def)
    qed (use e(1,2) in \<open>simp add: p_def t_def entry_ttl_def\<close>)
    have il: "is_list (live s i key)" using False e(1) by (cases v) (auto simp: is_list_def)
    have nw: "(case v of None \<Rightarrow> False | Some y \<Rightarrow> otype (oval y) \<noteq> REDIS_LIST) = False" using False by (cases v) auto
    have w: "run c s s1 (ks_upd (live s) i key (live s i key)) 0 [] {}" using l(2) by simp
    obtain s2 where s2: "push_loop l i key w1 vs (map_option oval v) s1 = Some (s2, Some (ListV (fst q) (snd q)))"
      "run c s s2 (ks_upd (live s) i key (Some (ListV (fst q) (snd q), t))) 0 [] {}" "val_ok (ListV (fst q) (snd q) :: 'a oval)"
      using push_loop_run [OF r lim k w l(3) t_def [symmetric] p vals(1,2), of w1] vals(3) by (auto simp: q_def simp flip: p_def)
    have ne: "snd q \<noteq> []" using vals(1) by (simp add: q_def pushed_all_elements)
    note len = list_length_ll [OF s2(3) refl]
    note a1 = step_reply [OF s2(2), of "int_reply (int (length (snd q)))"]
    note a2 = step_signal(1) [OF a1 r, of i key]
    have ev: "length (push_event w1) \<le> 100" by (simp add: push_event_def)
    note a3 = step_note [OF a2 r k i ev, of NOTIFY_LIST]
    note a4 = step_dirty [OF a3(2), of "int (length vs)"]
    have "0 < int (length vs)" using vals(1) by simp
    then show ?thesis
      using a4 vals(1) unfolding unf nw if_False s2(1)
      by (simp add: il listTypeLength_def longlong_push [OF len] a3(1) list_entry_def ne e(2) flip: p_def t_def q_def)
  qed
qed

definition pushx_effect :: "limits \<Rightarrow> list_end \<Rightarrow> 'z keyspace \<Rightarrow> nat \<Rightarrow> string \<Rightarrow> string \<Rightarrow> 'z keyspace \<times> int \<times> string" where
  "pushx_effect l w ks i k x =
     (if ks i k = None then (ks, 0, shared_czero)
      else if \<not> is_list (ks i k) then (ks, 0, shared_wrongtypeerr)
      else let p = pushed l w x (entry_list (ks i k)) in
        (ks_upd ks i k (list_entry p (entry_ttl (ks i k))), 1, int_reply (int (length (snd p)))))"

lemma pushx_run:
  fixes s :: "'z server"
  assumes r: "ready c s" and lim: "limits_ok l" and k: "arg_ok x"
      "int (length (snd (entry_list (live s (cdb (clients s c)) (arg c 1 s))))) + 1 \<le> LLONG_MAX"
  shows "\<exists>s'. pushxGenericCommand l c None (tryObjectEncoding x) w1 s = Some s'
    \<and> (case pushx_effect l w1 (live s) (cdb (clients s c)) (arg c 1 s) x of
         (K, n, x) \<Rightarrow> run c s s' K n x (if n = 0 then {} else watchers s (cdb (clients s c)) (arg c 1 s)))"
proof -
  define i key where "i = cdb (clients s c)" and "key = arg c 1 s"
  note defs = i_def [symmetric] key_def [symmetric]
  have i: "int i \<le> LLONG_MAX" unfolding i_def by (rule server_ok_cdb [OF readyD(1) [OF r]])
  obtain s1 v where l: "lookupKeyReadOrReply c key shared_czero s = Some (s1, v)"
    "run c s s1 (live s) 0 (if v = None then shared_czero else []) {}" "settled s1 (cdb (clients s c)) key v"
    "live s (cdb (clients s c)) key = map_option (\<lambda>x. (oval x, expires (dbs s1 (cdb (clients s c))) key)) v"
    using read_list [OF r] by blast
  note unf = pushxGenericCommand_def Let_def defs l(1) Option.bind.simps prod.case pushx_effect_def
  show ?thesis
    using l(2-4)
  proof (cases rule: found_list)
    case missing
    then show ?thesis unfolding unf by (simp add: defs)
  next
    case (wrong y t)
    then show ?thesis unfolding unf by (simp add: defs)
  next
    case (ok y z xs)
    define q where "q = pushed l w1 x (z, xs)"
    have vq: "val_ok (ListV (fst q) (snd q) :: 'z oval)"
      unfolding q_def by (rule pushed_ok [OF lim _ k(1)]) (use ok(2-4) k(2) in \<open>simp_all add: defs\<close>)
    note len = list_length_ll [OF vq refl]
    note a1 = step_modify(1) [OF ok(6) r ok(7) vq, unfolded defs]
    note a2 = step_signal(1) [OF a1 r, of i key]
    have ev: "length (push_event w1) \<le> 100" by (simp add: push_event_def)
    note a3 = step_note [OF a2 r ok(8) i ev, of NOTIFY_LIST]
    note a4 = step_reply [OF step_dirty [OF a3(2), of 1], of "int_reply (int (length (snd q)))"]
    have "snd q \<noteq> []" by (simp add: q_def pushed_def)
    then show ?thesis
      using a4 ok unfolding unf
      by (simp add: defs listTypeLength_def longlong_push [OF len] a3(1) list_entry_def listTypePush_eq entry_ttl_def flip: q_def)
  qed
qed


subsection \<open>Pops\<close>

definition pop_at :: "list_end \<Rightarrow> string list \<Rightarrow> string \<times> string list" where
  "pop_at w xs = (if w = REDIS_HEAD then (hd xs, tl xs) else (last xs, butlast xs))"

definition pop_effect :: "list_end \<Rightarrow> 'z keyspace \<Rightarrow> nat \<Rightarrow> string \<Rightarrow> 'z keyspace \<times> int \<times> string" where
  "pop_effect w ks i k =
     (if \<not> is_list (ks i k) then (ks, 0, shared_wrongtypeerr)
      else case entry_list (ks i k) of (z, xs) \<Rightarrow>
        if xs = [] then (ks, 0, shared_nullbulk)
        else case pop_at w xs of (x, rest) \<Rightarrow> (ks_upd ks i k (list_entry (z, rest) (entry_ttl (ks i k))), 1, bulk x))"

lemma listTypePop_eq: "xs \<noteq> [] \<Longrightarrow> listTypePop (ListV z xs) w = Some (Some (tryObjectEncoding (fst (pop_at w xs))), ListV z (snd (pop_at w xs)))"
  by (simp add: listTypePop_def pop_at_def)

lemma pop_at_set: "xs \<noteq> [] \<Longrightarrow> set (snd (pop_at w xs)) \<subseteq> set xs \<and> fst (pop_at w xs) \<in> set xs \<and> length (snd (pop_at w xs)) < length xs"
  by (cases xs) (auto simp: pop_at_def dest: in_set_butlastD)

lemma sub_list_ok: "val_ok (ListV z xs) \<Longrightarrow> set ys \<subseteq> set xs \<Longrightarrow> length ys \<le> length xs \<Longrightarrow> val_ok (ListV z ys)"
  by (auto split: if_splits)

lemma pop_run:
  fixes s :: "'z server"
  assumes r: "ready c s"
  shows "\<exists>s'. popGenericCommand c w1 s = Some s'
    \<and> (case pop_effect w1 (live s) (cdb (clients s c)) (arg c 1 s) of
         (K, n, x) \<Rightarrow> run c s s' K n x (if n = 0 then {} else watchers s (cdb (clients s c)) (arg c 1 s)))"
proof -
  define i key where "i = cdb (clients s c)" and "key = arg c 1 s"
  note defs = i_def [symmetric] key_def [symmetric]
  have i: "int i \<le> LLONG_MAX" unfolding i_def by (rule server_ok_cdb [OF readyD(1) [OF r]])
  obtain s1 v where l: "lookupKeyWriteOrReply c key shared_nullbulk s = Some (s1, v)"
    "run c s s1 (live s) 0 (if v = None then shared_nullbulk else []) {}" "settled s1 (cdb (clients s c)) key v"
    "live s (cdb (clients s c)) key = map_option (\<lambda>x. (oval x, expires (dbs s1 (cdb (clients s c))) key)) v"
    using writeOrReply_run [OF r] by blast
  note unf = popGenericCommand_def Let_def defs l(1) Option.bind.simps prod.case pop_effect_def
  show ?thesis
    using l(2-4)
  proof (cases rule: found_list)
    case missing
    then show ?thesis unfolding unf by (simp add: defs)
  next
    case (wrong y t)
    then show ?thesis unfolding unf by (simp add: defs)
  next
    case (ok y z xs)
    show ?thesis
    proof (cases "xs = []")
      case True
      then show ?thesis
        using ok end_reply [OF ok(6), of shared_nullbulk] unfolding unf by (simp add: defs listTypePop_def addReply_push)
    next
      case ne: False
      define x ys where "x = fst (pop_at w1 xs)" and "ys = snd (pop_at w1 xs)"
      have p: "pop_at w1 xs = (x, ys)" by (simp add: x_def ys_def)
      have sub: "set ys \<subseteq> set xs" "length ys \<le> length xs" "x \<in> set xs" using pop_at_set [OF ne, of w1] by (simp_all add: p)
      have vq: "val_ok (ListV z ys :: 'z oval)" using sub_list_ok [OF _ sub(1,2), of z] ok(2,4) by metis
      have bx: "addReplyBulk c (tryObjectEncoding x) u = Some (push (to c (bulk x)) u)" for u :: "'z server"
        by (rule bulk_element [OF list_elements [OF ok(4,2) sub(3)]])
      note a1 = step_reply [OF step_modify(1) [OF ok(6) r ok(7) vq, unfolded defs], of "bulk x"]
      define ev where "ev = (if w1 = REDIS_HEAD then ''lpop'' else ''rpop'')"
      have evl [simp]: "length ev \<le> 100" "length ''del'' \<le> 100" by (simp_all add: ev_def)
      note a2 = step_note [OF a1 r ok(8) i evl(1), of NOTIFY_LIST] and nt = run_notify [OF ok(6) r ok(8) i]
      note pop = listTypePop_eq [OF ne, of z w1, unfolded p fst_conv snd_conv]
      show ?thesis
      proof (cases "ys = []")
        case False
        note a3 = step_dirty [OF step_signal(1) [OF a2(2) r, of i key], of 1]
        then show ?thesis
          using ok ne False unfolding unf ev_def [symmetric]
          by (simp add: defs pop p bx nt listTypeLength_def list_entry_def entry_ttl_def del: val_ok.simps)
      next
        case True
        note a3 = step_note [OF a2(2) r ok(8) i evl(2), of NOTIFY_GENERIC]
        note a4 = step_dirty [OF step_signal(1) [OF step_delete [OF a3(2) r, of i key] r, of i key], of 1]
        then show ?thesis
          using ok ne True unfolding unf ev_def [symmetric]
          by (simp add: defs pop p bx nt listTypeLength_def list_entry_def entry_ttl_def del: val_ok.simps)
      qed
    qed
  qed
qed

subsection \<open>LTRIM\<close>

definition ltrim_effect :: "'z keyspace \<Rightarrow> nat \<Rightarrow> string \<Rightarrow> string \<Rightarrow> string \<Rightarrow> 'z keyspace \<times> int \<times> string" where
  "ltrim_effect ks i k a b = (case string_ll a of None \<Rightarrow> (ks, 0, int_error)
     | Some n \<Rightarrow> (case string_ll b of None \<Rightarrow> (ks, 0, int_error)
       | Some m \<Rightarrow>
           if \<not> is_list (ks i k) then (ks, 0, shared_wrongtypeerr)
           else if ks i k = None then (ks, 0, shared_ok)
           else case entry_list (ks i k) of (z, xs) \<Rightarrow>
             (ks_upd ks i k (list_entry (z, lslice xs n m) (entry_ttl (ks i k))), 1, shared_ok)))"

lemma trims_slice:
  assumes "trims (length xs) n m = (a, b)"
  shows "delete_ends a b xs = lslice xs n m"
proof (cases "list_range (int (length xs)) n m")
  case None
  then show ?thesis using assms list_range_None [OF None] by (auto simp: trims_def delete_ends_def)
next
  case (Some p)
  obtain lo hi where p: "p = (lo, hi)" by force
  note rg = list_range_Some [OF Some [unfolded p]]
  have ab: "a = nat lo" "b = nat (int (length xs) - hi - 1)" using assms Some p by (simp_all add: trims_def)
  have "length (drop a xs) - b = nat (hi - lo + 1)" using rg(1-3) by (simp add: ab)
  then show ?thesis by (simp only: rg(4) ab delete_ends_def Let_def)
qed

lemma ltrim_run:
  fixes s :: "'z server"
  assumes r: "ready c s"
  shows "\<exists>s'. ltrimCommand c s = Some s'
    \<and> (case ltrim_effect (live s) (cdb (clients s c)) (arg c 1 s) (arg c 2 s) (arg c 3 s) of
         (K, n, x) \<Rightarrow> run c s s' K n x (if n = 0 then {} else watchers s (cdb (clients s c)) (arg c 1 s)))"
proof (cases "string_ll (arg c 2 s) = None \<or> string_ll (arg c 3 s) = None")
  case True
  then show ?thesis
    using run_reply [OF readyD(1) [OF r], of c int_error]
    by (cases "string_ll (arg c 2 s)") (auto simp: ltrimCommand_def Let_def arg_ll_run(2) [OF r] ltrim_effect_def)
next
  case False
  then obtain n m where nm: "string_ll (arg c 2 s) = Some n" "string_ll (arg c 3 s) = Some m" by auto
  define i key where "i = cdb (clients s c)" and "key = arg c 1 s"
  note defs = i_def [symmetric] key_def [symmetric]
  have i: "int i \<le> LLONG_MAX" unfolding i_def by (rule server_ok_cdb [OF readyD(1) [OF r]])
  obtain s1 v where l: "lookupKeyWriteOrReply c key shared_ok s = Some (s1, v)"
    "run c s s1 (live s) 0 (if v = None then shared_ok else []) {}" "settled s1 (cdb (clients s c)) key v"
    "live s (cdb (clients s c)) key = map_option (\<lambda>x. (oval x, expires (dbs s1 (cdb (clients s c))) key)) v"
    using writeOrReply_run [OF r] by blast
  note unf = ltrimCommand_def Let_def arg_ll_run(2) [OF r] nm defs l(1) Option.bind.simps prod.case option.case ltrim_effect_def
  show ?thesis
    using l(2-4)
  proof (cases rule: found_list)
    case missing
    then show ?thesis unfolding unf by (simp add: defs)
  next
    case (wrong y t)
    then show ?thesis unfolding unf by (simp add: defs)
  next
    case (ok y z xs)
    define ys where "ys = lslice xs n m"
    obtain a b where ab: "trims (length xs) n m = (a, b)" by force
    have ys: "delete_ends a b xs = ys" using trims_slice [OF ab] by (simp add: ys_def)
    have vq: "val_ok (ListV z ys :: 'z oval)" using sub_list_ok [OF _ lslice_set, of z xs n m] ok(2,4) unfolding ys_def by metis
    note a1 = step_modify(1) [OF ok(6) r ok(7) vq, unfolded defs]
    have evl: "length ''ltrim'' \<le> 100" "length ''del'' \<le> 100" by simp_all
    note a2 = step_note [OF a1 r ok(8) i evl(1), of NOTIFY_LIST] and nt = run_notify [OF ok(6) r ok(8) i]
    show ?thesis
    proof (cases "ys = []")
      case False
      note a3 = step_reply [OF step_dirty [OF step_signal(1) [OF a2(2) r, of i key], of 1], of shared_ok]
      then show ?thesis
        using ok False unfolding unf
        by (simp add: ok(2) defs ab ys nt list_entry_def entry_ttl_def addReply_push flip: ys_def del: val_ok.simps)
    next
      case True
      note a3 = step_note [OF step_delete [OF a2(2) r, of i key] r ok(8) i evl(2), of NOTIFY_GENERIC]
      note a4 = step_reply [OF step_dirty [OF step_signal(1) [OF a3(2) r, of i key], of 1], of shared_ok]
      then show ?thesis
        using ok True unfolding unf
        by (simp add: ok(2) defs ab ys nt list_entry_def entry_ttl_def addReply_push flip: ys_def del: val_ok.simps)
    qed
  qed
qed


subsection \<open>LREM\<close>

text \<open>The elements that stay when \<open>n\<close> are to go: from the head, from the tail when it is negative, all when it is 0.\<close>

definition lrem_list :: "int \<Rightarrow> string \<Rightarrow> string list \<Rightarrow> string list" where
  "lrem_list n y xs = (if n = 0 then filter (\<lambda>x. x \<noteq> y) xs else if 0 < n then remove_first (nat n) y xs
     else rev (remove_first (nat (- n)) y (rev xs)))"

definition lrem_count :: "int \<Rightarrow> string \<Rightarrow> string list \<Rightarrow> int" where
  "lrem_count n y xs = (if n = 0 then int (count_list xs y) else min (int (count_list xs y)) \<bar>n\<bar>)"

definition lrem_effect :: "'z keyspace \<Rightarrow> nat \<Rightarrow> string \<Rightarrow> string \<Rightarrow> string \<Rightarrow> 'z keyspace \<times> int \<times> string" where
  "lrem_effect ks i k a y = (case string_ll a of None \<Rightarrow> (ks, 0, int_error)
     | Some n \<Rightarrow>
         if \<not> is_list (ks i k) then (ks, 0, shared_wrongtypeerr)
         else if ks i k = None then (ks, 0, shared_czero)
         else case entry_list (ks i k) of (z, xs) \<Rightarrow>
           (ks_upd ks i k (list_entry (z, lrem_list n y xs) (entry_ttl (ks i k))), lrem_count n y xs, int_reply (lrem_count n y xs)))"

lemma set_remove_first: "set (remove_first n y xs) \<subseteq> set xs \<and> length (remove_first n y xs) \<le> length xs"
  by (induction xs arbitrary: n) (auto simp: le_SucI)

lemma lrem_list_sub: "set (lrem_list n y xs) \<subseteq> set xs" "length (lrem_list n y xs) \<le> length xs"
  using set_remove_first [of "nat n" y xs] set_remove_first [of "nat (- n)" y "rev xs"] by (auto simp: lrem_list_def)

lemma count_rev [simp]: "count_list (rev xs) y = count_list xs y"
  by (induction xs) auto

lemma lrem_none:
  assumes "lrem_count n y xs = 0"
  shows "lrem_list n y xs = xs"
proof (cases "n = 0")
  case True
  then show ?thesis using assms by (simp add: lrem_count_def lrem_list_def count_list_0_iff) (metis (mono_tags) filter_True)
next
  case False
  then have "y \<notin> set xs" using assms by (auto simp: lrem_count_def count_list_0_iff min_def split: if_splits)
  then have "filter (\<lambda>x. x \<noteq> y) xs = xs" "count_list xs y = 0" by (auto simp: count_list_0_iff intro: filter_True)
  then show ?thesis
    using remove_first_all [of xs y "nat n"] remove_first_all [of "rev xs" y "nat (- n)"]
    by (simp add: lrem_list_def flip: rev_filter)
qed

text \<open>The loop of the handler; the negation of the least number wraps to itself, which has no effect on the result.\<close>

lemma lrem_loop_list:
  fixes z :: bool and y :: string
  assumes xs: "\<forall>x \<in> set xs. arg_ok x" and y: "arg_ok y" and n: "in_ll n" and len: "int (length xs) \<le> LLONG_MAX"
  defines "ob \<equiv> (if z then StrRaw y else tryObjectEncoding y)"
  shows "lrem_loop z ob (if n < 0 then wrap_ll (- n) else n) (if n < 0 then rev xs else xs) 0
    = Some (if n < 0 then rev (lrem_list n y xs) else lrem_list n y xs, lrem_count n y xs)"
proof -
  have eq: "\<forall>x \<in> set xs. listTypeEqual z x ob = Some (x = y)" unfolding ob_def using listTypeEqual_eq(1) [OF _ y] xs by blast
  have cl: "int (count_list xs y) \<le> LLONG_MAX" using len count_le_length [of xs y] by linarith
  have eq': "\<forall>x \<in> set (if n < 0 then rev xs else xs). listTypeEqual z x ob = Some (x = y)" using eq by simp
  show ?thesis
  proof (cases "n = LLONG_MIN")
    case True
    then have w: "wrap_ll (- n) = n" by (simp add: wrap_ll_def)
    have "remove_first (nat (- n)) y (rev xs) = filter (\<lambda>x. x \<noteq> y) (rev xs)"
      by (rule remove_first_all) (use cl True in simp)
    then show ?thesis
      using lrem_loop_eq [OF eq', of 0 n] True cl unfolding w by (simp add: lrem_list_def lrem_count_def)
  next
    case False
    then have w: "n < 0 \<Longrightarrow> wrap_ll (- n) = - n" using n by (simp add: wrap_ll_id in_ll_def)
    consider "n < 0" | "n = 0" | "0 < n" by linarith
    then show ?thesis
      using lrem_loop_eq [OF eq', of 0 "if n < 0 then - n else n"] w
      by cases (simp_all add: lrem_list_def lrem_count_def min_def, linarith+)
  qed
qed

lemma lrem_run:
  fixes s :: "'z server"
  assumes r: "ready c s" and k: "arg_ok (arg c 3 s)" and ne: "\<not> empty_list (live s (cdb (clients s c)) (arg c 1 s))"
  shows "\<exists>s'. lremCommand c s = Some s'
    \<and> (case lrem_effect (live s) (cdb (clients s c)) (arg c 1 s) (arg c 2 s) (arg c 3 s) of
         (K, n, x) \<Rightarrow> run c s s' K n x (if n = 0 then {} else watchers s (cdb (clients s c)) (arg c 1 s)))"
proof (cases "string_ll (arg c 2 s)")
  case None
  then show ?thesis
    using run_reply [OF readyD(1) [OF r], of c int_error]
    by (auto simp: lremCommand_def Let_def arg_ll_run(2) [OF r] lrem_effect_def)
next
  case nn: (Some n)
  define i key y where "i = cdb (clients s c)" and "key = arg c 1 s" and "y = arg c 3 s"
  note defs = i_def [symmetric] key_def [symmetric] y_def [symmetric]
  have i: "int i \<le> LLONG_MAX" unfolding i_def by (rule server_ok_cdb [OF readyD(1) [OF r]])
  obtain s1 v where l: "lookupKeyWriteOrReply c key shared_czero s = Some (s1, v)"
    "run c s s1 (live s) 0 (if v = None then shared_czero else []) {}" "settled s1 (cdb (clients s c)) key v"
    "live s (cdb (clients s c)) key = map_option (\<lambda>x. (oval x, expires (dbs s1 (cdb (clients s c))) key)) v"
    using writeOrReply_run [OF r] by blast
  note unf = lremCommand_def Let_def arg_ll_run(2) [OF r] nn defs l(1) Option.bind.simps prod.case option.case lrem_effect_def
  show ?thesis
    using l(2-4)
  proof (cases rule: found_list)
    case missing
    then show ?thesis unfolding unf by (simp add: defs)
  next
    case (wrong y t)
    then show ?thesis unfolding unf by (simp add: defs)
  next
    case (ok yo z xs)
    define zs m where "zs = lrem_list n y xs" and "m = lrem_count n y xs"
    have vq: "val_ok (ListV z zs :: 'z oval)" using sub_list_ok [OF _ lrem_list_sub, of z xs n y] ok(2,4) unfolding zs_def by metis
    have len: "int (length xs) \<le> LLONG_MAX" using ok(2,4) by (auto split: if_splits)
    have loop: "lrem_loop z (if z then StrRaw y else tryObjectEncoding y) (if n < 0 then wrap_ll (- n) else n) (if n < 0 then rev xs else xs) 0
        = Some (if n < 0 then rev zs else zs, m)"
      unfolding zs_def m_def
      by (rule lrem_loop_list) (use ok(2,4) k string_ll_range [OF nn] len in \<open>simp_all add: defs\<close>)
    have obj: "(if z then map_option StrRaw (getDecodedObject (tryObjectEncoding y)) else Some (tryObjectEncoding y))
        = Some (if z then StrRaw y else tryObjectEncoding y)" by simp
    have m: "in_ll m" "0 \<le> m" using len count_le_length [of xs y] by (auto simp: m_def lrem_count_def in_ll_def min_def)
    note a1 = step_dirty [OF step_modify(1) [OF ok(6) r ok(7) vq, unfolded defs], of m]
    have xs: "xs \<noteq> []" using ne ok(3) by (simp add: empty_list_def defs)
    define s4 where "s4 = (if zs = [] then fst (dbDelete i key (add_dirty m (modify_value i key (ListV z zs) s1)))
      else add_dirty m (modify_value i key (ListV z zs) s1))"
    have a2: "run c s s4 (ks_upd (live s) i key (list_entry (z, zs) (expires (dbs s1 i) key))) m [] {}"
      using a1 step_delete [OF a1 r, of i key] unfolding s4_def list_entry_def snd_conv fst_conv by (cases "zs = []") simp_all
    note a3 = step_reply [OF a2, of "int_reply m"]
    note a4 = step_signal(1) [OF a3 r, of i key]
    have cmd: "lremCommand c s = Some (if m \<noteq> 0 then signalModifiedKey i key (push (to c (int_reply m)) s4) else push (to c (int_reply m)) s4)"
      unfolding unf ok(1) option.case ok(2) ok(5) if_False oval.case obj loop longlong_push [OF m(1)]
      by (simp add: s4_def)
    have eff: "lrem_effect (live s) i key (arg c 2 s) y
        = (ks_upd (live s) i key (list_entry (z, zs) (expires (dbs s1 i) key)), m, int_reply m)"
      using ok(3) by (simp add: lrem_effect_def nn defs entry_ttl_def flip: zs_def m_def)
    show ?thesis unfolding defs eff cmd using a3 a4 by (cases "m = 0") simp_all
  qed
qed


subsection \<open>RPOPLPUSH\<close>

definition rpoplpush_effect :: "limits \<Rightarrow> 'z keyspace \<Rightarrow> nat \<Rightarrow> string \<Rightarrow> string \<Rightarrow> 'z keyspace \<times> int \<times> string" where
  "rpoplpush_effect l ks i src dst =
     (if \<not> is_list (ks i src) then (ks, 0, shared_wrongtypeerr)
      else case entry_list (ks i src) of (z, xs) \<Rightarrow>
        if xs = [] then (ks, 0, shared_nullbulk)
        else if \<not> is_list (ks i dst) then (ks, 0, shared_wrongtypeerr)
        else let x = last xs; ks1 = ks_upd ks i src (list_entry (z, butlast xs) (entry_ttl (ks i src)));
                 base = (if src = dst then ((z, butlast xs), entry_ttl (ks i src)) else (entry_list (ks i dst), entry_ttl (ks i dst)))
             in (ks_upd ks1 i dst (list_entry (pushed l REDIS_HEAD x (fst base)) (snd base)), 1, bulk x))"

text \<open>The push on the target, from a state in which the source has lost its last element.\<close>

lemma handle_push_run:
  fixes s :: "'z server"
  assumes r: "ready c s" and lim: "limits_ok l" and k: "arg_ok dst" "arg_ok x" and i: "int i \<le> LLONG_MAX" "cdb (clients s c) = i"
    and w: "run c s s1 (ks_upd K i dst e) 0 [] {}" "settled s1 i dst v" "expires (dbs s1 i) dst = t"
    and v: "case v of None \<Rightarrow> p = (True, []) \<and> t = None | Some y \<Rightarrow> oval y = ListV (fst p) (snd p)"
    and len: "int (length (snd p)) + 1 \<le> LLONG_MAX"
  defines "q \<equiv> pushed l REDIS_HEAD x p"
  shows "\<exists>s2. rpoplpushHandlePush l c dst (v \<noteq> None) (tryObjectEncoding x) s1 = Some s2
    \<and> run c s s2 (ks_upd K i dst (Some (ListV (fst q) (snd q), t))) 0 (bulk x) (watchers s i dst)
    \<and> stored i dst s2 = Some (ListV (fst q) (snd q)) \<and> expires (dbs s2 i) dst = t
    \<and> (\<forall>k. k \<noteq> dst \<longrightarrow> stored i k s2 = stored i k s1)"
proof -
  have cdb: "cdb (clients s1 c) = i" using i(2) run_conf(1) [OF w(1)] by simp
  obtain s2 y e2 where s2: "(if v = None then dbAdd i dst (createObject s1 createZiplistObject) s1 else Some s1) = Some s2"
    "run c s s2 (ks_upd K i dst e2) 0 [] {}" "settled s2 i dst (Some y)" "expires (dbs s2 i) dst = t" "oval y = ListV (fst p) (snd p)"
    "\<forall>k. k \<noteq> dst \<longrightarrow> stored i k s2 = stored i k s1"
  proof (cases v)
    case None
    let ?o = "createObject s1 createZiplistObject"
    have d: "ddict (dbs s1 i) dst = None" using w(2) None by (simp add: settled_def)
    from step_add [OF w(1) r this k(1), of ?o] obtain s2 where
      s2: "dbAdd i dst ?o s1 = Some s2" "run c s s2 (ks_upd (ks_upd K i dst e) i dst (Some (oval ?o, None))) 0 [] {}"
      "settled s2 i dst (Some ?o)" "expires (dbs s2 i) dst = None" by (auto simp: createObject_def createZiplistObject_def)
    have "\<forall>k. k \<noteq> dst \<longrightarrow> stored i k s2 = stored i k s1"
      using s2(1) d by (auto simp: dbAdd_def stored_def signalListAsReady_def upd_db_dbs dbs_set Let_def split: if_splits)
    then show ?thesis
      by (intro that [of s2 _ ?o]) (use s2 None v in \<open>auto simp: createObject_def createZiplistObject_def\<close>)
  next
    case (Some y)
    then show ?thesis by (intro that [of s1 e y]) (use w v in auto)
  qed
  have vp: "val_ok (ListV (fst p) (snd p) :: 'z oval)" using settled_val [OF s2(2,3)] s2(5) by simp
  have vq: "val_ok (ListV (fst q) (snd q) :: 'z oval)" unfolding q_def by (rule pushed_ok [OF lim vp k(2) len])
  note a1 = step_signal [OF s2(2) r, of i dst]
  have st: "settled (signalModifiedKey i dst s2) i dst (Some y)" using s2(3) by simp
  note a2 = step_modify [OF a1(1) r st vq]
  have ev: "length ''lpush'' \<le> 100" by simp
  let ?s3 = "modify_value i dst (ListV (fst q) (snd q)) (signalModifiedKey i dst s2)"
  note a3 = step_note [OF a2(1) r k(1) i(1) ev, of NOTIFY_LIST]
  note a4 = step_reply [OF a3(2), of "bulk x"]
  have sd: "stored i dst (signalModifiedKey i dst s2) = Some (ListV (fst p) (snd p))"
    using s2(3,5) a1(2) by (simp add: stored_def settled_def)
  have d3: "ddict (dbs ?s3 i) dst = Some (y\<lparr>oval := ListV (fst q) (snd q)\<rparr>)" using a2(2) by (simp add: settled_def)
  have oth: "\<forall>k. k \<noteq> dst \<longrightarrow> stored i k ?s3 = stored i k s1"
    using s2(6) a1(2) by (simp add: stored_def modify_value_def dbs_set)
  have cmd: "rpoplpushHandlePush l c dst (v \<noteq> None) (tryObjectEncoding x) s1
      = Some (push (to c (bulk x)) (push (notified ?s3 NOTIFY_LIST ''lpush'' dst i) ?s3))"
    unfolding rpoplpushHandlePush_def Let_def cdb not_not s2(1) Option.bind.simps sd listTypePush_eq prod.collapse q_def [symmetric] a3(1)
    by (rule bulk_element [OF k(2)])
  show ?thesis
    unfolding cmd using a4 d3 oth a2(3) a1(2) s2(4) by (intro exI conjI) (rule refl, simp_all add: stored_def)
qed


lemma live_settled: "live s i k = Some (v, t) \<Longrightarrow> \<exists>y. settled s i k (Some y) \<and> oval y = v \<and> expires (dbs s i) k = t"
  by (auto simp: live_def settled_def split: option.splits if_splits)

lemma settled_other:
  assumes "k \<noteq> l"
  shows "settled (modify_value i l v s) i k d = settled s i k d" "stored i k (modify_value i l v s) = stored i k s"
    "expires (dbs (modify_value i l v s) i) k = expires (dbs s i) k"
proof -
  have "expired (modify_value i l v s) i k = expired s i k"
    unfolding modify_value_def by (rule expired_same [OF conf_set(1)]) (simp add: dbs_set)
  then show "settled (modify_value i l v s) i k d = settled s i k d" "stored i k (modify_value i l v s) = stored i k s"
    "expires (dbs (modify_value i l v s) i) k = expires (dbs s i) k"
    using assms by (simp_all add: modify_value_def settled_def stored_def dbs_set)
qed

lemma ks_upd_twist: "k \<noteq> l \<Longrightarrow> ks_upd (ks_upd K i k a) i l b = ks_upd (ks_upd K i l b) i k a"
  by (auto simp: ks_upd_def fun_eq_iff)

text \<open>The end of the handler: the source goes when it is empty.\<close>

definition rpop_end :: "nat \<Rightarrow> string \<Rightarrow> 'z server \<Rightarrow> 'z server option" where
  "rpop_end i src s5 = do {
     s6 \<leftarrow> notifyKeyspaceEvent NOTIFY_LIST ''rpop'' src i s5;
     left \<leftarrow> Option.bind (stored i src s6) listTypeLength;
     s7 \<leftarrow> (if left = 0 then notifyKeyspaceEvent NOTIFY_GENERIC ''del'' src i (fst (dbDelete i src s6)) else Some s6);
     Some (add_dirty 1 (signalModifiedKey i src s7)) }"

lemma rpop_end_run:
  assumes w: "run c s s5 K n x W" and r: "ready c s" and k: "arg_ok src" "int i \<le> LLONG_MAX" and st: "stored i src s5 = Some (ListV z ys)"
  shows "\<exists>s'. rpop_end i src s5 = Some s' \<and> run c s s' (if ys = [] then ks_upd K i src None else K) (n + 1) x (W \<union> watchers s i src)"
proof -
  have evl: "length ''rpop'' \<le> 100" "length ''del'' \<le> 100" by simp_all
  note nt = run_notify [OF w r k]
  note a1 = step_note [OF w r k evl(1), of NOTIFY_LIST]
  have st1: "stored i src (push f s5) = Some (ListV z ys)" for f using st by (simp add: stored_def)
  show ?thesis
  proof (cases "ys = []")
    case True
    note a2 = step_note [OF step_delete [OF a1(2) r, of i src] r k evl(2), of NOTIFY_GENERIC]
    note a3 = step_dirty [OF step_signal(1) [OF a2(2) r, of i src], of 1]
    then show ?thesis using True by (simp add: rpop_end_def nt st1 listTypeLength_def)
  next
    case False
    note a3 = step_dirty [OF step_signal(1) [OF a1(2) r, of i src], of 1]
    then show ?thesis using False by (simp add: rpop_end_def nt st1 listTypeLength_def)
  qed
qed

lemma rpoplpush_run:
  fixes s :: "'z server"
  assumes r: "ready c s" and lim: "limits_ok l" and k: "arg_ok (arg c 2 s)"
    and len: "int (length (snd (entry_list (live s (cdb (clients s c)) (arg c 2 s))))) + 1 \<le> LLONG_MAX"
  shows "\<exists>s'. rpoplpushCommand l c s = Some s'
    \<and> (case rpoplpush_effect l (live s) (cdb (clients s c)) (arg c 1 s) (arg c 2 s) of
         (K, n, x) \<Rightarrow> run c s s' K n x (if n = 0 then {} else
           watchers s (cdb (clients s c)) (arg c 1 s) \<union> watchers s (cdb (clients s c)) (arg c 2 s)))"
proof -
  define i src dst where "i = cdb (clients s c)" and "src = arg c 1 s" and "dst = arg c 2 s"
  note defs = i_def [symmetric] src_def [symmetric] dst_def [symmetric]
  note k = k [folded dst_def] and len = len [folded i_def dst_def]
  have i: "int i \<le> LLONG_MAX" unfolding i_def by (rule server_ok_cdb [OF readyD(1) [OF r]])
  obtain s1 v where l: "lookupKeyWriteOrReply c src shared_nullbulk s = Some (s1, v)"
    "run c s s1 (live s) 0 (if v = None then shared_nullbulk else []) {}" "settled s1 (cdb (clients s c)) src v"
    "live s (cdb (clients s c)) src = map_option (\<lambda>x. (oval x, expires (dbs s1 (cdb (clients s c))) src)) v"
    using writeOrReply_run [OF r] by blast
  note unf = rpoplpushCommand_def Let_def defs l(1) Option.bind.simps prod.case rpoplpush_effect_def
  show ?thesis
    using l(2-4)
  proof (cases rule: found_list)
    case missing
    then show ?thesis unfolding unf by (simp add: defs)
  next
    case (wrong y t)
    then show ?thesis unfolding unf by (simp add: defs)
  next
    case (ok y z xs)
    note ok = ok [unfolded defs]
    note unf = unf ok(1) option.case ok(2) ok(5) if_False
    show ?thesis
    proof (cases "xs = []")
      case True
      then show ?thesis
        using ok(3) end_reply [OF ok(6), of shared_nullbulk] unfolding unf by (simp add: listTypeLength_def addReply_push)
    next
      case ne: False
      define t where "t = expires (dbs s1 i) src"
      note e1 = ok(3) [folded t_def]
      note r1 = run_ready [OF ok(6) r]
      obtain s2 d where m: "lookupKeyWrite i dst s1 = Some (s2, d)" "run c s1 s2 (live s1) 0 [] {}" "settled s2 i dst d"
        "live s1 i dst = map_option (\<lambda>x. (oval x, expires (dbs s2 i) dst)) d"
        using lookupKeyWrite_run [OF r1 i] by blast
      have w2: "run c s s2 (live s) 0 [] {}" using run_trans [OF ok(6) m(2)] runD(3) [OF ok(6)] by simp
      note e2 = m(4) [unfolded runD(3) [OF ok(6)]]
      have len0: "listTypeLength (ListV z xs) = Some (length xs)" "(length xs = 0) = False" using ne by (simp_all add: listTypeLength_def)
      note unf = unf len0 m(1)
      show ?thesis
      proof (cases "\<exists>b. d = Some b \<and> otype (oval b) \<noteq> REDIS_LIST")
        case True
        then show ?thesis
          using e1 e2 ne end_reply [OF w2, of shared_wrongtypeerr] type_checked(1) [OF w2] unfolding unf by (auto simp: is_list_def)
      next
        case False
        then have ty: "(case d of None \<Rightarrow> (s2, False) | Some dobj \<Rightarrow> checkType c (oval dobj) REDIS_LIST s2) = (s2, False)"
          using type_checked(1) [OF w2] by (cases d) auto
        define x ys where "x = last xs" and "ys = butlast xs"
        have pop: "listTypePop (ListV z xs) REDIS_TAIL = Some (Some (tryObjectEncoding x), ListV z ys)"
          using listTypePop_eq [OF ne, of z REDIS_TAIL] by (simp add: pop_at_def x_def ys_def)
        have sub: "set ys \<subseteq> set xs" "length ys \<le> length xs" "arg_ok x"
          using list_elements [OF ok(4,2)] ne by (auto simp: x_def ys_def dest: in_set_butlastD)
        have vq: "val_ok (ListV z ys :: 'z oval)" using sub_list_ok [OF _ sub(1,2), of z] ok(2,4) by metis
        have ils: "is_list (live s i dst)" using False e2 by (cases d) (auto simp: is_list_def)
        obtain y2 where y2: "settled s2 i src (Some y2)" "expires (dbs s2 i) src = t"
          using live_settled [of s2 i src] runD(3) [OF w2] e1 by auto
        define s3 K1 where "s3 = modify_value i src (ListV z ys) s2" and "K1 = ks_upd (live s) i src (Some (ListV z ys, t))"
        note m3 = step_modify [OF w2 r y2(1) vq, folded s3_def, unfolded y2(2), folded K1_def]
        have w3: "run c s s3 (ks_upd K1 i dst (K1 i dst)) 0 [] {}" using m3(1) by simp
        define base where "base = (if src = dst then ((z, ys), t) else (entry_list (live s i dst), entry_ttl (live s i dst)))"
        define q where "q = pushed l REDIS_HEAD x (fst base)"
        have eff: "rpoplpush_effect l (live s) i src dst
            = (ks_upd (ks_upd (live s) i src (list_entry (z, ys) t)) i dst (Some (ListV (fst q) (snd q), snd base)), 1, bulk x)"
          using e1 ne ils by (auto simp: rpoplpush_effect_def Let_def base_def q_def entry_ttl_def list_entry_def pushed_def simp flip: x_def ys_def)
        obtain v3 where v3: "settled s3 i dst v3" "expires (dbs s3 i) dst = snd base" "(v3 \<noteq> None) = (d \<noteq> None)"
          "case v3 of None \<Rightarrow> fst base = (True, []) \<and> snd base = None | Some y \<Rightarrow> oval y = ListV (fst (fst base)) (snd (fst base))"
        proof (cases "src = dst")
          case True
          then have "d \<noteq> None" using e1 e2 by auto
          then show ?thesis using m3(2,3) True by (intro that [of "Some (y2\<lparr>oval := ListV z ys\<rparr>)"]) (simp_all add: base_def)
        next
          case ne2: False
          then have o: "settled s3 i dst d" "expires (dbs s3 i) dst = expires (dbs s2 i) dst" using m(3) by (simp_all add: s3_def settled_other)
          have b: "base = (entry_list (live s i dst), entry_ttl (live s i dst))" using ne2 by (simp add: base_def)
          show ?thesis
          proof (cases d)
            case None
            then have "expires (dbs s2 i) dst = None" using m(3) expire_free [OF runD(2) [OF w2]] by (simp add: settled_def)
            then show ?thesis using that [OF o(1)] o(2) b e2 None by (simp add: entry_ttl_def)
          next
            case (Some b2)
            then obtain z2 xs2 where "oval b2 = ListV z2 xs2" using False by (cases "oval b2") auto
            then show ?thesis using that [OF o(1)] o(2) b e2 Some by (simp add: entry_ttl_def)
          qed
        qed
        have len2: "int (length (snd (fst base))) + 1 \<le> LLONG_MAX"
          using len sub(2) list_length_ll [OF ok(4,2)] ne by (auto simp: base_def ys_def in_ll_def)
        obtain s5 where s5: "rpoplpushHandlePush l c dst (v3 \<noteq> None) (tryObjectEncoding x) s3 = Some s5"
          "run c s s5 (ks_upd K1 i dst (Some (ListV (fst q) (snd q), snd base))) 0 (bulk x) (watchers s i dst)"
          "stored i dst s5 = Some (ListV (fst q) (snd q))" "\<forall>k. k \<noteq> dst \<longrightarrow> stored i k s5 = stored i k s3"
          using handle_push_run [OF r lim k sub(3) i i_def [symmetric] w3 v3(1,2,4) len2] unfolding q_def by blast
        have st: "stored i src s5 = Some (if src = dst then ListV (fst q) (snd q) else ListV z ys)"
        proof -
          have "stored i src s3 = Some (ListV z ys)" using m3(2) by (simp add: stored_def settled_def)
          then show ?thesis using s5(3,4) by (cases "src = dst") simp_all
        qed
        then obtain zz yy where zy: "stored i src s5 = Some (ListV zz yy)" "(yy = []) = (src \<noteq> dst \<and> ys = [])"
          by (cases "src = dst") (auto simp: q_def pushed_def)
        have K: "(if yy = [] then ks_upd (ks_upd K1 i dst e) i src None else ks_upd K1 i dst e)
            = ks_upd (ks_upd (live s) i src (list_entry (z, ys) t)) i dst e" for e
          using zy(2) by (cases "src = dst") (auto simp: K1_def list_entry_def ks_upd_twist)
        obtain s' where s': "rpop_end i src s5 = Some s'"
          "run c s s' (ks_upd (ks_upd (live s) i src (list_entry (z, ys) t)) i dst (Some (ListV (fst q) (snd q), snd base))) 1
             (bulk x) (watchers s i dst \<union> watchers s i src)"
          using rpop_end_run [OF s5(2) r ok(8) i zy(1)] unfolding K by auto
        have cmd: "rpoplpushCommand l c s = Some s'"
          unfolding unf if_False ty pop s3_def [symmetric]
          using s5(1) s'(1) v3(3) by (simp add: rpop_end_def)
        show ?thesis unfolding defs eff cmd using s'(2) by (simp add: Un_commute)
      qed
    qed
  qed
qed


subsection \<open>LSET and LINSERT\<close>

text \<open>Both may convert the list before they fail; the conversion is then neither signalled nor counted.\<close>

definition lset_effect :: "limits \<Rightarrow> 'z keyspace \<Rightarrow> nat \<Rightarrow> string \<Rightarrow> string \<Rightarrow> string \<Rightarrow> 'z keyspace \<times> int \<times> string" where
  "lset_effect l ks i k a x =
     (if ks i k = None then (ks, 0, shared_nokeyerr)
      else if \<not> is_list (ks i k) then (ks, 0, shared_wrongtypeerr)
      else case string_ll a of None \<Rightarrow> (ks, 0, int_error)
        | Some n \<Rightarrow> (case entry_list (ks i k) of (z, xs) \<Rightarrow>
            let z = (z \<and> small l x); put = (\<lambda>ys. ks_upd ks i k (Some (ListV z ys, entry_ttl (ks i k)))) in
            case (if z then ziplistIndex xs n else listIndex xs n) of
              None \<Rightarrow> (put xs, 0, shared_outofrangeerr)
            | Some j \<Rightarrow> (put (xs[j := x]), 1, shared_ok)))"

lemma converted_ok: "val_ok v \<Longrightarrow> v = ListV z xs \<Longrightarrow> val_ok (ListV (z \<and> b) xs)"
  by (auto split: if_splits)

lemma lset_run:
  fixes s :: "'z server"
  assumes r: "ready c s" and k: "arg_ok (arg c 3 s)"
  shows "\<exists>s'. lsetCommand l c s = Some s'
    \<and> (case lset_effect l (live s) (cdb (clients s c)) (arg c 1 s) (arg c 2 s) (arg c 3 s) of
         (K, n, x) \<Rightarrow> run c s s' K n x (if n = 0 then {} else watchers s (cdb (clients s c)) (arg c 1 s)))"
proof -
  define i key x where "i = cdb (clients s c)" and "key = arg c 1 s" and "x = arg c 3 s"
  note defs = i_def [symmetric] key_def [symmetric] x_def [symmetric]
  have i: "int i \<le> LLONG_MAX" unfolding i_def by (rule server_ok_cdb [OF readyD(1) [OF r]])
  obtain s1 v where l: "lookupKeyWriteOrReply c key shared_nokeyerr s = Some (s1, v)"
    "run c s s1 (live s) 0 (if v = None then shared_nokeyerr else []) {}" "settled s1 (cdb (clients s c)) key v"
    "live s (cdb (clients s c)) key = map_option (\<lambda>x. (oval x, expires (dbs s1 (cdb (clients s c))) key)) v"
    using writeOrReply_run [OF r] by blast
  note unf = lsetCommand_def Let_def defs l(1) Option.bind.simps prod.case lset_effect_def
  show ?thesis
    using l(2-4)
  proof (cases rule: found_list)
    case missing
    then show ?thesis unfolding unf by (simp add: defs)
  next
    case (wrong y t)
    then show ?thesis unfolding unf by (simp add: defs)
  next
    case (ok y z xs)
    note ok = ok [unfolded defs]
    note tail = end_reply [OF ok(6)] and rs = run_ready [OF ok(6) r]
    show ?thesis
    proof (cases "string_ll (arg c 2 s)")
      case None
      then show ?thesis using ok tail [of int_error] unfolding unf by (simp add: arg_ll_run(2) [OF rs])
    next
      case (Some n)
      define z1 where "z1 = (z \<and> small l x)"
      have vq: "val_ok (ListV z1 xs :: 'z oval)" unfolding z1_def by (rule converted_ok [OF ok(4,2)])
      note unf = unf ok(1) option.case ok(2) ok(5) if_False arg_ll_run(2) [OF rs] Some listTypeTryConversion_eq z1_def [symmetric] oval.case
      have e: "live s i key \<noteq> None" "is_list (live s i key)" "entry_list (live s i key) = (z, xs)" "entry_ttl (live s i key) = expires (dbs s1 i) key"
        using ok(3) by (simp_all add: entry_ttl_def)
      have eff: "lset_effect l (live s) i key (arg c 2 s) x = (case (if z1 then ziplistIndex xs n else listIndex xs n) of
              None \<Rightarrow> (ks_upd (live s) i key (Some (ListV z1 xs, expires (dbs s1 i) key)), 0, shared_outofrangeerr)
            | Some j \<Rightarrow> (ks_upd (live s) i key (Some (ListV z1 (xs[j := x]), expires (dbs s1 i) key)), 1, shared_ok))"
        unfolding z1_def using ok(3) by (simp add: lset_effect_def Some Let_def entry_ttl_def)
      show ?thesis
      proof (cases "if z1 then ziplistIndex xs n else listIndex xs n")
        case None
        show ?thesis
          unfolding defs eff None unfolding unf None
          using step_reply [OF step_modify(1) [OF ok(6) r ok(7) vq], of shared_outofrangeerr] by (simp add: addReply_push)
      next
        case j: (Some j)
        have ys: "set (xs[j := x]) \<subseteq> insert x (set xs)" "length (xs[j := x]) = length xs" by (simp_all add: set_update_subset_insert)
        then have vy: "val_ok (ListV z1 (xs[j := x]) :: 'z oval)" using vq k by (auto simp: defs)
        note a1 = step_reply [OF step_modify(1) [OF ok(6) r ok(7) vy], of shared_ok]
        note a2 = step_signal(1) [OF a1 r, of i key]
        have ev: "length ''lset'' \<le> 100" by simp
        note a3 = step_dirty [OF step_note(2) [OF a2 r ok(8) i ev, of NOTIFY_LIST], of 1]
        show ?thesis
          unfolding defs eff j unfolding unf j
          using a3 by (simp add: addReply_push run_notify [OF ok(6) r ok(8) i])
      qed
    qed
  qed
qed

definition linsert_effect :: "limits \<Rightarrow> list_end \<Rightarrow> 'z keyspace \<Rightarrow> nat \<Rightarrow> string \<Rightarrow> string \<Rightarrow> string \<Rightarrow> 'z keyspace \<times> int \<times> string" where
  "linsert_effect l w ks i k pivot x =
     (if ks i k = None then (ks, 0, shared_czero)
      else if \<not> is_list (ks i k) then (ks, 0, shared_wrongtypeerr)
      else case entry_list (ks i k) of (z, xs) \<Rightarrow>
        let z = (z \<and> small l x); put = (\<lambda>z ys. ks_upd ks i k (Some (ListV z ys, entry_ttl (ks i k)))) in
        case index_of pivot xs of
          None \<Rightarrow> (put z xs, 0, shared_cnegone)
        | Some n \<Rightarrow> let ys = listTypeInsert n x w xs in
            (put (z \<and> length ys \<le> list_max_ziplist_entries l) ys, 1, int_reply (int (length ys))))"

lemma inserted: "n < length xs \<Longrightarrow> set (listTypeInsert n x w xs) = insert x (set xs) \<and> length (listTypeInsert n x w xs) = length xs + 1"
proof -
  assume "n < length xs"
  have "set (take m xs @ x # drop m xs) = insert x (set xs)" for m by (metis Un_insert_right append_take_drop_id list.simps(15) set_append)
  then show ?thesis using \<open>n < length xs\<close> by (simp add: listTypeInsert_def Let_def One_nat_def)
qed

lemma linsert_run:
  fixes s :: "'z server"
  assumes r: "ready c s" and lim: "limits_ok l" and k: "arg_ok pivot" "arg_ok x"
      "int (length (snd (entry_list (live s (cdb (clients s c)) (arg c 1 s))))) + 1 \<le> LLONG_MAX"
  shows "\<exists>s'. pushxGenericCommand l c (Some (StrRaw pivot)) (tryObjectEncoding x) w1 s = Some s'
    \<and> (case linsert_effect l w1 (live s) (cdb (clients s c)) (arg c 1 s) pivot x of
         (K, n, x) \<Rightarrow> run c s s' K n x (if n = 0 then {} else watchers s (cdb (clients s c)) (arg c 1 s)))"
proof -
  define i key where "i = cdb (clients s c)" and "key = arg c 1 s"
  note defs = i_def [symmetric] key_def [symmetric]
  have i: "int i \<le> LLONG_MAX" unfolding i_def by (rule server_ok_cdb [OF readyD(1) [OF r]])
  obtain s1 v where l: "lookupKeyReadOrReply c key shared_czero s = Some (s1, v)"
    "run c s s1 (live s) 0 (if v = None then shared_czero else []) {}" "settled s1 (cdb (clients s c)) key v"
    "live s (cdb (clients s c)) key = map_option (\<lambda>x. (oval x, expires (dbs s1 (cdb (clients s c))) key)) v"
    using read_list [OF r] by blast
  note unf = pushxGenericCommand_def Let_def defs l(1) Option.bind.simps prod.case linsert_effect_def
  show ?thesis
    using l(2-4)
  proof (cases rule: found_list)
    case missing
    then show ?thesis unfolding unf by (simp add: defs)
  next
    case (wrong y t)
    then show ?thesis unfolding unf by (simp add: defs)
  next
    case (ok y z xs)
    note ok = ok [unfolded defs]
    define z1 where "z1 = (z \<and> small l x)"
    have vq: "val_ok (ListV z1 xs :: 'z oval)" unfolding z1_def by (rule converted_ok [OF ok(4,2)])
    have xs: "\<forall>x \<in> set xs. arg_ok x" using list_elements [OF ok(4,2)] by blast
    note unf = unf ok(1) option.case ok(2) ok(5) if_False listTypeTryConversion_eq z1_def [symmetric] oval.case find_equal_eq [OF xs k(1)] decoded_encoding
    have e: "live s i key \<noteq> None" "is_list (live s i key)" "entry_list (live s i key) = (z, xs)" "entry_ttl (live s i key) = expires (dbs s1 i) key"
      using ok(3) by (simp_all add: entry_ttl_def)
    show ?thesis
    proof (cases "index_of pivot xs")
      case None
      have eff: "linsert_effect l w1 (live s) i key pivot x = (ks_upd (live s) i key (Some (ListV z1 xs, expires (dbs s1 i) key)), 0, shared_cnegone)"
        using ok(3) by (simp add: linsert_effect_def None Let_def entry_ttl_def z1_def)
      show ?thesis
        unfolding defs eff unfolding unf None
        using step_reply [OF step_modify(1) [OF ok(6) r ok(7) vq], of shared_cnegone] by (simp add: addReply_push)
    next
      case (Some n)
      define ys where "ys = listTypeInsert n x w1 xs"
      define z2 where "z2 = (z1 \<and> length ys \<le> list_max_ziplist_entries l)"
      have ys: "set ys = insert x (set xs)" "length ys = length xs + 1"
        using inserted index_of_less [OF Some] by (auto simp: ys_def)
      have vy: "val_ok (ListV z2 ys :: 'z oval)"
        using xs k ys lim e(3) by (auto simp: defs z2_def limits_ok_def)
      note len = list_length_ll [OF vy refl]
      have eff: "linsert_effect l w1 (live s) i key pivot x = (ks_upd (live s) i key (Some (ListV z2 ys, expires (dbs s1 i) key)), 1, int_reply (int (length ys)))"
        using ok(3) by (simp add: linsert_effect_def Some Let_def z2_def entry_ttl_def z1_def flip: ys_def)
      note a2 = step_signal(1) [OF step_modify(1) [OF ok(6) r ok(7) vy] r, of i key]
      have ev: "length ''linsert'' \<le> 100" by simp
      note a3 = step_reply [OF step_dirty [OF step_note(2) [OF a2 r ok(8) i ev, of NOTIFY_LIST], of 1], of "int_reply (int (length ys))"]
      have nz: "(z1 \<and> \<not> length ys > list_max_ziplist_entries l) = z2" by (simp add: z2_def not_less)
      show ?thesis
        unfolding defs eff unfolding unf Some ys_def [symmetric] nz longlong_push [OF len]
        using a3 by (simp add: run_notify [OF ok(6) r ok(8) i])
    qed
  qed
qed

end
