(* ===== verification/Multi.thy ===== *)
theory Multi
  imports Command_Table Bitops T_List
begin

text \<open>
  From a command line to its effects: the dispatch of \<open>processCommand\<close>, \<open>call\<close> with the propagation to the
  append only file and the slaves (\<open>redis.c\<close>), and transactions (the first half of \<open>multi.c\<close>).
  The feeding of monitors, the slow log and the statistics are left out.
\<close>

subsection \<open>Configuration\<close>

text \<open>
  What \<open>processCommand\<close> reads besides the state: the commands, as renamed by the configuration, and the fields of
  \<open>server\<close> that the guards test. \<open>pick\<close> and \<open>rounds\<close> are the draws of random keys and a bound on them;
  \<open>address\<close> tells where the bytes of a string lie in memory. Handlers
  that are not modelled, the eviction of keys and the service of blocked clients are parameters.
\<close>

record 'z conf =
  commands :: "command list"
  pick :: "nat \<Rightarrow> string set \<Rightarrow> string"
  rounds :: nat
  address :: "string \<Rightarrow> nat"
  other_proc :: "string \<Rightarrow> nat \<Rightarrow> 'z server \<Rightarrow> 'z server option"
  freeMemoryIfNeeded :: "'z server \<Rightarrow> ('z server \<times> bool) option"
  handleClientsBlockedOnLists :: "'z server \<Rightarrow> 'z server option"
  requirepass :: bool
  authenticated :: "nat \<Rightarrow> bool"
  maxmemory :: nat
  stop_writes_on_bgsave_err :: bool
  saveparamslen :: nat
  lastbgsave_ok :: bool
  aof_last_write_error :: "string option"
  repl_min_slaves_to_write :: nat
  repl_min_slaves_max_lag :: nat
  repl_good_slaves_count :: nat
  repl_slave_ro :: bool
  repl_connected :: bool
  repl_serve_stale_data :: bool
  lua_timedout :: bool

definition shared_noautherr :: string where "shared_noautherr = ''-NOAUTH Authentication required.'' @ CRLF"
definition shared_oomerr :: string where
  "shared_oomerr = ''-OOM command not allowed when used memory > '' @ [CHR 0x27] @ ''maxmemory'' @ [CHR 0x27] @ ''.'' @ CRLF"
definition shared_bgsaveerr :: string where
  "shared_bgsaveerr = ''-MISCONF Redis is configured to save RDB snapshots, but is currently not able to persist on disk. Commands that may modify the data set are disabled. Please check Redis logs for details about the error.'' @ CRLF"
definition shared_noreplicaserr :: string where
  "shared_noreplicaserr = ''-NOREPLICAS Not enough good slaves to write.'' @ CRLF"
definition shared_roslaveerr :: string where
  "shared_roslaveerr = ''-READONLY You can'' @ [CHR 0x27] @ ''t write against a read only slave.'' @ CRLF"
definition shared_masterdownerr :: string where
  "shared_masterdownerr = ''-MASTERDOWN Link with MASTER is down and slave-serve-stale-data is set to '' @ [CHR 0x27] @ ''no'' @ [CHR 0x27] @ ''.'' @ CRLF"
definition shared_loadingerr :: string where
  "shared_loadingerr = ''-LOADING Redis is loading the dataset in memory'' @ CRLF"
definition shared_slowscripterr :: string where
  "shared_slowscripterr = ''-BUSY Redis is busy running a script. You can only call SCRIPT KILL or SHUTDOWN NOSAVE.'' @ CRLF"

subsection \<open>Handlers\<close>

text \<open>The handlers that neither run other commands nor end a transaction, by the name of the C function.\<close>

definition plain_procs :: "'z conf \<Rightarrow> (string \<times> (nat \<Rightarrow> 'z server \<Rightarrow> 'z server option)) list" where
  "plain_procs e = [
     (''getCommand'', getCommand), (''setCommand'', setCommand), (''setnxCommand'', setnxCommand),
     (''setexCommand'', setexCommand), (''psetexCommand'', psetexCommand), (''appendCommand'', appendCommand),
     (''strlenCommand'', strlenCommand), (''delCommand'', delCommand), (''existsCommand'', existsCommand),
     (''setrangeCommand'', setrangeCommand), (''getrangeCommand'', getrangeCommand), (''incrCommand'', incrCommand),
     (''decrCommand'', decrCommand), (''mgetCommand'', mgetCommand), (''incrbyCommand'', incrbyCommand),
     (''decrbyCommand'', decrbyCommand), (''getsetCommand'', getsetCommand), (''msetCommand'', msetCommand),
     (''msetnxCommand'', msetnxCommand), (''randomkeyCommand'', randomkeyCommand (pick e) (rounds e)),
     (''selectCommand'', selectCommand), (''moveCommand'', moveCommand), (''renameCommand'', renameCommand),
     (''renamenxCommand'', renamenxCommand), (''expireCommand'', expireCommand), (''expireatCommand'', expireatCommand),
     (''pexpireCommand'', pexpireCommand), (''pexpireatCommand'', pexpireatCommand), (''keysCommand'', keysCommand),
     (''dbsizeCommand'', \<lambda>c s. Some (dbsizeCommand c s)), (''pingCommand'', pingCommand), (''echoCommand'', echoCommand),
     (''typeCommand'', typeCommand), (''flushdbCommand'', \<lambda>c s. Some (flushdbCommand c s)),
     (''flushallCommand'', \<lambda>c s. Some (flushallCommand c s)), (''ttlCommand'', ttlCommand), (''pttlCommand'', pttlCommand),
     (''persistCommand'', persistCommand), (''subscribeCommand'', subscribeCommand),
     (''unsubscribeCommand'', unsubscribeCommand), (''psubscribeCommand'', psubscribeCommand),
     (''punsubscribeCommand'', punsubscribeCommand), (''publishCommand'', publishCommand),
     (''pubsubCommand'', pubsubCommand), (''watchCommand'', \<lambda>c s. Some (watchCommand c s)),
     (''unwatchCommand'', unwatchCommand), (''setbitCommand'', setbitCommand), (''getbitCommand'', getbitCommand),
     (''bitcountCommand'', bitcountCommand (address e)), (''bitposCommand'', bitposCommand (address e)),
     (''bitopCommand'', bitopCommand),
     (''lpushCommand'', \<lambda>c s. lpushCommand (limits s) c s), (''rpushCommand'', \<lambda>c s. rpushCommand (limits s) c s),
     (''lpushxCommand'', \<lambda>c s. lpushxCommand (limits s) c s), (''rpushxCommand'', \<lambda>c s. rpushxCommand (limits s) c s),
     (''linsertCommand'', \<lambda>c s. linsertCommand (limits s) c s), (''lsetCommand'', \<lambda>c s. lsetCommand (limits s) c s),
     (''rpoplpushCommand'', \<lambda>c s. rpoplpushCommand (limits s) c s), (''llenCommand'', llenCommand), (''lindexCommand'', lindexCommand),
     (''lrangeCommand'', lrangeCommand), (''lpopCommand'', lpopCommand), (''rpopCommand'', rpopCommand), (''ltrimCommand'', ltrimCommand),
     (''lremCommand'', lremCommand), (''commandCommand'', \<lambda>c s. Some (commandCommand (commands e) c s))]"

definition plain_proc :: "'z conf \<Rightarrow> string \<Rightarrow> nat \<Rightarrow> 'z server \<Rightarrow> 'z server option" where
  "plain_proc e p = (case map_of (plain_procs e) p of Some f \<Rightarrow> f | None \<Rightarrow> other_proc e p)"

subsection \<open>Propagation and calls\<close>

definition propagate :: "nat \<Rightarrow> string list \<Rightarrow> bool \<Rightarrow> bool \<Rightarrow> 'z server \<Rightarrow> 'z server" where
  "propagate dbid args aof repl s =
     (let s1 = (if aof_on s \<and> aof then feedAppendOnlyFile dbid args s else s)
      in if repl then replicationFeedSlaves dbid args s1 else s1)"

text \<open>
  \<open>call\<close> around a handler: the change of the dirty counter or the forced flags decide on the propagation, of the
  arguments as the handler left them.
\<close>

definition call :: "(nat \<Rightarrow> 'z server \<Rightarrow> 'z server option) \<Rightarrow> nat \<Rightarrow> 'z server \<Rightarrow> 'z server option" where
  "call f c s =
     (let old = clients s c;
          s1 = upd_client c (\<lambda>cl. cl\<lparr>force_aof := False, force_repl := False\<rparr>) s
      in do {
        s2 \<leftarrow> f c s1;
        let cl = clients s2 c; changed = dirty s2 - dirty s1 > 0;
            repl = (force_repl cl \<or> changed); aof = (force_aof cl \<or> changed);
            s3 = (if repl \<or> aof then propagate (cdb cl) (argv cl) aof repl s2 else s2) in
        Some (upd_client c (\<lambda>cl. cl\<lparr>force_aof := force_aof old, force_repl := force_repl old\<rparr>) s3) })"

subsection \<open>Transactions\<close>

definition queueMultiCommand :: "nat \<Rightarrow> 'z server \<Rightarrow> 'z server" where
  "queueMultiCommand c s = upd_client c (\<lambda>cl. cl\<lparr>mstate := mstate cl @ [argv cl]\<rparr>) s"

definition discardTransaction :: "nat \<Rightarrow> 'z server \<Rightarrow> 'z server option" where
  "discardTransaction c s =
     unwatchAllKeys c (upd_client c (\<lambda>cl. cl\<lparr>mstate := [], multi := False, dirty_cas := False, dirty_exec := False\<rparr>) s)"

definition flagTransaction :: "nat \<Rightarrow> 'z server \<Rightarrow> 'z server" where
  "flagTransaction c s = (if multi (clients s c) then upd_client c (\<lambda>cl. cl\<lparr>dirty_exec := True\<rparr>) s else s)"

definition multiCommand :: "nat \<Rightarrow> 'z server \<Rightarrow> 'z server" where
  "multiCommand c s =
     (if multi (clients s c) then addReplyError c ''MULTI calls can not be nested'' s
      else addReply c shared_ok (upd_client c (\<lambda>cl. cl\<lparr>multi := True\<rparr>) s))"

definition discardCommand :: "nat \<Rightarrow> 'z server \<Rightarrow> 'z server option" where
  "discardCommand c s =
     (if \<not> multi (clients s c) then Some (addReplyError c ''DISCARD without MULTI'' s)
      else do { s1 \<leftarrow> discardTransaction c s; Some (addReply c shared_ok s1) })"

definition execCommandPropagateMulti :: "nat \<Rightarrow> 'z server \<Rightarrow> 'z server" where
  "execCommandPropagateMulti c s = propagate (cdb (clients s c)) [''MULTI''] True True s"

text \<open>
  The loop over the queue. A queued command is named by its first argument; the table is the one that
  was in force when it was queued. The flag tells whether \<open>MULTI\<close> has been propagated.
\<close>

fun exec_loop :: "'z conf \<Rightarrow> nat \<Rightarrow> string list list \<Rightarrow> bool \<Rightarrow> 'z server \<Rightarrow> ('z server \<times> bool) option" where
  "exec_loop e c [] must_propagate s = Some (s, must_propagate)"
| "exec_loop e c (args # queue) must_propagate s = do {
     x \<leftarrow> lookupCommand (commands e) (args ! 0);
     let s1 = upd_client c (\<lambda>cl. cl\<lparr>argv := args\<rparr>) s;
         first = (\<not> must_propagate \<and> \<not> has_flag x REDIS_CMD_READONLY);
         s2 = (if first then execCommandPropagateMulti c s1 else s1) in do {
       s3 \<leftarrow> call (plain_proc e (proc x)) c s2;
       exec_loop e c queue (must_propagate \<or> first) s3 } }"

definition execCommand :: "'z conf \<Rightarrow> nat \<Rightarrow> 'z server \<Rightarrow> 'z server option" where
  "execCommand e c s =
     (let cl = clients s c in
      if \<not> multi cl then Some (addReplyError c ''EXEC without MULTI'' s)
      else if dirty_cas cl \<or> dirty_exec cl then
        discardTransaction c (addReply c (if dirty_exec cl then shared_execaborterr else shared_nullmultibulk) s)
      else do {
        s1 \<leftarrow> unwatchAllKeys c s;
        (s2, must_propagate) \<leftarrow> exec_loop e c (mstate cl) False
           (addReplyMultiBulkLen c (int (length (mstate cl))) s1);
        s3 \<leftarrow> discardTransaction c (upd_client c (\<lambda>cl'. cl'\<lparr>argv := argv cl\<rparr>) s2);
        Some (if must_propagate then add_dirty 1 s3 else s3) })"

definition run_proc :: "'z conf \<Rightarrow> string \<Rightarrow> nat \<Rightarrow> 'z server \<Rightarrow> 'z server option" where
  "run_proc e p c s =
     (if p = ''execCommand'' then execCommand e c s
      else if p = ''multiCommand'' then Some (multiCommand c s)
      else if p = ''discardCommand'' then discardCommand c s
      else plain_proc e p c s)"

subsection \<open>The dispatch\<close>

definition quoted :: "string \<Rightarrow> string" where
  "quoted x = [CHR 0x27] @ x @ [CHR 0x27]"

definition refuse :: "nat \<Rightarrow> string \<Rightarrow> 'z server \<Rightarrow> 'z server" where
  "refuse c x s = addReply c x (flagTransaction c s)"

definition wrong_arity :: "command \<Rightarrow> nat \<Rightarrow> bool" where
  "wrong_arity x n \<longleftrightarrow> (arity x > 0 \<and> arity x \<noteq> int n) \<or> int n < - arity x"

text \<open>The guards on the state of the server, in the order of the code: what a refused command is answered.\<close>

definition disk_error :: "'z conf \<Rightarrow> command \<Rightarrow> 'z server \<Rightarrow> string option" where
  "disk_error e x s =
     (if ((stop_writes_on_bgsave_err e \<and> saveparamslen e > 0 \<and> \<not> lastbgsave_ok e) \<or> aof_last_write_error e \<noteq> None)
         \<and> \<not> is_slave s \<and> (has_flag x REDIS_CMD_WRITE \<or> proc x = ''pingCommand'')
      then Some (case aof_last_write_error e of None \<Rightarrow> shared_bgsaveerr
             | Some err \<Rightarrow> ''-MISCONF Errors writing to the AOF file: '' @ err @ CRLF)
      else None)"

definition pubsub_procs :: "string list" where
  "pubsub_procs = [''pingCommand'', ''subscribeCommand'', ''unsubscribeCommand'', ''psubscribeCommand'', ''punsubscribeCommand'']"

definition script_exempt :: "command \<Rightarrow> string list \<Rightarrow> bool" where
  "script_exempt x args \<longleftrightarrow> proc x = ''authCommand'' \<or> proc x = ''replconfCommand''
     \<or> (proc x = ''shutdownCommand'' \<and> length args = 2 \<and> ctolower_chr ((args ! 1 @ [NUL]) ! 0) = ctolower_chr CHR ''n'')
     \<or> (proc x = ''scriptCommand'' \<and> length args = 2 \<and> ctolower_chr ((args ! 1 @ [NUL]) ! 0) = ctolower_chr CHR ''k'')"

text \<open>The guards after the one on memory.\<close>

definition guards :: "'z conf \<Rightarrow> command \<Rightarrow> nat \<Rightarrow> 'z server \<Rightarrow> 'z server option" where
  "guards e x c s =
     (let cl = clients s c in
      if disk_error e x s \<noteq> None then map_option (\<lambda>err. refuse c err s) (disk_error e x s)
      else if \<not> is_slave s \<and> repl_min_slaves_to_write e > 0 \<and> repl_min_slaves_max_lag e > 0
          \<and> has_flag x REDIS_CMD_WRITE \<and> repl_good_slaves_count e < repl_min_slaves_to_write e
        then Some (refuse c shared_noreplicaserr s)
      else if is_slave s \<and> repl_slave_ro e \<and> \<not> master_link cl \<and> has_flag x REDIS_CMD_WRITE
        then Some (addReply c shared_roslaveerr s)
      else if pubsub_flag cl \<and> proc x \<notin> set pubsub_procs
        then Some (addReplyError c ''only (P)SUBSCRIBE / (P)UNSUBSCRIBE / QUIT allowed in this context'' s)
      else if is_slave s \<and> \<not> repl_connected e \<and> \<not> repl_serve_stale_data e \<and> \<not> has_flag x REDIS_CMD_STALE
        then Some (refuse c shared_masterdownerr s)
      else if loading s \<and> \<not> has_flag x REDIS_CMD_LOADING
        then Some (addReply c shared_loadingerr s)
      else if lua_timedout e \<and> \<not> script_exempt x (argv cl)
        then Some (refuse c shared_slowscripterr s)
      else None)"

definition queued_procs :: "string list" where
  "queued_procs = [''execCommand'', ''discardCommand'', ''multiCommand'', ''watchCommand'']"

definition dispatch :: "'z conf \<Rightarrow> command \<Rightarrow> nat \<Rightarrow> 'z server \<Rightarrow> 'z server option" where
  "dispatch e x c s =
     (case guards e x c s of
        Some s' \<Rightarrow> Some s'
      | None \<Rightarrow>
          if multi (clients s c) \<and> proc x \<notin> set queued_procs
          then Some (addReply c shared_queued (queueMultiCommand c s))
          else do {
            s1 \<leftarrow> call (run_proc e (proc x)) c s;
            if srv_ready_keys s1 \<noteq> [] then handleClientsBlockedOnLists e s1 else Some s1 })"

definition processCommand :: "'z conf \<Rightarrow> nat \<Rightarrow> 'z server \<Rightarrow> 'z server option" where
  "processCommand e c s =
     (let args = argv (clients s c) in
      if strcaseeq (args ! 0) ''quit'' then
        Some (upd_client c (\<lambda>cl. cl\<lparr>close_after_reply := True\<rparr>) (addReply c shared_ok s))
      else case lookupCommand (commands e) (args ! 0) of
        None \<Rightarrow> Some (addReplyErrorFormat c (''unknown command '' @ quoted (cstr (args ! 0))) (flagTransaction c s))
      | Some x \<Rightarrow>
          if wrong_arity x (length args) then
            Some (addReplyErrorFormat c (''wrong number of arguments for '' @ quoted (cmd_name x) @ '' command'') (flagTransaction c s))
          else if requirepass e \<and> \<not> authenticated e c \<and> proc x \<noteq> ''authCommand'' then
            Some (refuse c shared_noautherr s)
          else if maxmemory e \<noteq> 0 then do {
            (s1, ok) \<leftarrow> freeMemoryIfNeeded e s;
            if has_flag x REDIS_CMD_DENYOOM \<and> \<not> ok then Some (refuse c shared_oomerr s1)
            else dispatch e x c s1 }
          else dispatch e x c s)"

text \<open>A request of client \<open>c\<close>: its arguments are read, and the command is processed.\<close>

definition request :: "'z conf \<Rightarrow> nat \<times> string list \<Rightarrow> 'z server \<Rightarrow> 'z server option" where
  "request e r s = (case r of (c, args) \<Rightarrow> processCommand e c (upd_client c (\<lambda>cl. cl\<lparr>argv := args\<rparr>) s))"

fun requests :: "'z conf \<Rightarrow> (nat \<times> string list) list \<Rightarrow> 'z server \<Rightarrow> 'z server option" where
  "requests e [] s = Some s"
| "requests e (r # rs) s = do { s1 \<leftarrow> request e r s; requests e rs s1 }"

end
