(* ===== verification/Kv_Spec.thy ===== *)
theory Kv_Spec
  imports Watch_Correct Bit_Commands List_Commands Multi
begin

unbundle bit_operations_syntax

declare One_nat_def [simp del]

text \<open>
  An abstract key-value store. The effect of a command is a function of the keyspace a client sees: the new
  keyspace, the number of changes, the reply, and the keys reported as modified. The theorem of the theory says
  that the handlers implement it.
\<close>

type_synonym 'z effect = "'z keyspace \<times> int \<times> string \<times> string set"

text \<open>The clock, the flag of a server that loads its data, and the limits of its configuration.\<close>

record timing =
  clock :: int
  load :: bool
  lims :: limits

definition timing_of :: "'z server \<Rightarrow> timing" where
  "timing_of s = \<lparr>clock = now s, load = loading s, lims = limits s\<rparr>"

definition on_key :: "string \<Rightarrow> 'z keyspace \<times> int \<times> string \<Rightarrow> 'z effect" where
  "on_key k e = (case e of (K, n, x) \<Rightarrow> (K, n, x, if n = 0 then {} else {k}))"

definition reading :: "'z keyspace \<Rightarrow> string \<Rightarrow> 'z effect" where
  "reading ks x = (ks, 0, x, {})"

definition set_spec :: "string \<Rightarrow> string \<Rightarrow> string \<Rightarrow> set_flags \<Rightarrow> string option \<Rightarrow> bool \<Rightarrow> string \<Rightarrow> string
    \<Rightarrow> timing \<Rightarrow> nat \<Rightarrow> 'z keyspace \<Rightarrow> 'z effect" where
  "set_spec nm k v fl expire seconds okr abr t i ks =
     on_key k (set_effect ks i k (tryObjectEncoding v) fl (expire_request (clock t) nm expire seconds) okr abr)"

definition nx_flags :: set_flags where "nx_flags = no_flags\<lparr>set_nx := True\<rparr>"

text \<open>The arguments of a command, the name of the command included.\<close>

type_synonym 'z spec = "string list \<Rightarrow> timing \<Rightarrow> nat \<Rightarrow> 'z keyspace \<Rightarrow> 'z effect"

definition expire_spec :: "(int \<Rightarrow> int) \<Rightarrow> bool \<Rightarrow> 'z spec" where
  "expire_spec base seconds a t i ks =
     on_key (a ! 1) (expire_effect ks i (a ! 1) (time_over (clock t) (load t)) (expire_at (base (clock t)) seconds) (a ! 2))"

definition mset_spec :: "bool \<Rightarrow> 'z spec" where
  "mset_spec nx a t i ks = (case mset_effect ks i nx (tl a) of
     (K, n, x) \<Rightarrow> (K, n, x, if n = 0 then {} else fst ` set (arg_pairs (tl a))))"

definition rename_spec :: "bool \<Rightarrow> 'z spec" where
  "rename_spec nx a t i ks = (case rename_effect ks i nx (a ! 1) (a ! 2) of
     (K, n, x) \<Rightarrow> (K, n, x, if n = 0 then {} else {a ! 1, a ! 2}))"

definition rpoplpush_spec :: "'z spec" where
  "rpoplpush_spec a t i ks = (case rpoplpush_effect (lims t) ks i (a ! 1) (a ! 2) of
     (K, n, x) \<Rightarrow> (K, n, x, if n = 0 then {} else {a ! 1, a ! 2}))"

definition kv_specs :: "(string \<times> 'z spec) list" where
  "kv_specs = [
     (''getCommand'', \<lambda>a t i ks. reading ks (get_reply (ks i (a ! 1)))),
     (''setCommand'', \<lambda>a t i ks. case set_options (drop 3 a) no_flags None True of
        None \<Rightarrow> reading ks shared_syntaxerr
      | Some (fl, expire, seconds) \<Rightarrow> set_spec ''set'' (a ! 1) (a ! 2) fl expire seconds shared_ok shared_nullbulk t i ks),
     (''setnxCommand'', \<lambda>a. set_spec ''setnx'' (a ! 1) (a ! 2) nx_flags None True shared_cone shared_czero),
     (''setexCommand'', \<lambda>a. set_spec ''setex'' (a ! 1) (a ! 3) no_flags (Some (a ! 2)) True shared_ok shared_nullbulk),
     (''psetexCommand'', \<lambda>a. set_spec ''psetex'' (a ! 1) (a ! 3) no_flags (Some (a ! 2)) False shared_ok shared_nullbulk),
     (''appendCommand'', \<lambda>a t i ks. on_key (a ! 1) (append_effect ks i (a ! 1) (a ! 2))),
     (''strlenCommand'', \<lambda>a t i ks. reading ks (case ks i (a ! 1) of None \<Rightarrow> int_reply 0
        | Some (v, t) \<Rightarrow> if otype v = REDIS_STRING then int_reply (int (length (str_val v))) else shared_wrongtypeerr)),
     (''delCommand'', \<lambda>a t i ks. case del_effect ks i (drop 1 a) of (K, n, x) \<Rightarrow> (K, n, x, present ks i (drop 1 a))),
     (''existsCommand'', \<lambda>a t i ks. reading ks (int_reply (if ks i (a ! 1) = None then 0 else 1))),
     (''setrangeCommand'', \<lambda>a t i ks. on_key (a ! 1) (setrange_effect ks i (a ! 1) (a ! 2) (a ! 3))),
     (''getrangeCommand'', \<lambda>a t i ks. reading ks (getrange_reply (ks i (a ! 1)) (a ! 2) (a ! 3))),
     (''incrCommand'', \<lambda>a t i ks. on_key (a ! 1) (incr_effect ks i (a ! 1) 1)),
     (''decrCommand'', \<lambda>a t i ks. on_key (a ! 1) (incr_effect ks i (a ! 1) (-1))),
     (''mgetCommand'', \<lambda>a t i ks. reading ks (''*'' @ show_int (int (length a) - 1) @ CRLF
        @ concat (map (\<lambda>k. mget_item (ks i k)) (drop 1 a)))),
     (''incrbyCommand'', \<lambda>a t i ks. on_key (a ! 1) (incrby_effect ks i (a ! 1) id (a ! 2))),
     (''decrbyCommand'', \<lambda>a t i ks. on_key (a ! 1) (incrby_effect ks i (a ! 1) uminus (a ! 2))),
     (''getsetCommand'', \<lambda>a t i ks. on_key (a ! 1) (getset_effect ks i (a ! 1) (a ! 2))),
     (''msetCommand'', mset_spec False),
     (''msetnxCommand'', mset_spec True),
     (''renameCommand'', rename_spec False),
     (''renamenxCommand'', rename_spec True),
     (''expireCommand'', expire_spec id True),
     (''expireatCommand'', expire_spec (\<lambda>t. 0) True),
     (''pexpireCommand'', expire_spec id False),
     (''pexpireatCommand'', expire_spec (\<lambda>t. 0) False),
     (''typeCommand'', \<lambda>a t i ks. reading ks (''+'' @ (case ks i (a ! 1) of None \<Rightarrow> ''none''
        | Some (v, t) \<Rightarrow> type_name (otype v)) @ CRLF)),
     (''ttlCommand'', \<lambda>a t i ks. reading ks (ttl_reply (clock t) False (ks i (a ! 1)))),
     (''pttlCommand'', \<lambda>a t i ks. reading ks (ttl_reply (clock t) True (ks i (a ! 1)))),
     (''setbitCommand'', \<lambda>a t i ks. on_key (a ! 1) (setbit_effect ks i (a ! 1) (a ! 2) (a ! 3))),
     (''getbitCommand'', \<lambda>a t i ks. reading ks (getbit_reply (ks i (a ! 1)) (a ! 2))),
     (''bitcountCommand'', \<lambda>a t i ks. reading ks (bitcount_reply (ks i (a ! 1)) a)),
     (''bitposCommand'', \<lambda>a t i ks. reading ks (bitpos_reply (ks i (a ! 1)) a)),
     (''lpushCommand'', \<lambda>a t i ks. on_key (a ! 1) (push_effect (lims t) REDIS_HEAD ks i (a ! 1) (drop 2 a))),
     (''rpushCommand'', \<lambda>a t i ks. on_key (a ! 1) (push_effect (lims t) REDIS_TAIL ks i (a ! 1) (drop 2 a))),
     (''lpushxCommand'', \<lambda>a t i ks. on_key (a ! 1) (pushx_effect (lims t) REDIS_HEAD ks i (a ! 1) (a ! 2))),
     (''rpushxCommand'', \<lambda>a t i ks. on_key (a ! 1) (pushx_effect (lims t) REDIS_TAIL ks i (a ! 1) (a ! 2))),
     (''llenCommand'', \<lambda>a t i ks. reading ks (llen_reply (ks i (a ! 1)))),
     (''lindexCommand'', \<lambda>a t i ks. reading ks (lindex_reply (ks i (a ! 1)) (a ! 2))),
     (''lrangeCommand'', \<lambda>a t i ks. reading ks (lrange_reply (ks i (a ! 1)) (a ! 2) (a ! 3))),
     (''lpopCommand'', \<lambda>a t i ks. on_key (a ! 1) (pop_effect REDIS_HEAD ks i (a ! 1))),
     (''rpopCommand'', \<lambda>a t i ks. on_key (a ! 1) (pop_effect REDIS_TAIL ks i (a ! 1))),
     (''ltrimCommand'', \<lambda>a t i ks. on_key (a ! 1) (ltrim_effect ks i (a ! 1) (a ! 2) (a ! 3))),
     (''lremCommand'', \<lambda>a t i ks. on_key (a ! 1) (lrem_effect ks i (a ! 1) (a ! 2) (a ! 3))),
     (''rpoplpushCommand'', rpoplpush_spec)]"

text \<open>
  The conditions under which the arithmetic of the code is that of the integers, for the commands that compute
  with an argument; the other commands have none. A list has less than \<open>2 ^ 63\<close> elements, and \<open>LREM\<close> expects a list that is
  not empty, as all lists of a server are that no old dump has brought in.
\<close>

definition expire_arith :: "(int \<Rightarrow> int) \<Rightarrow> bool \<Rightarrow> string list \<Rightarrow> timing \<Rightarrow> bool" where
  "expire_arith base seconds a t \<longleftrightarrow> expire_fits (base (clock t)) seconds (a ! 2)"

definition room :: "('z oval \<times> int option) option \<Rightarrow> nat \<Rightarrow> bool" where
  "room e n \<longleftrightarrow> int (length (snd (entry_list e))) + int n \<le> LLONG_MAX"

definition kv_arith :: "string \<Rightarrow> string list \<Rightarrow> timing \<Rightarrow> (string \<Rightarrow> ('z oval \<times> int option) option) \<Rightarrow> bool" where
  "kv_arith p a t e \<longleftrightarrow>
     (if p = ''setCommand'' then (case set_options (drop 3 a) no_flags None True of None \<Rightarrow> True
         | Some (fl, expire, seconds) \<Rightarrow> no_overflow (clock t) expire seconds)
      else if p = ''setexCommand'' then no_overflow (clock t) (Some (a ! 2)) True
      else if p = ''psetexCommand'' then no_overflow (clock t) (Some (a ! 2)) False
      else if p = ''setrangeCommand'' then setrange_fits (a ! 2) (a ! 3)
      else if p = ''decrbyCommand'' then string_ll (a ! 2) \<noteq> Some LLONG_MIN
      else if p = ''expireCommand'' then expire_arith id True a t
      else if p = ''expireatCommand'' then expire_arith (\<lambda>t. 0) True a t
      else if p = ''pexpireCommand'' then expire_arith id False a t
      else if p = ''pexpireatCommand'' then expire_arith (\<lambda>t. 0) False a t
      else if p = ''ttlCommand'' \<or> p = ''pttlCommand'' then ttl_fits (clock t) (e (a ! 1))
      else if p = ''lpushCommand'' \<or> p = ''rpushCommand'' then room (e (a ! 1)) (length (drop 2 a))
      else if p = ''lpushxCommand'' \<or> p = ''rpushxCommand'' then room (e (a ! 1)) 1
      else if p = ''rpoplpushCommand'' then room (e (a ! 2)) 1
      else if p = ''lremCommand'' then \<not> empty_list (e (a ! 1))
      else True)"

text \<open>The arguments: at least as many as the command table asks for, each of a size the protocol allows.\<close>

definition kv_arity :: "string \<Rightarrow> nat" where
  "kv_arity p =
     (if p \<in> {''setexCommand'', ''psetexCommand'', ''setrangeCommand'', ''getrangeCommand'', ''setbitCommand'', ''lrangeCommand'', ''ltrimCommand'', ''lremCommand''} then 4
      else if p \<in> {''setCommand'', ''setnxCommand'', ''appendCommand'', ''incrbyCommand'', ''decrbyCommand'', ''getsetCommand'',
        ''msetCommand'', ''msetnxCommand'', ''renameCommand'', ''renamenxCommand'', ''expireCommand'', ''expireatCommand'',
        ''pexpireCommand'', ''pexpireatCommand'', ''getbitCommand'', ''bitposCommand'', ''lpushCommand'', ''rpushCommand'',
        ''lpushxCommand'', ''rpushxCommand'', ''lindexCommand'', ''rpoplpushCommand''} then 3
      else 2)"

definition kv_args :: "string \<Rightarrow> string list \<Rightarrow> bool" where
  "kv_args p a \<longleftrightarrow> kv_arity p \<le> length a \<and> int (length a) \<le> LLONG_MAX \<and> (\<forall>x \<in> set a. arg_ok x)"

definition kv_fits :: "string \<Rightarrow> string list \<Rightarrow> timing \<Rightarrow> nat \<Rightarrow> 'z keyspace \<Rightarrow> bool" where
  "kv_fits p a t i ks \<longleftrightarrow> kv_args p a \<and> kv_arith p a t (ks i)"

definition implements :: "(nat \<Rightarrow> 'z server \<Rightarrow> 'z server option) \<Rightarrow> nat \<Rightarrow> 'z server \<Rightarrow> 'z effect \<Rightarrow> bool" where
  "implements f c s e \<longleftrightarrow> (\<exists>s'. f c s = Some s'
     \<and> (case e of (K, n, x, T) \<Rightarrow> run c s s' K n x (\<Union> (watchers s (cdb (clients s c)) ` T))))"

lemma implements_reading:
  "\<exists>s'. f c s = Some s' \<and> run c s s' (live s) 0 x {} \<Longrightarrow> implements f c s (reading (live s) x)"
  by (simp add: implements_def reading_def)

lemma implements_key:
  "\<exists>s'. f c s = Some s' \<and> (case e of (K, n, x) \<Rightarrow> run c s s' K n x (if n = 0 then {} else watchers s (cdb (clients s c)) k))
     \<Longrightarrow> implements f c s (on_key k e)"
  by (auto simp: implements_def on_key_def split: prod.splits)

lemma implements_set:
  assumes r: "ready c s" and k: "arg_ok k" "arg_ok v" and no: "no_overflow (now s) expire seconds"
    and nm: "\<forall>ch \<in> set nm. ch \<noteq> CHR 0x0D \<and> ch \<noteq> CHR 0x0A"
    and f: "f c s = setGenericCommand c nm fl k (tryObjectEncoding v) expire seconds okr abr s"
    and d: "or_default okr shared_ok = okr'" "or_default abr shared_nullbulk = abr'"
  shows "implements f c s (set_spec nm k v fl expire seconds okr' abr' (timing_of s) (cdb (clients s c)) (live s))"
  using setGeneric_run [OF r nm k(1) tryObjectEncoding_ok [OF k(2)] no, of fl okr abr] d
  unfolding set_spec_def f [symmetric] by (intro implements_key) (simp add: timing_of_def)

lemma plain_proc_simps:
  "plain_proc e ''getCommand'' = getCommand" "plain_proc e ''setCommand'' = setCommand"
  "plain_proc e ''setnxCommand'' = setnxCommand" "plain_proc e ''setexCommand'' = setexCommand"
  "plain_proc e ''psetexCommand'' = psetexCommand" "plain_proc e ''appendCommand'' = appendCommand"
  "plain_proc e ''strlenCommand'' = strlenCommand" "plain_proc e ''delCommand'' = delCommand"
  "plain_proc e ''existsCommand'' = existsCommand" "plain_proc e ''setrangeCommand'' = setrangeCommand"
  "plain_proc e ''getrangeCommand'' = getrangeCommand" "plain_proc e ''incrCommand'' = incrCommand"
  "plain_proc e ''decrCommand'' = decrCommand" "plain_proc e ''mgetCommand'' = mgetCommand"
  "plain_proc e ''incrbyCommand'' = incrbyCommand" "plain_proc e ''decrbyCommand'' = decrbyCommand"
  "plain_proc e ''getsetCommand'' = getsetCommand" "plain_proc e ''msetCommand'' = msetCommand"
  "plain_proc e ''msetnxCommand'' = msetnxCommand" "plain_proc e ''renameCommand'' = renameCommand"
  "plain_proc e ''renamenxCommand'' = renamenxCommand" "plain_proc e ''expireCommand'' = expireCommand"
  "plain_proc e ''expireatCommand'' = expireatCommand" "plain_proc e ''pexpireCommand'' = pexpireCommand"
  "plain_proc e ''pexpireatCommand'' = pexpireatCommand" "plain_proc e ''typeCommand'' = typeCommand"
  "plain_proc e ''ttlCommand'' = ttlCommand" "plain_proc e ''pttlCommand'' = pttlCommand"
  "plain_proc e ''setbitCommand'' = setbitCommand" "plain_proc e ''getbitCommand'' = getbitCommand"
  "plain_proc e ''bitcountCommand'' = bitcountCommand (address e)" "plain_proc e ''bitposCommand'' = bitposCommand (address e)"
  "plain_proc e ''lpushCommand'' = (\<lambda>c s. lpushCommand (limits s) c s)"
  "plain_proc e ''rpushCommand'' = (\<lambda>c s. rpushCommand (limits s) c s)"
  "plain_proc e ''lpushxCommand'' = (\<lambda>c s. lpushxCommand (limits s) c s)"
  "plain_proc e ''rpushxCommand'' = (\<lambda>c s. rpushxCommand (limits s) c s)"
  "plain_proc e ''rpoplpushCommand'' = (\<lambda>c s. rpoplpushCommand (limits s) c s)"
  "plain_proc e ''llenCommand'' = llenCommand"
  "plain_proc e ''lindexCommand'' = lindexCommand"
  "plain_proc e ''lrangeCommand'' = lrangeCommand"
  "plain_proc e ''lpopCommand'' = lpopCommand"
  "plain_proc e ''rpopCommand'' = rpopCommand"
  "plain_proc e ''ltrimCommand'' = ltrimCommand"
  "plain_proc e ''lremCommand'' = lremCommand"
  by (simp_all add: plain_proc_def plain_procs_def)

lemma kv_args_nth: "kv_args p a \<Longrightarrow> n < kv_arity p \<Longrightarrow> arg_ok (a ! n)"
  by (simp add: kv_args_def)

lemma implements_mset:
  assumes r: "ready c s" and a: "kv_args p (argv (clients s c))" "kv_arity p = 3"
  shows "implements (\<lambda>c s. msetGenericCommand c nx s) c s (mset_spec nx (argv (clients s c)) (timing_of s) (cdb (clients s c)) (live s))"
proof -
  obtain name args where args: "argv (clients s c) = name # args"
    using a by (cases "argv (clients s c)") (auto simp: kv_args_def)
  then have ok: "args \<noteq> []" "\<forall>x \<in> set args. arg_ok x" using a by (auto simp: kv_args_def)
  have w: "key_watchers s i (map fst kvs) = \<Union> (watchers s i ` fst ` set kvs)" for i kvs
    by (simp add: key_watchers_def)
  show ?thesis
    using mset_run [OF r args ok(2,1), of nx] unfolding w
    by (auto simp: implements_def mset_spec_def args split: prod.splits)
qed

lemma implements_rename:
  assumes r: "ready c s" and k: "arg_ok (argv (clients s c) ! 2)"
  shows "implements (\<lambda>c s. renameGenericCommand c nx s) c s (rename_spec nx (argv (clients s c)) (timing_of s) (cdb (clients s c)) (live s))"
  using rename_run [OF r, of nx] k
  by (auto simp: implements_def rename_spec_def arg_def split: prod.splits)

lemma implements_push:
  assumes r: "ready c s" and a: "kv_args p (argv (clients s c))" "kv_arity p = 3"
    and m: "room (live s (cdb (clients s c)) (argv (clients s c) ! 1)) (length (drop 2 (argv (clients s c))))"
  shows "implements (\<lambda>c s. pushGenericCommand (limits s) c w s) c s
    (on_key (argv (clients s c) ! 1) (push_effect (lims (timing_of s)) w (live s) (cdb (clients s c)) (argv (clients s c) ! 1) (drop 2 (argv (clients s c)))))"
proof -
  have "args_from c 2 s \<noteq> []" "\<forall>x \<in> set (args_from c 2 s). arg_ok x" using a by (auto simp: kv_args_def args_from_def dest: in_set_dropD)
  then show ?thesis
    using push_run [OF r server_ok_limits [OF readyD(1) [OF r]], of w, unfolded arg_def args_from_def] kv_args_nth [OF a(1), of 1] a(2) m
    by (intro implements_key) (simp add: timing_of_def args_from_def room_def)
qed

lemma implements_pushx:
  assumes r: "ready c s" and a: "kv_args p (argv (clients s c))" "kv_arity p = 3"
    and m: "room (live s (cdb (clients s c)) (argv (clients s c) ! 1)) 1"
  shows "implements (\<lambda>c s. pushxGenericCommand (limits s) c None (tryObjectEncoding (arg c 2 s)) w s) c s
    (on_key (argv (clients s c) ! 1) (pushx_effect (lims (timing_of s)) w (live s) (cdb (clients s c)) (argv (clients s c) ! 1) (argv (clients s c) ! 2)))"
  using pushx_run [OF r server_ok_limits [OF readyD(1) [OF r]], of "arg c 2 s" w, unfolded arg_def] kv_args_nth [OF a(1), of 2] a(2) m
  by (intro implements_key) (simp add: timing_of_def arg_def room_def)

lemma implements_rpoplpush:
  assumes r: "ready c s" and a: "kv_args p (argv (clients s c))" "kv_arity p = 3"
    and m: "room (live s (cdb (clients s c)) (argv (clients s c) ! 2)) 1"
  shows "implements (\<lambda>c s. rpoplpushCommand (limits s) c s) c s (rpoplpush_spec (argv (clients s c)) (timing_of s) (cdb (clients s c)) (live s))"
  using rpoplpush_run [OF r server_ok_limits [OF readyD(1) [OF r]]] kv_args_nth [OF a(1), of 2] a(2) m
  by (auto simp: implements_def rpoplpush_spec_def timing_of_def arg_def room_def split: prod.splits)

lemma implements_expire:
  assumes r: "ready c s" and e: "expire_arith b seconds (argv (clients s c)) (timing_of s)" and f: "f c s = expireGenericCommand c (b (now s)) seconds s"
  shows "implements f c s (expire_spec b seconds (argv (clients s c)) (timing_of s) (cdb (clients s c)) (live s))"
  using expire_run [OF r, of "b (now s)" seconds, unfolded arg_def] e unfolding expire_spec_def f [symmetric]
  by (intro implements_key) (simp add: timing_of_def expire_arith_def)

lemma implements_del:
  assumes r: "ready c s" and a: "kv_args p (argv (clients s c))"
  shows "implements delCommand c s (case del_effect (live s) (cdb (clients s c)) (drop 1 (argv (clients s c))) of
    (K, n, x) \<Rightarrow> (K, n, x, present (live s) (cdb (clients s c)) (drop 1 (argv (clients s c)))))"
proof -
  have "\<forall>x \<in> set (args_from c 1 s). arg_ok x" "int (argc (clients s c)) \<le> LLONG_MAX"
    using a by (auto simp: kv_args_def args_from_def argc_def dest: in_set_dropD)
  from del_run [OF r this] show ?thesis by (auto simp: implements_def args_from_def split: prod.splits)
qed

lemma implements_set_command:
  assumes r: "ready c s" and f: "kv_fits ''setCommand'' (argv (clients s c)) (timing_of s) (cdb (clients s c)) (live s)"
  shows "implements setCommand c s (case set_options (drop 3 (argv (clients s c))) no_flags None True of
      None \<Rightarrow> reading (live s) shared_syntaxerr
    | Some (fl, expire, seconds) \<Rightarrow> set_spec ''set'' (argv (clients s c) ! 1) (argv (clients s c) ! 2) fl expire seconds
        shared_ok shared_nullbulk (timing_of s) (cdb (clients s c)) (live s))"
proof -
  let ?a = "argv (clients s c)"
  have k: "arg_ok (?a ! 1)" "arg_ok (?a ! 2)" using f by (auto simp: kv_fits_def kv_arity_def intro: kv_args_nth)
  show ?thesis
  proof (cases "set_options (drop 3 ?a) no_flags None True")
    case None
    then show ?thesis
      using run_reply [OF readyD(1) [OF r], of c shared_syntaxerr]
      by (auto simp: setCommand_def args_from_def addReply_push intro!: implements_reading)
  next
    case (Some o1)
    obtain fl expire seconds where o: "o1 = (fl, expire, seconds)" by (cases o1)
    have "no_overflow (now s) expire seconds" using f Some o by (simp add: kv_fits_def kv_arith_def timing_of_def)
    from implements_set [OF r k this, of "''set''" setCommand fl None None] Some o show ?thesis
      by (simp add: setCommand_def args_from_def arg_def or_default_def)
  qed
qed

text \<open>Every command does what the abstract store does.\<close>

lemma kv_implements:
  assumes r: "ready c s" and m: "map_of kv_specs p = Some spec"
    and f: "kv_fits p (argv (clients s c)) (timing_of s) (cdb (clients s c)) (live s)"
  shows "implements (plain_proc e p) c s (spec (argv (clients s c)) (timing_of s) (cdb (clients s c)) (live s))"
proof -
  let ?a = "argv (clients s c)"
  have a: "kv_args p ?a" and arith: "kv_arith p ?a (timing_of s) (live s (cdb (clients s c)))"
    using f by (simp_all add: kv_fits_def)
  have cl: "clock (timing_of s) = now s" by (simp add: timing_of_def)
  note set = implements_set [OF r]
  have "(p, spec) \<in> set kv_specs" using m by (rule map_of_SomeD)
  then show ?thesis
    using f a arith
    unfolding kv_specs_def set_simps insert_iff empty_iff prod.inject
    apply (elim disjE conjE; (elim FalseE)?; hypsubst; unfold plain_proc_simps)
    subgoal using get_run [OF r, unfolded arg_def] by (intro implements_reading) simp
    subgoal premises P using implements_set_command [OF r P(1)] by simp
    subgoal premises P using kv_args_nth [OF P(2)]
      by (intro set [where okr = "Some shared_cone" and abr = "Some shared_czero"]) (simp_all add: kv_arity_def setnxCommand_def arg_def nx_flags_def or_default_def no_overflow_def)
    subgoal premises P using kv_args_nth [OF P(2)] P(3)
      by (intro set [where okr = None and abr = None]) (simp_all add: kv_arity_def setexCommand_def arg_def or_default_def kv_arith_def cl)
    subgoal premises P using kv_args_nth [OF P(2)] P(3)
      by (intro set [where okr = None and abr = None]) (simp_all add: kv_arity_def psetexCommand_def arg_def or_default_def kv_arith_def cl)
    subgoal premises P using kv_args_nth [OF P(2)] append_run [OF r, unfolded arg_def] by (intro implements_key) (simp add: kv_arity_def)
    subgoal using strlen_run [OF r, unfolded arg_def] by (intro implements_reading) simp
    subgoal premises P by (rule implements_del [OF r P(2)])
    subgoal using exists_run [OF r, unfolded arg_def] by (intro implements_reading) simp
    subgoal premises P using kv_args_nth [OF P(2)] P(3) setrange_run [OF r, unfolded arg_def]
      by (intro implements_key) (simp add: kv_arity_def kv_arith_def)
    subgoal using getrange_run [OF r, unfolded arg_def] by (intro implements_reading) simp
    subgoal premises P using kv_args_nth [OF P(2)] incr_run [OF r, of 1, unfolded arg_def]
      by (intro implements_key) (simp add: kv_arity_def incrCommand_def in_ll_def)
    subgoal premises P using kv_args_nth [OF P(2)] incr_run [OF r, of "-1", unfolded arg_def]
      by (intro implements_key) (simp add: kv_arity_def decrCommand_def in_ll_def)
    subgoal premises P using P(2) mget_run [OF r] by (intro implements_reading) (simp add: kv_args_def argc_def args_from_def)
    subgoal premises P using kv_args_nth [OF P(2)] incrby_run(1) [OF r, unfolded arg_def]
      by (intro implements_key) (simp add: kv_arity_def)
    subgoal premises P using kv_args_nth [OF P(2)] P(3) incrby_run(2) [OF r, unfolded arg_def]
      by (intro implements_key) (simp add: kv_arity_def kv_arith_def)
    subgoal premises P using kv_args_nth [OF P(2)] getset_run [OF r, unfolded arg_def]
      by (intro implements_key) (simp add: kv_arity_def)
    subgoal premises P using implements_mset [OF r P(2), of False] by (simp add: implements_def kv_arity_def msetCommand_def)
    subgoal premises P using implements_mset [OF r P(2), of True] by (simp add: implements_def kv_arity_def msetnxCommand_def)
    subgoal premises P using kv_args_nth [OF P(2)] implements_rename [OF r, of False]
      by (simp add: implements_def kv_arity_def renameCommand_def)
    subgoal premises P using kv_args_nth [OF P(2)] implements_rename [OF r, of True]
      by (simp add: implements_def kv_arity_def renamenxCommand_def)
    subgoal premises P using P(3) by (intro implements_expire [OF r]) (simp_all add: expireCommand_def kv_arith_def)
    subgoal premises P using P(3) by (intro implements_expire [OF r]) (simp_all add: expireatCommand_def kv_arith_def)
    subgoal premises P using P(3) by (intro implements_expire [OF r]) (simp_all add: pexpireCommand_def kv_arith_def)
    subgoal premises P using P(3) by (intro implements_expire [OF r]) (simp_all add: pexpireatCommand_def kv_arith_def)
    subgoal using type_run [OF r, unfolded arg_def] by (intro implements_reading) simp
    subgoal premises P using P(3) ttl_run [OF r, of False, unfolded arg_def]
      by (intro implements_reading) (simp add: kv_arith_def cl ttlCommand_def)
    subgoal premises P using P(3) ttl_run [OF r, of True, unfolded arg_def]
      by (intro implements_reading) (simp add: kv_arith_def cl pttlCommand_def)
    subgoal premises P using kv_args_nth [OF P(2)] setbit_run [OF r, unfolded arg_def]
      by (intro implements_key) (simp add: kv_arity_def)
    subgoal using getbit_run [OF r, unfolded arg_def] by (intro implements_reading) simp
    subgoal using bitcount_run [OF r, unfolded arg_def] by (intro implements_reading) simp
    subgoal using bitpos_run [OF r, unfolded arg_def] by (intro implements_reading) simp
    subgoal premises P using implements_push [OF r P(2), of REDIS_HEAD] P(3) by (simp add: implements_def kv_arity_def kv_arith_def lpushCommand_def)
    subgoal premises P using implements_push [OF r P(2), of REDIS_TAIL] P(3) by (simp add: implements_def kv_arity_def kv_arith_def rpushCommand_def)
    subgoal premises P using implements_pushx [OF r P(2), of REDIS_HEAD] P(3) by (simp add: implements_def kv_arity_def kv_arith_def lpushxCommand_def)
    subgoal premises P using implements_pushx [OF r P(2), of REDIS_TAIL] P(3) by (simp add: implements_def kv_arity_def kv_arith_def rpushxCommand_def)
    subgoal using llen_run [OF r, unfolded arg_def] by (intro implements_reading) simp
    subgoal using lindex_run [OF r, unfolded arg_def] by (intro implements_reading) simp
    subgoal using lrange_run [OF r, unfolded arg_def] by (intro implements_reading) simp
    subgoal using pop_run [OF r, of REDIS_HEAD, unfolded arg_def] by (intro implements_key) (simp add: lpopCommand_def)
    subgoal using pop_run [OF r, of REDIS_TAIL, unfolded arg_def] by (intro implements_key) (simp add: rpopCommand_def)
    subgoal using ltrim_run [OF r, unfolded arg_def] by (intro implements_key) simp
    subgoal premises P using kv_args_nth [OF P(2)] P(3) lrem_run [OF r, unfolded arg_def] by (intro implements_key) (simp add: kv_arity_def kv_arith_def)
    subgoal premises P using implements_rpoplpush [OF r P(2)] P(3) by (simp add: kv_arity_def kv_arith_def)
    done
qed

end
