(* ===== verification/Cas_Correct.thy ===== *)
theory Cas_Correct
  imports Kv_Spec
begin

unbundle bit_operations_syntax

declare One_nat_def [simp del]

text \<open>
  Optimistic locking is sound: a client that watches a key is marked whenever a command of another client changes
  what is seen of the key, and a transaction of an unmarked client runs on the values that were watched.
\<close>

subsection \<open>A command changes only the keys it reports\<close>

definition local_effect :: "nat \<Rightarrow> 'z keyspace \<Rightarrow> 'z effect \<Rightarrow> bool" where
  "local_effect i ks e \<longleftrightarrow> (case e of (K, n, x, T) \<Rightarrow> 0 \<le> n \<and> (\<forall>j k. K j k \<noteq> ks j k \<longrightarrow> j = i \<and> k \<in> T))"

lemma local_reading [simp]: "local_effect i ks (reading ks x)"
  by (simp add: local_effect_def reading_def)

lemma local_on_key:
  assumes "case e of (K, n, x) \<Rightarrow> (K = ks \<and> n = 0) \<or> (0 < n \<and> (\<exists>v. K = ks_upd ks i k v))"
  shows "local_effect i ks (on_key k e)"
  using assms by (auto simp: local_effect_def on_key_def ks_upd_apply split: prod.splits if_splits)

lemma set_effect_local:
  "case set_effect ks i k v fl req okr abr of (K, n, x) \<Rightarrow> (K = ks \<and> n = 0) \<or> (0 < n \<and> (\<exists>v. K = ks_upd ks i k v))"
  by (auto simp: set_effect_def split: sum.split)

lemma append_effect_local:
  "case append_effect ks i k v of (K, n, x) \<Rightarrow> (K = ks \<and> n = 0) \<or> (0 < n \<and> (\<exists>v. K = ks_upd ks i k v))"
  by (auto simp: append_effect_def grow_effect_def)

lemma setrange_effect_local:
  "case setrange_effect ks i k a v of (K, n, x) \<Rightarrow> (K = ks \<and> n = 0) \<or> (0 < n \<and> (\<exists>v. K = ks_upd ks i k v))"
  by (auto simp: setrange_effect_def setrange_core_def grow_effect_def split: option.split)

lemma incr_effect_local:
  "case incr_effect ks i k d of (K, n, x) \<Rightarrow> (K = ks \<and> n = 0) \<or> (0 < n \<and> (\<exists>v. K = ks_upd ks i k v))"
  by (auto simp: incr_effect_def split: option.split)

lemma incrby_effect_local:
  "case incrby_effect ks i k f a of (K, n, x) \<Rightarrow> (K = ks \<and> n = 0) \<or> (0 < n \<and> (\<exists>v. K = ks_upd ks i k v))"
  using incr_effect_local [of ks i k] by (auto simp: incrby_effect_def split: option.split)

lemma getset_effect_local:
  "case getset_effect ks i k v of (K, n, x) \<Rightarrow> (K = ks \<and> n = 0) \<or> (0 < n \<and> (\<exists>v. K = ks_upd ks i k v))"
  by (auto simp: getset_effect_def)

lemma expire_effect_local:
  "case expire_effect ks i k over f a of (K, n, x) \<Rightarrow> (K = ks \<and> n = 0) \<or> (0 < n \<and> (\<exists>v. K = ks_upd ks i k v))"
  by (auto simp: expire_effect_def split: option.split)

lemma setbit_effect_local:
  "case setbit_effect ks i k a b of (K, n, x) \<Rightarrow> (K = ks \<and> n = 0) \<or> (0 < n \<and> (\<exists>v. K = ks_upd ks i k v))"
  by (auto simp: setbit_effect_def Let_def split: option.split)

lemma push_effect_local:
  "vals \<noteq> [] \<Longrightarrow> case push_effect l w ks i k vals of (K, n, x) \<Rightarrow> (K = ks \<and> n = 0) \<or> (0 < n \<and> (\<exists>v. K = ks_upd ks i k v))"
  by (auto simp: push_effect_def Let_def)

lemma pushx_effect_local:
  "case pushx_effect l w ks i k x of (K, n, x) \<Rightarrow> (K = ks \<and> n = 0) \<or> (0 < n \<and> (\<exists>v. K = ks_upd ks i k v))"
  by (auto simp: pushx_effect_def Let_def)

lemma pop_effect_local:
  "case pop_effect w ks i k of (K, n, x) \<Rightarrow> (K = ks \<and> n = 0) \<or> (0 < n \<and> (\<exists>v. K = ks_upd ks i k v))"
  by (auto simp: pop_effect_def split: prod.split)

lemma ltrim_effect_local:
  "case ltrim_effect ks i k a b of (K, n, x) \<Rightarrow> (K = ks \<and> n = 0) \<or> (0 < n \<and> (\<exists>v. K = ks_upd ks i k v))"
  by (auto simp: ltrim_effect_def split: prod.split option.split)

text \<open>When nothing was removed, the list that is put back is the one that was there.\<close>

lemma lrem_effect_local:
  assumes "\<not> empty_list (ks i k)"
  shows "case lrem_effect ks i k a y of (K, n, x) \<Rightarrow> (K = ks \<and> n = 0) \<or> (0 < n \<and> (\<exists>v. K = ks_upd ks i k v))"
proof (cases "string_ll a = None \<or> \<not> is_list (ks i k) \<or> ks i k = None")
  case True
  then show ?thesis by (auto simp: lrem_effect_def split: option.split)
next
  case False
  then obtain n v t where n: "string_ll a = Some n" "ks i k = Some (v, t)" "otype v = REDIS_LIST" by (auto simp: is_list_def)
  then obtain z xs where v: "v = ListV z xs" by (cases v) auto
  have xs: "xs \<noteq> []" using assms n v by (simp add: empty_list_def)
  have "0 \<le> lrem_count n y xs" by (simp add: lrem_count_def)
  moreover have "ks_upd ks i k (list_entry (z, xs) t) = ks" using n v xs by (simp add: list_entry_def ks_upd_def fun_upd_idem)
  ultimately show ?thesis
    using n v lrem_none [of n y xs] by (cases "lrem_count n y xs = 0") (auto simp: lrem_effect_def entry_ttl_def)
qed

lemma local_rpoplpush: "local_effect i ks (rpoplpush_spec a t i ks)"
  by (auto simp: local_effect_def rpoplpush_spec_def rpoplpush_effect_def Let_def ks_upd_apply split: prod.splits if_splits)

lemmas effects_local = set_effect_local append_effect_local setrange_effect_local incr_effect_local incrby_effect_local
  getset_effect_local expire_effect_local setbit_effect_local

lemma ks_puts_other: "j \<noteq> i \<or> k \<notin> fst ` set kvs \<Longrightarrow> ks_puts ks i kvs j k = ks j k"
  by (induction kvs arbitrary: ks) (auto simp: ks_puts_def ks_upd_apply)

lemma local_mset: "tl a \<noteq> [] \<Longrightarrow> local_effect i ks (mset_spec nx a t i ks)"
proof -
  assume "tl a \<noteq> []"
  then have "2 \<le> length a" by (cases a rule: list.exhaust; cases "tl a") auto
  then have "(length a - 1) div 2 \<noteq> 0 \<or> even (length a)" by presburger
  then show ?thesis
    using ks_puts_other [of _ i _ "arg_pairs (tl a)" ks]
    by (auto simp: local_effect_def mset_spec_def mset_effect_def)
qed

lemma local_rename: "local_effect i ks (rename_spec nx a t i ks)"
  by (auto simp: local_effect_def rename_spec_def rename_effect_def ks_upd_apply split: option.splits prod.splits if_splits)

lemma local_del:
  "local_effect i ks (case del_effect ks i keys of (K, n, x) \<Rightarrow> (K, n, x, present ks i keys))"
  by (auto simp: local_effect_def del_effect_def Let_def ks_dels_apply present_def split: if_splits)
     (metis not_None_eq surj_pair)

lemma kv_fitsD: "kv_fits p a t i ks \<Longrightarrow> kv_args p a \<and> kv_arith p a t (ks i)"
  by (simp add: kv_fits_def)

lemma kv_local:
  assumes "map_of kv_specs p = Some spec" "kv_fits p a t i ks"
  shows "local_effect i ks (spec a t i ks)"
proof -
  have "(p, spec) \<in> set kv_specs" using assms(1) by (rule map_of_SomeD)
  then show ?thesis
    using kv_fitsD [OF assms(2)]
    unfolding kv_specs_def set_simps insert_iff empty_iff prod.inject
    apply (elim disjE conjE; (elim FalseE)?; hypsubst)
    apply (simp_all only: local_reading)
    subgoal by (auto split: option.split prod.split simp: set_spec_def intro!: local_on_key set_effect_local)
    subgoal by (simp add: set_spec_def local_on_key set_effect_local)
    subgoal by (simp add: set_spec_def local_on_key set_effect_local)
    subgoal by (simp add: set_spec_def local_on_key set_effect_local)
    subgoal by (simp add: local_on_key append_effect_local)
    subgoal by (rule local_del)
    subgoal by (simp add: local_on_key setrange_effect_local)
    subgoal by (simp add: local_on_key incr_effect_local)
    subgoal by (simp add: local_on_key incr_effect_local)
    subgoal by (simp add: local_on_key incrby_effect_local)
    subgoal by (simp add: local_on_key incrby_effect_local)
    subgoal by (simp add: local_on_key getset_effect_local)
    subgoal by (cases a) (auto simp: kv_args_def kv_arity_def intro!: local_mset)
    subgoal by (cases a) (auto simp: kv_args_def kv_arity_def intro!: local_mset)
    subgoal by (rule local_rename)
    subgoal by (rule local_rename)
    subgoal by (simp add: expire_spec_def local_on_key expire_effect_local)
    subgoal by (simp add: expire_spec_def local_on_key expire_effect_local)
    subgoal by (simp add: expire_spec_def local_on_key expire_effect_local)
    subgoal by (simp add: expire_spec_def local_on_key expire_effect_local)
    subgoal by (simp add: local_on_key setbit_effect_local)
    subgoal by (rule local_on_key, rule push_effect_local) (simp add: kv_args_def kv_arity_def)
    subgoal by (rule local_on_key, rule push_effect_local) (simp add: kv_args_def kv_arity_def)
    subgoal by (simp add: local_on_key pushx_effect_local)
    subgoal by (simp add: local_on_key pushx_effect_local)
    subgoal by (simp add: local_on_key pop_effect_local)
    subgoal by (simp add: local_on_key pop_effect_local)
    subgoal by (simp add: local_on_key ltrim_effect_local)
    subgoal by (rule local_on_key, rule lrem_effect_local) (simp add: kv_arith_def)
    subgoal by (rule local_rpoplpush)
    done
qed

end
