(* ===== verification/Request_Correct.thy ===== *)
theory Request_Correct
  imports Cas_Correct
begin

unbundle bit_operations_syntax

declare One_nat_def [simp del]

text \<open>
  From handlers to requests: what \<open>call\<close> and \<open>processCommand\<close> add around a handler of the key-value store, on a master
  that serves its clients, and how the rows of the command table fit the handlers.
\<close>

subsection \<open>The command table\<close>

text \<open>The rows whose handlers belong to the store, and their arities.\<close>

definition kv_names :: "string list" where
  "kv_names = [''getCommand'', ''setCommand'', ''setnxCommand'', ''setexCommand'', ''psetexCommand'',
     ''appendCommand'', ''strlenCommand'', ''delCommand'', ''existsCommand'', ''setrangeCommand'', ''getrangeCommand'',
     ''incrCommand'', ''decrCommand'', ''mgetCommand'', ''incrbyCommand'', ''decrbyCommand'', ''getsetCommand'', ''msetCommand'',
     ''msetnxCommand'', ''renameCommand'', ''renamenxCommand'', ''expireCommand'', ''expireatCommand'', ''pexpireCommand'',
     ''pexpireatCommand'', ''typeCommand'', ''ttlCommand'', ''pttlCommand'', ''setbitCommand'', ''getbitCommand'',
     ''bitcountCommand'', ''bitposCommand'', ''lpushCommand'', ''rpushCommand'', ''lpushxCommand'', ''rpushxCommand'', ''llenCommand'',
     ''lindexCommand'', ''lrangeCommand'', ''lpopCommand'', ''rpopCommand'', ''ltrimCommand'', ''lremCommand'', ''rpoplpushCommand'']"

lemma kv_specs_names: "map fst kv_specs = kv_names"
  by (simp add: kv_names_def kv_specs_def)

lemma kv_specs_dom: "map_of (kv_specs :: (string \<times> 'z spec) list) p = Some spec \<Longrightarrow> p \<in> set kv_names"
proof -
  assume "map_of (kv_specs :: (string \<times> 'z spec) list) p = Some spec"
  from map_of_SomeD [OF this] have "p \<in> set (map fst (kv_specs :: (string \<times> 'z spec) list))" by force
  then show ?thesis by (simp only: kv_specs_names)
qed

definition row_ok :: "command \<Rightarrow> bool" where
  "row_ok x \<longleftrightarrow> (proc x \<in> set kv_names \<longrightarrow>
      (if arity x > 0 then int (kv_arity (proc x)) \<le> arity x else int (kv_arity (proc x)) \<le> - arity x)
      \<and> proc x \<notin> set queued_procs \<and> proc x \<noteq> ''authCommand'')
    \<and> \<not> strcaseeq (cmd_name x) ''quit''"

lemma table_rows_ok: "list_all row_ok redisCommandTable"
  by code_simp

lemma lookup_row: "lookupCommand redisCommandTable nm = Some x \<Longrightarrow> row_ok x \<and> strcaseeq (cmd_name x) nm"
  using table_rows_ok by (auto simp: lookupCommand_def find_Some_iff list_all_iff)

lemma lookup_not_quit: "lookupCommand redisCommandTable nm = Some x \<Longrightarrow> \<not> strcaseeq nm ''quit''"
  using lookup_row [of nm x] by (auto simp: row_ok_def strcaseeq_def)

lemma row_arity:
  "row_ok x \<Longrightarrow> proc x \<in> set kv_names \<Longrightarrow> \<not> wrong_arity x n \<Longrightarrow> kv_arity (proc x) \<le> n"
  by (auto simp: row_ok_def wrong_arity_def split: if_splits)

subsection \<open>Calls\<close>

definition cleared :: "nat \<Rightarrow> 'z server \<Rightarrow> 'z server" where
  "cleared c s = upd_client c (\<lambda>cl. cl\<lparr>force_aof := False, force_repl := False\<rparr>) s"

text \<open>Changes of a client's flags, queue or arguments, which leave alone what is seen of the keyspace.\<close>

definition unseen :: "(client \<Rightarrow> client) \<Rightarrow> bool" where
  "unseen f \<longleftrightarrow> (\<forall>cl. cdb (f cl) = cdb cl)"

lemma unseen_upds:
  "unseen (\<lambda>cl. cl\<lparr>force_aof := a, force_repl := b\<rparr>)" "unseen (\<lambda>cl. cl\<lparr>argv := args\<rparr>)"
  "unseen (\<lambda>cl. cl\<lparr>mstate := m cl\<rparr>)" "unseen (\<lambda>cl. cl\<lparr>cwatched := w cl\<rparr>)" "unseen (\<lambda>cl. cl\<lparr>multi := x\<rparr>)"
  "unseen (\<lambda>cl. cl\<lparr>dirty_exec := y\<rparr>)" "unseen (\<lambda>cl. cl\<lparr>mstate := q, multi := x, dirty_cas := z, dirty_exec := y\<rparr>)"
  "unseen (\<lambda>cl. cl\<lparr>dirty_cas := z\<rparr>)"
  by (simp_all add: unseen_def)

lemma unseen_state:
  assumes "unseen f"
  shows "live (upd_client c f s) = live s" "server_ok (upd_client c f s) = server_ok s"
    "published (upd_client c f s) = published s" "notified (upd_client c f s) = notified s"
    "ready d (upd_client c f s) = ready d s" "cur_time (upd_client c f s) = cur_time s"
    "timing_of (upd_client c f s) = timing_of s" "watchers (upd_client c f s) = watchers s"
    "cdb (clients (upd_client c f s) d) = cdb (clients s d)" "no_blocked (upd_client c f s) = no_blocked s"
proof -
  have cd: "cdb (clients (upd_client c f s) d) = cdb (clients s d)" for d
    using assms by (simp add: unseen_def clients_upd)
  show p: "published (upd_client c f s) = published s" by (rule published_cong) simp_all
  show "notified (upd_client c f s) = notified s" by (rule notified_cong) simp_all
  show ct: "cur_time (upd_client c f s) = cur_time s" by (simp add: cur_time_def split: option.split)
  then have "expired (upd_client c f s) i k = expired s i k" for i k by (simp add: expired_def split: option.split)
  then show "live (upd_client c f s) = live s" by (simp add: live_def fun_eq_iff split: option.split)
  have "conf_ok (upd_client c f s) = conf_ok s" unfolding conf_ok_def patterns_safe_def cd by simp
  then show ok: "server_ok (upd_client c f s) = server_ok s" by (simp add: server_ok_def)
  show "ready d (upd_client c f s) = ready d s" using ok p by (simp add: ready_def)
  show "timing_of (upd_client c f s) = timing_of s" by (simp add: timing_of_def)
  show "watchers (upd_client c f s) = watchers s" by (simp add: watchers_def fun_eq_iff)
  show "cdb (clients (upd_client c f s) d) = cdb (clients s d)" by (rule cd)
  show "no_blocked (upd_client c f s) = no_blocked s" by (simp add: no_blocked_def)
qed

text \<open>The part of \<open>run\<close> that does not look at the configuration: changes of flags commute with it.\<close>

lemma log_conf: "same_conf s (propagate i a x y s)" "dbs (propagate i a x y s) = dbs s"
  "clients (propagate i a x y s) = clients s" "dirty (propagate i a x y s) = dirty s"
  by (simp_all add: propagate_def feedAppendOnlyFile_def replicationFeedSlaves_def Let_def same_conf_def no_blocked_def)

lemma core_flags: "core (cl\<lparr>force_aof := a, force_repl := b\<rparr>) = core cl\<lparr>force_aof := a, force_repl := b\<rparr>"
  by (cases cl) (simp add: core_def)

lemma call_run:
  assumes r: "ready c s" and f: "f c (cleared c s) = Some s2" "run c (cleared c s) s2 K n x W"
  shows "\<exists>s'. call f c s = Some s' \<and> run c s s' K n x W \<and> argv (clients s' c) = argv (clients s2 c)
    \<and> slave_log s' = slave_log s2 @ (if n > 0 then [(cdb (clients s c), argv (clients s2 c))] else [])
    \<and> aof_log s' = aof_log s2 @ (if n > 0 \<and> aof_on s then [(cdb (clients s c), argv (clients s2 c))] else [])"
proof -
  let ?old = "clients s c"
  note un = unseen_upds(1)
  have cs: "clients (cleared c s) d = (if d = c then ?old\<lparr>force_aof := False, force_repl := False\<rparr> else clients s d)" for d
    by (simp add: cleared_def clients_upd)
  have fl: "\<not> force_repl (clients s2 c)" "\<not> force_aof (clients s2 c)" "cdb (clients s2 c) = cdb ?old"
    using same_conf_client(11,12,1) [OF runD(1) [OF f(2)], of c] by (simp_all add: cs)
  define a where "a = argv (clients s2 c)"
  define s3 where "s3 = (if n > 0 then propagate (cdb ?old) a True True s2 else s2)"
  define s' where "s' = upd_client c (\<lambda>cl. cl\<lparr>force_aof := force_aof ?old, force_repl := force_repl ?old\<rparr>) s3"
  have d: "dirty s2 - dirty (cleared c s) = n" using runD(4) [OF f(2)] by simp
  have call: "call f c s = Some s'"
    using f(1) fl d by (simp add: call_def Let_def cleared_def [symmetric] s3_def s'_def a_def)
  have s3: "same_conf s2 s3" "dbs s3 = dbs s2" "clients s3 = clients s2" "dirty s3 = dirty s2"
    by (simp_all add: s3_def log_conf)
  have conf: "same_conf (cleared c s) s3" using same_conf_trans [OF runD(1) [OF f(2)] s3(1)] .
  have core: "core (clients s' d) = core (clients s d)" for d
  proof -
    have c3: "core (clients s3 d) = core (clients (cleared c s) d)" using conf by (simp add: same_conf_def)
    show ?thesis
    proof (cases "d = c")
      case True
      then have "core (clients s3 c) = core (?old\<lparr>force_aof := False, force_repl := False\<rparr>)" using c3 by (simp add: cs)
      then have "core (clients s3 c)\<lparr>force_aof := force_aof ?old, force_repl := force_repl ?old\<rparr> = core ?old"
        by (simp add: core_def)
      then show ?thesis using True by (simp add: s'_def clients_upd core_flags)
    qed (use c3 in \<open>simp add: s'_def clients_upd cs\<close>)
  qed
  have cas: "dirty_cas (clients s' d) = dirty_cas (clients s2 d)" "reply (clients s' d) = reply (clients s2 d)" for d
    by (simp_all add: s'_def clients_upd s3(3))
  have sc: "same_conf s s'"
  proof -
    have "dirty_cas (clients s d) \<longrightarrow> dirty_cas (clients s' d)" for d
      using runD(6) [OF f(2), of d] by (simp add: cas cs)
    moreover have "no_blocked s = no_blocked (cleared c s)" "cur_time s' = cur_time s'" by (simp_all add: cleared_def no_blocked_def)
    ultimately show ?thesis using conf core unfolding same_conf_def s'_def by (simp add: cleared_def)
  qed
  have "live s' = K" "server_ok s'"
    using unseen_state(1,2) [OF un, of c _ _ s3] live_same [OF s3(1,2)] server_ok_same [OF s3(1,2)] runD(2,3) [OF f(2)]
    by (simp_all add: s'_def)
  moreover have "reply (clients (cleared c s) d) = reply (clients s d)" "writable (clients (cleared c s) d) = writable (clients s d)"
    "dirty_cas (clients (cleared c s) d) = dirty_cas (clients s d)" "dirty (cleared c s) = dirty s" for d
    by (simp_all add: cs writable_def prepareClientToWrite_def) (simp add: cleared_def)
  moreover have "dirty s' = dirty s2" by (simp add: s'_def s3(4))
  ultimately have "run c s s' K n x W"
    using f(2) sc unfolding run_def cas by simp
  moreover have "argv (clients s' c) = a" by (simp add: s'_def clients_upd s3(3) a_def)
  moreover have "slave_log s' = slave_log s2 @ (if n > 0 then [(cdb ?old, a)] else [])"
    by (simp add: s'_def s3_def propagate_def Let_def feedAppendOnlyFile_def replicationFeedSlaves_def)
  moreover have "aof_log s' = aof_log s2 @ (if n > 0 \<and> aof_on s then [(cdb ?old, a)] else [])"
    using same_conf_fields(9) [OF runD(1) [OF f(2)]]
    by (simp add: s'_def s3_def propagate_def Let_def feedAppendOnlyFile_def replicationFeedSlaves_def cleared_def)
  ultimately show ?thesis using call by (simp add: a_def)
qed

subsection \<open>Requests on a calm server\<close>

text \<open>A configuration in which no guard but the lookup and the arity test refuses a command.\<close>

definition calm_conf :: "'z conf \<Rightarrow> bool" where
  "calm_conf e \<longleftrightarrow> commands e = redisCommandTable \<and> \<not> requirepass e \<and> maxmemory e = 0
     \<and> \<not> stop_writes_on_bgsave_err e \<and> aof_last_write_error e = None \<and> repl_min_slaves_to_write e = 0 \<and> \<not> lua_timedout e"

text \<open>The server, for the clients of \<open>C\<close>: a master that has loaded its data, with nobody blocked on a list.\<close>

definition calm :: "nat set \<Rightarrow> 'z server \<Rightarrow> bool" where
  "calm C s \<longleftrightarrow> server_ok s \<and> \<not> loading s \<and> watch_ok s \<and> no_blocked s \<and> srv_ready_keys s = []
     \<and> (\<forall>d \<in> C. ready d s \<and> \<not> pubsub_flag (clients s d) \<and> d \<in> set (client_list s))"

lemma calm_run: "run c s s' K n x W \<Longrightarrow> calm C s \<Longrightarrow> calm C s'"
proof -
  assume r: "run c s s' K n x W" and c: "calm C s"
  note conf = runD(1) [OF r]
  have "ready d s'" if "ready d s" for d
    using that runD(2) [OF r] same_conf_fields(3,12) [OF conf] by (simp add: ready_def)
  moreover have "client_list s' = client_list s" using conf by (simp add: same_conf_def)
  ultimately show ?thesis
    using c runD(2) [OF r] same_conf_fields(2) [OF conf] watch_ok_same [OF conf] same_conf_idle [OF conf]
      same_conf_client(10) [OF conf] by (auto simp: calm_def)
qed

lemma calmD: "calm C s \<Longrightarrow> d \<in> C \<Longrightarrow> ready d s" "calm C s \<Longrightarrow> watch_ok s" "calm C s \<Longrightarrow> \<not> loading s"
  "calm C s \<Longrightarrow> d \<in> C \<Longrightarrow> \<not> pubsub_flag (clients s d)" "calm C s \<Longrightarrow> no_blocked s" "calm C s \<Longrightarrow> srv_ready_keys s = []"
  "calm C s \<Longrightarrow> d \<in> C \<Longrightarrow> d \<in> set (client_list s)"
  by (simp_all add: calm_def)

lemma calm_unseen:
  assumes "unseen f" "\<And>cl. pubsub_flag (f cl) = pubsub_flag cl \<and> cwatched (f cl) = cwatched cl"
  shows "calm C (upd_client c f s) = calm C s"
proof -
  have cw: "cwatched (clients (upd_client c f s) d) = cwatched (clients s d)"
    "pubsub_flag (clients (upd_client c f s) d) = pubsub_flag (clients s d)" for d
    using assms(2) by (simp_all add: clients_upd)
  have "watch_ok (upd_client c f s) = watch_ok s"
    unfolding watch_ok_def cw unseen_state(8) [OF assms(1)] by simp
  then show ?thesis
    unfolding calm_def cw unseen_state [OF assms(1)] by simp
qed

lemma no_guard:
  assumes "calm_conf e" "calm C s" "d \<in> C"
  shows "guards e x d s = None"
  using assms calmD [OF assms(2)] readyD(2) [OF calmD(1) [OF assms(2,3)]]
  by (simp add: guards_def disk_error_def calm_conf_def Let_def)

definition with_args :: "nat \<Rightarrow> string list \<Rightarrow> 'z server \<Rightarrow> 'z server" where
  "with_args c a s = upd_client c (\<lambda>cl. cl\<lparr>argv := a\<rparr>) s"

lemma with_args_simps [simp]:
  "argv (clients (with_args c a s) c) = a" "multi (clients (with_args c a s) d) = multi (clients s d)"
  "dbs (with_args c a s) = dbs s" "dirty (with_args c a s) = dirty s" "srv_ready_keys (with_args c a s) = srv_ready_keys s"
  "live (with_args c a s) = live s" "ready d (with_args c a s) = ready d s" "cdb (clients (with_args c a s) d) = cdb (clients s d)"
  "timing_of (with_args c a s) = timing_of s" "watchers (with_args c a s) = watchers s" "calm C (with_args c a s) = calm C s"
  using unseen_state [OF unseen_upds(2)] calm_unseen [OF unseen_upds(2)]
  by (simp_all add: with_args_def clients_upd)

lemma run_with_args: "run c (with_args c a s) s' K n x W \<Longrightarrow> run c s s' K n x W"
proof -
  assume r: "run c (with_args c a s) s' K n x W"
  have conf: "same_conf s (with_args c a s)" unfolding with_args_def by (rule conf_dirty_argv(1))
  have cl: "reply (clients (with_args c a s) d) = reply (clients s d)" "writable (clients (with_args c a s) d) = writable (clients s d)"
    "dirty_cas (clients (with_args c a s) d) = dirty_cas (clients s d)" for d
    by (simp_all add: with_args_def clients_upd writable_def prepareClientToWrite_def)
  show ?thesis using r same_conf_trans [OF conf] unfolding run_def cl by simp
qed

text \<open>A command line for the store: its row of the table, and its specification.\<close>

definition kv_line :: "string list \<Rightarrow> command \<Rightarrow> 'z spec \<Rightarrow> bool" where
  "kv_line a x spec \<longleftrightarrow> lookupCommand redisCommandTable (a ! 0) = Some x \<and> map_of kv_specs (proc x) = Some spec
     \<and> \<not> wrong_arity x (length a) \<and> int (length a) \<le> LLONG_MAX \<and> (\<forall>y \<in> set a. arg_ok y)"

definition line_fits :: "command \<Rightarrow> string list \<Rightarrow> timing \<Rightarrow> nat \<Rightarrow> 'z keyspace \<Rightarrow> bool" where
  "line_fits x a t i ks \<longleftrightarrow> kv_arith (proc x) a t (ks i)"

lemma kv_line_args: "kv_line a x spec \<Longrightarrow> kv_args (proc x) a"
  using lookup_row [of "a ! 0" x] row_arity [of x "length a"] kv_specs_dom [of "proc x" spec]
  by (simp add: kv_line_def kv_args_def)

lemma kv_line_proc:
  "kv_line a x spec \<Longrightarrow> proc x \<notin> set queued_procs \<and> proc x \<noteq> ''authCommand'' \<and> \<not> strcaseeq (a ! 0) ''quit''"
  using lookup_row [of "a ! 0" x] lookup_not_quit [of "a ! 0" x] kv_specs_dom [of "proc x" spec]
  by (simp add: kv_line_def row_ok_def)

lemma run_proc_plain: "proc x \<notin> set queued_procs \<Longrightarrow> run_proc e (proc x) = plain_proc e (proc x)"
  by (auto simp: run_proc_def queued_procs_def fun_eq_iff)

text \<open>\<open>call\<close> on a handler of the store.\<close>

lemma kv_call:
  assumes r: "ready c s" and l: "kv_line (argv (clients s c)) x spec"
    and f: "line_fits x (argv (clients s c)) (timing_of s) (cdb (clients s c)) (live s)"
  shows "implements (call (plain_proc e (proc x))) c s (spec (argv (clients s c)) (timing_of s) (cdb (clients s c)) (live s))"
proof -
  note un = unseen_state [OF unseen_upds(1)]
  let ?t = "cleared c s"
  have t: "ready c ?t" "live ?t = live s" "timing_of ?t = timing_of s" "watchers ?t = watchers s"
    "cdb (clients ?t c) = cdb (clients s c)" "argv (clients ?t c) = argv (clients s c)"
    using r by (simp_all add: cleared_def un clients_upd)
  have m: "map_of kv_specs (proc x) = Some spec" using l by (simp add: kv_line_def)
  have "kv_fits (proc x) (argv (clients ?t c)) (timing_of ?t) (cdb (clients ?t c)) (live ?t)"
    using kv_line_args [OF l] f by (simp add: kv_fits_def line_fits_def t)
  from kv_implements [OF t(1) m this, of e]
  have i: "implements (plain_proc e (proc x)) c ?t (spec (argv (clients s c)) (timing_of s) (cdb (clients s c)) (live s))"
    by (simp only: t)
  obtain K n y T where spec: "spec (argv (clients s c)) (timing_of s) (cdb (clients s c)) (live s) = (K, n, y, T)"
    by (metis prod.exhaust)
  obtain s2 where "plain_proc e (proc x) c ?t = Some s2" "run c ?t s2 K n y (\<Union> (watchers s (cdb (clients s c)) ` T))"
    using i unfolding implements_def spec t by auto
  from call_run [where f = "plain_proc e (proc x)", OF r this] show ?thesis unfolding implements_def spec by auto
qed

lemma kv_request:
  assumes e: "calm_conf e" and c: "calm C s" "d \<in> C" and m: "\<not> multi (clients s d)" and l: "kv_line a x spec"
    and f: "line_fits x a (timing_of s) (cdb (clients s d)) (live s)"
  shows "\<exists>s'. request e (d, a) s = Some s' \<and> calm C s'
    \<and> (case spec a (timing_of s) (cdb (clients s d)) (live s) of
        (K, n, x, T) \<Rightarrow> run d s s' K n x (\<Union> (watchers s (cdb (clients s d)) ` T)))"
proof -
  define t where "t = with_args d a s"
  have c': "calm C t" using c by (simp add: t_def)
  note r = calmD(1) [OF c' c(2)]
  have a: "argv (clients t d) = a" by (simp add: t_def)
  have "implements (call (plain_proc e (proc x))) d t (spec a (timing_of t) (cdb (clients t d)) (live t))"
    using kv_call [OF r, of x spec e] l f by (simp add: a t_def)
  then obtain s' where s': "call (plain_proc e (proc x)) d t = Some s'"
    "case spec a (timing_of s) (cdb (clients s d)) (live s) of
      (K, n, x, T) \<Rightarrow> run d t s' K n x (\<Union> (watchers s (cdb (clients s d)) ` T))"
    by (auto simp: implements_def t_def)
  obtain K n y T where spec: "spec a (timing_of s) (cdb (clients s d)) (live s) = (K, n, y, T)" by (metis prod.exhaust)
  then have run: "run d t s' K n y (\<Union> (watchers s (cdb (clients s d)) ` T))" using s'(2) by simp
  note calm' = calm_run [OF run c']
  note p = kv_line_proc [OF l]
  have look: "lookupCommand (commands e) (a ! 0) = Some x" "\<not> wrong_arity x (length a)"
    using l e by (simp_all add: kv_line_def calm_conf_def)
  have "dispatch e x d t = Some s'"
    using no_guard [OF e c' c(2)] m s'(1) calmD(6) [OF calm'] p
    by (simp add: dispatch_def t_def run_proc_plain)
  then have "request e (d, a) s = Some s'"
    using e p look a by (simp add: request_def processCommand_def Let_def calm_conf_def t_def [unfolded with_args_def, symmetric])
  then show ?thesis using calm' run_with_args [OF run [unfolded t_def]] by (simp add: spec)
qed

end
