(* ===== verification/Multi_Correct.thy ===== *)
theory Multi_Correct
  imports Request_Correct
begin

unbundle bit_operations_syntax

declare One_nat_def [simp del]

text \<open>
  Transactions: the commands of the queue run one after the other on the keyspace that \<open>EXEC\<close> finds, and
  only if no watched key has changed.
\<close>

subsection \<open>The effect of a queue\<close>

definition line_row :: "string list \<Rightarrow> command option" where
  "line_row a = lookupCommand redisCommandTable (a ! 0)"

fun queue_effect :: "timing \<Rightarrow> nat \<Rightarrow> string list list \<Rightarrow> 'z keyspace \<Rightarrow> 'z effect" where
  "queue_effect t i [] ks = (ks, 0, [], {})"
| "queue_effect t i (a # q) ks =
     (case Option.bind (line_row a) (\<lambda>x. map_of kv_specs (proc x)) of
        None \<Rightarrow> (ks, 0, [], {})
      | Some spec \<Rightarrow> (case spec a t i ks of (K, n, x, T) \<Rightarrow>
          (case queue_effect t i q K of (K', n', x', T') \<Rightarrow> (K', n + n', x @ x', T \<union> T'))))"

text \<open>The conditions on the arguments, each on the keyspace that the command finds.\<close>

fun queue_fits :: "timing \<Rightarrow> nat \<Rightarrow> string list list \<Rightarrow> 'z keyspace \<Rightarrow> bool" where
  "queue_fits t i [] ks = True"
| "queue_fits t i (a # q) ks =
     (case line_row a of None \<Rightarrow> False
      | Some x \<Rightarrow> (case map_of kv_specs (proc x) of None \<Rightarrow> False
          | Some spec \<Rightarrow> line_fits x a t i ks \<and> (case spec a t i ks of (K, n, x, T) \<Rightarrow> queue_fits t i q K)))"

definition queueable :: "string list \<Rightarrow> bool" where
  "queueable a \<longleftrightarrow> (case line_row a of None \<Rightarrow> False
     | Some x \<Rightarrow> proc x \<in> set kv_names \<and> \<not> wrong_arity x (length a)) \<and> int (length a) \<le> LLONG_MAX \<and> (\<forall>y \<in> set a. arg_ok y)"

lemma queueable_line:
  "queueable a \<Longrightarrow> \<exists>x (spec :: 'z spec). kv_line a x spec \<and> line_row a = Some x"
proof -
  assume q: "queueable a"
  then obtain x where x: "line_row a = Some x" "proc x \<in> set kv_names" "\<not> wrong_arity x (length a)"
    by (auto simp: queueable_def split: option.splits)
  have "proc x \<in> set (map fst (kv_specs :: (string \<times> 'z spec) list))" using x(2) by (simp only: kv_specs_names)
  then have "map_of (kv_specs :: (string \<times> 'z spec) list) (proc x) \<noteq> None" by (simp add: map_of_eq_None_iff)
  then obtain spec where "map_of (kv_specs :: (string \<times> 'z spec) list) (proc x) = Some spec" by blast
  then show ?thesis using q x by (auto simp: kv_line_def queueable_def line_row_def)
qed

definition writes :: "string list \<Rightarrow> bool" where
  "writes a \<longleftrightarrow> (case line_row a of None \<Rightarrow> False | Some x \<Rightarrow> \<not> has_flag x REDIS_CMD_READONLY)"

lemma run_propagate: "server_ok s \<Longrightarrow> run c s (propagate i a x y s) (live s) 0 [] {}"
  by (rule run_plain) (simp_all add: log_conf)

lemma run_argv: "server_ok s \<Longrightarrow> run c s (with_args c a s) (live s) 0 [] {}"
  using run_with_args [OF run_refl, of c a s] unseen_state(2) [OF unseen_upds(2), of c a s]
  by (simp add: with_args_def [symmetric])

lemma exec_loop_run:
  assumes e: "commands e = redisCommandTable"
  shows "ready c s \<Longrightarrow> list_all queueable q \<Longrightarrow> queue_fits (timing_of s) (cdb (clients s c)) q (live s) \<Longrightarrow>
    \<exists>s'. exec_loop e c q mp s = Some (s', mp \<or> list_ex writes q)
      \<and> (case queue_effect (timing_of s) (cdb (clients s c)) q (live s) of
          (K, n, x, T) \<Rightarrow> run c s s' K n x (\<Union> (watchers s (cdb (clients s c)) ` T)))"
proof (induction q arbitrary: s mp)
  case Nil
  then show ?case using run_refl [OF readyD(1)] by simp
next
  case (Cons a q)
  define i where "i = cdb (clients s c)"
  obtain x and spec :: "'a spec" where l: "kv_line a x spec" "line_row a = Some x"
    using queueable_line Cons.prems(2) by fastforce
  have m: "map_of kv_specs (proc x) = Some spec" using l(1) by (simp add: kv_line_def)
  have fits: "line_fits x a (timing_of s) i (live s)" using Cons.prems(3) l(2) m by (simp add: i_def)
  define s1 where "s1 = with_args c a s"
  define first where "first = (\<not> mp \<and> \<not> has_flag x REDIS_CMD_READONLY)"
  define s2 where "s2 = (if first then execCommandPropagateMulti c s1 else s1)"
  have w1: "run c s s1 (live s) 0 [] {}" unfolding s1_def by (rule run_argv [OF readyD(1) [OF Cons.prems(1)]])
  have "run c s1 s2 (live s1) 0 [] {}"
    using run_propagate [OF runD(2) [OF w1]] run_refl [OF runD(2) [OF w1]] by (simp add: s2_def execCommandPropagateMulti_def)
  from run_trans [OF w1 this] runD(3) [OF w1] have w2: "run c s s2 (live s) 0 [] {}" by simp
  note r2 = run_ready [OF w2 Cons.prems(1)]
  have same: "timing_of s2 = timing_of s" "cdb (clients s2 c) = i" "live s2 = live s" "watchers s2 = watchers s"
    "argv (clients s2 c) = a"
    using run_conf(1,3,5,7,9) [OF w2] runD(3) [OF w2]
    by (simp_all add: timing_of_def i_def fun_eq_iff) (simp add: s2_def s1_def execCommandPropagateMulti_def log_conf)
  obtain K n y T where eff: "spec a (timing_of s) i (live s) = (K, n, y, T)" by (metis prod.exhaust)
  have "implements (call (plain_proc e (proc x))) c s2 (K, n, y, T)"
    using kv_call [OF r2, of x spec e] l(1) fits eff by (simp add: same)
  then obtain s3 where s3: "call (plain_proc e (proc x)) c s2 = Some s3" "run c s2 s3 K n y (\<Union> (watchers s i ` T))"
    by (auto simp: implements_def same)
  have w3: "run c s s3 K n y (\<Union> (watchers s i ` T))" using run_trans [OF w2 s3(2)] by simp
  note r3 = run_ready [OF w3 Cons.prems(1)]
  have same3: "timing_of s3 = timing_of s" "cdb (clients s3 c) = i" "live s3 = K" "watchers s3 = watchers s"
    using run_conf(1,3,5,7,9) [OF w3] runD(3) [OF w3] by (simp_all add: timing_of_def i_def fun_eq_iff)
  have "queue_fits (timing_of s3) (cdb (clients s3 c)) q (live s3)"
    using Cons.prems(3) l(2) m eff by (simp add: same3 i_def)
  moreover have "list_all queueable q" using Cons.prems(2) by simp
  ultimately obtain s' where s': "exec_loop e c q (mp \<or> first) s3 = Some (s', (mp \<or> first) \<or> list_ex writes q)"
    "case queue_effect (timing_of s) i q K of (K, n, x, T) \<Rightarrow> run c s3 s' K n x (\<Union> (watchers s i ` T))"
    using Cons.IH [OF r3, of "mp \<or> first"] by (auto simp: same3)
  have look: "lookupCommand (commands e) (a ! 0) = Some x" using l(1) e by (simp add: kv_line_def)
  have "exec_loop e c (a # q) mp s = exec_loop e c q (mp \<or> first) s3"
    unfolding exec_loop.simps look Option.bind.simps Let_def with_args_def [symmetric] s1_def [symmetric]
      first_def [symmetric] s2_def [symmetric] s3(1) by simp
  moreover have "(mp \<or> first) \<or> list_ex writes q \<longleftrightarrow> mp \<or> list_ex writes (a # q)"
    using l(2) by (auto simp: writes_def first_def)
  moreover have "case queue_effect (timing_of s) i (a # q) (live s) of (K, n, x, T) \<Rightarrow> run c s s' K n x (\<Union> (watchers s i ` T))"
    using s'(2) run_trans [OF w3] l(2) m eff by (auto simp: image_Un split: prod.splits)
  ultimately show ?case using s'(1) by (simp add: i_def)
qed

subsection \<open>EXEC\<close>

lemma unwatched_state:
  assumes u: "unwatched c s s'"
  shows "live s' = live s" "server_ok s' = server_ok s" "published s' = published s" "ready d s' = ready d s"
    "timing_of s' = timing_of s" "dirty s' = dirty s" "watch_ok s'" "client_list s' = client_list s"
    "loading s' = loading s" "srv_ready_keys s' = srv_ready_keys s" "is_slave s' = is_slave s"
    "clients s' d = (if d = c then (clients s c)\<lparr>cwatched := []\<rparr> else clients s d)" "no_blocked s' = no_blocked s"
proof -
  have cl: "clients s' d = (if d = c then (clients s c)\<lparr>cwatched := []\<rparr> else clients s d)" for d
    using u by (simp add: unwatched_def)
  have db: "ddict (dbs s' j) = ddict (dbs s j)" "expires (dbs s' j) = expires (dbs s j)" for j
    using u by (simp_all add: unwatched_def)
  have eq: "s' = s\<lparr>dbs := dbs s', clients := clients s'\<rparr>" using u by (simp add: unwatched_def)
  have f: "pubsub_channels s' = pubsub_channels s" "pubsub_patterns s' = pubsub_patterns s" "lua_time s' = lua_time s"
    "now s' = now s" "dbnum s' = dbnum s" "limits s' = limits s"
    by (subst eq, simp)+
  show l: "loading s' = loading s" and sl: "is_slave s' = is_slave s" and "srv_ready_keys s' = srv_ready_keys s"
    "client_list s' = client_list s" "dirty s' = dirty s" by (subst eq, simp)+
  show p: "published s' = published s" by (rule published_cong) (simp_all add: f)
  have "cur_time s' = cur_time s" by (simp add: cur_time_def f split: option.split)
  then have "expired s' i k = expired s i k" for i k by (simp add: expired_def db l split: option.split)
  then show "live s' = live s" by (simp add: live_def fun_eq_iff db split: option.split)
  have "cdb (clients s' d) = cdb (clients s d)" for d by (simp add: cl)
  then show ok: "server_ok s' = server_ok s"
    by (simp add: server_ok_def conf_ok_def patterns_safe_def f db_ok_def db)
  show "ready d s' = ready d s" by (simp add: ready_def ok p sl)
  show "timing_of s' = timing_of s" by (simp add: timing_of_def f l)
  show "watch_ok s'" "no_blocked s' = no_blocked s" using u by (simp_all add: unwatched_def no_blocked_def)
  show "clients s' d = (if d = c then (clients s c)\<lparr>cwatched := []\<rparr> else clients s d)" by (rule cl)
qed

lemma unwatched_calm: "unwatched c s s' \<Longrightarrow> calm C s \<Longrightarrow> calm C s'"
  by (auto simp: calm_def unwatched_state)

lemma unwatched_watchers: "unwatched c s s' \<Longrightarrow> watch_ok s \<Longrightarrow> watchers s' i k = watchers s i k - {c}"
  using unwatched_state(7,12) [of c s s'] watch_okD(2) [of s' _ i k] watch_okD(2) [of s _ i k] by (auto split: if_splits)

end
