(* ===== verification/Exec_Correct.thy ===== *)
theory Exec_Correct
  imports Multi_Correct
begin

unbundle bit_operations_syntax

declare One_nat_def [simp del]

text \<open>
  The requests of a transaction, from \<open>MULTI\<close> to \<open>EXEC\<close>, with other clients at work in between.
\<close>

subsection \<open>Calls and discarding\<close>

lemma calm_upd:
  assumes "unseen f" "\<And>cl. pubsub_flag (f cl) = pubsub_flag cl \<and> cwatched (f cl) = cwatched cl"
  shows "calm C s \<Longrightarrow> calm C (upd_client c f s)"
  by (simp add: calm_unseen [OF assms])

text \<open>What \<open>call\<close> leaves of the state that the handler reaches.\<close>

lemma call_state:
  assumes f: "f c (cleared c s) = Some s2" and k: "calm C s2"
  shows "\<exists>s'. call f c s = Some s' \<and> calm C s' \<and> live s' = live s2 \<and> dirty s' = dirty s2 \<and> timing_of s' = timing_of s2
    \<and> cur_time s' = cur_time s2
    \<and> (\<forall>d. clients s' d = (clients s2 d)\<lparr>force_aof := force_aof (clients s' d), force_repl := force_repl (clients s' d)\<rparr>)"
proof -
  let ?old = "clients s c" and ?cl = "clients s2 c"
  define changed where "changed = (dirty s2 - dirty s > 0)"
  define s3 where "s3 = (if (force_repl ?cl \<or> changed) \<or> (force_aof ?cl \<or> changed)
    then propagate (cdb ?cl) (argv ?cl) (force_aof ?cl \<or> changed) (force_repl ?cl \<or> changed) s2 else s2)"
  define s' where "s' = upd_client c (\<lambda>cl. cl\<lparr>force_aof := force_aof ?old, force_repl := force_repl ?old\<rparr>) s3"
  have s3: "same_conf s2 s3" "dbs s3 = dbs s2" "clients s3 = clients s2" "dirty s3 = dirty s2"
    by (simp_all add: s3_def log_conf)
  have ok2: "server_ok s2" using k by (simp add: calm_def)
  have run: "run c s2 s3 (live s2) 0 [] {}" by (rule run_plain [OF ok2 s3(1,2,4,3)])
  note u = unseen_state [OF unseen_upds(1)]
  have "calm C s'" unfolding s'_def by (rule calm_upd [OF unseen_upds(1)]) (simp_all add: calm_run [OF run k])
  moreover have "call f c s = Some s'"
    unfolding call_def Let_def cleared_def [symmetric] f Option.bind.simps s'_def s3_def changed_def
    by (simp add: cleared_def)
  moreover have "live s' = live s2" "timing_of s' = timing_of s2" "dirty s' = dirty s2" "cur_time s' = cur_time s2"
    using runD(3) [OF run] run_conf(3,5,8,9) [OF run] by (simp_all add: s'_def u s3(4) timing_of_def)
  ultimately show ?thesis by (simp add: s'_def clients_upd s3(3))
qed

text \<open>The state after \<open>discardTransaction\<close>.\<close>

lemma discard_state:
  assumes k: "calm C s"
  shows "\<exists>s'. discardTransaction c s = Some s' \<and> calm C s' \<and> live s' = live s \<and> dirty s' = dirty s \<and> timing_of s' = timing_of s
    \<and> (\<forall>d. clients s' d = (if d = c then (clients s c)\<lparr>mstate := [], multi := False, dirty_cas := False, dirty_exec := False,
         cwatched := []\<rparr> else clients s d))"
proof -
  define t where "t = upd_client c (\<lambda>cl. cl\<lparr>mstate := [], multi := False, dirty_cas := False, dirty_exec := False\<rparr>) s"
  note u = unseen_state [OF unseen_upds(7)]
  have t: "calm C t" unfolding t_def by (rule calm_upd [OF unseen_upds(7)]) (simp_all add: k)
  obtain s' where s': "unwatchAllKeys c t = Some s'" "unwatched c t s'"
    using unwatch_ok [OF calmD(2) [OF t]] by blast
  note w = unwatched_state [OF s'(2)]
  have cl: "clients s' d = (if d = c then (clients s c)\<lparr>mstate := [], multi := False, dirty_cas := False, dirty_exec := False,
         cwatched := []\<rparr> else clients s d)" for d
    unfolding w(12) by (simp add: t_def clients_upd)
  show ?thesis
    using s'(1) unwatched_calm [OF s'(2) t] w(1,5,6) cl by (simp add: discardTransaction_def t_def u)
qed

subsection \<open>Queueing a command\<close>

lemma queue_request:
  assumes e: "calm_conf e" and k: "calm C s" "c \<in> C" and m: "multi (clients s c)" and q: "queueable a"
  shows "\<exists>s'. request e (c, a) s = Some s' \<and> calm C s' \<and> live s' = live s \<and> dirty s' = dirty s \<and> timing_of s' = timing_of s \<and> cur_time s' = cur_time s
    \<and> clients s' c = (clients s c)\<lparr>argv := a, mstate := mstate (clients s c) @ [a],
         reply := reply (clients s c) @ (if writable (clients s c) then shared_queued else [])\<rparr>
    \<and> (\<forall>d. d \<noteq> c \<longrightarrow> clients s' d = clients s d)"
proof -
  obtain x and spec :: "'a spec" where l: "kv_line a x spec" using queueable_line [OF q] by blast
  note p = kv_line_proc [OF l]
  have look: "lookupCommand (commands e) (a ! 0) = Some x" "\<not> wrong_arity x (length a)"
    using l e by (simp_all add: kv_line_def calm_conf_def)
  define t where "t = with_args c a s"
  have t: "calm C t" using k by (simp add: t_def)
  define t1 where "t1 = queueMultiCommand c t"
  have t1: "calm C t1" unfolding t1_def queueMultiCommand_def by (rule calm_upd [OF unseen_upds(3)]) (simp_all add: t)
  define s' where "s' = addReply c shared_queued t1"
  have ok: "server_ok t1" using t1 by (simp add: calm_def)
  note run = run_reply [OF ok, of c shared_queued, folded addReply_push, folded s'_def]
  have "dispatch e x c t = Some s'"
    using no_guard [OF e t k(2)] m p by (simp add: dispatch_def t_def t1_def s'_def)
  then have "request e (c, a) s = Some s'"
    using e p look by (simp add: request_def processCommand_def Let_def calm_conf_def t_def [unfolded with_args_def, symmetric])
  moreover have "calm C s'" by (rule calm_run [OF run t1])
  moreover have "clients s' = (\<lambda>d. if d = c then (clients s c)\<lparr>argv := a, mstate := mstate (clients s c) @ [a],
         reply := reply (clients s c) @ (if writable (clients s c) then shared_queued else [])\<rparr> else clients s d)"
    by (rule ext) (simp add: s'_def addReply_push push_client t1_def queueMultiCommand_def t_def with_args_def clients_upd
      writable_def prepareClientToWrite_def to_def)
  moreover have "live t1 = live s" "dirty t1 = dirty s" "timing_of t1 = timing_of s" "cur_time t1 = cur_time s"
    by (simp_all add: t1_def queueMultiCommand_def unseen_state [OF unseen_upds(3)] t_def)
       (simp add: with_args_def unseen_state [OF unseen_upds(2)])
  then have "live s' = live s" "dirty s' = dirty s" "timing_of s' = timing_of s" "cur_time s' = cur_time s"
    using runD(3,4) [OF run] run_conf(3,5,8,9) [OF run] by (simp_all add: timing_of_def)
  ultimately show ?thesis by simp
qed

subsection \<open>EXEC\<close>

lemma exec_row: "\<exists>x. lookupCommand redisCommandTable ''EXEC'' = Some x \<and> proc x = ''execCommand'' \<and> \<not> wrong_arity x 1"
proof -
  have "case lookupCommand redisCommandTable ''EXEC'' of None \<Rightarrow> False | Some x \<Rightarrow> proc x = ''execCommand'' \<and> \<not> wrong_arity x 1"
    by code_simp
  then show ?thesis by (auto split: option.splits)
qed

text \<open>The request \<open>EXEC\<close> is the call of its handler.\<close>

lemma exec_request:
  assumes e: "calm_conf e" and k: "calm C s" "c \<in> C"
    and call: "call (execCommand e) c (with_args c [''EXEC''] s) = Some s'" "calm C s'"
  shows "request e (c, [''EXEC'']) s = Some s'"
proof -
  obtain x where x: "lookupCommand redisCommandTable ''EXEC'' = Some x" "proc x = ''execCommand''" "\<not> wrong_arity x 1"
    using exec_row by blast
  define t where "t = with_args c [''EXEC''] s"
  have t: "calm C t" using k by (simp add: t_def)
  have p: "run_proc e (proc x) = execCommand e" by (simp add: run_proc_def x(2) fun_eq_iff)
  have q: "proc x \<in> set queued_procs" "proc x \<noteq> ''authCommand''" by (simp_all add: queued_procs_def x(2))
  have nq: "\<not> strcaseeq ''EXEC'' ''quit''" by code_simp
  have a: "argv (clients t c) = [''EXEC'']" by (simp add: t_def)
  have "dispatch e x c t = Some s'"
    using no_guard [OF e t k(2), of x] q(1) call(1) calmD(6) [OF call(2)]
    by (simp add: dispatch_def t_def p)
  moreover have "wrong_arity x (length [''EXEC'']) = False" using x(3) by (simp add: One_nat_def)
  ultimately show ?thesis
    using e q(2) nq x(1) by (simp add: request_def processCommand_def Let_def calm_conf_def t_def [unfolded with_args_def, symmetric] a)
qed

text \<open>The state of a client after its transaction has ended.\<close>

definition ended :: "client \<Rightarrow> bool" where
  "ended cl \<longleftrightarrow> \<not> multi cl \<and> mstate cl = [] \<and> cwatched cl = [] \<and> \<not> dirty_cas cl \<and> \<not> dirty_exec cl"

definition said :: "client \<Rightarrow> client \<Rightarrow> string \<Rightarrow> bool" where
  "said cl cl' x \<longleftrightarrow> reply cl' = reply cl @ (if writable cl then x else [])"

text \<open>A transaction that is flagged is dropped: nothing of it is run.\<close>

lemma exec_abort:
  assumes e: "calm_conf e" and k: "calm C s" "c \<in> C" and m: "multi (clients s c)"
    and d: "dirty_cas (clients s c) \<or> dirty_exec (clients s c)"
  shows "\<exists>s'. request e (c, [''EXEC'']) s = Some s' \<and> calm C s' \<and> live s' = live s \<and> dirty s' = dirty s \<and> ended (clients s' c)
    \<and> said (clients s c) (clients s' c) (if dirty_exec (clients s c) then shared_execaborterr else shared_nullmultibulk)"
proof -
  define t where "t = with_args c [''EXEC''] s"
  define x where "x = (if dirty_exec (clients s c) then shared_execaborterr else shared_nullmultibulk)"
  have t: "calm C t" using k by (simp add: t_def)
  define t1 where "t1 = cleared c t"
  have t1: "calm C t1" unfolding t1_def cleared_def by (rule calm_upd [OF unseen_upds(1)]) (simp_all add: t)
  have ok: "server_ok t1" using t1 by (simp add: calm_def)
  note run = run_reply [OF ok, of c x, folded addReply_push]
  note t2 = calm_run [OF run t1]
  obtain s2 where s2: "discardTransaction c (addReply c x t1) = Some s2" "calm C s2"
    "live s2 = live (addReply c x t1)" "dirty s2 = dirty (addReply c x t1)"
    "clients s2 c = (clients (addReply c x t1) c)\<lparr>mstate := [], multi := False, dirty_cas := False, dirty_exec := False, cwatched := []\<rparr>"
    using discard_state [OF t2, of c] by auto
  have cl: "multi (clients t1 c)" "dirty_cas (clients t1 c) = dirty_cas (clients s c)" "dirty_exec (clients t1 c) = dirty_exec (clients s c)"
    "reply (clients t1 c) = reply (clients s c)" "writable (clients t1 c) = writable (clients s c)"
    using m by (simp_all add: t1_def cleared_def t_def with_args_def clients_upd writable_def prepareClientToWrite_def)
  have "execCommand e c t1 = Some s2"
    using s2(1) d unfolding execCommand_def Let_def cl(2,3) by (simp add: cl(1) x_def)
  from call_state [where f = "execCommand e" and C = C, OF this [unfolded t1_def] s2(2)] obtain s' where
    s': "call (execCommand e) c t = Some s'" "calm C s'" "live s' = live s2" "dirty s' = dirty s2"
    "clients s' c = (clients s2 c)\<lparr>force_aof := force_aof (clients s' c), force_repl := force_repl (clients s' c)\<rparr>"
    by auto
  have "live t1 = live s" "dirty t1 = dirty s" by (simp_all add: t1_def cleared_def unseen_state [OF unseen_upds(1)] t_def)
  then have "live s' = live s" "dirty s' = dirty s" using runD(3,4) [OF run] by (simp_all add: s'(3,4) s2(3,4))
  moreover have "ended (clients s' c)" by (subst s'(5)) (simp add: s2(5) ended_def)
  moreover have "said (clients s c) (clients s' c) x"
    by (subst s'(5)) (simp add: s2(5) said_def runD(5) [OF run] cl(4,5))
  ultimately show ?thesis using exec_request [OF e k, of s'] s'(1,2) by (auto simp: t_def x_def)
qed

text \<open>
  A transaction that is not flagged runs all its commands on the keyspace it finds; the reply is the list of
  their replies.
\<close>

lemma exec_runs:
  assumes e: "calm_conf e" and k: "calm C s" "c \<in> C" and m: "multi (clients s c)"
    and d: "\<not> dirty_cas (clients s c)" "\<not> dirty_exec (clients s c)"
    and q: "list_all queueable (mstate (clients s c))" "int (length (mstate (clients s c))) \<le> LLONG_MAX"
    and f: "queue_fits (timing_of s) (cdb (clients s c)) (mstate (clients s c)) (live s)"
  shows "\<exists>s'. request e (c, [''EXEC'']) s = Some s' \<and> calm C s' \<and> ended (clients s' c)
    \<and> (case queue_effect (timing_of s) (cdb (clients s c)) (mstate (clients s c)) (live s) of (K, n, x, T) \<Rightarrow>
         live s' = K \<and> dirty s' = dirty s + n + (if list_ex writes (mstate (clients s c)) then 1 else 0)
         \<and> said (clients s c) (clients s' c) (''*'' @ show_int (int (length (mstate (clients s c)))) @ CRLF @ x))"
proof -
  define Q i where "Q = mstate (clients s c)" and "i = cdb (clients s c)"
  define h where "h = ''*'' @ show_int (int (length Q)) @ CRLF"
  define t where "t = with_args c [''EXEC''] s"
  define t1 where "t1 = cleared c t"
  have t: "calm C t" using k by (simp add: t_def)
  have t1: "calm C t1" unfolding t1_def cleared_def by (rule calm_upd [OF unseen_upds(1)]) (simp_all add: t)
  have st1: "live t1 = live s" "dirty t1 = dirty s" "timing_of t1 = timing_of s"
    by (simp_all add: t1_def cleared_def unseen_state [OF unseen_upds(1)] t_def)
  have cl: "multi (clients t1 c)" "\<not> dirty_cas (clients t1 c)" "\<not> dirty_exec (clients t1 c)" "mstate (clients t1 c) = Q"
    "reply (clients t1 c) = reply (clients s c)" "writable (clients t1 c) = writable (clients s c)" "cdb (clients t1 c) = i"
    using m d by (simp_all add: t1_def cleared_def t_def with_args_def clients_upd writable_def prepareClientToWrite_def Q_def i_def)
  obtain s1 where s1: "unwatchAllKeys c t1 = Some s1" "unwatched c t1 s1" using unwatch_ok [OF calmD(2) [OF t1]] by blast
  note w = unwatched_state [OF s1(2)]
  note k1 = unwatched_calm [OF s1(2) t1]
  have ok1: "server_ok s1" using k1 by (simp add: calm_def)
  have head: "addReplyMultiBulkLen c (int (length Q)) s1 = push (to c h) s1"
    using q(2) by (simp add: mbulklen_push in_ll_def Q_def h_def)
  note r1 = run_reply [OF ok1, of c h]
  note k2 = calm_run [OF r1 k1]
  define s2 where "s2 = push (to c h) s1"
  have c1: "clients s1 c = (clients t1 c)\<lparr>cwatched := []\<rparr>" using w(12) by simp
  have wr: "writable (clients s1 c) = writable (clients t1 c)" by (simp add: c1 writable_def prepareClientToWrite_def)
  have s2: "live s2 = live s" "timing_of s2 = timing_of s" "cdb (clients s2 c) = i" "dirty s2 = dirty s"
    "writable (clients s2 c) = writable (clients s c)" "reply (clients s2 c) = reply (clients s c) @ (if writable (clients s c) then h else [])"
    using runD(3,4,5) [OF r1] run_conf(1,2,3,5) [OF r1] st1 w(1,5,6) cl(5,6,7) wr
    by (simp_all add: s2_def timing_of_def c1)
  obtain K n x T where eff: "queue_effect (timing_of s) i Q (live s) = (K, n, x, T)" by (metis prod.exhaust)
  obtain s3 W where s3: "exec_loop e c Q False s2 = Some (s3, list_ex writes Q)" "run c s2 s3 K n x W"
    using exec_loop_run [of e c s2 Q False] e calmD(1) [OF k2 k(2)] q(1) f eff
    by (auto simp: calm_conf_def s2 s2_def [symmetric] Q_def [symmetric] i_def [symmetric])
  have k3: "calm C s3" using calm_run [OF s3(2)] k2 by (simp add: s2_def)
  define s4 where "s4 = with_args c (argv (clients t1 c)) s3"
  have k4: "calm C s4" using k3 by (simp add: s4_def)
  obtain s5 where s5: "discardTransaction c s4 = Some s5" "calm C s5" "live s5 = live s4" "dirty s5 = dirty s4"
    "clients s5 c = (clients s4 c)\<lparr>mstate := [], multi := False, dirty_cas := False, dirty_exec := False, cwatched := []\<rparr>"
    using discard_state [OF k4, of c] by auto
  define b where "b = (if list_ex writes Q then 1 else (0 :: int))"
  define s6 where "s6 = (if list_ex writes Q then add_dirty 1 s5 else s5)"
  have ok5: "server_ok s5" using s5(2) by (simp add: calm_def)
  have r6: "run c s5 s6 (live s5) b [] {}"
    using run_dirty [OF ok5, of c 1] run_refl [OF ok5] by (simp add: s6_def b_def)
  have cl6: "clients s6 c = clients s5 c" by (simp add: s6_def add_dirty_def)
  have "execCommand e c t1 = Some s6"
    unfolding execCommand_def Let_def cl(4) s1(1) Option.bind.simps head s2_def [symmetric] s3(1) prod.case
    using s5(1) cl(1-3) by (simp add: s4_def with_args_def s6_def)
  from call_state [where f = "execCommand e", OF this [unfolded t1_def] calm_run [OF r6 s5(2)]] obtain s' where
    s': "call (execCommand e) c t = Some s'" "calm C s'" "live s' = live s6" "dirty s' = dirty s6"
    "clients s' c = (clients s6 c)\<lparr>force_aof := force_aof (clients s' c), force_repl := force_repl (clients s' c)\<rparr>"
    by auto
  have "live s' = K" "dirty s' = dirty s + n + b"
    using runD(3,4) [OF r6] runD(3,4) [OF s3(2)] by (simp_all add: s'(3,4) s5(3,4) s4_def s2(4))
  moreover have "ended (clients s' c)" by (subst s'(5)) (simp add: cl6 s5(5) ended_def)
  moreover have "said (clients s c) (clients s' c) (h @ x)"
    using runD(5) [OF s3(2)] by (subst s'(5)) (simp add: cl6 s5(5) said_def s4_def with_args_def clients_upd s2(5,6))
  ultimately show ?thesis
    using exec_request [OF e k, of s'] s'(1,2) eff by (auto simp: t_def Q_def i_def h_def b_def)
qed

subsection \<open>MULTI\<close>

lemma multi_row: "\<exists>x. lookupCommand redisCommandTable ''MULTI'' = Some x \<and> proc x = ''multiCommand'' \<and> \<not> wrong_arity x 1"
proof -
  have "case lookupCommand redisCommandTable ''MULTI'' of None \<Rightarrow> False | Some x \<Rightarrow> proc x = ''multiCommand'' \<and> \<not> wrong_arity x 1"
    by code_simp
  then show ?thesis by (auto split: option.splits)
qed

lemma multi_request:
  assumes e: "calm_conf e" and k: "calm C s" "c \<in> C" and m: "\<not> multi (clients s c)"
  shows "\<exists>s'. request e (c, [''MULTI'']) s = Some s' \<and> calm C s' \<and> live s' = live s \<and> dirty s' = dirty s \<and> cur_time s' = cur_time s
    \<and> multi (clients s' c) \<and> mstate (clients s' c) = mstate (clients s c) \<and> cwatched (clients s' c) = cwatched (clients s c)
    \<and> dirty_cas (clients s' c) = dirty_cas (clients s c) \<and> dirty_exec (clients s' c) = dirty_exec (clients s c)
    \<and> cdb (clients s' c) = cdb (clients s c) \<and> said (clients s c) (clients s' c) shared_ok"
proof -
  obtain x where x: "lookupCommand redisCommandTable ''MULTI'' = Some x" "proc x = ''multiCommand''" "\<not> wrong_arity x 1"
    using multi_row by blast
  define t where "t = with_args c [''MULTI''] s"
  define t1 where "t1 = cleared c t"
  define t2 where "t2 = upd_client c (\<lambda>cl. cl\<lparr>multi := True\<rparr>) t1"
  have t: "calm C t" using k by (simp add: t_def)
  have t2: "calm C t2" unfolding t2_def t1_def cleared_def
    by (intro calm_upd [OF unseen_upds(5)] calm_upd [OF unseen_upds(1)]) (simp_all add: t)
  have ok2: "server_ok t2" using t2 by (simp add: calm_def)
  have st: "live t2 = live s" "dirty t2 = dirty s" "cur_time t2 = cur_time s"
    by (simp_all add: t2_def t1_def cleared_def unseen_state [OF unseen_upds(1)] unseen_state [OF unseen_upds(5)] t_def with_args_def
      unseen_state [OF unseen_upds(2)])
  have cl: "clients t2 c = (clients s c)\<lparr>argv := [''MULTI''], force_aof := False, force_repl := False, multi := True\<rparr>"
    by (simp add: t2_def t1_def cleared_def t_def with_args_def clients_upd)
  have wr: "writable (clients t2 c) = writable (clients s c)" by (simp add: cl writable_def prepareClientToWrite_def)
  note run = run_reply [OF ok2, of c shared_ok, folded addReply_push]
  define s2 where "s2 = addReply c shared_ok t2"
  have c2: "clients s2 c = (clients t2 c)\<lparr>reply := reply (clients t2 c) @ (if writable (clients t2 c) then shared_ok else [])\<rparr>"
    by (simp add: s2_def addReply_push push_client)
  have "multiCommand c t1 = s2"
    using m by (simp add: multiCommand_def s2_def t2_def) (simp add: t1_def cleared_def t_def clients_upd)
  then have "(\<lambda>c s. Some (multiCommand c s)) c (cleared c t) = Some s2" by (simp add: t1_def)
  from call_state [where f = "\<lambda>c s. Some (multiCommand c s)", OF this calm_run [OF run t2, folded s2_def]] obtain s' where
    s': "call (\<lambda>c s. Some (multiCommand c s)) c t = Some s'" "calm C s'" "live s' = live s2" "dirty s' = dirty s2" "timing_of s' = timing_of s2"
    "clients s' c = (clients s2 c)\<lparr>force_aof := force_aof (clients s' c), force_repl := force_repl (clients s' c)\<rparr>"
    "cur_time s' = cur_time s2"
    by auto
  have p: "run_proc e (proc x) = (\<lambda>c s. Some (multiCommand c s))" by (simp add: run_proc_def x(2) fun_eq_iff)
  have q: "proc x \<in> set queued_procs" "proc x \<noteq> ''authCommand''" by (simp_all add: queued_procs_def x(2))
  have nq: "\<not> strcaseeq ''MULTI'' ''quit''" by code_simp
  have a: "argv (clients t c) = [''MULTI'']" by (simp add: t_def)
  have "dispatch e x c t = Some s'"
    using no_guard [OF e t k(2), of x] q(1) s'(1) calmD(6) [OF s'(2)]
    by (simp add: dispatch_def t_def p)
  moreover have "wrong_arity x (length [''MULTI'']) = False" using x(3) by (simp add: One_nat_def)
  ultimately have "request e (c, [''MULTI'']) s = Some s'"
    using e q(2) nq x(1) by (simp add: request_def processCommand_def Let_def calm_conf_def t_def [unfolded with_args_def, symmetric] a)
  moreover have "multi (clients s' c)" "mstate (clients s' c) = mstate (clients s c)"
    "cwatched (clients s' c) = cwatched (clients s c)" "dirty_cas (clients s' c) = dirty_cas (clients s c)"
    "dirty_exec (clients s' c) = dirty_exec (clients s c)" "cdb (clients s' c) = cdb (clients s c)"
    "said (clients s c) (clients s' c) shared_ok"
    by (subst s'(6), simp add: c2 cl wr [unfolded cl] said_def)+
  moreover have "cur_time s' = cur_time s2" using s'(7) .
  ultimately show ?thesis
    using s'(2-4) runD(3,4) [OF run] run_conf(8) [OF run] st by (simp add: s2_def)
qed

subsection \<open>Histories between WATCH and EXEC\<close>

text \<open>
  What may happen around client \<open>c\<close>, which has watched some keys: time passes; any client, \<open>c\<close> before its
  \<open>MULTI\<close> included, runs a command of the store; \<open>c\<close> opens its transaction; \<open>c\<close> adds a command to the queue. The list is the
  queue.
\<close>

inductive history :: "'z conf \<Rightarrow> nat set \<Rightarrow> nat \<Rightarrow> 'z server \<Rightarrow> string list list \<Rightarrow> 'z server \<Rightarrow> bool"
  for e :: "'z conf" and C :: "nat set" and c :: nat and s :: "'z server" where
  start: "history e C c s [] s"
| time: "history e C c s q t \<Longrightarrow> now t \<le> n \<Longrightarrow> n \<le> 4611686018427387904 \<Longrightarrow> history e C c s q (t\<lparr>now := n\<rparr>)"
| store: "history e C c s q t \<Longrightarrow> d \<in> C \<Longrightarrow> \<not> multi (clients t d) \<Longrightarrow> kv_line a x (spec :: 'z spec)
    \<Longrightarrow> line_fits x a (timing_of t) (cdb (clients t d)) (live t) \<Longrightarrow> request e (d, a) t = Some u \<Longrightarrow> history e C c s q u"
| open_multi: "history e C c s q t \<Longrightarrow> \<not> multi (clients t c) \<Longrightarrow> request e (c, [''MULTI'']) t = Some u \<Longrightarrow> history e C c s q u"
| queue: "history e C c s q t \<Longrightarrow> multi (clients t c) \<Longrightarrow> queueable a \<Longrightarrow> request e (c, a) t = Some u \<Longrightarrow> history e C c s (q @ [a]) u"

text \<open>What a watched key may have become without anybody writing it: its time may have passed.\<close>

definition kept :: "'z server \<Rightarrow> 'z server \<Rightarrow> nat \<times> string \<Rightarrow> bool" where
  "kept s u ik \<longleftrightarrow> (case ik of (i, k) \<Rightarrow> live u i k = live s i k
     \<or> (live u i k = None \<and> (\<exists>v t. live s i k = Some (v, Some t) \<and> t < cur_time u)))"

lemma kept_step: "kept s t (i, k) \<Longrightarrow> live u i k = live t i k \<Longrightarrow> cur_time t \<le> cur_time u \<Longrightarrow> kept s u (i, k)"
  unfolding kept_def prod.case by (metis order_less_le_trans)

lemma cur_time_tick: "now t \<le> n \<Longrightarrow> cur_time t \<le> cur_time (t\<lparr>now := n\<rparr>)"
  by (simp add: cur_time_def split: option.split)

lemma live_tick:
  "now t \<le> n \<Longrightarrow> live (t\<lparr>now := n\<rparr>) i k = live t i k
     \<or> (live (t\<lparr>now := n\<rparr>) i k = None \<and> (\<exists>v tm. live t i k = Some (v, Some tm) \<and> tm < cur_time (t\<lparr>now := n\<rparr>)))"
  using cur_time_tick [of t n] by (auto simp: live_def expired_def split: option.splits)

lemma kept_tick: "kept s t (i, k) \<Longrightarrow> now t \<le> n \<Longrightarrow> kept s (t\<lparr>now := n\<rparr>) (i, k)"
proof -
  assume k: "kept s t (i, k)" and n: "now t \<le> n"
  note ct = cur_time_tick [OF n] and lt = live_tick [OF n, of i k]
  from lt show ?thesis
  proof (elim disjE)
    assume "live (t\<lparr>now := n\<rparr>) i k = live t i k"
    from kept_step [OF k this ct] show ?thesis .
  next
    assume "live (t\<lparr>now := n\<rparr>) i k = None \<and> (\<exists>v tm. live t i k = Some (v, Some tm) \<and> tm < cur_time (t\<lparr>now := n\<rparr>))"
    then show ?thesis using k by (auto simp: kept_def)
  qed
qed

lemma calm_tick:
  assumes k: "calm C t" and n: "now t \<le> n" "n \<le> 4611686018427387904"
  shows "calm C (t\<lparr>now := n\<rparr>)"
proof -
  have p: "published (t\<lparr>now := n\<rparr>) = published t" by (rule published_cong) simp_all
  have "server_ok t" using k by (simp add: calm_def)
  then have ok: "server_ok (t\<lparr>now := n\<rparr>)"
    using n by (auto simp: server_ok_def conf_ok_def patterns_safe_def)
  have "ready d (t\<lparr>now := n\<rparr>) = ready d t" for d using ok \<open>server_ok t\<close> by (simp add: ready_def p)
  moreover have "watch_ok (t\<lparr>now := n\<rparr>) = watch_ok t" by (simp add: watch_ok_def watchers_def)
  ultimately show ?thesis using k ok by (simp add: calm_def no_blocked_def)
qed

text \<open>The invariant of a history: an unmarked client sees the keys it has watched as they were.\<close>

definition locked :: "nat set \<Rightarrow> nat \<Rightarrow> 'z server \<Rightarrow> string list list \<Rightarrow> 'z server \<Rightarrow> bool" where
  "locked C c s q u \<longleftrightarrow> calm C u \<and> mstate (clients u c) = q \<and> cwatched (clients u c) = cwatched (clients s c)
     \<and> \<not> dirty_exec (clients u c) \<and> cdb (clients u c) = cdb (clients s c) \<and> list_all queueable q
     \<and> (dirty_cas (clients s c) \<longrightarrow> dirty_cas (clients u c))
     \<and> (\<not> dirty_cas (clients u c) \<longrightarrow> (\<forall>ik \<in> set (cwatched (clients s c)). kept s u ik))"

lemma locked_store:
  assumes l: "locked C c s q t" and e: "calm_conf e" and d: "d \<in> C" "\<not> multi (clients t d)" and a: "kv_line a x (spec :: 'z spec)"
    and f: "line_fits x a (timing_of t) (cdb (clients t d)) (live t)" and u: "request e (d, a) t = Some (u :: 'z server)"
  shows "locked C c s q u"
proof -
  define j where "j = cdb (clients t d)"
  have k: "calm C t" using l by (simp add: locked_def)
  obtain K n x' T where eff: "spec a (timing_of t) j (live t) = (K, n, x', T)" by (metis prod.exhaust)
  have ku: "calm C u" and run: "run d t u K n x' (\<Union> (watchers t j ` T))"
    using kv_request [OF e k d a f] u eff by (auto simp: j_def)
  note cl = same_conf_client(1,7,8,9) [OF runD(1) [OF run], of c]
  have loc: "K i key \<noteq> live t i key \<Longrightarrow> i = j \<and> key \<in> T" for i key
    using kv_local [of "proc x" spec a "timing_of t" j "live t"] kv_line_args [OF a] a eff f
    by (auto simp: kv_line_def local_effect_def kv_fits_def line_fits_def j_def)
  have kept: "kept s u (i, key)" if m: "\<not> dirty_cas (clients u c)" and w: "(i, key) \<in> set (cwatched (clients s c))" for i key
  proof -
    have w': "c \<in> watchers t i key" using w watch_okD(2) [OF calmD(2) [OF k]] l by (simp add: locked_def)
    have c: "\<not> dirty_cas (clients t c)" "c \<notin> \<Union> (watchers t j ` T)" using m runD(6) [OF run, of c] by simp_all
    then have "kept s t (i, key)" using l w by (simp add: locked_def)
    moreover have "live u i key = live t i key" using loc [of i key] runD(3) [OF run] c(2) w' by auto
    ultimately show ?thesis using run_conf(8) [OF run] by (intro kept_step [where t = t and u = u]) simp_all
  qed
  then have "\<forall>ik \<in> set (cwatched (clients s c)). kept s u ik" if "\<not> dirty_cas (clients u c)" using that by auto
  then show ?thesis using l ku cl runD(6) [OF run, of c] by (simp add: locked_def)
qed

lemma history_locked:
  assumes "history e C c s q u" and e: "calm_conf e" and c: "c \<in> C" and l: "locked C c s [] s"
  shows "locked C c s q u"
  using assms(1)
proof (induction rule: history.induct)
  case start
  then show ?case by (rule l)
next
  case (time q t n)
  have "\<forall>ik \<in> set (cwatched (clients s c)). kept s (t\<lparr>now := n\<rparr>) ik"
    if "\<forall>ik \<in> set (cwatched (clients s c)). kept s t ik"
    using that kept_tick [OF _ time.hyps(2)] by auto
  then show ?case using time.IH calm_tick [OF _ time.hyps(2,3)] by (simp add: locked_def)
next
  case (store q t d a x spec u)
  show ?case by (rule locked_store [OF store.IH e store.hyps(2-)])
next
  case (open_multi q t u)
  have k: "calm C t" using open_multi.IH by (simp add: locked_def)
  from multi_request [OF e k c open_multi.hyps(2)] open_multi.hyps(3)
  have "calm C u" "live u = live t" "cur_time u = cur_time t" "mstate (clients u c) = mstate (clients t c)"
    "cwatched (clients u c) = cwatched (clients t c)" "dirty_cas (clients u c) = dirty_cas (clients t c)"
    "dirty_exec (clients u c) = dirty_exec (clients t c)" "cdb (clients u c) = cdb (clients t c)" by auto
  then show ?case using open_multi.IH by (simp add: locked_def kept_def)
next
  case (queue q t a u)
  have k: "calm C t" using queue.IH by (simp add: locked_def)
  from queue_request [OF e k c queue.hyps(2,3)] queue.hyps(4)
  have u: "calm C u" "live u = live t" "clients u c = (clients t c)\<lparr>argv := a, mstate := mstate (clients t c) @ [a],
         reply := reply (clients t c) @ (if writable (clients t c) then shared_queued else [])\<rparr>" "cur_time u = cur_time t" by auto
  show ?case using queue.IH queue.hyps(3) u(1,2,4) by (simp add: locked_def kept_def u(3))
qed

subsection \<open>Commands sent one after the other\<close>

lemma pipeline_run:
  assumes e: "calm_conf e"
  shows "calm C s \<Longrightarrow> c \<in> C \<Longrightarrow> \<not> multi (clients s c) \<Longrightarrow> list_all queueable q \<Longrightarrow>
    queue_fits (timing_of s) (cdb (clients s c)) q (live s) \<Longrightarrow>
    \<exists>s'. requests e (map (Pair c) q) s = Some s' \<and> calm C s'
      \<and> (case queue_effect (timing_of s) (cdb (clients s c)) q (live s) of
          (K, n, x, T) \<Rightarrow> run c s s' K n x (\<Union> (watchers s (cdb (clients s c)) ` T)))"
proof (induction q arbitrary: s)
  case Nil
  then show ?case using run_refl [of s c] by (simp add: calm_def)
next
  case (Cons a q)
  define i where "i = cdb (clients s c)"
  obtain x and spec :: "'a spec" where l: "kv_line a x spec" "line_row a = Some x"
    using queueable_line Cons.prems(4) by fastforce
  have m: "map_of kv_specs (proc x) = Some spec" using l(1) by (simp add: kv_line_def)
  have fits: "line_fits x a (timing_of s) i (live s)" using Cons.prems(5) l(2) m by (simp add: i_def)
  obtain K n y T where eff: "spec a (timing_of s) i (live s) = (K, n, y, T)" by (metis prod.exhaust)
  obtain s1 where s1: "request e (c, a) s = Some s1" "calm C s1" "run c s s1 K n y (\<Union> (watchers s i ` T))"
    using kv_request [OF e Cons.prems(1-3) l(1)] fits eff by (auto simp: i_def)
  have same: "timing_of s1 = timing_of s" "cdb (clients s1 c) = i" "live s1 = K" "watchers s1 = watchers s"
    using run_conf(1,3,5,7,9) [OF s1(3)] runD(3) [OF s1(3)] by (simp_all add: timing_of_def i_def fun_eq_iff)
  have "\<not> multi (clients s1 c)" using same_conf_client(4) [OF runD(1) [OF s1(3)]] Cons.prems(3) by simp
  moreover have "queue_fits (timing_of s1) (cdb (clients s1 c)) q (live s1)"
    using Cons.prems(5) l(2) m eff by (simp add: same i_def)
  moreover have "list_all queueable q" using Cons.prems(4) by simp
  ultimately obtain s' where s': "requests e (map (Pair c) q) s1 = Some s'" "calm C s'"
    "case queue_effect (timing_of s) i q K of (K, n, x, T) \<Rightarrow> run c s1 s' K n x (\<Union> (watchers s i ` T))"
    using Cons.IH [OF s1(2) Cons.prems(2)] by (auto simp: same)
  have "case queue_effect (timing_of s) i (a # q) (live s) of (K, n, x, T) \<Rightarrow> run c s s' K n x (\<Union> (watchers s i ` T))"
    using s'(3) run_trans [OF s1(3)] l(2) m eff by (auto simp: image_Un split: prod.splits)
  then show ?case using s1(1) s'(1,2) by (simp add: i_def)
qed

text \<open>A command that is refused before it is run flags the transaction.\<close>

definition refused :: "string list \<Rightarrow> bool" where
  "refused a \<longleftrightarrow> \<not> strcaseeq (a ! 0) ''quit'' \<and> (case line_row a of None \<Rightarrow> True | Some x \<Rightarrow> wrong_arity x (length a))"

lemma refused_request:
  assumes e: "calm_conf e" and k: "calm C s" "c \<in> C" and m: "multi (clients s c)" and r: "refused a"
  shows "\<exists>s'. request e (c, a) s = Some s' \<and> calm C s' \<and> live s' = live s \<and> dirty s' = dirty s
    \<and> multi (clients s' c) \<and> dirty_exec (clients s' c) \<and> mstate (clients s' c) = mstate (clients s c)
    \<and> writable (clients s' c) = writable (clients s c)
    \<and> (\<exists>x. said (clients s c) (clients s' c) (error_reply x))"
proof -
  define t where "t = with_args c a s"
  define t1 where "t1 = flagTransaction c t"
  have mt: "multi (clients t c)" using m by (simp add: t_def)
  have t: "calm C t" using k by (simp add: t_def)
  have t1: "calm C t1" unfolding t1_def flagTransaction_def using mt
    by (simp add: calm_unseen [OF unseen_upds(6)] t)
  have st: "live t1 = live s" "dirty t1 = dirty s"
    using mt by (simp_all add: t1_def flagTransaction_def unseen_state [OF unseen_upds(6)] t_def)
  have cl: "clients t1 c = (clients s c)\<lparr>argv := a, dirty_exec := True\<rparr>"
    using mt by (simp add: t1_def flagTransaction_def clients_upd) (simp add: t_def with_args_def clients_upd)
  have wr: "writable (clients t1 c) = writable (clients s c)" by (simp add: cl writable_def prepareClientToWrite_def)
  have ok1: "server_ok t1" using t1 by (simp add: calm_def)
  obtain msg where req: "request e (c, a) s = Some (addReplyErrorFormat c msg t1)"
    using r e by (cases "line_row a")
      (auto simp: refused_def line_row_def request_def processCommand_def Let_def calm_conf_def t1_def t_def with_args_def clients_upd)
  obtain x where x: "addReplyErrorFormat c msg t1 = push (to c (error_reply x)) t1"
    unfolding addReplyErrorFormat_def addReplyError_def [symmetric] error_push by blast
  note run = run_reply [OF ok1, of c "error_reply x"]
  define s' where "s' = push (to c (error_reply x)) t1"
  have c': "clients s' c = (clients t1 c)\<lparr>reply := reply (clients t1 c) @ (if writable (clients t1 c) then error_reply x else [])\<rparr>"
    by (simp add: s'_def push_client)
  show ?thesis
    using req x calm_run [OF run t1] runD(3,4) [OF run] st m wr
    by (intro exI [of _ s']) (auto simp: s'_def [symmetric] c' cl said_def writable_def prepareClientToWrite_def)
qed

end
