(* ===== verification/Store_Properties.thy ===== *)
theory Store_Properties
  imports Exec_Correct Demo_Server
begin

unbundle bit_operations_syntax

declare One_nat_def [simp del]

text \<open>
  What the key-value store and its transactions promise to clients, as theorems on requests, with an instance of each.
\<close>

subsection \<open>A server for the instances\<close>

definition demo_conf :: "'z conf" where
  "demo_conf = \<lparr>commands = redisCommandTable, pick = (\<lambda>n A. Min A), rounds = 10, address = (\<lambda>x. 0), other_proc = (\<lambda>p c s. None),
     freeMemoryIfNeeded = (\<lambda>s. None), handleClientsBlockedOnLists = Some, requirepass = False, authenticated = (\<lambda>c. True),
     maxmemory = 0, stop_writes_on_bgsave_err = False, saveparamslen = 0, lastbgsave_ok = True, aof_last_write_error = None,
     repl_min_slaves_to_write = 0, repl_min_slaves_max_lag = 0, repl_good_slaves_count = 0, repl_slave_ro = True,
     repl_connected = True, repl_serve_stale_data = True, lua_timedout = False\<rparr>"

lemma calm_demo: "calm_conf demo_conf"
  by (simp add: calm_conf_def demo_conf_def)

lemma db_ok_empty: "db_ok (empty_db\<lparr>watched_keys := w\<rparr>)"
  by (simp add: db_ok_def empty_db_def)

lemma server_ok_blank: "server_ok blank_server"
  using db_ok_empty [of Map.empty] by (simp add: server_ok_def conf_ok_def patterns_safe_def blank_server_def createClient_def empty_db_def)

lemma live_blank [simp]: "live blank_server = (\<lambda>i k. None)"
  by (simp add: live_def fun_eq_iff empty_db_def)

lemma timing_blank [simp]: "timing_of blank_server = \<lparr>clock = 1000, load = False, lims = limits (blank_server :: unit server)\<rparr>"
  by (simp add: timing_of_def blank_server_def)

lemma ready_blank: "ready c blank_server"
  by (simp add: ready_def server_ok_blank published_def subscribers_def) (simp add: blank_server_def)

lemma calm_blank: "calm {0, 1} blank_server"
  using server_ok_blank ready_blank
  by (auto simp: calm_def watch_ok_def watchers_def no_blocked_def) (simp_all add: blank_server_def empty_db_def createClient_def)

text \<open>The rows of the commands of the instances, and a queue for them.\<close>

lemma lookup_SET: "lookupCommand redisCommandTable ''SET'' = Some (cmd ''set'' ''setCommand'' (-3) ''wm'' NoGetKeys 1 1 1)"
  by code_simp

lemma lookup_GET: "lookupCommand redisCommandTable ''GET'' = Some (cmd ''get'' ''getCommand'' 2 ''rF'' NoGetKeys 1 1 1)"
  by code_simp

lemma lookup_INCR: "lookupCommand redisCommandTable ''INCR'' = Some (cmd ''incr'' ''incrCommand'' 2 ''wmF'' NoGetKeys 1 1 1)"
  by code_simp

lemma demo_rows:
  "line_row (''SET'' # a) = Some (cmd ''set'' ''setCommand'' (-3) ''wm'' NoGetKeys 1 1 1)"
  "line_row (''GET'' # a) = Some (cmd ''get'' ''getCommand'' 2 ''rF'' NoGetKeys 1 1 1)"
  "line_row (''INCR'' # a) = Some (cmd ''incr'' ''incrCommand'' 2 ''wmF'' NoGetKeys 1 1 1)"
  by (simp_all add: line_row_def lookup_SET lookup_GET lookup_INCR)

lemma cmd_sel: "proc (cmd n p a f g x y z) = p" "arity (cmd n p a f g x y z) = a" "sflags (cmd n p a f g x y z) = f"
  by (simp_all add: cmd_def)

lemmas demo_simps = demo_rows cmd_sel queueable_def kv_names_def wrong_arity_def arg_ok_def
lemmas effect_simps = demo_rows cmd_sel line_fits_def kv_arith_def kv_specs_def no_overflow_def set_spec_def expire_request_def
  set_effect_def on_key_def reading_def

lemma demo_values: "tryObjectEncoding ''7'' = (StrInt 7 :: 'z oval)" "show_int 8 = ''8''" "show_int 1 = ''1''"
proof -
  have "string2l ''7'' = Some 7" by code_simp
  then show "tryObjectEncoding ''7'' = (StrInt 7 :: 'z oval)" by (simp add: tryObjectEncoding_def)
  show "show_int 8 = ''8''" "show_int 1 = ''1''" by code_simp+
qed

lemma incr_seven:
  "incr_effect (ks_upd ks i k (Some (StrInt 7, t))) i k 1 = (ks_upd (ks_upd ks i k (Some (StrInt 7, t))) i k (Some (StrInt 8, t)), 1, '':8'' @ CRLF)"
  by (simp add: incr_effect_def is_string_def num_val_def entry_ttl_def ks_upd_apply in_ll_def int_reply_def demo_values)

definition demo_queue :: "string list list" where
  "demo_queue = [[''SET'', ''k'', ''7''], [''INCR'', ''k''], [''GET'', ''k'']]"

lemma demo_queueable: "list_all queueable demo_queue"
  by (simp add: demo_queue_def demo_simps)

lemma demo_fits: "queue_fits t 0 demo_queue ((\<lambda>i k. None) :: 'z keyspace)"
  by (simp add: demo_queue_def effect_simps split: prod.split option.split)

subsection \<open>The store\<close>

text \<open>C1: a client that sends any sequence of commands of the store (32 handlers of strings, bits, keys and expires, found through
  the command table) gets the answers of the abstract store, one after the other, and leaves its keyspace: the
  server implements a map from keys to values with times of expiry. No command of the sequence can
  abort the server, the count of changes is that of the store, and just the clients that watch a modified key are marked.
  The conditions on the arguments exclude the computations that overflow 64 bits.\<close>
theorem pipeline_refines_store:
  assumes "calm_conf e" "calm C s" "c \<in> C" "\<not> multi (clients s c)" "list_all queueable q"
    "queue_fits (timing_of s) (cdb (clients s c)) q (live s)"
  shows "\<exists>s'. requests e (map (Pair c) q) s = Some s' \<and> calm C s'
    \<and> (case queue_effect (timing_of s) (cdb (clients s c)) q (live s) of (K, n, x, T) \<Rightarrow>
         live s' = K \<and> dirty s' = dirty s + n \<and> said (clients s c) (clients s' c) x
         \<and> (\<forall>d. dirty_cas (clients s' d) \<longleftrightarrow> dirty_cas (clients s d) \<or> d \<in> \<Union> (watchers s (cdb (clients s c)) ` T)))"
proof -
  obtain s' where s': "requests e (map (Pair c) q) s = Some s'" "calm C s'"
    "case queue_effect (timing_of s) (cdb (clients s c)) q (live s) of
       (K, n, x, T) \<Rightarrow> run c s s' K n x (\<Union> (watchers s (cdb (clients s c)) ` T))"
    using pipeline_run [OF assms] by (elim exE conjE)
  obtain K n x T where eff: "queue_effect (timing_of s) (cdb (clients s c)) q (live s) = (K, n, x, T)" by (metis prod.exhaust)
  then have "run c s s' K n x (\<Union> (watchers s (cdb (clients s c)) ` T))" using s'(3) by simp
  note r = runD(3,4,5,6) [OF this]
  show ?thesis by (rule exI [of _ s']) (simp add: eff said_def s'(1,2) r)
qed

theorem pipeline_refines_store_witness:
  "\<exists>s'. requests demo_conf [(0, [''SET'', ''k'', ''7'']), (0, [''INCR'', ''k'']), (0, [''GET'', ''k''])]
       (blank_server :: unit server) = Some s'
    \<and> live s' 0 ''k'' = Some (StrInt 8, None) \<and> reply (clients s' 0) = ''+OK'' @ CRLF @ '':8'' @ CRLF @ ''$1'' @ CRLF @ ''8'' @ CRLF"
proof -
  have q: "map (Pair 0) demo_queue = [(0 :: nat, [''SET'', ''k'', ''7'']), (0, [''INCR'', ''k'']), (0, [''GET'', ''k''])]"
    by (simp add: demo_queue_def)
  obtain K n x T where eff: "queue_effect (timing_of blank_server) 0 demo_queue (live (blank_server :: unit server)) = (K, n, x, T)"
    by (metis prod.exhaust)
  then have kx: "K 0 ''k'' = Some (StrInt 8, None)" "x = ''+OK'' @ CRLF @ '':8'' @ CRLF @ ''$1'' @ CRLF @ ''8'' @ CRLF"
    by (auto simp: demo_queue_def effect_simps demo_values incr_seven ks_upd_apply get_reply_def no_flags_def shared_ok_def bulk_def)
  obtain s' where s': "requests demo_conf (map (Pair 0) demo_queue) (blank_server :: unit server) = Some s'"
    "live s' = K" "said (clients (blank_server :: unit server) 0) (clients s' 0) x"
    using pipeline_refines_store [where s = "blank_server :: unit server" and e = demo_conf and C = "{0, 1}" and c = 0 and q = demo_queue]
      calm_blank demo_queueable eff by (simp add: demo_fits calm_demo) blast
  show ?thesis
    by (rule exI [of _ s'], intro conjI, rule s'(1) [unfolded q]) (use s'(2,3) kx in \<open>simp_all add: said_def\<close>)
qed

text \<open>C12: what was set is read back, byte for byte, whatever the encoding chosen for the value: \<open>SET\<close> followed by \<open>GET\<close> answers
  \<open>+OK\<close> and the value as a bulk string, for every key and every value of a size the protocol allows.\<close>
theorem set_get_roundtrip:
  assumes "calm_conf e" "calm C s" "c \<in> C" "\<not> multi (clients s c)" "arg_ok k" "arg_ok v"
  shows "\<exists>s'. requests e [(c, [''SET'', k, v]), (c, [''GET'', k])] s = Some s'
    \<and> said (clients s c) (clients s' c) (shared_ok @ bulk v)"
proof -
  define q where "q = [[''SET'', k, v], [''GET'', k]]"
  have "list_all queueable q" using assms(5,6) by (simp add: q_def demo_simps)
  moreover have "queue_fits (timing_of s) (cdb (clients s c)) q (live s)"
    by (simp add: q_def effect_simps split: prod.split option.split)
  moreover have "queue_effect (timing_of s) (cdb (clients s c)) q (live s)
      = (ks_upd (live s) (cdb (clients s c)) k (Some (tryObjectEncoding v, None)), 1, shared_ok @ bulk v, {k})"
    by (simp add: q_def effect_simps no_flags_def get_reply_def ks_upd_apply)
  ultimately show ?thesis using pipeline_run [OF assms(1-4), of q] by (auto simp: q_def said_def runD)
qed

theorem set_get_roundtrip_witness:
  "\<exists>s'. requests demo_conf [(1, [''SET'', ''n'', ''-042'']), (1, [''GET'', ''n''])] (blank_server :: unit server) = Some s'
    \<and> said createClient (clients s' 1) (shared_ok @ bulk ''-042'')"
  using set_get_roundtrip [OF calm_demo calm_blank, of 1 "''n''" "''-042''"] by (simp add: arg_ok_def)

subsection \<open>Transactions\<close>


text \<open>The server of the instance: client 0 of the blank server watches a key.\<close>

definition watched_server :: "'z server" where
  "watched_server = watchForKey 0 ''k'' blank_server"

lemma watched_server_simps:
  "cwatched (clients watched_server 0) = [(0, ''k'')]" "watched_server = upd_client 0 (\<lambda>cl. cl\<lparr>cwatched := [(0, ''k'')]\<rparr>)
     (upd_db 0 (\<lambda>db. db\<lparr>watched_keys := [''k'' \<mapsto> [0]]\<rparr>) blank_server)"
  by (simp_all add: watched_server_def watchForKey_def Let_def empty_db_def clients_upd) (simp add: upd_client_def upd_db_def empty_db_def)

lemma locked_watched: "locked {0, 1} 0 (watched_server :: 'z server) [] watched_server"
proof -
  note eq = watched_server_simps(2)
  have w: "watch_ok (watched_server :: 'z server)"
    unfolding watched_server_def
  proof (rule watchForKey_ok(1))
    show "watch_ok (blank_server :: 'z server)" by (rule calmD(2) [OF calm_blank])
    show "0 \<in> set (client_list (blank_server :: 'z server))" by (simp add: blank_server_def)
  qed
  have ok: "server_ok (watched_server :: 'z server)"
    by (auto simp: server_ok_def conf_ok_def patterns_safe_def eq clients_upd upd_db_dbs db_ok_empty)
       (simp_all add: blank_server_def createClient_def db_ok_def empty_db_def)
  have p: "published (watched_server :: 'z server) = published (blank_server :: 'z server)"
    by (rule published_cong) (simp_all add: eq)
  have f: "\<not> is_slave (watched_server :: 'z server)" "\<not> loading (watched_server :: 'z server)" "client_list (watched_server :: 'z server) = [0, 1]"
    "srv_ready_keys (watched_server :: 'z server) = []" by (simp_all add: eq) (simp_all add: blank_server_def)
  have r: "ready d (watched_server :: 'z server)" for d
  proof -
    have "ready d (blank_server :: 'z server)" by (rule ready_blank)
    then show ?thesis by (simp add: ready_def ok p f)
  qed
  have "no_blocked (watched_server :: 'z server)" "\<not> pubsub_flag (clients (watched_server :: 'z server) d)" for d
    by (auto simp: no_blocked_def eq upd_db_dbs clients_upd empty_db_def) (simp_all add: createClient_def)
  then have "calm {0, 1} (watched_server :: 'z server)" using w ok r by (simp add: calm_def f)
  then show ?thesis by (simp add: locked_def kept_def) (simp add: eq clients_upd, simp add: createClient_def)
qed


text \<open>C6: a transaction is atomic: sent through \<open>MULTI\<close> and \<open>EXEC\<close>, the queue leaves the keyspace and gives the replies that
  its commands would have given when sent one after the other on the same state, with nobody in between; the reply of
  \<open>EXEC\<close> is the array of those replies.\<close>
theorem exec_equals_pipeline:
  assumes "calm_conf e" "calm C s" "c \<in> C" "multi (clients s c)" "\<not> dirty_cas (clients s c)" "\<not> dirty_exec (clients s c)"
    "list_all queueable (mstate (clients s c))" "int (length (mstate (clients s c))) \<le> LLONG_MAX"
    "queue_fits (timing_of s) (cdb (clients s c)) (mstate (clients s c)) (live s)"
  shows "\<exists>s' t' x. request e (c, [''EXEC'']) s = Some s'
    \<and> requests e (map (Pair c) (mstate (clients s c))) (upd_client c (\<lambda>cl. cl\<lparr>multi := False\<rparr>) s) = Some t'
    \<and> live s' = live t' \<and> said (clients s c) (clients t' c) x
    \<and> said (clients s c) (clients s' c) (''*'' @ show_int (int (length (mstate (clients s c)))) @ CRLF @ x)"
proof -
  let ?q = "mstate (clients s c)"
  define t where "t = upd_client c (\<lambda>cl. cl\<lparr>multi := False\<rparr>) s"
  note u = unseen_state [OF unseen_upds(5) [where x = False], where c = c and s = s, folded t_def]
  have t: "calm C t" "\<not> multi (clients t c)"
    using assms(2) by (simp_all add: t_def calm_unseen [OF unseen_upds(5)] clients_upd)
  have cl: "reply (clients t c) = reply (clients s c)" "writable (clients t c) = writable (clients s c)"
    by (simp_all add: t_def clients_upd writable_def prepareClientToWrite_def)
  obtain K n x T where eff: "queue_effect (timing_of s) (cdb (clients s c)) ?q (live s) = (K, n, x, T)" by (metis prod.exhaust)
  obtain t' where t': "requests e (map (Pair c) ?q) t = Some t'" "run c t t' K n x (\<Union> (watchers t (cdb (clients t c)) ` T))"
    using pipeline_run [OF assms(1) t(1) assms(3) t(2) assms(7)] assms(9) eff by (auto simp: u)
  obtain s' where s': "request e (c, [''EXEC'']) s = Some s'" "live s' = K"
    "said (clients s c) (clients s' c) (''*'' @ show_int (int (length ?q)) @ CRLF @ x)"
    using exec_runs [OF assms(1-9)] eff by auto
  have "live t' = K" "said (clients s c) (clients t' c) x"
    using runD(3,5) [OF t'(2)] by (simp_all add: said_def cl)
  then show ?thesis using s' t'(1) by (auto simp: t_def)
qed

text \<open>Client 0 of the blank server with a transaction of three commands.\<close>

definition queued_server :: "'z server" where
  "queued_server = upd_client 0 (\<lambda>cl. cl\<lparr>mstate := demo_queue, multi := True, dirty_cas := False, dirty_exec := False\<rparr>) blank_server"

lemma queued_server_simps:
  "calm {0, 1} queued_server" "multi (clients queued_server 0)" "\<not> dirty_cas (clients queued_server 0)"
  "\<not> dirty_exec (clients queued_server 0)" "mstate (clients queued_server 0) = demo_queue" "cdb (clients queued_server 0) = 0"
  "live queued_server = (\<lambda>i k. None)" "timing_of queued_server = \<lparr>clock = 1000, load = False, lims = limits (blank_server :: unit server)\<rparr>"
  "reply (clients queued_server 0) = []" "writable (clients queued_server 0)"
  using calm_blank
  by (simp_all add: queued_server_def calm_unseen [OF unseen_upds(7)] unseen_state [OF unseen_upds(7)] clients_upd)
     (simp_all add: createClient_def writable_def prepareClientToWrite_def)

theorem exec_equals_pipeline_witness:
  "\<exists>s' t' x. request demo_conf (0, [''EXEC'']) (queued_server :: unit server) = Some s'
    \<and> requests demo_conf (map (Pair 0) demo_queue) (upd_client 0 (\<lambda>cl. cl\<lparr>multi := False\<rparr>) queued_server) = Some t'
    \<and> live s' = live t' \<and> reply (clients t' 0) = x \<and> reply (clients s' 0) = ''*'' @ show_int 3 @ CRLF @ x"
proof -
  note q = queued_server_simps
  have len: "int (length demo_queue) = 3" by (simp add: demo_queue_def)
  obtain s' t' x where r: "request demo_conf (0, [''EXEC'']) (queued_server :: unit server) = Some s'"
    "requests demo_conf (map (Pair 0) demo_queue) (upd_client 0 (\<lambda>cl. cl\<lparr>multi := False\<rparr>) queued_server) = Some t'"
    "live s' = live t'" "said (clients (queued_server :: unit server) 0) (clients t' 0) x"
    "said (clients (queued_server :: unit server) 0) (clients s' 0) (''*'' @ show_int 3 @ CRLF @ x)"
    using exec_equals_pipeline [where s = "queued_server :: unit server" and e = demo_conf and C = "{0, 1}" and c = 0]
    by (auto simp: calm_demo q demo_queueable demo_fits len)
  then show ?thesis by (intro exI conjI) (auto simp: said_def q)
qed

lemma queue_requests:
  assumes e: "calm_conf e"
  shows "calm C s \<Longrightarrow> c \<in> C \<Longrightarrow> multi (clients s c) \<Longrightarrow> list_all queueable q \<Longrightarrow>
    \<exists>s'. requests e (map (Pair c) q) s = Some s' \<and> calm C s' \<and> live s' = live s \<and> dirty s' = dirty s \<and> multi (clients s' c)
      \<and> dirty_exec (clients s' c) = dirty_exec (clients s c) \<and> writable (clients s' c) = writable (clients s c)
      \<and> said (clients s c) (clients s' c) (concat (replicate (length q) shared_queued))"
proof (induction q arbitrary: s)
  case Nil
  then show ?case by (simp add: said_def)
next
  case (Cons a q)
  have a: "queueable a" using Cons.prems(4) by simp
  obtain s1 where s1: "request e (c, a) s = Some s1" "calm C s1" "live s1 = live s" "dirty s1 = dirty s"
    "clients s1 c = (clients s c)\<lparr>argv := a, mstate := mstate (clients s c) @ [a],
         reply := reply (clients s c) @ (if writable (clients s c) then shared_queued else [])\<rparr>"
    using queue_request [OF e Cons.prems(1-3) a] by blast
  have cl: "multi (clients s1 c)" "dirty_exec (clients s1 c) = dirty_exec (clients s c)"
    "writable (clients s1 c) = writable (clients s c)" "reply (clients s1 c) = reply (clients s c) @ (if writable (clients s c) then shared_queued else [])"
    using Cons.prems(3) by (simp_all add: s1(5) writable_def prepareClientToWrite_def)
  obtain s' where "requests e (map (Pair c) q) s1 = Some s'" "calm C s'" "live s' = live s1" "dirty s' = dirty s1"
    "multi (clients s' c)" "dirty_exec (clients s' c) = dirty_exec (clients s1 c)" "writable (clients s' c) = writable (clients s1 c)"
    "said (clients s1 c) (clients s' c) (concat (replicate (length q) shared_queued))"
    using Cons.IH [OF s1(2) Cons.prems(2) cl(1)] Cons.prems(4) by auto
  then show ?case using s1(1,3,4) cl by (simp add: said_def)
qed

lemma requests_append: "requests e (rs @ rs') s = Option.bind (requests e rs s) (requests e rs')"
  by (induction rs arbitrary: s) (auto split: Option.bind_splits)

text \<open>C7: an error while a transaction is queued makes \<open>EXEC\<close> fail: after a command that is unknown or has the wrong number of
  arguments, whatever well-formed commands follow, \<open>EXEC\<close> answers the error \<open>EXECABORT\<close>, runs nothing and ends the
  transaction.\<close>
theorem queue_error_aborts:
  assumes "calm_conf e" "calm C s" "c \<in> C" "multi (clients s c)" "refused a" "list_all queueable q"
  shows "\<exists>s' x. requests e ((c, a) # map (Pair c) q @ [(c, [''EXEC''])]) s = Some s' \<and> live s' = live s \<and> dirty s' = dirty s
    \<and> ended (clients s' c)
    \<and> said (clients s c) (clients s' c) (error_reply x @ concat (replicate (length q) shared_queued) @ shared_execaborterr)"
proof -
  obtain s1 x where s1: "request e (c, a) s = Some s1" "calm C s1" "live s1 = live s" "dirty s1 = dirty s" "multi (clients s1 c)"
    "dirty_exec (clients s1 c)" "writable (clients s1 c) = writable (clients s c)" "said (clients s c) (clients s1 c) (error_reply x)"
    using refused_request [OF assms(1-5)] by blast
  obtain s2 where s2: "requests e (map (Pair c) q) s1 = Some s2" "calm C s2" "live s2 = live s" "dirty s2 = dirty s" "multi (clients s2 c)"
    "dirty_exec (clients s2 c)" "writable (clients s2 c) = writable (clients s c)"
    "said (clients s1 c) (clients s2 c) (concat (replicate (length q) shared_queued))"
    using queue_requests [OF assms(1) s1(2) assms(3) s1(5) assms(6)] s1(3,4,6,7) by auto
  obtain s' where "request e (c, [''EXEC'']) s2 = Some s'" "live s' = live s" "dirty s' = dirty s" "ended (clients s' c)"
    "said (clients s2 c) (clients s' c) shared_execaborterr"
    using exec_abort [OF assms(1) s2(2) assms(3) s2(5)] s2(3,4,6) by auto
  then show ?thesis
    using s1(1,7,8) s2(1,7,8) by (intro exI [of _ s'] exI [of _ x]) (simp add: requests_append said_def)
qed

theorem queue_error_aborts_witness:
  "\<exists>s' x. requests demo_conf [(0, [''SET'']), (0, [''GET'', ''k'']), (0, [''EXEC''])] (queued_server :: unit server) = Some s'
    \<and> live s' = (\<lambda>i k. None) \<and> reply (clients s' 0) = error_reply x @ shared_queued @ shared_execaborterr"
proof -
  note q = queued_server_simps
  have r: "refused [''SET'']" by (simp add: refused_def demo_rows wrong_arity_def cmd_sel) code_simp
  have g: "list_all queueable [[''GET'', ''k'']]" by (simp add: demo_simps)
  show ?thesis
    using queue_error_aborts [where s = "queued_server :: unit server" and e = demo_conf and C = "{0, 1}" and c = 0
      and a = "[''SET'']" and q = "[[''GET'', ''k'']]"] r g
    by (auto simp: calm_demo q said_def)
qed

end
