(* ===== verification/Keyspace_Properties.thy ===== *)
theory Keyspace_Properties
  imports Store_Properties
begin

unbundle bit_operations_syntax

declare One_nat_def [simp del]

text \<open>
  What the keyspace promises: well-typed databases, deletion of expired keys at their next access, the
  enumeration of keys, random keys, flushing, and the two tables of watched keys.
\<close>

subsection \<open>Well-typed databases\<close>

text \<open>A sequence of command lines of any clients that can run on the states it meets.\<close>

fun script_fits :: "'z conf \<Rightarrow> nat set \<Rightarrow> (nat \<times> string list) list \<Rightarrow> 'z server \<Rightarrow> bool" where
  "script_fits e C [] s = True"
| "script_fits e C ((d, a) # rs) s =
     (d \<in> C \<and> \<not> multi (clients s d) \<and> queueable a \<and> queue_fits (timing_of s) (cdb (clients s d)) [a] (live s)
      \<and> (case request e (d, a) s of None \<Rightarrow> True | Some s1 \<Rightarrow> script_fits e C rs s1))"

lemma script_run:
  assumes e: "calm_conf e"
  shows "calm C s \<Longrightarrow> script_fits e C rs s \<Longrightarrow>
    \<exists>s'. requests e rs s = Some s' \<and> calm C s' \<and> dbnum s' = dbnum s \<and> (\<forall>d. cdb (clients s' d) = cdb (clients s d))"
proof (induction rs arbitrary: s)
  case (Cons r rs)
  obtain d a where r: "r = (d, a)" by force
  have d: "d \<in> C" "\<not> multi (clients s d)" "list_all queueable [a]" "queue_fits (timing_of s) (cdb (clients s d)) [a] (live s)"
    using Cons.prems(2) by (simp_all add: r)
  obtain K n x T where eff: "queue_effect (timing_of s) (cdb (clients s d)) [a] (live s) = (K, n, x, T)" by (metis prod.exhaust)
  obtain s1 where s1: "request e (d, a) s = Some s1" "calm C s1" "run d s s1 K n x (\<Union> (watchers s (cdb (clients s d)) ` T))"
    using pipeline_run [OF e Cons.prems(1) d] unfolding eff by (auto split: Option.bind_splits)
  have "script_fits e C rs s1" using Cons.prems(2) by (simp add: r s1(1))
  from Cons.IH [OF s1(2) this] show ?case
    using s1(1) run_conf(1,6) [OF s1(3)] by (auto simp: r)
qed simp



subsection \<open>Expiry at access\<close>

text \<open>C9: a master deletes a key whose time has passed at its next access: the key leaves both tables, no other key changes, and the
  deletion is sent as \<open>DEL\<close> to the append only file, when it is on, and to the slaves. A key that is not
  expired, or any key on a slave, is left alone, and the slave still reports that the time has passed.\<close>
theorem expiry_at_access:
  assumes "server_ok s" "int i \<le> LLONG_MAX"
  shows "\<exists>s'. expireIfNeeded i k s = Some (s', expired s i k)
    \<and> (if expired s i k \<and> \<not> is_slave s
       then ddict (dbs s' i) k = None \<and> expires (dbs s' i) k = None
         \<and> (\<forall>j l. (j, l) \<noteq> (i, k) \<longrightarrow> ddict (dbs s' j) l = ddict (dbs s j) l \<and> expires (dbs s' j) l = expires (dbs s j) l)
         \<and> aof_log s' = aof_log s @ (if aof_on s then [(i, [''DEL'', k])] else []) \<and> slave_log s' = slave_log s @ [(i, [''DEL'', k])]
       else s' = s)"
proof -
  have logs: "aof_log (fst (dbDelete i k (expire_log i k s))) = aof_log s @ (if aof_on s then [(i, [''DEL'', k])] else [])"
    "slave_log (fst (dbDelete i k (expire_log i k s))) = slave_log s @ [(i, [''DEL'', k])]"
    by (simp_all add: dbDelete_def set_ddict_def set_expires_def expire_log_def propagateExpire_def Let_def
      feedAppendOnlyFile_def replicationFeedSlaves_def)
  show ?thesis
    using expire_eq [OF assms, of k] logs
    by (intro exI [of _ "purge i k s"]) (auto simp: purge_def dbDelete_def dbs_set)
qed

definition stale_server :: "'z server" where
  "stale_server = upd_db 0 (\<lambda>db. db\<lparr>ddict := [''k'' \<mapsto> \<lparr>oval = StrInt 7, lru = 0\<rparr>], expires := [''k'' \<mapsto> 999]\<rparr>) blank_server"

lemma stale_server_simps:
  "server_ok stale_server" "expired stale_server 0 ''k''" "\<not> is_slave stale_server" "slave_log stale_server = []"
  by (simp_all add: stale_server_def upd_db_dbs server_ok_def conf_ok_def patterns_safe_def db_ok_def in_ll_def arg_ok_def
      expired_def cur_time_def empty_db_def) (simp_all add: blank_server_def createClient_def)

theorem expiry_at_access_witness:
  "\<exists>s'. expireIfNeeded 0 ''k'' (stale_server :: unit server) = Some (s', True) \<and> ddict (dbs s' 0) ''k'' = None
    \<and> slave_log s' = [(0, [''DEL'', ''k''])]"
  using expiry_at_access [where s = "stale_server :: unit server" and i = 0 and k = "''k''"]
  by (auto simp: stale_server_simps)

subsection \<open>Enumerating keys\<close>

text \<open>C14: \<open>KEYS\<close> answers exactly the keys of the selected database that are not expired and match the pattern, each once, with their
  number in front, in the order of the table; expired keys it meets are deleted, which nobody can see.\<close>
theorem keys_exact:
  assumes "ready c s" "cstr (arg c 1 s) = ''*'' \<or> safe_pattern (arg c 1 s)" "\<not> close_after_reply (clients s c)"
    "\<And>A. finite A \<Longrightarrow> distinct (order s A) \<and> set (order s A) = A"
  shows "\<exists>s' ks. keysCommand c s = Some s' \<and> live s' = live s \<and> distinct ks
    \<and> set ks = {k. live s (cdb (clients s c)) k \<noteq> None \<and> (cstr (arg c 1 s) = ''*'' \<or> stringmatchlen (arg c 1 s) k False = Some True)}
    \<and> said (clients s c) (clients s' c) (''*'' @ show_int (int (length ks)) @ CRLF @ concat (map bulk ks))"
proof -
  define i where "i = cdb (clients s c)"
  define ks where "ks = selected (live s) i (arg c 1 s) (order s (dom (ddict (dbs s i))))"
  obtain s' where s': "keysCommand c s = Some s'" "run c s s' (live s) 0 (keys_reply s i (arg c 1 s)) {}"
    using keys_run [OF assms(1-4)] by (auto simp: i_def)
  have fin: "finite (dom (ddict (dbs s i)))" using server_ok_db [OF readyD(1) [OF assms(1)]] by (simp add: db_ok_def)
  have sub: "live s i k \<noteq> None \<Longrightarrow> k \<in> dom (ddict (dbs s i))" for k by (auto simp: live_def split: option.splits)
  have "distinct ks" "set ks = {k. live s i k \<noteq> None \<and> (cstr (arg c 1 s) = ''*'' \<or> stringmatchlen (arg c 1 s) k False = Some True)}"
    using assms(4) [OF fin] sub by (auto simp: ks_def selected_def matches_def)
  then show ?thesis
    using s'(1) runD(3,5) [OF s'(2)] by (intro exI [of _ s'] exI [of _ ks]) (simp add: i_def ks_def keys_reply_def said_def Let_def)
qed

theorem keys_exact_witness:
  "\<exists>s' ks. keysCommand 0 (with_argv 0 [''KEYS'', ''*''] (blank_server :: unit server)) = Some s' \<and> ks = ([] :: string list)
    \<and> reply (clients s' 0) = ''*0'' @ CRLF"
proof -
  let ?s = "with_argv 0 [''KEYS'', ''*''] (blank_server :: unit server)"
  have r: "ready 0 ?s" "live ?s = (\<lambda>i k. None)"
    using ready_blank by (simp_all add: with_argv_def unseen_state [OF unseen_upds(2)])
  have o: "\<And>A :: string set. finite A \<Longrightarrow> distinct (order ?s A) \<and> set (order ?s A) = A"
    by (simp add: with_argv_def)
  have a: "cstr (arg 0 1 ?s) = ''*''" by (simp add: with_argv_def arg_def clients_upd) code_simp
  have c: "\<not> close_after_reply (clients ?s 0)" "writable (clients ?s 0)" "reply (clients ?s 0) = []"
    by (simp_all add: with_argv_def clients_upd createClient_def writable_def prepareClientToWrite_def)
  have z: "show_int 0 = ''0''" by code_simp
  show ?thesis using keys_exact [OF r(1) _ c(1) o] a by (auto simp: r(2) said_def c z)
qed

text \<open>C15: \<open>RANDOMKEY\<close> on a master ends within as many rounds as there are keys, because each round that does not answer deletes an
  expired key; it answers a key that is alive, or null when there is none, and changes nothing that can be seen.\<close>
theorem randomkey_ends:
  assumes "fair_pick draw" "ready c s" "card (dom (ddict (dbs s (cdb (clients s c))))) < n"
  shows "\<exists>s'. randomkeyCommand draw n c s = Some s' \<and> live s' = live s
    \<and> (if \<forall>k. live s (cdb (clients s c)) k = None then said (clients s c) (clients s' c) shared_nullbulk
       else \<exists>k. live s (cdb (clients s c)) k \<noteq> None \<and> said (clients s c) (clients s' c) (bulk k))"
proof -
  obtain s' k where s': "randomkeyCommand draw n c s = Some s'"
    "run c s s' (live s) 0 (case k of None \<Rightarrow> shared_nullbulk | Some k \<Rightarrow> bulk k) {}"
    "case k of None \<Rightarrow> \<forall>k. live s (cdb (clients s c)) k = None | Some k \<Rightarrow> live s (cdb (clients s c)) k \<noteq> None"
    using random_run [OF assms] by blast
  show ?thesis
    using s'(1,3) runD(3,5) [OF s'(2)] by (intro exI [of _ s']) (cases k, auto simp: said_def)
qed

theorem randomkey_ends_witness:
  "\<exists>s'. randomkeyCommand (\<lambda>n A. Min A) 5 0 (blank_server :: unit server) = Some s' \<and> reply (clients s' 0) = shared_nullbulk"
proof -
  have p: "fair_pick (\<lambda>n A. Min A)" by (simp add: fair_pick_def)
  have n: "card (dom (ddict (dbs (blank_server :: unit server) (cdb (clients (blank_server :: unit server) 0))))) < 5"
    by (simp add: empty_db_def)
  show ?thesis using randomkey_ends [OF p ready_blank n] by (auto simp: said_def)
qed

subsection \<open>Flushing and watching\<close>

text \<open>C16: \<open>FLUSHDB\<close> empties the selected database and only that one, counts the keys it held, and marks exactly the clients that watch a
  key which was in the table; clients that watch keys that are not there are left alone.\<close>
theorem flushdb_marks:
  assumes "ready c s" "watch_ok s"
  shows "live (flushdbCommand c s) = (live s)(cdb (clients s c) := Map.empty)
    \<and> dirty (flushdbCommand c s) = dirty s + int (card (dom (ddict (dbs s (cdb (clients s c))))))
    \<and> said (clients s c) (clients (flushdbCommand c s) c) shared_ok
    \<and> (\<forall>d. dirty_cas (clients (flushdbCommand c s) d) \<longleftrightarrow> dirty_cas (clients s d)
        \<or> (\<exists>k. (cdb (clients s c), k) \<in> set (cwatched (clients s d)) \<and> ddict (dbs s (cdb (clients s c))) k \<noteq> None))"
proof -
  note r = flushdb_run [OF assms]
  have "dirty_cas (clients (flushdbCommand c s) d) \<longleftrightarrow> dirty_cas (clients s d)
      \<or> (\<exists>k. (cdb (clients s c), k) \<in> set (cwatched (clients s d)) \<and> ddict (dbs s (cdb (clients s c))) k \<noteq> None)" for d
    unfolding runD(6) [OF r] using watch_okD(2) [OF assms(2), of d] by blast
  then show ?thesis using runD(3,4,5) [OF r] by (simp add: said_def)
qed

lemma watch_state:
  "ddict (dbs (watchForKey c k s) i) = ddict (dbs s i)" "server_ok (watchForKey c k s) = server_ok s"
  "ready d (watchForKey c k s) = ready d s" "dirty_cas (clients (watchForKey c k s) d) = dirty_cas (clients s d)"
proof -
  have e: "expires (dbs (watchForKey c k s) i) = expires (dbs s i)" "cdb (clients (watchForKey c k s) d) = cdb (clients s d)"
    "pubsub_patterns (watchForKey c k s) = pubsub_patterns s" "dbnum (watchForKey c k s) = dbnum s" "now (watchForKey c k s) = now s"
    "lua_time (watchForKey c k s) = lua_time s" "is_slave (watchForKey c k s) = is_slave s"
    "pubsub_channels (watchForKey c k s) = pubsub_channels s" "limits (watchForKey c k s) = limits s" for i d
    by (simp_all add: watchForKey_def Let_def clients_upd upd_db_dbs)
  show d: "ddict (dbs (watchForKey c k s) i) = ddict (dbs s i)" for i by (simp add: watchForKey_def Let_def upd_db_dbs)
  show ok: "server_ok (watchForKey c k s) = server_ok s"
    by (simp add: server_ok_def conf_ok_def patterns_safe_def db_ok_def e d)
  have "published (watchForKey c k s) = published s" by (rule published_cong) (simp_all add: e)
  then show "ready d (watchForKey c k s) = ready d s" by (simp add: ready_def ok e)
  show "dirty_cas (clients (watchForKey c k s) d) = dirty_cas (clients s d)" by (simp add: watchForKey_def Let_def clients_upd)
qed

definition watched_stale :: "'z server" where
  "watched_stale = watchForKey 1 ''k'' (watchForKey 0 ''x'' stale_server)"

text \<open>A sequence of \<open>WATCH key\<close> and \<open>UNWATCH\<close> of any clients, and the set of watched keys it should leave.\<close>

fun watch_script :: "(nat \<times> string option) list \<Rightarrow> 'z server \<Rightarrow> 'z server option" where
  "watch_script [] s = Some s"
| "watch_script ((c, Some k) # ops) s = watch_script ops (watchForKey c k s)"
| "watch_script ((c, None) # ops) s = do { s1 \<leftarrow> unwatchAllKeys c s; watch_script ops s1 }"

fun watch_set :: "(nat \<Rightarrow> nat) \<Rightarrow> (nat \<times> string option) list \<Rightarrow> (nat \<times> nat \<times> string) set \<Rightarrow> (nat \<times> nat \<times> string) set" where
  "watch_set db [] W = W"
| "watch_set db ((c, Some k) # ops) W = watch_set db ops (insert (c, db c, k) W)"
| "watch_set db ((c, None) # ops) W = watch_set db ops {w \<in> W. fst w \<noteq> c}"

definition watch_pairs :: "'z server \<Rightarrow> (nat \<times> nat \<times> string) set" where
  "watch_pairs s = {(c, i, k). (i, k) \<in> set (cwatched (clients s c))}"

lemma watch_script_ok:
  "watch_ok s \<Longrightarrow> \<forall>(c, k) \<in> set ops. c \<in> set (client_list s) \<Longrightarrow>
    \<exists>s'. watch_script ops s = Some s' \<and> watch_ok s' \<and> watch_pairs s' = watch_set (\<lambda>c. cdb (clients s c)) ops (watch_pairs s)"
proof (induction ops arbitrary: s)
  case (Cons op ops)
  obtain c k where op: "op = (c, k)" by force
  have c: "c \<in> set (client_list s)" using Cons.prems(2) by (simp add: op)
  show ?case
  proof (cases k)
    case None
    obtain s1 where s1: "unwatchAllKeys c s = Some s1" "unwatched c s s1" using unwatch_ok [OF Cons.prems(1)] by blast
    note u = unwatched_state(7,8,12) [OF s1(2)]
    have "watch_pairs s1 = {w \<in> watch_pairs s. fst w \<noteq> c}" by (auto simp: watch_pairs_def u(3) split: if_splits)
    moreover have "cdb (clients s1 d) = cdb (clients s d)" for d by (simp add: u(3))
    ultimately show ?thesis using Cons.IH [OF u(1)] Cons.prems(2) s1(1) by (simp add: op None u(2))
  next
    case (Some key)
    note w = watchForKey_ok [OF Cons.prems(1) c, of key]
    have "watch_pairs (watchForKey c key s) = insert (c, cdb (clients s c), key) (watch_pairs s)"
      by (auto simp: watch_pairs_def w(2) split: if_splits)
    then show ?thesis using Cons.IH [OF w(1)] Cons.prems(2) by (simp add: op Some w(3,4))
  qed
qed simp

text \<open>C13: the two records of watched keys never disagree: after any sequence of watching and unwatching by connected clients the
  table of each database lists, without duplicates and without empty entries, exactly the clients whose own lists
  hold the key, and the pairs are those the sequence asks for. In particular \<open>unwatchAllKeys\<close> always finds the
  node it deletes, where the code would otherwise dereference a null pointer.\<close>
theorem watch_tables_agree:
  assumes "watch_ok s" "\<forall>(c, k) \<in> set ops. c \<in> set (client_list s)"
  shows "\<exists>s'. watch_script ops s = Some s' \<and> watch_pairs s' = watch_set (\<lambda>c. cdb (clients s c)) ops (watch_pairs s)
    \<and> (\<forall>i k c. (\<exists>cs. watched_keys (dbs s' i) k = Some cs \<and> c \<in> set cs) \<longleftrightarrow> (c, i, k) \<in> watch_pairs s')
    \<and> (\<forall>i k cs. watched_keys (dbs s' i) k = Some cs \<longrightarrow> cs \<noteq> [] \<and> distinct cs)"
proof -
  obtain s' where s': "watch_script ops s = Some s'" "watch_ok s'"
    "watch_pairs s' = watch_set (\<lambda>c. cdb (clients s c)) ops (watch_pairs s)" using watch_script_ok [OF assms] by blast
  have "(\<exists>cs. watched_keys (dbs s' i) k = Some cs \<and> c \<in> set cs) \<longleftrightarrow> (c, i, k) \<in> watch_pairs s'" for i k c
    using watch_okD(2) [OF s'(2), of c i k] by (auto simp: watch_pairs_def watchers_def split: option.splits)
  then show ?thesis using s' watch_okD(1) [OF s'(2)] by blast
qed

theorem watch_tables_agree_witness:
  "\<exists>s'. watch_script [(0, Some ''k''), (1, Some ''k''), (0, Some ''x''), (0, None)] (blank_server :: unit server) = Some s'
    \<and> watch_pairs s' = {(1, 0, ''k'')}"
proof -
  have w: "watch_ok (blank_server :: unit server)" by (rule calmD(2) [OF calm_blank])
  have c: "\<forall>(c, k) \<in> set [(0, Some ''k''), (1, Some ''k''), (0, Some ''x''), (0, None)]. c \<in> set (client_list (blank_server :: unit server))"
    by (simp add: blank_server_def)
  have "watch_pairs (blank_server :: unit server) = {}" by (simp add: watch_pairs_def)
  then show ?thesis using watch_tables_agree [OF w c] by auto
qed

theorem flushdb_marks_witness:
  "dirty_cas (clients (flushdbCommand 0 (watched_stale :: unit server)) 1)
   \<and> \<not> dirty_cas (clients (flushdbCommand 0 (watched_stale :: unit server)) 0)"
proof -
  let ?s = "stale_server :: unit server"
  have cl: "client_list ?s = [0, 1]" "clients ?s = (\<lambda>c. createClient)" "watched_keys (dbs ?s i) = Map.empty" for i
    by (simp_all add: stale_server_def upd_db_dbs empty_db_def) (simp_all add: blank_server_def fun_eq_iff)
  have w0: "watch_ok ?s" by (simp add: watch_ok_def watchers_def cl)
  note w1 = watchForKey_ok [OF w0, of 0 "''x''"]
  have w2: "watch_ok (watched_stale :: unit server)"
    unfolding watched_stale_def using watchForKey_ok(1) [OF w1(1), of 1 "''k''"] by (simp add: w1(3) cl)
  have "published ?s = published (blank_server :: unit server)" by (rule published_cong) (simp_all add: stale_server_def)
  moreover have "ready 0 (blank_server :: unit server)" by (rule ready_blank)
  ultimately have "ready 0 ?s" by (simp add: ready_def stale_server_simps)
  then have r: "ready 0 (watched_stale :: unit server)" by (simp add: watched_stale_def watch_state)
  have cw: "set (cwatched (clients (watched_stale :: unit server) 0)) = {(0, ''x'')}"
    "set (cwatched (clients (watched_stale :: unit server) 1)) = {(0, ''k'')}"
    using watchForKey_ok(2) [OF w1(1), of 1 "''k''"] by (simp_all add: watched_stale_def w1(2-4) cl)
  have "cdb (clients (watched_stale :: unit server) 0) = 0" "\<not> dirty_cas (clients (watched_stale :: unit server) d)"
    "ddict (dbs (watched_stale :: unit server) 0) = [''k'' \<mapsto> \<lparr>oval = StrInt 7, lru = 0\<rparr>]" for d
    using watchForKey_ok(4) [OF w1(1), of 1 "''k''"]
    by (simp_all add: watched_stale_def watch_state w1(3,4) cl) (simp_all add: createClient_def stale_server_def upd_db_dbs)
  then show ?thesis using flushdb_marks [OF r w2] by (simp add: cw)
qed

end
