(* ===== verification/Store_Limits.thy ===== *)
theory Store_Limits
  imports Keyspace_Properties
begin

unbundle bit_operations_syntax

declare One_nat_def [simp del]

text \<open>
  Where the commands do not do what their documentation promises: the arithmetic that overflows, expired keys that come
  back, changes that no watching client is told of, and a loop on slaves that does not end.
\<close>

subsection \<open>Overflow\<close>

text \<open>C18: \<open>EXPIRE\<close> with the longest time to live deletes the key at once: the seconds are multiplied by 1000 in a 64-bit
  integer without a check, the product wraps to -1000, the key counts as expired a second ago, and the reply
  is 1. This holds on every master for every key.\<close>
theorem expire_overflow_deletes:
  assumes "ready c s" "\<not> loading s" "string_ll (arg c 2 s) = Some LLONG_MAX" "live s (cdb (clients s c)) (arg c 1 s) \<noteq> None"
  shows "\<exists>s'. expireCommand c s = Some s' \<and> live s' = ks_upd (live s) (cdb (clients s c)) (arg c 1 s) None
    \<and> said (clients s c) (clients s' c) shared_cone"
proof -
  have n: "0 < now s \<and> now s \<le> 4611686018427387904" by (rule now_bounds [OF readyD(1) [OF assms(1)]])
  have w: "wrap_ll (LLONG_MAX * 1000) = -1000" by (simp add: wrap_ll_def)
  then have "expire_wrapped (now s) True LLONG_MAX = now s - 1000"
    using n by (simp add: expire_wrapped_def in_ll_def)
  then have t: "time_over (now s) (loading s) (expire_wrapped (now s) True LLONG_MAX)"
    using assms(2) by (simp add: time_over_def)
  obtain v ttl where "live s (cdb (clients s c)) (arg c 1 s) = Some (v, ttl)" using assms(4) by auto
  then have "expire_effect (live s) (cdb (clients s c)) (arg c 1 s) (time_over (now s) (loading s)) (expire_wrapped (now s) True) (arg c 2 s)
      = (ks_upd (live s) (cdb (clients s c)) (arg c 1 s) None, 1, shared_cone)"
    using t assms(3) by (simp add: expire_effect_def)
  then show ?thesis
    using expire_wrapped_run [OF assms(1), of "now s" True] by (auto simp: expireCommand_def said_def runD)
qed

text \<open>\<open>DECRBY\<close> negates its argument without a check: the smallest integer is its own negation, so it is added.\<close>

theorem decrby_min_adds:
  assumes "ready c s" "arg_ok (arg c 1 s)" "string_ll (arg c 2 s) = Some LLONG_MIN"
    "live s (cdb (clients s c)) (arg c 1 s) = Some (StrInt v, t)" "0 \<le> v"
  shows "\<exists>s'. decrbyCommand c s = Some s' \<and> live s' (cdb (clients s c)) (arg c 1 s) = Some (StrInt (v + LLONG_MIN), t)"
proof -
  have neg: "wrap_ll (- LLONG_MIN) = LLONG_MIN" by (simp add: wrap_ll_def)
  have "in_ll v"
  proof -
    obtain x where x: "ddict (dbs s (cdb (clients s c))) (arg c 1 s) = Some x" "oval x = StrInt v"
      using assms(4) by (auto simp: live_def split: option.splits if_splits)
    show ?thesis using arg_ok_key [OF readyD(1) [OF assms(1)] x(1)] x(2) by simp
  qed
  then have r: "in_ll (v + LLONG_MIN)" "in_ll LLONG_MIN" using assms(5) by (simp_all add: in_ll_def)
  then have eff: "incr_effect (live s) (cdb (clients s c)) (arg c 1 s) LLONG_MIN
      = (ks_upd (live s) (cdb (clients s c)) (arg c 1 s) (Some (StrInt (v + LLONG_MIN), t)), 1, int_reply (v + LLONG_MIN))"
    using assms(4) by (simp add: incr_effect_def is_string_def num_val_def entry_ttl_def)
  have "decrbyCommand c s = incrDecrCommand c LLONG_MIN s"
    using arg_ll_run(1) [OF assms(1), of "arg c 2 s"] assms(3) neg by (simp add: decrbyCommand_def)
  then show ?thesis using incr_run [OF assms(1,2) r(2)] eff by (auto simp: ks_upd_apply runD)
qed

text \<open>A range that lies wholly before the start of a string is answered with its first byte.\<close>

theorem range_before_start: "0 < len \<Longrightarrow> a < - len \<Longrightarrow> b < - len \<Longrightarrow> range_bounds len a b = (0, 0)"
  by (simp add: range_bounds_def)

text \<open>The end of the range of \<open>SETRANGE\<close> wraps past the test of the length, and the allocation that follows fails.\<close>

theorem setrange_offset_wraps:
  assumes "ready c s" "string_ll (arg c 2 s) = Some LLONG_MAX" "live s (cdb (clients s c)) (arg c 1 s) = None"
    "arg c 3 s \<noteq> []" "arg_ok (arg c 3 s)" "arg_ok (arg c 1 s)"
  shows "setrangeCommand c s = None"
proof -
  define i where "i = cdb (clients s c)"
  have i: "int i \<le> LLONG_MAX" unfolding i_def by (rule server_ok_cdb [OF readyD(1) [OF assms(1)]])
  obtain s2 v where l: "lookupKeyWrite i (arg c 1 s) s = Some (s2, v)"
    "live s i (arg c 1 s) = map_option (\<lambda>x. (oval x, expires (dbs s2 i) (arg c 1 s))) v" "settled s2 i (arg c 1 s) v"
    using lookupKeyWrite_run [OF assms(1) i] by blast
  have v: "v = None" using l(2) assms(3) by (simp add: i_def)
  have len: "0 < length (arg c 3 s)" "int (length (arg c 3 s)) \<le> 536870912" using assms(4,5) by (simp_all add: arg_ok_def)
  have w: "wrap_ll (LLONG_MAX + int (length (arg c 3 s))) \<le> 512 * 1024 * 1024"
  proof -
    define m where "m = int (length (arg c 3 s)) - 1"
    have "(m + 18446744073709551616) mod 18446744073709551616 = m mod 18446744073709551616" by (rule mod_add_self2)
    also have "\<dots> = m" using len by (intro mod_pos_pos_trivial) (simp_all add: m_def)
    finally show ?thesis using len by (simp add: wrap_ll_def m_def add.commute)
  qed
  have "setrange_write i (arg c 1 s) (nat LLONG_MAX) (arg c 3 s) [] c t = None" for t :: "'a server"
    using len(1) by (simp add: setrange_write_def)
  then show ?thesis
    using arg_ll_run(2) [OF assms(1), of "arg c 2 s"] assms(2,4) l(1) w l(3)
    unfolding setrangeCommand_def Let_def i_def [symmetric] v
    by (simp add: setrange_missing_def checkStringLength_def dbAdd_def settled_def split: Option.bind_splits)
qed

subsection \<open>Expired keys and watching clients\<close>

text \<open>C19: \<open>PERSIST\<close> brings an expired key back: it does not look whether the time of the key has passed, so a key that is logically
  gone, but not yet deleted, loses its time to live, and is visible from then on; the reply is 1.\<close>
theorem persist_revives:
  assumes "ready c s" "expired s (cdb (clients s c)) (arg c 1 s)" "ddict (dbs s (cdb (clients s c))) (arg c 1 s) = Some x"
  shows "live s (cdb (clients s c)) (arg c 1 s) = None \<and> (\<exists>s'. persistCommand c s = Some s'
    \<and> live s' (cdb (clients s c)) (arg c 1 s) = Some (oval x, None) \<and> said (clients s c) (clients s' c) shared_cone)"
proof -
  define i where "i = cdb (clients s c)"
  have a: "run c s (set_expires i (arg c 1 s) None s) (ks_upd (live s) i (arg c 1 s) (Some (oval x, None))) 0 [] {}"
    using expires_run [OF assms(1) assms(3) [folded i_def], of None] by simp
  note b = end_reply [OF a, of shared_cone]
  note r = run_trans [OF b run_dirty [OF runD(2) [OF b], of c 1]]
  obtain t where "expires (dbs s i) (arg c 1 s) = Some t" using assms(2) by (auto simp: expired_def i_def split: option.splits)
  then have "persistCommand c s = Some (add_dirty 1 (push (to c shared_cone) (set_expires i (arg c 1 s) None s)))"
    using assms(3) by (simp add: persistCommand_def removeExpire_def Let_def addReply_push i_def)
  moreover have "live s i (arg c 1 s) = None" using assms(2,3) by (simp add: live_def i_def)
  ultimately show ?thesis using runD(3,5) [OF r] runD(3) [OF b] by (simp add: said_def i_def ks_upd_apply)
qed

text \<open>C20: \<open>MOVE\<close> is invisible to optimistic locking: the key leaves the selected database and appears, without its time to live, in the
  other one, yet no client that watches either key is marked, so its transaction runs on changed keys.\<close>
theorem move_unsignalled:
  assumes "ready c s" "string_ll (arg c 2 s) = Some d" "0 \<le> d" "d < int (dbnum s)" "nat d \<noteq> cdb (clients s c)"
    "live s (cdb (clients s c)) (arg c 1 s) = Some (v, t)" "live s (nat d) (arg c 1 s) = None"
  shows "\<exists>s'. moveCommand c s = Some s' \<and> live s' (cdb (clients s c)) (arg c 1 s) = None
    \<and> live s' (nat d) (arg c 1 s) = Some (v, None) \<and> (\<forall>w. dirty_cas (clients s' w) = dirty_cas (clients s w))"
proof -
  have "move_effect (live s) (dbnum s) (cdb (clients s c)) (arg c 1 s) (arg c 2 s)
      = (ks_upd (ks_upd (live s) (nat d) (arg c 1 s) (Some (v, None))) (cdb (clients s c)) (arg c 1 s) None, 1, shared_cone)"
    using assms(2-7) by (simp add: move_effect_def)
  then show ?thesis using move_run [OF assms(1)] assms(5) by (auto simp: ks_upd_apply runD)
qed

text \<open>C21: \<open>RANDOMKEY\<close> on a slave whose keys have all expired never answers: a slave does not delete expired keys, so the loop meets
  only expired keys, whatever is drawn and however many rounds it is given.\<close>
theorem randomkey_slave_hangs:
  assumes "server_ok s" "is_slave s" "fair_pick draw" "dom (ddict (dbs s (cdb (clients s c)))) \<noteq> {}"
    "\<forall>k. ddict (dbs s (cdb (clients s c))) k \<noteq> None \<longrightarrow> expired s (cdb (clients s c)) k"
  shows "randomkeyCommand draw n c s = None"
proof -
  define i where "i = cdb (clients s c)"
  have i: "int i \<le> LLONG_MAX" unfolding i_def by (rule server_ok_cdb [OF assms(1)])
  have fin: "finite (dom (ddict (dbs s i)))" using server_ok_db [OF assms(1)] by (simp add: db_ok_def)
  have "random_loop draw n i s = None"
  proof (induction n)
    case (Suc n)
    define key where "key = draw n (dom (ddict (dbs s i)))"
    have "key \<in> dom (ddict (dbs s i))" using assms(3,4) fin by (simp add: fair_pick_def key_def i_def)
    then have e: "expired s i key" using assms(5) by (auto simp: i_def)
    then have "expires (dbs s i) key \<noteq> None" by (auto simp: expired_def split: option.splits)
    moreover have "expireIfNeeded i key s = Some (s, True)" using expire_eq [OF assms(1) i, of key] e assms(2) by (simp add: purge_def)
    ultimately show ?case using Suc assms(4) by (simp add: Let_def key_def [symmetric] i_def [symmetric])
  qed simp
  then show ?thesis by (simp add: randomkeyCommand_def i_def)
qed

subsection \<open>Instances\<close>

text \<open>A key without a time to live, and a command line in place for client 0.\<close>

definition fresh_server :: "'z server" where
  "fresh_server = upd_db 0 (\<lambda>db. db\<lparr>ddict := [''k'' \<mapsto> \<lparr>oval = StrInt 7, lru = 0\<rparr>]\<rparr>) blank_server"

lemma with_argv_state:
  "live (with_argv c a s) = live s" "ready d (with_argv c a s) = ready d s" "server_ok (with_argv c a s) = server_ok s"
  "cdb (clients (with_argv c a s) d) = cdb (clients s d)" "dbs (with_argv c a s) = dbs s" "dbnum (with_argv c a s) = dbnum s"
  "arg c n (with_argv c a s) = a ! n" "loading (with_argv c a s) = loading s" "is_slave (with_argv c a s) = is_slave s"
  by (simp_all add: with_argv_def unseen_state [OF unseen_upds(2)]) (simp add: arg_def clients_upd)

lemma ready_cong: "ready c blank_server \<Longrightarrow> server_ok s \<Longrightarrow> \<not> is_slave s \<Longrightarrow> pubsub_channels s = Map.empty \<Longrightarrow> pubsub_patterns s = [] \<Longrightarrow> ready c s"
  by (simp add: ready_def published_def subscribers_def)

lemma fresh_server_simps:
  "ready c fresh_server" "\<not> loading fresh_server" "live fresh_server 0 ''k'' = Some (StrInt 7, None)" "live fresh_server (Suc 0) ''k'' = None"
  "cdb (clients fresh_server c) = 0" "dbnum fresh_server = 16"
proof -
  have "server_ok fresh_server"
    by (simp add: fresh_server_def server_ok_def conf_ok_def patterns_safe_def db_ok_def upd_db_dbs arg_ok_def empty_db_def in_ll_def)
       (simp add: blank_server_def createClient_def)
  then show "ready c fresh_server"
    by (rule ready_cong [OF ready_blank]) (simp_all add: fresh_server_def, simp add: blank_server_def)
  show "\<not> loading fresh_server" by (simp add: fresh_server_def) (simp add: blank_server_def)
  show "live fresh_server 0 ''k'' = Some (StrInt 7, None)" "live fresh_server (Suc 0) ''k'' = None" "cdb (clients fresh_server c) = 0" "dbnum fresh_server = 16"
    by (simp_all add: fresh_server_def live_def upd_db_dbs expired_def empty_db_def)
qed

theorem expire_overflow_deletes_witness:
  "\<exists>s'. expireCommand 0 (with_argv 0 [''EXPIRE'', ''k'', show_int LLONG_MAX] (fresh_server :: unit server)) = Some s' \<and> live s' 0 ''k'' = None"
proof -
  let ?s = "with_argv 0 [''EXPIRE'', ''k'', show_int LLONG_MAX] (fresh_server :: unit server)"
  have "string_ll (arg 0 2 ?s) = Some LLONG_MAX" by (simp add: with_argv_state) (rule string_ll_show, simp add: in_ll_def)
  from expire_overflow_deletes [OF _ _ this] show ?thesis
    by (auto simp: with_argv_state fresh_server_simps ks_upd_apply)
qed

theorem move_unsignalled_witness:
  "\<exists>s'. moveCommand 0 (with_argv 0 [''MOVE'', ''k'', ''1''] (fresh_server :: unit server)) = Some s'
    \<and> live s' 0 ''k'' = None \<and> live s' 1 ''k'' = Some (StrInt 7, None)"
proof -
  let ?s = "with_argv 0 [''MOVE'', ''k'', ''1''] (fresh_server :: unit server)"
  have "show_int 1 = ''1''" by code_simp
  then have "string_ll (arg 0 2 ?s) = Some 1" using string_ll_show [of 1] by (simp add: with_argv_state in_ll_def)
  from move_unsignalled [OF _ this, of "StrInt 7" None] show ?thesis
    by (auto simp: with_argv_state fresh_server_simps One_nat_def)
qed

lemma stale_ready: "ready c stale_server"
  by (rule ready_cong [OF ready_blank stale_server_simps(1,3)]) (simp_all add: stale_server_def)

theorem persist_revives_witness:
  "\<exists>s'. persistCommand 0 (with_argv 0 [''PERSIST'', ''k''] (stale_server :: unit server)) = Some s'
    \<and> live s' 0 ''k'' = Some (StrInt 7, None)"
proof -
  let ?s = "with_argv 0 [''PERSIST'', ''k''] (stale_server :: unit server)"
  have "expired ?s 0 ''k'' = expired (stale_server :: unit server) 0 ''k''"
    by (simp add: with_argv_def expired_def cur_time_def split: option.split)
  then have e: "expired ?s (cdb (clients ?s 0)) (arg 0 1 ?s)"
    by (simp add: stale_server_simps with_argv_state) (simp add: stale_server_def with_argv_state stale_server_simps(2) [unfolded stale_server_def])
  have d: "ddict (dbs ?s (cdb (clients ?s 0))) (arg 0 1 ?s) = Some \<lparr>oval = StrInt 7, lru = 0\<rparr>"
    by (simp add: with_argv_state) (simp add: stale_server_def upd_db_dbs)
  show ?thesis
    using persist_revives [OF _ e d] by (auto simp: with_argv_state stale_ready) (simp add: stale_server_def)
qed

theorem randomkey_slave_hangs_witness:
  "randomkeyCommand (\<lambda>n A. Min A) 1000 0 (stale_server\<lparr>is_slave := True\<rparr> :: unit server) = None"
proof -
  let ?s = "stale_server\<lparr>is_slave := True\<rparr> :: unit server"
  have cd: "cdb (clients ?s 0) = 0" by (simp add: stale_server_def)
  have ok: "server_ok ?s"
    using stale_server_simps(1) by (simp add: server_ok_def conf_ok_def patterns_safe_def)
  have "expired ?s 0 ''k'' = expired (stale_server :: unit server) 0 ''k''" by (simp add: expired_def cur_time_def split: option.split)
  then have e: "\<forall>k. ddict (dbs ?s (cdb (clients ?s 0))) k \<noteq> None \<longrightarrow> expired ?s (cdb (clients ?s 0)) k"
    unfolding cd by (auto simp: stale_server_simps(2)) (simp add: stale_server_def upd_db_dbs split: if_splits)
  have n: "dom (ddict (dbs ?s (cdb (clients ?s 0)))) \<noteq> {}" unfolding cd by (simp add: stale_server_def upd_db_dbs)
  have p: "fair_pick (\<lambda>n A. Min A)" by (simp add: fair_pick_def)
  show ?thesis by (rule randomkey_slave_hangs [OF ok _ p n e]) simp
qed

end
