(* ===== verification/Networking.thy ===== *)
theory Networking
  imports Sds Multi
begin

text \<open>
  From the bytes of a client to its requests (\<^verbatim>\<open>networking.c\<close>): the inline and the multi bulk protocol, read
  from a buffer that grows as the network delivers, and the loop that runs every complete request. The
  buffer is the contents of the dynamic string \<open>querybuf\<close>; cutting its front off is \<open>sdsrange\<close>.
\<close>

subsection \<open>The input side of a client\<close>

definition REDIS_INLINE_MAX_SIZE :: nat where "REDIS_INLINE_MAX_SIZE = 65536"
definition REDIS_MBULK_BIG_ARG :: int where "REDIS_MBULK_BIG_ARG = 32768"
definition REDIS_REQ_INLINE :: nat where "REDIS_REQ_INLINE = 1"
definition REDIS_REQ_MULTIBULK :: nat where "REDIS_REQ_MULTIBULK = 2"

record input =
  querybuf :: string
  reqtype :: nat
  multibulklen :: nat
  bulklen :: int
  inargs :: "string list"

definition newInput :: input where
  "newInput = \<lparr>querybuf = [], reqtype = 0, multibulklen = 0, bulklen = -1, inargs = []\<rparr>"

definition resetClient :: "input \<Rightarrow> input" where
  "resetClient inp = inp\<lparr>inargs := [], reqtype := 0, multibulklen := 0, bulklen := -1\<rparr>"

text \<open>\<open>strchr\<close> on a buffer that ends with a NUL: a NUL inside hides what follows.\<close>

definition strchr :: "char \<Rightarrow> string \<Rightarrow> nat option" where
  "strchr ch s =
     (let n = length (takeWhile (\<lambda>x. x \<noteq> ch \<and> x \<noteq> NUL) s) in
      if n < length s \<and> s ! n = ch then Some n else None)"

definition setProtocolError :: "nat \<Rightarrow> nat \<Rightarrow> input \<Rightarrow> 'z server \<Rightarrow> input \<times> 'z server" where
  "setProtocolError c pos inp s =
     (inp\<lparr>querybuf := drop pos (querybuf inp)\<rparr>, upd_client c (\<lambda>cl. cl\<lparr>close_after_reply := True\<rparr>) s)"

subsection \<open>The inline protocol\<close>

text \<open>
  The result tells \<open>REDIS_OK\<close> from \<open>REDIS_ERR\<close>. The line ends before \<open>\r\n\<close> or \<open>\n\<close>, and two bytes are skipped in both
  cases.
\<close>

definition processInlineBuffer :: "nat \<Rightarrow> input \<Rightarrow> 'z server \<Rightarrow> input \<times> 'z server \<times> bool" where
  "processInlineBuffer c inp s =
     (let buf = querybuf inp in
      case strchr CHR 0x0A buf of
        None \<Rightarrow>
          if length buf > REDIS_INLINE_MAX_SIZE then
            (case setProtocolError c 0 inp (addReplyError c ''Protocol error: too big inline request'' s) of
               (inp1, s1) \<Rightarrow> (inp1, s1, False))
          else (inp, s, False)
      | Some n \<Rightarrow>
          let querylen = (if n \<noteq> 0 \<and> buf ! (n - 1) = CHR 0x0D then n - 1 else n) in
          (case sdssplitargs (cstr (take querylen buf)) of
             None \<Rightarrow>
               (case setProtocolError c 0 inp (addReplyError c ''Protocol error: unbalanced quotes in request'' s) of
                  (inp1, s1) \<Rightarrow> (inp1, s1, False))
           | Some args \<Rightarrow>
               (inp\<lparr>querybuf := drop (querylen + 2) buf, inargs := filter (\<lambda>x. x \<noteq> []) args\<rparr>, s, True)))"

subsection \<open>The multi bulk protocol\<close>

text \<open>
  The length of the next argument: \<open>Inl None\<close> waits for more bytes, \<open>Inl (Some _)\<close> is an error, \<open>Inr\<close> goes on at a
  new position.
\<close>

definition read_bulklen :: "nat \<Rightarrow> nat \<Rightarrow> input \<Rightarrow> 'z server \<Rightarrow> (input \<times> 'z server) option + input \<times> nat" where
  "read_bulklen c pos inp s =
     (let buf = querybuf inp in
      case strchr CHR 0x0D (drop pos buf) of
        None \<Rightarrow>
          Inl (if length buf > REDIS_INLINE_MAX_SIZE
               then Some (setProtocolError c 0 inp (addReplyError c ''Protocol error: too big bulk count string'' s))
               else None)
      | Some k \<Rightarrow>
          if int (pos + k) > int (length buf) - 2 then Inl None
          else if buf ! pos \<noteq> CHR ''$'' then
            Inl (Some (setProtocolError c pos inp
              (addReplyErrorFormat c (cstr (''Protocol error: expected '' @ quoted ''$'' @ '', got '' @ quoted [buf ! pos])) s)))
          else
            (case string2ll (take (k - 1) (drop (pos + 1) buf)) of
               None \<Rightarrow> Inl (Some (setProtocolError c pos inp (addReplyError c ''Protocol error: invalid bulk length'' s)))
             | Some ll \<Rightarrow>
                 if ll < 0 \<or> ll > 512 * 1024 * 1024 then
                   Inl (Some (setProtocolError c pos inp (addReplyError c ''Protocol error: invalid bulk length'' s)))
                 else if ll \<ge> REDIS_MBULK_BIG_ARG then
                   Inr (inp\<lparr>querybuf := drop (pos + k + 2) buf, bulklen := ll\<rparr>, 0)
                 else Inr (inp\<lparr>bulklen := ll\<rparr>, pos + k + 2)))"

text \<open>One argument, when it has arrived; a big one that fills the buffer becomes the argument itself.\<close>

definition read_argument :: "nat \<Rightarrow> input \<Rightarrow> (input \<times> nat) option" where
  "read_argument pos inp =
     (let buf = querybuf inp; n = nat (bulklen inp) in
      if length buf - pos < n + 2 then None
      else
        let inp1 = inp\<lparr>bulklen := -1, multibulklen := multibulklen inp - 1\<rparr> in
        if pos = 0 \<and> bulklen inp \<ge> REDIS_MBULK_BIG_ARG \<and> int (length buf) = bulklen inp + 2
        then Some (inp1\<lparr>inargs := inargs inp @ [take (length buf - 2) buf], querybuf := []\<rparr>, 0)
        else Some (inp1\<lparr>inargs := inargs inp @ [take n (drop pos buf)]\<rparr>, pos + n + 2))"

text \<open>
  The loop over the missing arguments; the first argument bounds it by their number. \<open>Inl\<close> is an error that has been reported,
  \<open>Inr\<close> the end of the loop.
\<close>

fun bulk_loop :: "nat \<Rightarrow> nat \<Rightarrow> nat \<Rightarrow> input \<Rightarrow> 'z server \<Rightarrow> (input \<times> 'z server) + (input \<times> nat)" where
  "bulk_loop 0 c pos inp s = Inr (inp, pos)"
| "bulk_loop (Suc m) c pos inp s =
     (case (if bulklen inp = -1 then read_bulklen c pos inp s else Inr (inp, pos)) of
        Inl None \<Rightarrow> Inr (inp, pos)
      | Inl (Some failed) \<Rightarrow> Inl failed
      | Inr (inp1, pos1) \<Rightarrow>
          (case read_argument pos1 inp1 of
             None \<Rightarrow> Inr (inp1, pos1)
           | Some (inp2, pos2) \<Rightarrow> bulk_loop m c pos2 inp2 s))"

definition finish_bulk :: "nat \<Rightarrow> nat \<Rightarrow> input \<Rightarrow> 'z server \<Rightarrow> input \<times> 'z server \<times> bool" where
  "finish_bulk c pos inp s =
     (case bulk_loop (multibulklen inp) c pos inp s of
        Inl (inp1, s1) \<Rightarrow> (inp1, s1, False)
      | Inr (inp1, pos1) \<Rightarrow> (inp1\<lparr>querybuf := drop pos1 (querybuf inp1)\<rparr>, s, multibulklen inp1 = 0))"

definition processMultibulkBuffer :: "nat \<Rightarrow> input \<Rightarrow> 'z server \<Rightarrow> (input \<times> 'z server \<times> bool) option" where
  "processMultibulkBuffer c inp s =
     (if multibulklen inp \<noteq> 0 then Some (finish_bulk c 0 inp s)
      else if inargs inp \<noteq> [] then None
      else
        let buf = querybuf inp in
        case strchr CHR 0x0D buf of
          None \<Rightarrow>
            if length buf > REDIS_INLINE_MAX_SIZE then
              (case setProtocolError c 0 inp (addReplyError c ''Protocol error: too big mbulk count string'' s) of
                 (inp1, s1) \<Rightarrow> Some (inp1, s1, False))
            else Some (inp, s, False)
        | Some k \<Rightarrow>
            if int k > int (length buf) - 2 then Some (inp, s, False)
            else if buf ! 0 \<noteq> CHR ''*'' then None
            else
              let r = string2ll (take (k - 1) (drop 1 buf)) in
              if r = None \<or> the r > 1024 * 1024 then
                (case setProtocolError c 0 inp (addReplyError c ''Protocol error: invalid multibulk length'' s) of
                   (inp1, s1) \<Rightarrow> Some (inp1, s1, False))
              else if the r \<le> 0 then Some (inp\<lparr>querybuf := drop (k + 2) buf\<rparr>, s, True)
              else Some (finish_bulk c (k + 2) (inp\<lparr>multibulklen := nat (the r)\<rparr>) s))"

subsection \<open>Running requests\<close>

lemma strchr_Some: "strchr ch s = Some n \<Longrightarrow> n < length s \<and> s ! n = ch"
  by (auto simp: strchr_def Let_def split: if_splits)

lemma inline_shrinks: "processInlineBuffer c inp s = (inp1, s1, True) \<Longrightarrow> length (querybuf inp1) < length (querybuf inp)"
  by (auto simp: processInlineBuffer_def Let_def dest!: strchr_Some split: option.splits prod.splits if_splits)

text \<open>Every argument that is read takes bytes off the buffer.\<close>

definition unread :: "nat \<Rightarrow> input \<Rightarrow> nat" where
  "unread pos inp = length (querybuf inp) - pos"

lemma read_bulklen_unread:
  "read_bulklen c pos inp s = Inr (inp1, pos1) \<Longrightarrow> unread pos1 inp1 \<le> unread pos inp \<and> multibulklen inp1 = multibulklen inp"
  by (auto simp: read_bulklen_def Let_def unread_def split: option.splits if_splits)

lemma read_argument_unread:
  "read_argument pos inp = Some (inp1, pos1) \<Longrightarrow> unread pos1 inp1 < unread pos inp \<and> multibulklen inp1 = multibulklen inp - 1"
  by (auto simp: read_argument_def Let_def unread_def split: if_splits)

lemma bulk_loop_unread:
  "bulk_loop m c pos inp s = Inr (inp1, pos1) \<Longrightarrow> multibulklen inp = m \<Longrightarrow>
    unread pos1 inp1 \<le> unread pos inp \<and> (0 < m \<and> multibulklen inp1 = 0 \<longrightarrow> unread pos1 inp1 < unread pos inp)"
proof (induction m arbitrary: pos inp)
  case (Suc m)
  let ?r = "if bulklen inp = -1 then read_bulklen c pos inp s else Inr (inp, pos)"
  consider "?r = Inl None" | x where "?r = Inl (Some x)" | inp2 pos2 where "?r = Inr (inp2, pos2)" by (cases ?r) force+
  then show ?case
  proof cases
    case 3
    then have a: "unread pos2 inp2 \<le> unread pos inp \<and> multibulklen inp2 = Suc m"
      using Suc.prems(2) by (auto split: if_splits dest!: read_bulklen_unread)
    show ?thesis
    proof (cases "read_argument pos2 inp2")
      case None
      then show ?thesis using 3 Suc.prems a by auto
    next
      case (Some r)
      obtain inp3 pos3 where r: "r = (inp3, pos3)" by force
      have b: "unread pos3 inp3 < unread pos2 inp2 \<and> multibulklen inp3 = m" using read_argument_unread Some r a by fastforce
      have "bulk_loop m c pos3 inp3 s = Inr (inp1, pos1)" using Suc.prems(1) 3 Some r by simp
      from Suc.IH [OF this] b a show ?thesis by simp
    qed
  qed (use Suc.prems in auto)
qed simp

lemma finish_shrinks:
  "finish_bulk c pos inp s = (inp1, s1, True) \<Longrightarrow> multibulklen inp \<noteq> 0 \<Longrightarrow> length (querybuf inp1) < length (querybuf inp)"
  using bulk_loop_unread [OF _ refl, of inp c pos s]
  by (fastforce simp: finish_bulk_def unread_def split: sum.splits prod.splits)

lemma bulk_shrinks: "processMultibulkBuffer c inp s = Some (inp1, s1, True) \<Longrightarrow> length (querybuf inp1) < length (querybuf inp)"
  using finish_shrinks [of c _ _ s inp1 s1]
  by (fastforce simp: processMultibulkBuffer_def Let_def dest: strchr_Some split: option.splits prod.splits if_splits)

text \<open>
  The loop of \<open>processInputBuffer\<close>. The mark of a blocked client is a parameter; \<open>QUIT\<close> is the only command after which the client
  is not reset.
\<close>

function processInputBuffer :: "'z conf \<Rightarrow> ('z server \<Rightarrow> bool) \<Rightarrow> nat \<Rightarrow> input \<Rightarrow> 'z server \<Rightarrow> (input \<times> 'z server) option" where
  "processInputBuffer e blocked c inp s =
     (if querybuf inp = [] \<or> blocked s \<or> close_after_reply (clients s c) then Some (inp, s)
      else
        let inp1 = (if reqtype inp \<noteq> 0 then inp
              else inp\<lparr>reqtype := if querybuf inp ! 0 = CHR ''*'' then REDIS_REQ_MULTIBULK else REDIS_REQ_INLINE\<rparr>)
        in case (if reqtype inp1 = REDIS_REQ_INLINE then Some (processInlineBuffer c inp1 s)
                 else if reqtype inp1 = REDIS_REQ_MULTIBULK then processMultibulkBuffer c inp1 s
                 else None) of
             None \<Rightarrow> None
           | Some (inp2, s2, False) \<Rightarrow> Some (inp2, s2)
           | Some (inp2, s2, True) \<Rightarrow>
               if inargs inp2 = [] then processInputBuffer e blocked c (resetClient inp2) s2
               else (case request e (c, inargs inp2) s2 of
                       None \<Rightarrow> None
                     | Some s3 \<Rightarrow>
                         processInputBuffer e blocked c
                           (if strcaseeq (inargs inp2 ! 0) ''quit'' then inp2 else resetClient inp2) s3))"
  by pat_completeness auto
termination
  by (relation "measure (\<lambda>(e, blocked, c, inp, s). length (querybuf inp))")
     (auto simp: resetClient_def split: if_splits dest!: inline_shrinks bulk_shrinks)

declare processInputBuffer.simps [simp del]

text \<open>
  How many bytes \<open>readQueryFromClient\<close> asks for: at most what a big argument still lacks, so that the buffer becomes exactly that
  argument.
\<close>

definition REDIS_IOBUF_LEN :: nat where "REDIS_IOBUF_LEN = 16384"

definition read_len :: "input \<Rightarrow> nat" where
  "read_len inp =
     (if reqtype inp = REDIS_REQ_MULTIBULK \<and> multibulklen inp \<noteq> 0 \<and> bulklen inp \<noteq> -1 \<and> bulklen inp \<ge> REDIS_MBULK_BIG_ARG
         \<and> bulklen inp + 2 - int (length (querybuf inp)) < int REDIS_IOBUF_LEN
      then nat (bulklen inp + 2 - int (length (querybuf inp)))
      else REDIS_IOBUF_LEN)"

text \<open>
  A read that delivers bytes. A client whose buffer exceeds the limit is closed by \<open>freeClient\<close>, a parameter; then there
  is no input side any more.
\<close>

definition readQueryFromClient :: "'z conf \<Rightarrow> ('z server \<Rightarrow> bool) \<Rightarrow> ('z server \<Rightarrow> 'z server) \<Rightarrow> nat \<Rightarrow> nat \<Rightarrow> string \<Rightarrow> input \<Rightarrow> 'z server
    \<Rightarrow> (input option \<times> 'z server) option" where
  "readQueryFromClient e blocked freeClient max_len c bytes inp s =
     (let inp1 = inp\<lparr>querybuf := querybuf inp @ bytes\<rparr> in
      if length (querybuf inp1) > max_len then Some (None, freeClient s)
      else do { (inp2, s2) \<leftarrow> processInputBuffer e blocked c inp1 s; Some (Some inp2, s2) })"

end
