(* ===== verification/Networking_Correct.thy ===== *)
theory Networking_Correct
  imports Networking Exec_Correct
begin

unbundle bit_operations_syntax

declare One_nat_def [simp del]

text \<open>
  However the network cuts the stream of a client into pieces, the commands it encodes are run in order: the parser of
  the multi bulk protocol keeps, in its five fields, exactly where it is in the stream.
\<close>

subsection \<open>Lines\<close>

definition encode_command :: "string list \<Rightarrow> string" where
  "encode_command args = ''*'' @ show_int (int (length args)) @ CRLF @ concat (map bulk args)"

definition valid_command :: "string list \<Rightarrow> bool" where
  "valid_command args \<longleftrightarrow> args \<noteq> [] \<and> length args \<le> 1048576 \<and> (\<forall>x \<in> set args. arg_ok x) \<and> \<not> strcaseeq (args ! 0) ''quit''"

lemma strchr_found: "\<forall>x \<in> set h. x \<noteq> ch \<and> x \<noteq> NUL \<Longrightarrow> ch \<noteq> NUL \<Longrightarrow> strchr ch (h @ ch # r) = Some (length h)"
  by (simp add: strchr_def takeWhile_append)

lemma strchr_none: "\<forall>x \<in> set h. x \<noteq> ch \<and> x \<noteq> NUL \<Longrightarrow> strchr ch h = None"
proof -
  assume "\<forall>x \<in> set h. x \<noteq> ch \<and> x \<noteq> NUL"
  then have "takeWhile (\<lambda>x. x \<noteq> ch \<and> x \<noteq> NUL) h = h" by (simp add: takeWhile_eq_all_conv)
  then show ?thesis unfolding strchr_def Let_def by simp
qed

lemma line_split:
  assumes "u @ todo = h @ a # b # r"
  shows "(length u \<le> length h \<and> u = take (length u) h \<and> todo \<noteq> []) \<or> (u = h @ [a] \<and> todo \<noteq> []) \<or> (\<exists>u'. u = h @ a # b # u' \<and> u' @ todo = r)"
proof -
  obtain us where "(u = h @ us \<and> us @ todo = a # b # r) \<or> (u @ us = h \<and> todo = us @ a # b # r)"
    using assms unfolding append_eq_append_conv2 by blast
  then show ?thesis
  proof (elim disjE conjE)
    assume u: "u = h @ us" "us @ todo = a # b # r"
    show ?thesis using u by (cases us rule: list.exhaust; cases "tl us") auto
  qed auto
qed

text \<open>A header line: a mark, a number of at most ten digits, and the line break.\<close>

lemma digits_plain: "is_digit x \<Longrightarrow> x \<noteq> CHR 0x0D \<and> x \<noteq> NUL"
  by (auto simp: is_digit_def uchar_def)

lemma show_len_digits: "\<forall>x \<in> set (show_int (int n)). is_digit x"
  by (simp add: show_int_def show_nat_digits)

lemma show_nat_length: "n < 10 ^ Suc k \<Longrightarrow> length (show_nat n) \<le> Suc k"
proof (induction k arbitrary: n)
  case (Suc k)
  show ?case
  proof (cases "n < 10")
    case False
    have "n div 10 < 10 ^ Suc k" using Suc.prems by (simp add: less_mult_imp_div_less mult.commute)
    then show ?thesis using Suc.IH [of "n div 10"] False by (simp add: show_nat_big)
  qed (simp add: show_nat_small)
qed (simp add: show_nat_small One_nat_def)

lemma show_len_length: "n \<le> 536870912 \<Longrightarrow> length (show_int (int n)) \<le> 9"
  using show_nat_length [of n 8] by (simp add: show_int_def)

lemma header_plain: "x \<in> set (ch # show_int (int n)) \<Longrightarrow> is_digit ch \<or> ch = CHR ''$'' \<or> ch = CHR ''*'' \<Longrightarrow> x \<noteq> CHR 0x0D \<and> x \<noteq> NUL"
  using show_len_digits [of n] digits_plain by auto

text \<open>What a reader of a header line meets.\<close>

lemma header_cases:
  assumes u: "u @ todo = (ch # show_int (int n)) @ CRLF @ r" and ch: "ch = CHR ''$'' \<or> ch = CHR ''*''" and n: "n \<le> 536870912"
  shows "(strchr CHR 0x0D u = None \<and> todo \<noteq> [] \<and> length u \<le> 11)
    \<or> (\<exists>k. strchr CHR 0x0D u = Some k \<and> int k > int (length u) - 2 \<and> todo \<noteq> [] \<and> length u \<le> 11)
    \<or> (\<exists>u'. u = (ch # show_int (int n)) @ CRLF @ u' \<and> u' @ todo = r \<and> strchr CHR 0x0D u = Some (length (ch # show_int (int n))))"
proof -
  let ?h = "ch # show_int (int n)"
  have plain: "\<forall>x \<in> set ?h. x \<noteq> CHR 0x0D \<and> x \<noteq> NUL" using header_plain [of _ ch n] ch by blast
  have len: "length ?h \<le> 10" using show_len_length [OF n] by simp
  have "u @ todo = ?h @ CHR 0x0D # CHR 0x0A # r" using u by (simp add: CRLF_def)
  from line_split [OF this] show ?thesis
  proof (elim disjE conjE exE)
    assume t: "length u \<le> length ?h" "u = take (length u) ?h" "todo \<noteq> []"
    have "\<forall>x \<in> set u. x \<noteq> CHR 0x0D \<and> x \<noteq> NUL" using plain t(2) by (metis in_set_takeD)
    then show ?thesis using strchr_none t(1,3) len by (intro disjI1) auto
  next
    assume t: "u = ?h @ [CHR 0x0D]" "todo \<noteq> []"
    have "strchr CHR 0x0D u = Some (length ?h)" using strchr_found [OF plain, of "[]"] t(1) by simp
    then show ?thesis using t len by (intro disjI2 disjI1) auto
  next
    fix u' assume t: "u = ?h @ CHR 0x0D # CHR 0x0A # u'" "u' @ todo = r"
    have "strchr CHR 0x0D u = Some (length ?h)" using strchr_found [OF plain, of "CHR 0x0A # u'"] t(1) by simp
    then show ?thesis using t by (intro disjI2) (simp add: CRLF_def)
  qed
qed

subsection \<open>One argument\<close>

lemma bulk_eq: "bulk x = (CHR ''$'' # show_int (int (length x))) @ CRLF @ x @ CRLF"
  by (simp add: bulk_def)

lemma read_bulklen_stream:
  assumes st: "drop pos (querybuf inp) @ todo = bulk x @ rst" and x: "arg_ok x" and pos: "pos \<le> length (querybuf inp)"
    and sz: "length (querybuf inp) \<le> REDIS_INLINE_MAX_SIZE"
  shows "(read_bulklen c pos inp s = Inl None \<and> todo \<noteq> [] \<and> length (drop pos (querybuf inp)) \<le> 11)
    \<or> (\<exists>inp1 pos1. read_bulklen c pos inp s = Inr (inp1, pos1) \<and> inp1 = inp\<lparr>querybuf := querybuf inp1, bulklen := int (length x)\<rparr>
        \<and> pos1 \<le> length (querybuf inp1) \<and> length (querybuf inp1) \<le> length (querybuf inp)
        \<and> drop pos1 (querybuf inp1) @ todo = x @ CRLF @ rst)"
proof -
  define u where "u = drop pos (querybuf inp)"
  have n: "length x \<le> 536870912" using x by (simp add: arg_ok_def)
  have u: "u @ todo = (CHR ''$'' # show_int (int (length x))) @ CRLF @ (x @ CRLF @ rst)"
    using st by (simp add: u_def bulk_eq)
  have lu: "length u = length (querybuf inp) - pos" by (simp add: u_def)
  from header_cases [OF u disjI1 [OF refl] n] show ?thesis
  proof (elim disjE conjE exE)
    assume "strchr CHR 0x0D u = None" "todo \<noteq> []" "length u \<le> 11"
    then show ?thesis using sz by (simp add: read_bulklen_def u_def [symmetric])
  next
    fix k assume k: "strchr CHR 0x0D u = Some k" "int (length u) - 2 < int k" "todo \<noteq> []" "length u \<le> 11"
    then have "int (length (querybuf inp)) - 2 < int (pos + k)" using lu pos by linarith
    then show ?thesis using k by (simp add: read_bulklen_def u_def [symmetric])
  next
    fix u' assume k: "u = (CHR ''$'' # show_int (int (length x))) @ CRLF @ u'" "u' @ todo = x @ CRLF @ rst"
      "strchr CHR 0x0D u = Some (length (CHR ''$'' # show_int (int (length x))))"
    define k' where "k' = length (CHR ''$'' # show_int (int (length x)))"
    have q: "querybuf inp = take pos (querybuf inp) @ u" by (simp add: u_def)
    have lq: "length (querybuf inp) = pos + k' + 2 + length u'" using lu pos k(1) by (simp add: k'_def CRLF_def)
    have at: "querybuf inp ! pos = CHR ''$''" using pos by (subst q) (simp add: nth_append k(1))
    have num: "take (k' - 1) (drop (pos + 1) (querybuf inp)) = show_int (int (length x))"
      by (subst q) (simp add: k(1) k'_def pos One_nat_def)
    have "u = ((CHR ''$'' # show_int (int (length x))) @ CRLF) @ u'" "length ((CHR ''$'' # show_int (int (length x))) @ CRLF) = k' + 2"
      using k(1) by (simp_all add: k'_def CRLF_def)
    then have "drop (k' + 2) u = u'" by (metis append_eq_conv_conj)
    then have rest: "drop (pos + k' + 2) (querybuf inp) = u'" by (simp add: u_def add.commute add.left_commute)
    have str: "string2ll (show_int (int (length x))) = Some (int (length x))" by (rule string2ll_show) (use n in \<open>simp add: in_ll_def\<close>)
    have neg: "\<not> int (length (querybuf inp)) - 2 < int (pos + k')" using lq by simp
    show ?thesis
      unfolding read_bulklen_def Let_def u_def [symmetric] k(3) [folded k'_def] option.case if_not_P [OF neg]
      using n at str rest lq k(2) by (simp add: num)
  qed
qed

lemma read_argument_stream:
  assumes st: "drop pos (querybuf inp) @ todo = x @ CRLF @ rst" and b: "bulklen inp = int (length x)" and pos: "pos \<le> length (querybuf inp)"
  shows "(read_argument pos inp = None \<and> todo \<noteq> [] \<and> length (drop pos (querybuf inp)) \<le> length x + 1)
    \<or> (\<exists>inp1 pos1. read_argument pos inp = Some (inp1, pos1)
        \<and> inp1 = inp\<lparr>querybuf := querybuf inp1, bulklen := -1, multibulklen := multibulklen inp - 1, inargs := inargs inp @ [x]\<rparr>
        \<and> pos1 \<le> length (querybuf inp1) \<and> length (querybuf inp1) \<le> length (querybuf inp)
        \<and> (pos = 0 \<and> bulklen inp \<ge> REDIS_MBULK_BIG_ARG \<and> int (length (querybuf inp)) \<le> bulklen inp + 2 \<longrightarrow> querybuf inp1 = [])
        \<and> drop pos1 (querybuf inp1) @ todo = rst)"
proof -
  define u where "u = drop pos (querybuf inp)"
  have lu: "length u = length (querybuf inp) - pos" by (simp add: u_def)
  have q: "querybuf inp = take pos (querybuf inp) @ u" by (simp add: u_def)
  show ?thesis
  proof (cases "length u < length x + 2")
    case True
    have "todo \<noteq> []"
    proof
      assume "todo = []"
      then have "length u = length x + 2 + length rst" using st by (simp add: u_def [symmetric] CRLF_def)
      then show False using True by simp
    qed
    then show ?thesis using True b lu by (simp add: read_argument_def Let_def)
  next
    case False
    have st': "u @ todo = (x @ CRLF) @ rst" using st by (simp add: u_def)
    have "take (length (x @ CRLF)) u = x @ CRLF"
      using arg_cong [OF st', of "take (length (x @ CRLF))"] False by (simp add: CRLF_def)
    then obtain v where v: "u = x @ CRLF @ v" by (metis append_assoc append_take_drop_id)
    have rst: "v @ todo = rst" using st' v by simp
    have n: "nat (bulklen inp) = length x" "\<not> length (querybuf inp) - pos < length x + 2" using b False lu by simp_all
    show ?thesis
    proof (cases "pos = 0 \<and> bulklen inp \<ge> REDIS_MBULK_BIG_ARG \<and> int (length (querybuf inp)) = bulklen inp + 2")
      case True
      then have "v = []" "querybuf inp = x @ CRLF" using v b by (auto simp: u_def CRLF_def)
      then show ?thesis using True rst n b by (simp add: read_argument_def Let_def CRLF_def)
    next
      case cond: False
      have tk: "take (length x) (drop pos (querybuf inp)) = x" using v by (simp add: u_def)
      have dr: "drop (pos + length x + 2) (querybuf inp) = v"
        using pos by (subst q) (simp add: v CRLF_def)
      have le: "pos + length x + 2 \<le> length (querybuf inp)" using n(2) pos by linarith
      have big: "\<not> (pos = 0 \<and> bulklen inp \<ge> REDIS_MBULK_BIG_ARG \<and> int (length (querybuf inp)) \<le> bulklen inp + 2)"
        using cond le b by auto
      show ?thesis
        unfolding read_argument_def Let_def n(1) if_not_P [OF n(2)] if_not_P [OF cond] tk
        using dr rst le big by (simp, blast)
    qed
  qed
qed

subsection \<open>The arguments of a command\<close>

text \<open>The bytes that a parser in the middle of a command expects: the missing arguments, and then the rest of the stream.\<close>

definition mid :: "string list \<Rightarrow> string \<Rightarrow> input \<Rightarrow> string \<Rightarrow> bool" where
  "mid pend rst inp bytes \<longleftrightarrow>
     (bulklen inp = -1 \<and> bytes = concat (map bulk pend) @ rst)
     \<or> (\<exists>x p. pend = x # p \<and> bulklen inp = int (length x) \<and> bytes = x @ CRLF @ concat (map bulk p) @ rst)"

text \<open>Bounds on the buffer: before a loop, and when it waits for more bytes.\<close>

definition loop_small :: "nat \<Rightarrow> input \<Rightarrow> bool" where
  "loop_small pos inp \<longleftrightarrow> length (querybuf inp) \<le> REDIS_INLINE_MAX_SIZE
     \<or> (pos = 0 \<and> bulklen inp \<ge> REDIS_MBULK_BIG_ARG \<and> int (length (querybuf inp)) \<le> bulklen inp + 2)"

definition wait_small :: "input \<Rightarrow> bool" where
  "wait_small inp \<longleftrightarrow> length (querybuf inp) \<le> (if bulklen inp = -1 then 11 else nat (bulklen inp) + 1)"

lemma bulk_loop_stream:
  assumes "multibulklen inp = m" "length pend = m" "\<forall>x \<in> set pend. arg_ok x"
    "mid pend rst inp (drop pos (querybuf inp) @ todo)" "pos \<le> length (querybuf inp)" "loop_small pos inp"
  shows "\<exists>inp1 pos1 pend1. bulk_loop m c pos inp s = Inr (inp1, pos1) \<and> reqtype inp1 = reqtype inp
    \<and> multibulklen inp1 = length pend1 \<and> inargs inp1 @ pend1 = inargs inp @ pend \<and> pos1 \<le> length (querybuf inp1)
    \<and> mid pend1 rst inp1 (drop pos1 (querybuf inp1) @ todo)
    \<and> (pend1 = [] \<longrightarrow> bulklen inp1 = -1)
    \<and> (pend1 \<noteq> [] \<longrightarrow> todo \<noteq> [] \<and> wait_small (inp1\<lparr>querybuf := drop pos1 (querybuf inp1)\<rparr>))
    \<and> ((bulklen inp = -1 \<or> m \<noteq> 0) \<and> pend1 = [] \<longrightarrow> length (querybuf inp1) \<le> REDIS_INLINE_MAX_SIZE)"
  using assms
proof (induction m arbitrary: inp pend pos)
  case 0
  then show ?case by (auto simp: mid_def loop_small_def REDIS_MBULK_BIG_ARG_def)
next
  case (Suc m)
  obtain x p where pend: "pend = x # p" using Suc.prems(2) by (cases pend) auto
  have x: "arg_ok x" using Suc.prems(3) by (simp add: pend)
  let ?r = "if bulklen inp = -1 then read_bulklen c pos inp s else Inr (inp, pos)"
  have step: "(?r = Inl None \<and> bulklen inp = -1 \<and> todo \<noteq> [] \<and> length (drop pos (querybuf inp)) \<le> 11)
    \<or> (\<exists>inp1 pos1. ?r = Inr (inp1, pos1) \<and> inp1 = inp\<lparr>querybuf := querybuf inp1, bulklen := int (length x)\<rparr>
        \<and> pos1 \<le> length (querybuf inp1) \<and> loop_small pos1 inp1
        \<and> drop pos1 (querybuf inp1) @ todo = x @ CRLF @ concat (map bulk p) @ rst)"
  proof (cases "bulklen inp = -1")
    case True
    then have "drop pos (querybuf inp) @ todo = bulk x @ concat (map bulk p) @ rst"
      and sz: "length (querybuf inp) \<le> REDIS_INLINE_MAX_SIZE"
      using Suc.prems(4,6) by (auto simp: mid_def pend loop_small_def REDIS_MBULK_BIG_ARG_def)
    from read_bulklen_stream [OF this(1) x Suc.prems(5) sz, of c s] show ?thesis
      using True sz by (fastforce simp: loop_small_def)
  next
    case False
    then show ?thesis
      using Suc.prems(4-6) by (intro disjI2 exI [of _ inp] exI [of _ pos]) (auto simp: mid_def pend)
  qed
  show ?case
  proof (cases "?r = Inl None")
    case True
    then have w: "bulklen inp = -1" "todo \<noteq> []" "length (drop pos (querybuf inp)) \<le> 11" using step by auto
    show ?thesis
      by (intro exI [of _ inp] exI [of _ pos] exI [of _ pend]) (use True w Suc.prems in \<open>simp add: wait_small_def pend\<close>)
  next
    case False
    then obtain inp1 pos1 where r1: "?r = Inr (inp1, pos1)" "inp1 = inp\<lparr>querybuf := querybuf inp1, bulklen := int (length x)\<rparr>"
      "pos1 \<le> length (querybuf inp1)" "loop_small pos1 inp1" "drop pos1 (querybuf inp1) @ todo = x @ CRLF @ concat (map bulk p) @ rst"
      using step by blast
    have f1: "bulklen inp1 = int (length x)" "multibulklen inp1 = Suc m" "reqtype inp1 = reqtype inp" "inargs inp1 = inargs inp"
      using Suc.prems(1) by (subst r1(2), simp)+
    from read_argument_stream [OF r1(5) f1(1) r1(3)] show ?thesis
    proof (elim disjE conjE exE)
      assume w: "read_argument pos1 inp1 = None" "todo \<noteq> []" "length (drop pos1 (querybuf inp1)) \<le> length x + 1"
      have "mid pend rst inp1 (drop pos1 (querybuf inp1) @ todo)" using r1(5) f1(1) by (auto simp: mid_def pend)
      then show ?thesis
        using r1(1,3) w f1 Suc.prems(2) pend
        by (intro exI [of _ inp1] exI [of _ pos1] exI [of _ pend]) (simp add: wait_small_def)
    next
      fix inp2 pos2 assume a: "read_argument pos1 inp1 = Some (inp2, pos2)"
        "inp2 = inp1\<lparr>querybuf := querybuf inp2, bulklen := -1, multibulklen := multibulklen inp1 - 1, inargs := inargs inp1 @ [x]\<rparr>"
        "pos2 \<le> length (querybuf inp2)" "length (querybuf inp2) \<le> length (querybuf inp1)"
        "pos1 = 0 \<and> bulklen inp1 \<ge> REDIS_MBULK_BIG_ARG \<and> int (length (querybuf inp1)) \<le> bulklen inp1 + 2 \<longrightarrow> querybuf inp2 = []"
        "drop pos2 (querybuf inp2) @ todo = concat (map bulk p) @ rst"
      have f2: "multibulklen inp2 = m" "bulklen inp2 = -1" "reqtype inp2 = reqtype inp" "inargs inp2 = inargs inp @ [x]"
        using f1 by (subst a(2), simp)+
      have "loop_small pos2 inp2" using r1(4) a(4,5) by (auto simp: loop_small_def REDIS_INLINE_MAX_SIZE_def)
      moreover have "mid p rst inp2 (drop pos2 (querybuf inp2) @ todo)" using f2(2) a(6) by (simp add: mid_def)
      moreover have "length p = m" "\<forall>x \<in> set p. arg_ok x" using Suc.prems(2,3) by (simp_all add: pend)
      ultimately obtain inp3 pos3 pend3 where
        "bulk_loop m c pos2 inp2 s = Inr (inp3, pos3)" "reqtype inp3 = reqtype inp2"
        "multibulklen inp3 = length pend3" "inargs inp3 @ pend3 = inargs inp2 @ p" "pos3 \<le> length (querybuf inp3)"
        "mid pend3 rst inp3 (drop pos3 (querybuf inp3) @ todo)" "pend3 = [] \<longrightarrow> bulklen inp3 = -1"
        "pend3 \<noteq> [] \<longrightarrow> todo \<noteq> [] \<and> wait_small (inp3\<lparr>querybuf := drop pos3 (querybuf inp3)\<rparr>)"
        "pend3 = [] \<longrightarrow> length (querybuf inp3) \<le> REDIS_INLINE_MAX_SIZE"
        using f2(2) Suc.IH [OF f2(1) _ _ _ a(3)] by blast
      moreover have "bulk_loop (Suc m) c pos inp s = bulk_loop m c pos2 inp2 s" by (simp only: bulk_loop.simps r1(1) a(1) sum.case prod.case option.case)
      ultimately show ?thesis by (intro exI [of _ inp3] exI [of _ pos3] exI [of _ pend3]) (simp add: f2 pend)
    qed
  qed
qed

subsection \<open>A whole command\<close>

text \<open>Where a parser is in the stream: between commands, in front of a header, or in the middle of a command.\<close>

definition expects :: "string list list \<Rightarrow> input \<Rightarrow> string \<Rightarrow> bool" where
  "expects cmds inp bytes \<longleftrightarrow>
     (multibulklen inp = 0 \<and> inargs inp = [] \<and> bulklen inp = -1 \<and> (reqtype inp = 0 \<or> (reqtype inp = REDIS_REQ_MULTIBULK \<and> cmds \<noteq> []))
        \<and> bytes = concat (map encode_command cmds))
     \<or> (multibulklen inp \<noteq> 0 \<and> reqtype inp = REDIS_REQ_MULTIBULK
        \<and> (\<exists>pend rest. cmds = (inargs inp @ pend) # rest \<and> length pend = multibulklen inp
            \<and> mid pend (concat (map encode_command rest)) inp bytes))"

lemma finish_stream:
  assumes "multibulklen inp \<noteq> 0" "length pend = multibulklen inp" "\<forall>x \<in> set pend. arg_ok x" "reqtype inp = REDIS_REQ_MULTIBULK"
    "mid pend (concat (map encode_command rest)) inp (drop pos (querybuf inp) @ todo)" "pos \<le> length (querybuf inp)" "loop_small pos inp"
  shows "\<exists>inp1 ok. finish_bulk c pos inp s = (inp1, s, ok) \<and> reqtype inp1 = REDIS_REQ_MULTIBULK
    \<and> (if ok then multibulklen inp1 = 0 \<and> inargs inp1 = inargs inp @ pend \<and> querybuf inp1 @ todo = concat (map encode_command rest)
         \<and> length (querybuf inp1) \<le> REDIS_INLINE_MAX_SIZE
       else todo \<noteq> [] \<and> expects ((inargs inp @ pend) # rest) inp1 (querybuf inp1 @ todo) \<and> wait_small inp1)"
proof -
  obtain inp1 pos1 pend1 where b: "bulk_loop (multibulklen inp) c pos inp s = Inr (inp1, pos1)" "reqtype inp1 = reqtype inp"
    "multibulklen inp1 = length pend1" "inargs inp1 @ pend1 = inargs inp @ pend"
    "mid pend1 (concat (map encode_command rest)) inp1 (drop pos1 (querybuf inp1) @ todo)" "pend1 = [] \<longrightarrow> bulklen inp1 = -1"
    "pend1 \<noteq> [] \<longrightarrow> todo \<noteq> [] \<and> wait_small (inp1\<lparr>querybuf := drop pos1 (querybuf inp1)\<rparr>)"
    "pend1 = [] \<longrightarrow> length (querybuf inp1) \<le> REDIS_INLINE_MAX_SIZE"
    using bulk_loop_stream [OF refl assms(2,3,5-7), of c s] assms(1) by blast
  define inp2 where "inp2 = inp1\<lparr>querybuf := drop pos1 (querybuf inp1)\<rparr>"
  have f: "finish_bulk c pos inp s = (inp2, s, pend1 = [])" using b(1,3) by (simp add: finish_bulk_def inp2_def)
  show ?thesis
  proof (cases "pend1 = []")
    case True
    then show ?thesis using f b assms(4) by (intro exI [of _ inp2] exI [of _ True]) (auto simp: inp2_def mid_def)
  next
    case False
    have "mid pend1 (concat (map encode_command rest)) inp2 (querybuf inp2 @ todo)"
      using b(5) by (simp add: mid_def inp2_def)
    then have "expects ((inargs inp @ pend) # rest) inp2 (querybuf inp2 @ todo)"
      unfolding expects_def using False b(2-4) assms(4)
      by (intro disjI2 conjI exI [of _ pend1] exI [of _ rest]) (simp_all add: inp2_def)
    then show ?thesis using False f b(2,7) assms(4) by (intro exI [of _ inp2] exI [of _ False]) (simp add: inp2_def)
  qed
qed

lemma encode_eq: "encode_command args = (CHR ''*'' # show_int (int (length args))) @ CRLF @ concat (map bulk args)"
  by (simp add: encode_command_def)

lemma multibulk_stream:
  assumes t: "reqtype inp = REDIS_REQ_MULTIBULK" and ex: "expects cmds inp (querybuf inp @ todo)" and ne: "cmds \<noteq> []"
    and v: "\<forall>args \<in> set cmds. valid_command args" and sz: "loop_small 0 inp"
  shows "\<exists>inp1 ok. processMultibulkBuffer c inp s = Some (inp1, s, ok) \<and> reqtype inp1 = REDIS_REQ_MULTIBULK
    \<and> (if ok then multibulklen inp1 = 0 \<and> inargs inp1 = hd cmds \<and> querybuf inp1 @ todo = concat (map encode_command (tl cmds))
         \<and> length (querybuf inp1) \<le> REDIS_INLINE_MAX_SIZE
       else todo \<noteq> [] \<and> expects cmds inp1 (querybuf inp1 @ todo) \<and> wait_small inp1)"
proof (cases "multibulklen inp = 0")
  case False
  then obtain pend rest where p: "cmds = (inargs inp @ pend) # rest" "length pend = multibulklen inp"
    "mid pend (concat (map encode_command rest)) inp (querybuf inp @ todo)"
    using ex by (auto simp: expects_def)
  have "\<forall>x \<in> set pend. arg_ok x" using v p(1) by (auto simp: valid_command_def)
  from finish_stream [OF False p(2) this t, of rest 0 todo c s] p(3) sz
  obtain inp1 ok where "finish_bulk c 0 inp s = (inp1, s, ok)" "reqtype inp1 = REDIS_REQ_MULTIBULK"
    "if ok then multibulklen inp1 = 0 \<and> inargs inp1 = inargs inp @ pend \<and> querybuf inp1 @ todo = concat (map encode_command rest)
         \<and> length (querybuf inp1) \<le> REDIS_INLINE_MAX_SIZE
       else todo \<noteq> [] \<and> expects ((inargs inp @ pend) # rest) inp1 (querybuf inp1 @ todo) \<and> wait_small inp1"
    by (simp only: drop_0 simp_thms) blast
  then show ?thesis
    unfolding processMultibulkBuffer_def p(1) list.sel using False by simp
next
  case True
  then have i: "inargs inp = []" "bulklen inp = -1" "querybuf inp @ todo = concat (map encode_command cmds)"
    using ex by (auto simp: expects_def)
  obtain args rest where cmds: "cmds = args # rest" using ne by (cases cmds) auto
  have a: "valid_command args" using v cmds by simp
  then have n: "length args \<le> 536870912" "length args \<le> 1048576" "0 < length args" by (auto simp: valid_command_def)
  have len: "length (querybuf inp) \<le> REDIS_INLINE_MAX_SIZE"
    using sz i(2) by (auto simp: loop_small_def REDIS_MBULK_BIG_ARG_def)
  have u: "querybuf inp @ todo = (CHR ''*'' # show_int (int (length args))) @ CRLF @ (concat (map bulk args) @ concat (map encode_command rest))"
    using i(3) by (simp add: cmds encode_eq)
  note unf = processMultibulkBuffer_def Let_def
  from header_cases [OF u disjI2 [OF refl] n(1)] show ?thesis
  proof (elim disjE conjE exE)
    assume w: "strchr CHR 0x0D (querybuf inp) = None" "todo \<noteq> []" "length (querybuf inp) \<le> 11"
    show ?thesis
      by (intro exI [of _ inp] exI [of _ False]) (use w True i len t ex in \<open>simp add: unf wait_small_def\<close>)
  next
    fix k assume w: "strchr CHR 0x0D (querybuf inp) = Some k" "int (length (querybuf inp)) - 2 < int k" "todo \<noteq> []" "length (querybuf inp) \<le> 11"
    show ?thesis
      by (intro exI [of _ inp] exI [of _ False]) (use w True i len t ex in \<open>simp add: unf wait_small_def\<close>)
  next
    fix u' assume w: "querybuf inp = (CHR ''*'' # show_int (int (length args))) @ CRLF @ u'" "u' @ todo = concat (map bulk args) @ concat (map encode_command rest)"
      "strchr CHR 0x0D (querybuf inp) = Some (length (CHR ''*'' # show_int (int (length args))))"
    define k where "k = length (CHR ''*'' # show_int (int (length args)))"
    have at: "querybuf inp ! 0 = CHR ''*''" using w(1) by simp
    have num: "take (k - 1) (drop 1 (querybuf inp)) = show_int (int (length args))" using w(1) by (simp add: k_def One_nat_def)
    have le: "k + 2 \<le> length (querybuf inp)" using w(1) by (simp add: k_def CRLF_def)
    have "querybuf inp = ((CHR ''*'' # show_int (int (length args))) @ CRLF) @ u'" "length ((CHR ''*'' # show_int (int (length args))) @ CRLF) = k + 2"
      using w(1) by (simp_all add: k_def CRLF_def)
    then have rest: "drop (k + 2) (querybuf inp) = u'" by (metis append_eq_conv_conj)
    have str: "string2ll (show_int (int (length args))) = Some (int (length args))" by (rule string2ll_show) (use n in \<open>simp add: in_ll_def\<close>)
    define inp1 where "inp1 = inp\<lparr>multibulklen := length args\<rparr>"
    have pm: "processMultibulkBuffer c inp s = Some (finish_bulk c (k + 2) inp1 s)"
      unfolding processMultibulkBuffer_def Let_def w(3) [folded k_def] using True i(1) le at num str n by (simp add: inp1_def)
    have m: "mid args (concat (map encode_command rest)) inp1 (drop (k + 2) (querybuf inp1) @ todo)"
      using w(2) i(2) by (simp add: mid_def inp1_def rest [simplified])
    have "\<forall>x \<in> set args. arg_ok x" using a by (simp add: valid_command_def)
    note ok = this
    have g: "multibulklen inp1 \<noteq> 0" "length args = multibulklen inp1" "reqtype inp1 = REDIS_REQ_MULTIBULK" "k + 2 \<le> length (querybuf inp1)"
      "loop_small (k + 2) inp1" "inargs inp1 = []" using n t le len i(1) by (simp_all add: inp1_def loop_small_def)
    obtain inp2 ok where "finish_bulk c (k + 2) inp1 s = (inp2, s, ok)" "reqtype inp2 = REDIS_REQ_MULTIBULK"
      "if ok then multibulklen inp2 = 0 \<and> inargs inp2 = inargs inp1 @ args \<and> querybuf inp2 @ todo = concat (map encode_command rest)
         \<and> length (querybuf inp2) \<le> REDIS_INLINE_MAX_SIZE
       else todo \<noteq> [] \<and> expects ((inargs inp1 @ args) # rest) inp2 (querybuf inp2 @ todo) \<and> wait_small inp2"
      using finish_stream [OF g(1,2) ok g(3) m g(4,5), of c s] by blast
    note fb = this [unfolded g(6) append_Nil]
    show ?thesis unfolding pm cmds list.sel using fb by (intro exI [of _ inp2] exI [of _ ok]) simp
  qed
qed

subsection \<open>The stream of a client\<close>

text \<open>The client is neither blocked nor about to be closed, whichever of its commands have been run.\<close>

definition keeps_going :: "'z conf \<Rightarrow> ('z server \<Rightarrow> bool) \<Rightarrow> nat \<Rightarrow> string list list \<Rightarrow> 'z server \<Rightarrow> bool" where
  "keeps_going e blocked c cmds s \<longleftrightarrow> (\<forall>n t. requests e (map (Pair c) (take n cmds)) s = Some t
     \<longrightarrow> \<not> blocked t \<and> \<not> close_after_reply (clients t c))"

lemma requests_split: "requests e (rs @ rs') s = Option.bind (requests e rs s) (requests e rs')"
  by (induction rs arbitrary: s) (auto split: Option.bind_splits)

lemma keeps_going_suffix:
  assumes "keeps_going e blocked c (dn @ cmds) s" "requests e (map (Pair c) dn) s = Some t"
  shows "keeps_going e blocked c cmds t"
  unfolding keeps_going_def
proof (intro allI impI)
  fix n u assume "requests e (map (Pair c) (take n cmds)) t = Some u"
  then have "requests e (map (Pair c) (take (length dn + n) (dn @ cmds))) s = Some u"
    using assms(2) by (simp add: requests_split)
  then show "\<not> blocked u \<and> \<not> close_after_reply (clients u c)" using assms(1) unfolding keeps_going_def by blast
qed

lemma expects_done:
  assumes "expects cmds inp []"
  shows "cmds = [] \<and> inp = newInput\<lparr>querybuf := querybuf inp\<rparr>"
proof -
  have "multibulklen inp = 0 \<and> inargs inp = [] \<and> bulklen inp = -1 \<and> (reqtype inp = 0 \<or> cmds \<noteq> []) \<and> [] = concat (map encode_command cmds)"
    using assms by (auto simp: expects_def mid_def bulk_def CRLF_def Suc_length_conv)
  moreover from this have "cmds = []" by (cases cmds) (auto simp: encode_command_def)
  ultimately show ?thesis by (cases inp) (simp add: newInput_def)
qed

lemma input_stream:
  assumes "expects cmds inp (querybuf inp @ todo)" "\<forall>args \<in> set cmds. valid_command args" "loop_small 0 inp"
    "requests e (map (Pair c) cmds) s = Some s'" "keeps_going e blocked c cmds s"
  shows "\<exists>inp1 s1 dn cmds1. processInputBuffer e blocked c inp s = Some (inp1, s1) \<and> cmds = dn @ cmds1
    \<and> requests e (map (Pair c) dn) s = Some s1 \<and> expects cmds1 inp1 (querybuf inp1 @ todo) \<and> wait_small inp1
    \<and> (todo = [] \<longrightarrow> cmds1 = [] \<and> inp1 = newInput)"
  using assms
proof (induction cmds arbitrary: inp s)
  case Nil
  then have "querybuf inp = []" by (auto simp: expects_def)
  then have q: "processInputBuffer e blocked c inp s = Some (inp, s)" by (simp add: processInputBuffer.simps)
  have "wait_small inp" "todo = [] \<Longrightarrow> inp = newInput"
    using expects_done [of "[]" inp] Nil.prems(1) \<open>querybuf inp = []\<close> by (auto simp: wait_small_def newInput_def)
  then show ?case using q Nil.prems(1) by (intro exI [of _ inp] exI [of _ s] exI [of _ "[]"]) simp
next
  case (Cons args cmds)
  show ?case
  proof (cases "querybuf inp = []")
    case True
    then have q: "processInputBuffer e blocked c inp s = Some (inp, s)" by (simp add: processInputBuffer.simps)
    have "todo \<noteq> []" using expects_done [of "args # cmds" inp] Cons.prems(1) True by auto
    then show ?thesis
      using q Cons.prems(1) True
      by (intro exI [of _ inp] exI [of _ s] exI [of _ "[]"] exI [of _ "args # cmds"]) (simp add: wait_small_def)
  next
    case False
    have go: "\<not> blocked s" "\<not> close_after_reply (clients s c)"
      using Cons.prems(5) unfolding keeps_going_def by (metis list.simps(8) requests.simps(1) take0)+
    define inp1 where "inp1 = (if reqtype inp \<noteq> 0 then inp
      else inp\<lparr>reqtype := if querybuf inp ! 0 = CHR ''*'' then REDIS_REQ_MULTIBULK else REDIS_REQ_INLINE\<rparr>)"
    have star: "querybuf inp ! 0 = CHR ''*''" if "reqtype inp = 0"
    proof -
      have "querybuf inp @ todo = concat (map encode_command (args # cmds))"
        using Cons.prems(1) that by (auto simp: expects_def REDIS_REQ_MULTIBULK_def)
      then show ?thesis using False by (cases "querybuf inp") (auto simp: encode_command_def)
    qed
    have f: "reqtype inp1 = REDIS_REQ_MULTIBULK" "expects (args # cmds) inp1 (querybuf inp1 @ todo)" "loop_small 0 inp1"
      using Cons.prems(1,3) star by (auto simp: inp1_def expects_def loop_small_def mid_def REDIS_REQ_MULTIBULK_def)
    obtain inp2 ok where p: "processMultibulkBuffer c inp1 s = Some (inp2, s, ok)" "reqtype inp2 = REDIS_REQ_MULTIBULK"
      "if ok then multibulklen inp2 = 0 \<and> inargs inp2 = args \<and> querybuf inp2 @ todo = concat (map encode_command cmds)
         \<and> length (querybuf inp2) \<le> REDIS_INLINE_MAX_SIZE
       else todo \<noteq> [] \<and> expects (args # cmds) inp2 (querybuf inp2 @ todo) \<and> wait_small inp2"
      using multibulk_stream [OF f(1,2) _ Cons.prems(2) f(3), of c s] by auto
    have un: "processInputBuffer e blocked c inp s = (if \<not> ok then Some (inp2, s)
        else if inargs inp2 = [] then processInputBuffer e blocked c (resetClient inp2) s
        else (case request e (c, inargs inp2) s of None \<Rightarrow> None
          | Some s3 \<Rightarrow> processInputBuffer e blocked c (if strcaseeq (inargs inp2 ! 0) ''quit'' then inp2 else resetClient inp2) s3))"
      unfolding processInputBuffer.simps [of e blocked c inp s] Let_def inp1_def [symmetric]
      using False go f(1) p(1) by (simp add: REDIS_REQ_MULTIBULK_def REDIS_REQ_INLINE_def split: bool.split)
    show ?thesis
    proof (cases ok)
      case ok: False
      then show ?thesis
        using un p(3) by (intro exI [of _ inp2] exI [of _ s] exI [of _ "[]"] exI [of _ "args # cmds"]) simp
    next
      case ok: True
      have a: "args \<noteq> []" "\<not> strcaseeq (args ! 0) ''quit''" using Cons.prems(2) by (simp_all add: valid_command_def)
      obtain s3 where s3: "request e (c, args) s = Some s3" "requests e (map (Pair c) cmds) s3 = Some s'"
        using Cons.prems(4) by (auto split: Option.bind_splits)
      have pi: "processInputBuffer e blocked c inp s = processInputBuffer e blocked c (resetClient inp2) s3"
        using un ok p(3) a s3(1) by simp
      have ex: "expects cmds (resetClient inp2) (querybuf (resetClient inp2) @ todo)" "loop_small 0 (resetClient inp2)"
        using p(3) ok by (simp_all add: expects_def resetClient_def loop_small_def)
      have "keeps_going e blocked c cmds s3"
        using keeps_going_suffix [of e blocked c "[args]" cmds s s3] Cons.prems(5) s3(1) by simp
      from Cons.IH [OF ex(1) _ ex(2) s3(2) this] Cons.prems(2) obtain inp4 s4 dn cmds4 where
        "processInputBuffer e blocked c (resetClient inp2) s3 = Some (inp4, s4)" "cmds = dn @ cmds4"
        "requests e (map (Pair c) dn) s3 = Some s4" "expects cmds4 inp4 (querybuf inp4 @ todo)" "wait_small inp4"
        "todo = [] \<longrightarrow> cmds4 = [] \<and> inp4 = newInput" by auto
      then show ?thesis
        using pi s3(1) by (intro exI [of _ inp4] exI [of _ s4] exI [of _ "args # dn"] exI [of _ cmds4]) simp
    qed
  qed
qed

subsection \<open>Any bytes\<close>

text \<open>
  What the parser keeps whatever the bytes are: the arguments read so far and the length it waits for belong to a multi
  bulk request that is not complete, and they are within 512 MB.
\<close>

definition input_ok :: "input \<Rightarrow> bool" where
  "input_ok inp \<longleftrightarrow> -1 \<le> bulklen inp \<and> bulklen inp \<le> 536870912
     \<and> (multibulklen inp = 0 \<longrightarrow> inargs inp = [] \<and> bulklen inp = -1)
     \<and> (if reqtype inp = REDIS_REQ_MULTIBULK
        then multibulklen inp = 0 \<longrightarrow> querybuf inp \<noteq> [] \<and> querybuf inp ! 0 = CHR ''*''
        else multibulklen inp = 0 \<and> (reqtype inp = 0 \<or> reqtype inp = REDIS_REQ_INLINE))"

lemma input_ok_new: "input_ok newInput"
  by (simp add: input_ok_def newInput_def REDIS_REQ_MULTIBULK_def)

lemma input_ok_reset: "input_ok (resetClient inp)"
  by (simp add: input_ok_def resetClient_def REDIS_REQ_MULTIBULK_def)

text \<open>More bytes at the end of the buffer do no harm.\<close>

lemma input_ok_more: "input_ok inp \<Longrightarrow> input_ok (inp\<lparr>querybuf := querybuf inp @ bytes\<rparr>)"
  by (cases "querybuf inp") (auto simp: input_ok_def)

lemma setProtocolError_closes: "setProtocolError c pos inp s = (inp1, s1) \<Longrightarrow> close_after_reply (clients s1 c)"
  by (auto simp: setProtocolError_def)

lemma read_bulklen_any:
  assumes "bulklen inp = -1"
  shows "read_bulklen c pos inp s = Inl (Some (inp1, s1)) \<Longrightarrow> close_after_reply (clients s1 c)"
    and "read_bulklen c pos inp s = Inr (inp2, pos2) \<Longrightarrow> inp2 = inp\<lparr>querybuf := querybuf inp2, bulklen := bulklen inp2\<rparr>
      \<and> 0 \<le> bulklen inp2 \<and> bulklen inp2 \<le> 536870912"
  using setProtocolError_closes [of c _ inp _ inp1 s1]
  by (auto simp: read_bulklen_def Let_def split: option.splits if_splits)

lemma read_argument_any:
  assumes "read_argument pos inp = Some (inp1, pos1)" "0 \<le> bulklen inp" "bulklen inp \<le> 536870912"
  shows "\<exists>x. arg_ok x \<and> inp1 = inp\<lparr>bulklen := -1, multibulklen := multibulklen inp - 1, querybuf := querybuf inp1, inargs := inargs inp @ [x]\<rparr>"
proof -
  define inp0 where "inp0 = inp\<lparr>bulklen := -1, multibulklen := multibulklen inp - 1\<rparr>"
  define x where "x = (if pos = 0 \<and> bulklen inp \<ge> REDIS_MBULK_BIG_ARG \<and> int (length (querybuf inp)) = bulklen inp + 2
    then take (length (querybuf inp) - 2) (querybuf inp) else take (nat (bulklen inp)) (drop pos (querybuf inp)))"
  have "length x \<le> 536870912" using assms(2,3) by (auto simp: x_def)
  moreover have "inp1 = inp0\<lparr>querybuf := querybuf inp1, inargs := inargs inp @ [x]\<rparr>"
    using assms(1) by (auto simp: read_argument_def Let_def x_def inp0_def split: if_splits)
  ultimately show ?thesis by (intro exI [of _ x]) (simp add: arg_ok_def inp0_def)
qed

lemma bulk_loop_any:
  assumes "multibulklen inp = m" "-1 \<le> bulklen inp" "bulklen inp \<le> 536870912" "\<forall>x \<in> set (inargs inp). arg_ok x" "m \<noteq> 0 \<or> bulklen inp = -1"
  shows "(\<exists>inp1 s1. bulk_loop m c pos inp s = Inl (inp1, s1) \<and> close_after_reply (clients s1 c))
    \<or> (\<exists>inp1 pos1. bulk_loop m c pos inp s = Inr (inp1, pos1) \<and> reqtype inp1 = reqtype inp \<and> -1 \<le> bulklen inp1 \<and> bulklen inp1 \<le> 536870912
        \<and> (\<forall>x \<in> set (inargs inp1). arg_ok x) \<and> length (inargs inp1) + multibulklen inp1 = length (inargs inp) + m
        \<and> (multibulklen inp1 = 0 \<longrightarrow> bulklen inp1 = -1))"
  using assms
proof (induction m arbitrary: inp pos)
  case (Suc m)
  let ?r = "if bulklen inp = -1 then read_bulklen c pos inp s else Inr (inp, pos)"
  consider "?r = Inl None" | inp1 s1 where "?r = Inl (Some (inp1, s1))" | inp2 pos2 where "?r = Inr (inp2, pos2)" by (cases ?r) force+
  then show ?case
  proof cases
    case 1
    then show ?thesis using Suc.prems by simp
  next
    case 2
    then show ?thesis using read_bulklen_any(1) by (auto split: if_splits)
  next
    case 3
    then have a: "inp2 = inp\<lparr>querybuf := querybuf inp2, bulklen := bulklen inp2\<rparr>" "0 \<le> bulklen inp2" "bulklen inp2 \<le> 536870912"
      using read_bulklen_any(2) [of inp c pos s inp2 pos2] Suc.prems(2,3) by (auto split: if_splits)
    have b: "multibulklen inp2 = Suc m" "reqtype inp2 = reqtype inp" "inargs inp2 = inargs inp"
      by (subst a(1), simp add: Suc.prems(1))+
    show ?thesis
    proof (cases "read_argument pos2 inp2")
      case None
      then show ?thesis using 3 a(2,3) b Suc.prems(4) by simp
    next
      case (Some r)
      obtain inp3 pos3 where r: "r = (inp3, pos3)" by force
      obtain x where x: "arg_ok x" "inp3 = inp2\<lparr>bulklen := -1, multibulklen := multibulklen inp2 - 1, querybuf := querybuf inp3, inargs := inargs inp2 @ [x]\<rparr>"
        using read_argument_any [OF Some [unfolded r] a(2,3)] by blast
      have d: "multibulklen inp3 = m" "bulklen inp3 = -1" "reqtype inp3 = reqtype inp" "inargs inp3 = inargs inp @ [x]"
        by (subst x(2), simp add: b)+
      have "\<forall>y \<in> set (inargs inp3). arg_ok y" using Suc.prems(4) x(1) d(4) by simp
      from Suc.IH [OF d(1) _ _ this, of pos3] d(2) have
        "(\<exists>inp1 s1. bulk_loop m c pos3 inp3 s = Inl (inp1, s1) \<and> close_after_reply (clients s1 c))
         \<or> (\<exists>inp1 pos1. bulk_loop m c pos3 inp3 s = Inr (inp1, pos1) \<and> reqtype inp1 = reqtype inp3 \<and> -1 \<le> bulklen inp1 \<and> bulklen inp1 \<le> 536870912
        \<and> (\<forall>x \<in> set (inargs inp1). arg_ok x) \<and> length (inargs inp1) + multibulklen inp1 = length (inargs inp3) + m
        \<and> (multibulklen inp1 = 0 \<longrightarrow> bulklen inp1 = -1))" by simp
      moreover have "bulk_loop (Suc m) c pos inp s = bulk_loop m c pos3 inp3 s" using 3 Some r by simp
      ultimately show ?thesis using d(3,4) by simp
    qed
  qed
qed simp

text \<open>The outcome of one request, complete or not.\<close>

definition outcome_ok :: "nat \<Rightarrow> input \<times> 'z server \<times> bool \<Rightarrow> bool" where
  "outcome_ok c r \<longleftrightarrow> (case r of (inp1, s1, ok) \<Rightarrow> \<not> ok \<longrightarrow> close_after_reply (clients s1 c) \<or> (input_ok inp1 \<and> (\<forall>x \<in> set (inargs inp1). arg_ok x)))"

lemma outcome_error: "outcome_ok c (case setProtocolError c pos inp s of (inp1, s1) \<Rightarrow> (inp1, s1, False))"
  using setProtocolError_closes [of c pos inp s] by (auto simp: outcome_ok_def split: prod.split)

lemma outcome_error_Some: "\<exists>r. (case setProtocolError c pos inp s of (inp1, s1) \<Rightarrow> Some (inp1, s1, False)) = Some r \<and> outcome_ok c r"
  using outcome_error [of c pos inp s] by (cases "setProtocolError c pos inp s") simp

lemma finish_any:
  assumes "input_ok inp" "multibulklen inp \<noteq> 0" "\<forall>x \<in> set (inargs inp). arg_ok x" "reqtype inp = REDIS_REQ_MULTIBULK"
  shows "outcome_ok c (finish_bulk c pos inp s)"
proof -
  have "-1 \<le> bulklen inp" "bulklen inp \<le> 536870912" using assms(1) by (simp_all add: input_ok_def)
  from bulk_loop_any [OF refl this assms(3) disjI1 [OF assms(2)], of c pos s] show ?thesis
  proof (elim disjE exE conjE)
    fix inp1 pos1 assume r: "bulk_loop (multibulklen inp) c pos inp s = Inr (inp1, pos1)" "reqtype inp1 = reqtype inp"
      "- 1 \<le> bulklen inp1" "bulklen inp1 \<le> 536870912" "\<forall>x\<in>set (inargs inp1). arg_ok x"
    then have "multibulklen inp1 \<noteq> 0 \<Longrightarrow> input_ok (inp1\<lparr>querybuf := drop pos1 (querybuf inp1)\<rparr>)" by (simp add: input_ok_def assms(4))
    then show ?thesis using r(1,5) by (simp add: finish_bulk_def outcome_ok_def)
  qed (simp add: finish_bulk_def outcome_ok_def)
qed

lemma multibulk_any:
  assumes "input_ok inp" "\<forall>x \<in> set (inargs inp). arg_ok x" "reqtype inp = REDIS_REQ_MULTIBULK"
  shows "\<exists>r. processMultibulkBuffer c inp s = Some r \<and> outcome_ok c r"
proof (cases "multibulklen inp = 0")
  case False
  then show ?thesis using finish_any [OF assms(1) False assms(2,3), of c 0 s] by (simp add: processMultibulkBuffer_def)
next
  case True
  then have i: "inargs inp = []" "bulklen inp = -1" "querybuf inp ! 0 = CHR ''*''" using assms(1,3) by (auto simp: input_ok_def)
  note unf = processMultibulkBuffer_def Let_def True i(1,3)
  have idle: "outcome_ok c (inp, s, False)" using assms(1,2) by (simp add: outcome_ok_def)
  show ?thesis
  proof (cases "strchr CHR 0x0D (querybuf inp)")
    case None
    show ?thesis unfolding unf None option.case by (simp add: outcome_error_Some idle del: split_paired_Ex)
  next
    case (Some k)
    define r where "r = string2ll (take (k - 1) (drop 1 (querybuf inp)))"
    consider "int k > int (length (querybuf inp)) - 2" | "\<not> int k > int (length (querybuf inp)) - 2" "r = None \<or> the r > 1024 * 1024"
      | "\<not> int k > int (length (querybuf inp)) - 2" "\<not> (r = None \<or> the r > 1024 * 1024)" "the r \<le> 0"
      | "\<not> int k > int (length (querybuf inp)) - 2" "\<not> (r = None \<or> the r > 1024 * 1024)" "\<not> the r \<le> 0" by blast
    then show ?thesis
    proof cases
      case 1
      then show ?thesis using Some idle by (simp add: unf)
    next
      case 2
      then show ?thesis
        unfolding unf Some option.case r_def [symmetric] using 2 by (simp add: outcome_error_Some del: split_paired_Ex)
    next
      case 3
      then show ?thesis unfolding unf Some option.case r_def [symmetric]
        by (intro exI [of _ "(inp\<lparr>querybuf := drop (k + 2) (querybuf inp)\<rparr>, s, True)"]) (auto simp: outcome_ok_def)
    next
      case 4
      define inp1 where "inp1 = inp\<lparr>multibulklen := nat (the r)\<rparr>"
      have "input_ok inp1" "multibulklen inp1 \<noteq> 0" "inargs inp1 = []" "reqtype inp1 = REDIS_REQ_MULTIBULK"
        using assms(1,3) 4 i by (simp_all add: inp1_def input_ok_def)
      from finish_any [OF this(1,2) _ this(4), of c "k + 2" s] this(3) show ?thesis
        unfolding unf Some option.case r_def [symmetric] using 4
        by (intro exI [of _ "finish_bulk c (k + 2) inp1 s"]) (auto simp: inp1_def [symmetric])
    qed
  qed
qed

lemma inline_any:
  assumes "input_ok inp" "\<forall>x \<in> set (inargs inp). arg_ok x"
  shows "outcome_ok c (processInlineBuffer c inp s)"
proof -
  have "outcome_ok c (inp, s, False)" using assms by (simp add: outcome_ok_def)
  moreover have "outcome_ok c (inp1, s, True)" for inp1 by (simp add: outcome_ok_def)
  ultimately show ?thesis unfolding processInlineBuffer_def Let_def by (simp add: outcome_error split: option.split)
qed

lemma request_quit_closes:
  "request e (c, args) s = Some s1 \<Longrightarrow> strcaseeq (args ! 0) ''quit'' \<Longrightarrow> close_after_reply (clients s1 c)"
  by (auto simp: request_def processCommand_def Let_def)

lemma input_any:
  assumes "input_ok inp" "\<forall>x \<in> set (inargs inp). arg_ok x" "\<forall>args t. args \<noteq> [] \<longrightarrow> request e (c, args) t \<noteq> None"
  shows "\<exists>inp1 s1. processInputBuffer e blocked c inp s = Some (inp1, s1)
    \<and> (close_after_reply (clients s1 c) \<or> (input_ok inp1 \<and> (\<forall>x \<in> set (inargs inp1). arg_ok x)))"
  using assms(1,2)
proof (induction "length (querybuf inp)" arbitrary: inp s rule: less_induct)
  case less
  show ?case
  proof (cases "querybuf inp = [] \<or> blocked s \<or> close_after_reply (clients s c)")
    case True
    then show ?thesis using less.prems by (simp add: processInputBuffer.simps)
  next
    case False
    define inp1 where "inp1 = (if reqtype inp \<noteq> 0 then inp
      else inp\<lparr>reqtype := if querybuf inp ! 0 = CHR ''*'' then REDIS_REQ_MULTIBULK else REDIS_REQ_INLINE\<rparr>)"
    have f: "input_ok inp1" "\<forall>x \<in> set (inargs inp1). arg_ok x" "querybuf inp1 = querybuf inp"
      "reqtype inp1 = REDIS_REQ_INLINE \<or> reqtype inp1 = REDIS_REQ_MULTIBULK"
      using less.prems False by (auto simp: inp1_def input_ok_def REDIS_REQ_MULTIBULK_def REDIS_REQ_INLINE_def split: if_splits)
    define parsed where "parsed = (if reqtype inp1 = REDIS_REQ_INLINE then Some (processInlineBuffer c inp1 s)
                 else if reqtype inp1 = REDIS_REQ_MULTIBULK then processMultibulkBuffer c inp1 s else None)"
    have "\<exists>r. parsed = Some r \<and> outcome_ok c r"
      unfolding parsed_def using inline_any [OF f(1,2), of c s] multibulk_any [OF f(1,2), of c s] f(4)
      by (simp only: if_True option.inject ex_simps simp_thms split: if_split) blast
    then obtain inp2 s2 ok where p: "parsed = Some (inp2, s2, ok)"
      "\<not> ok \<Longrightarrow> close_after_reply (clients s2 c) \<or> (input_ok inp2 \<and> (\<forall>x \<in> set (inargs inp2). arg_ok x))"
      by (auto simp: outcome_ok_def)
    have un: "processInputBuffer e blocked c inp s = (if \<not> ok then Some (inp2, s2)
        else if inargs inp2 = [] then processInputBuffer e blocked c (resetClient inp2) s2
        else (case request e (c, inargs inp2) s2 of None \<Rightarrow> None
          | Some s3 \<Rightarrow> processInputBuffer e blocked c (if strcaseeq (inargs inp2 ! 0) ''quit'' then inp2 else resetClient inp2) s3))"
      unfolding processInputBuffer.simps [of e blocked c inp s] Let_def inp1_def [symmetric] parsed_def [symmetric] p(1)
      using False by (simp split: bool.split)
    show ?thesis
    proof (cases ok)
      case False
      then show ?thesis using un p(2) by simp
    next
      case True
      have "length (querybuf inp2) < length (querybuf inp)"
        using p(1) True f(3) inline_shrinks [of c inp1 s inp2 s2] bulk_shrinks [of c inp1 s inp2 s2]
        by (auto simp: parsed_def split: if_splits)
      then have IH: "\<exists>inp1 s1. processInputBuffer e blocked c (resetClient inp2) t = Some (inp1, s1)
          \<and> (close_after_reply (clients s1 c) \<or> (input_ok inp1 \<and> (\<forall>x \<in> set (inargs inp1). arg_ok x)))" for t
        using less.hyps [of "resetClient inp2" t] input_ok_reset by (simp add: resetClient_def)
      show ?thesis
      proof (cases "inargs inp2 = []")
        case True
        then show ?thesis using un \<open>ok\<close> IH by simp
      next
        case False
        then obtain s3 where s3: "request e (c, inargs inp2) s2 = Some s3" using assms(3) by fastforce
        show ?thesis
        proof (cases "strcaseeq (inargs inp2 ! 0) ''quit''")
          case True
          then have cl: "close_after_reply (clients s3 c)" using request_quit_closes s3 by blast
          then have "processInputBuffer e blocked c inp2 s3 = Some (inp2, s3)" by (simp add: processInputBuffer.simps)
          then show ?thesis using un \<open>ok\<close> False s3 True cl by simp
        next
          case noquit: False
          then show ?thesis using un \<open>ok\<close> False s3 IH by simp
        qed
      qed
    qed
  qed
qed

end
