(* ===== verification/Stream_Properties.thy ===== *)
theory Stream_Properties
  imports Networking_Correct Store_Properties
begin

unbundle bit_operations_syntax

declare One_nat_def [simp del]

text \<open>
  The network between a client and the server: reads of any sizes of the bytes the client has sent. The properties
  that the parser has over it, and with the store behind it.
\<close>

subsection \<open>Delivery\<close>

definition REDIS_MAX_QUERYBUF_LEN :: nat where "REDIS_MAX_QUERYBUF_LEN = 1024 * 1024 * 1024"

text \<open>
  Each call of \<open>readQueryFromClient\<close> gets at least one of the bytes that are left, and never more than it asks
  for; the sizes are those of the list. The input side is \<open>None\<close> once the client is closed.
\<close>

fun deliver :: "'z conf \<Rightarrow> ('z server \<Rightarrow> bool) \<Rightarrow> ('z server \<Rightarrow> 'z server) \<Rightarrow> nat \<Rightarrow> nat list \<Rightarrow> string \<Rightarrow> input \<Rightarrow> 'z server
    \<Rightarrow> (input option \<times> 'z server) option" where
  "deliver e blocked freeC c [] todo inp s = Some (Some inp, s)"
| "deliver e blocked freeC c (n # ns) todo inp s =
     (if todo = [] then Some (Some inp, s)
      else let k = min (Suc n) (read_len inp) in
        case readQueryFromClient e blocked freeC REDIS_MAX_QUERYBUF_LEN c (take k todo) inp s of
          None \<Rightarrow> None
        | Some (None, s1) \<Rightarrow> Some (None, s1)
        | Some (Some inp1, s1) \<Rightarrow> deliver e blocked freeC c ns (drop k todo) inp1 s1)"

lemma expects_buffer [simp]: "expects cmds (inp\<lparr>querybuf := q\<rparr>) bytes = expects cmds inp bytes"
  by (simp add: expects_def mid_def)

lemma expects_bulklen:
  assumes "expects cmds inp bytes" "\<forall>args \<in> set cmds. valid_command args"
  shows "bulklen inp \<le> 536870912" "bulklen inp = -1 \<or> (reqtype inp = REDIS_REQ_MULTIBULK \<and> multibulklen inp \<noteq> 0 \<and> 0 \<le> bulklen inp)"
proof -
  have "bulklen inp = -1 \<or> (reqtype inp = REDIS_REQ_MULTIBULK \<and> multibulklen inp \<noteq> 0 \<and> (\<exists>x args. args \<in> set cmds \<and> x \<in> set args \<and> bulklen inp = int (length x)))"
    using assms(1) unfolding expects_def mid_def by fastforce
  then show "bulklen inp \<le> 536870912" "bulklen inp = -1 \<or> (reqtype inp = REDIS_REQ_MULTIBULK \<and> multibulklen inp \<noteq> 0 \<and> 0 \<le> bulklen inp)"
    using assms(2) by (auto simp: valid_command_def arg_ok_def)
qed

text \<open>A read never overfills the buffer.\<close>

lemma read_fits:
  assumes "expects cmds inp bytes" "\<forall>args \<in> set cmds. valid_command args" "wait_small inp" "length new \<le> read_len inp"
  shows "loop_small 0 (inp\<lparr>querybuf := querybuf inp @ new\<rparr>)" "length (querybuf inp @ new) \<le> REDIS_MAX_QUERYBUF_LEN"
proof -
  note b = expects_bulklen [OF assms(1,2)]
  note defs = loop_small_def wait_small_def read_len_def REDIS_MBULK_BIG_ARG_def REDIS_IOBUF_LEN_def REDIS_INLINE_MAX_SIZE_def
    REDIS_MAX_QUERYBUF_LEN_def
  show l: "loop_small 0 (inp\<lparr>querybuf := querybuf inp @ new\<rparr>)"
    using b(2) assms(3,4) by (auto simp: defs split: if_splits)
  show "length (querybuf inp @ new) \<le> REDIS_MAX_QUERYBUF_LEN"
    using l b(1) by (auto simp: defs)
qed

lemma read_len_pos: "wait_small inp \<Longrightarrow> 0 < read_len inp"
  by (auto simp: wait_small_def read_len_def REDIS_IOBUF_LEN_def REDIS_MBULK_BIG_ARG_def)

lemma deliver_stream:
  assumes "expects cmds inp (querybuf inp @ todo)" "\<forall>args \<in> set cmds. valid_command args" "wait_small inp"
    "requests e (map (Pair c) cmds) s = Some s'" "keeps_going e blocked c cmds s" "length todo \<le> length ns"
    "todo = [] \<longrightarrow> cmds = [] \<and> inp = newInput"
  shows "deliver e blocked freeC c ns todo inp s = Some (Some newInput, s')"
  using assms
proof (induction ns arbitrary: cmds inp todo s)
  case Nil
  then show ?case by simp
next
  case (Cons n ns)
  show ?case
  proof (cases "todo = []")
    case True
    then show ?thesis using Cons.prems by simp
  next
    case False
    define k where "k = min (Suc n) (read_len inp)"
    define inp0 where "inp0 = inp\<lparr>querybuf := querybuf inp @ take k todo\<rparr>"
    have k: "0 < k" "length (take k todo) \<le> read_len inp" using read_len_pos [OF Cons.prems(3)] by (auto simp: k_def)
    note fits = read_fits [OF Cons.prems(1-3) k(2), folded inp0_def]
    have ex: "expects cmds inp0 (querybuf inp0 @ drop k todo)" using Cons.prems(1) by (simp add: inp0_def)
    obtain inp1 s1 dn cmds1 where r: "processInputBuffer e blocked c inp0 s = Some (inp1, s1)" "cmds = dn @ cmds1"
      "requests e (map (Pair c) dn) s = Some s1" "expects cmds1 inp1 (querybuf inp1 @ drop k todo)" "wait_small inp1"
      "drop k todo = [] \<longrightarrow> cmds1 = [] \<and> inp1 = newInput"
      using input_stream [OF ex Cons.prems(2) fits(1) Cons.prems(4,5)] by blast
    have rest: "requests e (map (Pair c) cmds1) s1 = Some s'"
      using Cons.prems(4) r(2,3) by (simp add: requests_split)
    have go: "keeps_going e blocked c cmds1 s1"
      using keeps_going_suffix [of e blocked c dn cmds1 s s1] Cons.prems(5) r(2,3) by simp
    have v: "\<forall>args \<in> set cmds1. valid_command args" using Cons.prems(2) r(2) by simp
    have "length (drop k todo) \<le> length ns" using Cons.prems(6) k(1) by simp
    from Cons.IH [OF r(4) v r(5) rest go this r(6)]
    have "deliver e blocked freeC c ns (drop k todo) inp1 s1 = Some (Some newInput, s')" .
    then show ?thesis
      using False r(1) fits(2) by (simp add: Let_def k_def [symmetric] readQueryFromClient_def inp0_def)
  qed
qed

lemma stream_runs:
  assumes "\<forall>args \<in> set cmds. valid_command args" "requests e (map (Pair c) cmds) s = Some s'" "keeps_going e blocked c cmds s"
    "length (concat (map encode_command cmds)) \<le> length ns"
  shows "deliver e blocked freeC c ns (concat (map encode_command cmds)) newInput s = Some (Some newInput, s')"
proof -
  have "expects cmds newInput (querybuf newInput @ concat (map encode_command cmds))" "wait_small newInput"
    by (simp_all add: expects_def newInput_def wait_small_def)
  moreover have "concat (map encode_command cmds) = [] \<longrightarrow> cmds = [] \<and> newInput = newInput"
    by (cases cmds) (simp_all add: encode_command_def)
  ultimately show ?thesis using deliver_stream assms by blast
qed

subsection \<open>The commands of the store over the network\<close>

lemma kv_arity_pos: "list_all (\<lambda>p. 0 < kv_arity p) kv_names"
  by code_simp

lemma queueable_not_quit: "queueable a \<Longrightarrow> a \<noteq> [] \<and> \<not> strcaseeq (a ! 0) ''quit''"
proof -
  assume q: "queueable a"
  obtain x and spec :: "unit spec" where "kv_line a x spec" using queueable_line [OF q] by blast
  moreover from this have "0 < kv_arity (proc x)" using kv_arity_pos kv_specs_dom by (auto simp: kv_line_def list_all_iff)
  ultimately show ?thesis using kv_line_proc kv_line_args by (fastforce simp: kv_args_def)
qed

lemma queueable_valid: "queueable a \<Longrightarrow> length a \<le> 1048576 \<Longrightarrow> valid_command a"
  using queueable_not_quit by (auto simp: valid_command_def queueable_def)

lemma queue_fits_take: "queue_fits t i q ks \<Longrightarrow> queue_fits t i (take n q) ks"
  by (induction q arbitrary: n ks) (auto simp: take_Cons split: nat.split option.splits prod.splits)

lemma store_keeps_going:
  assumes "calm_conf e" "calm C s" "c \<in> C" "\<not> multi (clients s c)" "list_all queueable q"
    "queue_fits (timing_of s) (cdb (clients s c)) q (live s)" "\<not> close_after_reply (clients s c)"
  shows "keeps_going e (\<lambda>t. False) c q s"
  unfolding keeps_going_def
proof (intro allI impI)
  fix n t assume t: "requests e (map (Pair c) (take n q)) s = Some t"
  have "list_all queueable (take n q)" using assms(5) by (auto simp: list_all_iff dest: in_set_takeD)
  from pipeline_run [OF assms(1-4) this queue_fits_take [OF assms(6)]] t
  have "same_conf s t" by (auto dest: runD(1))
  then have "core (clients t c) = core (clients s c)" by (simp add: same_conf_def)
  then show "\<not> False \<and> \<not> close_after_reply (clients t c)" using assms(7) core_fields by metis
qed

subsection \<open>The properties\<close>

text \<open>C10: however the network cuts the stream of bytes of a client into reads, its commands in the multi bulk protocol are
  run in order, each exactly once, as if they had arrived whole, and the parser is back in its first state with an
  empty buffer; each argument up to 512 MB arrives byte for byte, and no protocol error is raised.\<close>
theorem stream_runs_commands:
  assumes "\<forall>args \<in> set cmds. valid_command args" "requests e (map (Pair c) cmds) s = Some s'" "keeps_going e blocked c cmds s"
    "length (concat (map encode_command cmds)) \<le> length ns"
  shows "deliver e blocked freeC c ns (concat (map encode_command cmds)) newInput s = Some (Some newInput, s')"
  using stream_runs [OF assms] .

lemma deliver_any:
  assumes "\<forall>args t. args \<noteq> [] \<longrightarrow> request e (c, args) t \<noteq> None"
    and "close_after_reply (clients s c) \<or> (input_ok inp \<and> (\<forall>x \<in> set (inargs inp). arg_ok x))"
  shows "\<exists>r s1. deliver e blocked freeC c ns bytes inp s = Some (r, s1)
    \<and> (case r of None \<Rightarrow> True | Some inp1 \<Rightarrow> close_after_reply (clients s1 c) \<or> (input_ok inp1 \<and> (\<forall>x \<in> set (inargs inp1). arg_ok x)))"
  using assms(2)
proof (induction ns arbitrary: inp s bytes)
  case (Cons n ns)
  define k where "k = min (Suc n) (read_len inp)"
  define inp0 where "inp0 = inp\<lparr>querybuf := querybuf inp @ take k bytes\<rparr>"
  have "\<exists>inp1 s1. processInputBuffer e blocked c inp0 s = Some (inp1, s1)
    \<and> (close_after_reply (clients s1 c) \<or> (input_ok inp1 \<and> (\<forall>x \<in> set (inargs inp1). arg_ok x)))"
  proof (cases "close_after_reply (clients s c)")
    case True
    then show ?thesis by (simp add: processInputBuffer.simps)
  next
    case False
    then have "input_ok inp0" "\<forall>x \<in> set (inargs inp0). arg_ok x" using Cons.prems input_ok_more by (simp_all add: inp0_def)
    then show ?thesis by (rule input_any [OF _ _ assms(1)])
  qed
  then obtain inp1 s1 where r: "processInputBuffer e blocked c inp0 s = Some (inp1, s1)"
    "close_after_reply (clients s1 c) \<or> (input_ok inp1 \<and> (\<forall>x \<in> set (inargs inp1). arg_ok x))" by blast
  show ?case
    using Cons.prems Cons.IH [OF r(2), of "drop k bytes"] r(1)
    by (auto simp: Let_def k_def [symmetric] readQueryFromClient_def inp0_def)
qed simp


text \<open>C2: from the bytes on the wire to the replies. A client sends any sequence of commands of the store, the network cuts
  its bytes in any way, and the server behaves as the abstract store: the keyspace, the bytes of all the replies in order, the
  count of changes and the marks of the clients that watch.\<close>
theorem wire_refines_store:
  assumes "calm_conf e" "calm C s" "c \<in> C" "\<not> multi (clients s c)" "\<not> close_after_reply (clients s c)" "list_all queueable q"
    "\<forall>a \<in> set q. length a \<le> 1048576" "queue_fits (timing_of s) (cdb (clients s c)) q (live s)"
    "length (concat (map encode_command q)) \<le> length ns"
  shows "\<exists>s'. deliver e (\<lambda>t. False) freeC c ns (concat (map encode_command q)) newInput s = Some (Some newInput, s')
    \<and> (case queue_effect (timing_of s) (cdb (clients s c)) q (live s) of (K, n, x, T) \<Rightarrow>
         live s' = K \<and> dirty s' = dirty s + n \<and> said (clients s c) (clients s' c) x
         \<and> (\<forall>d. dirty_cas (clients s' d) \<longleftrightarrow> dirty_cas (clients s d) \<or> d \<in> \<Union> (watchers s (cdb (clients s c)) ` T)))"
proof -
  obtain s' where s': "requests e (map (Pair c) q) s = Some s'" "calm C s'"
    "case queue_effect (timing_of s) (cdb (clients s c)) q (live s) of
       (K, n, x, T) \<Rightarrow> run c s s' K n x (\<Union> (watchers s (cdb (clients s c)) ` T))"
    using pipeline_run [OF assms(1-4,6,8)] by (elim exE conjE)
  obtain K n x T where eff: "queue_effect (timing_of s) (cdb (clients s c)) q (live s) = (K, n, x, T)" by (metis prod.exhaust)
  then have "run c s s' K n x (\<Union> (watchers s (cdb (clients s c)) ` T))" using s'(3) by simp
  note r = runD(3,4,5,6) [OF this]
  have v: "\<forall>a \<in> set q. valid_command a" using assms(6,7) queueable_valid by (simp add: list_all_iff)
  have "deliver e (\<lambda>t. False) freeC c ns (concat (map encode_command q)) newInput s = Some (Some newInput, s')"
    by (rule stream_runs [OF v s'(1) store_keeps_going [OF assms(1-4,6,8,5)] assms(9)])
  then show ?thesis by (intro exI [of _ s']) (simp add: eff said_def r)
qed

lemma demo_close [simp]: "\<not> close_after_reply createClient"
  by (simp add: createClient_def)

text \<open>One byte at a time.\<close>

theorem wire_refines_store_witness:
  "\<exists>s'. deliver demo_conf (\<lambda>t. False) (\<lambda>s. s) 0 (replicate 84 0) (concat (map encode_command demo_queue)) newInput (blank_server :: unit server)
       = Some (Some newInput, s')
    \<and> live s' 0 ''k'' = Some (StrInt 8, None) \<and> reply (clients s' 0) = ''+OK'' @ CRLF @ '':8'' @ CRLF @ ''$1'' @ CRLF @ ''8'' @ CRLF"
proof -
  obtain K n x T where eff: "queue_effect (timing_of blank_server) 0 demo_queue (live (blank_server :: unit server)) = (K, n, x, T)"
    by (metis prod.exhaust)
  then have kx: "K 0 ''k'' = Some (StrInt 8, None)" "x = ''+OK'' @ CRLF @ '':8'' @ CRLF @ ''$1'' @ CRLF @ ''8'' @ CRLF"
    by (auto simp: demo_queue_def effect_simps demo_values incr_seven ks_upd_apply get_reply_def no_flags_def shared_ok_def bulk_def)
  have len: "length (concat (map encode_command demo_queue)) \<le> length (replicate 84 (0 :: nat))" by code_simp
  have "\<forall>a \<in> set demo_queue. length a \<le> 1048576" by (simp add: demo_queue_def)
  then obtain s' where "deliver demo_conf (\<lambda>t. False) (\<lambda>s. s) 0 (replicate 84 0) (concat (map encode_command demo_queue)) newInput (blank_server :: unit server)
       = Some (Some newInput, s')" "live s' = K" "said (clients (blank_server :: unit server) 0) (clients s' 0) x"
    using wire_refines_store [where s = "blank_server :: unit server" and e = demo_conf and C = "{0, 1}" and c = 0 and q = demo_queue
        and freeC = "\<lambda>s. s", OF calm_demo calm_blank _ _ _ demo_queueable _ _ len] eff by (simp add: demo_fits) blast
  then show ?thesis by (intro exI [of _ s']) (use kx in \<open>simp_all add: said_def\<close>)
qed

theorem stream_runs_commands_witness:
  "\<exists>s'. deliver demo_conf (\<lambda>t. False) (\<lambda>s. s) 0 (replicate 84 2) (concat (map encode_command demo_queue)) newInput (blank_server :: unit server)
       = Some (Some newInput, s')"
proof -
  have fits: "queue_fits (timing_of (blank_server :: unit server)) (cdb (clients (blank_server :: unit server) 0)) demo_queue (live blank_server)"
    by (simp add: demo_fits)
  have q: "(0 :: nat) \<in> {0, 1}" "\<not> multi (clients (blank_server :: unit server) 0)" by (simp_all add: createClient_def)
  obtain s' where s': "requests demo_conf (map (Pair 0) demo_queue) (blank_server :: unit server) = Some s'"
    using pipeline_run [OF calm_demo calm_blank q demo_queueable fits] by blast
  have v: "\<forall>args \<in> set demo_queue. valid_command args"
    using queueable_valid demo_queueable by (simp add: demo_queue_def)
  have len: "length (concat (map encode_command demo_queue)) \<le> length (replicate 84 (2 :: nat))" by code_simp
  have go: "keeps_going demo_conf (\<lambda>t. False) 0 demo_queue (blank_server :: unit server)"
    by (rule store_keeps_going [OF calm_demo calm_blank q demo_queueable fits]) simp
  show ?thesis using stream_runs_commands [OF v s' go len] by blast
qed

subsection \<open>Inline requests\<close>

text \<open>
  A line that ends in a bare \<open>\n\<close>: the byte after it is dropped with the line, so that the second of two inline requests
  sent together loses its first letter.
\<close>

lemma inline_newline_eats:
  "processInlineBuffer c (newInput\<lparr>querybuf := ''PING'' @ [CHR 0x0A] @ ''INCR k'' @ [CHR 0x0A]\<rparr>) s
     = (newInput\<lparr>querybuf := ''NCR k'' @ [CHR 0x0A], inargs := [''PING'']\<rparr>, s, True)"
proof -
  have "strchr CHR 0x0A (''PING'' @ [CHR 0x0A] @ ''INCR k'' @ [CHR 0x0A]) = Some 4" "sdssplitargs (cstr ''PING'') = Some [''PING'']"
    by code_simp+
  then show ?thesis by (simp add: processInlineBuffer_def newInput_def)
qed

text \<open>A server with an empty command table refuses every command, and never aborts.\<close>

lemma no_commands_total: "request (demo_conf\<lparr>commands := []\<rparr>) (c, args) t \<noteq> None"
  by (simp add: request_def processCommand_def Let_def lookupCommand_def)


end
