(* ===== verification/Bit_Properties.thy ===== *)
theory Bit_Properties
  imports Store_Properties
begin

unbundle bit_operations_syntax

declare One_nat_def [simp del]

text \<open>
  The properties of the bit operations: each routine with a fast path over machine words computes what its
  definition on single bits says, wherever the string lies in memory; and the commands read back the bits that were written.
\<close>

text \<open>C29: \<open>redisPopcount\<close>, with its four words a round, its table for the bytes at both ends and any alignment of the string, is the number of bits
  that are set.\<close>
theorem popcount_counts_bits:
  "redisPopcount addr x = card {i. i < 8 * length x \<and> bit (uchar (x ! (i div 8))) (7 - i mod 8)}"
proof -
  have "{i. bit_of x i} = {i. i < 8 * length x \<and> bit (uchar (x ! (i div 8))) (7 - i mod 8)}"
    by (auto simp: bit_of_def less_mult_imp_div_less mult.commute)
  then show ?thesis by (simp add: redisPopcount_ones ones_def)
qed

text \<open>C32: \<open>redisBitpos\<close> never reaches its panic, and answers the first bit of the kind: for the zero bits the string
  is followed by zeros, and for the one bits \<open>-1\<close> tells that there is none. Skipping bytes up to an
  aligned address and whole words does not change the answer.\<close>
theorem bitpos_finds_first:
  "redisBitpos addr x True = Some (if \<exists>i. bit_of x i then int (LEAST i. bit_of x i) else -1)
    \<and> redisBitpos addr x False = Some (int (LEAST i. \<not> bit_of x i))"
proof
  show "redisBitpos addr x True = Some (if \<exists>i. bit_of x i then int (LEAST i. bit_of x i) else -1)"
    by (simp add: redisBitpos_first first_bit_def)
  have "\<exists>i. \<not> bit_of x i" using bit_of_bound [of x "8 * length x"] by blast
  then show "redisBitpos addr x False = Some (int (LEAST i. \<not> bit_of x i))"
    by (simp add: redisBitpos_first first_bit_def)
qed

text \<open>The combination of a row of bits.\<close>

definition bits_spec :: "bitop \<Rightarrow> bool list \<Rightarrow> bool" where
  "bits_spec op bs = (case op of BITOP_AND \<Rightarrow> False \<notin> set bs | BITOP_OR \<Rightarrow> True \<in> set bs
     | BITOP_XOR \<Rightarrow> odd (length (filter id bs)) | BITOP_NOT \<Rightarrow> \<not> hd bs)"

lemma bits_fold_spec: "bs \<noteq> [] \<Longrightarrow> bits_fold op bs = bits_spec op bs"
proof -
  have a: "foldl (\<and>) b bs \<longleftrightarrow> b \<and> False \<notin> set bs" "foldl (\<or>) b bs \<longleftrightarrow> b \<or> True \<in> set bs"
    "foldl (\<lambda>x y. x = (\<not> y)) b bs \<longleftrightarrow> (b \<noteq> odd (length (filter id bs)))" "foldl (\<lambda>x y. x) b bs = b" for b bs
    by (induction bs arbitrary: b) auto
  have f: "bool_op BITOP_AND = (\<and>)" "bool_op BITOP_OR = (\<or>)" "bool_op BITOP_XOR = (\<noteq>)" "bool_op BITOP_NOT = (\<lambda>x y. x)"
    by (simp_all add: fun_eq_iff)
  assume "bs \<noteq> []"
  then obtain b cs where bs: "bs = b # cs" by (cases bs) auto
  show ?thesis unfolding bs by (cases op) (auto simp: bits_fold_def bits_spec_def f a)
qed

text \<open>C30: \<open>BITOP\<close> stores a string as long as the longest source, each bit of which is the combination of the bits of all the sources, where
  the shorter ones and the missing keys count as zeros: the fast path over four words at a time, the
  loop over the bytes and the negation fit together, whatever the number and the lengths of the sources.\<close>
theorem bitop_combines_bits:
  assumes "xs \<noteq> []"
  shows "length (bitop_result op xs) = Max (set (map (length \<circ> source) xs))
    \<and> (\<forall>i < 8 * length (bitop_result op xs). bit_of (bitop_result op xs) i = bits_spec op (map (\<lambda>x. bit_of (source x) i) xs))"
proof -
  note b = bitop_result_combines [OF assms]
  have m: "max_length xs = Max (set (map (length \<circ> source) xs))"
  proof -
    have "max_length xs = Max (insert 0 (set (map (length \<circ> source) xs)))" by (simp add: max_length_def max_fold)
    also have "\<dots> = Max (set (map (length \<circ> source) xs))" using assms by simp
    finally show ?thesis .
  qed
  show ?thesis using b assms by (simp add: m combined_def bits_fold_spec comp_def)
qed

theorem bitop_combines_bits_witness:
  "list_all (\<lambda>i. bit_of (bitop_result BITOP_XOR [Some ''ab'', None, Some ''xyz'']) i
     = bits_spec BITOP_XOR [bit_of ''ab'' i, False, bit_of ''xyz'' i]) [0..<24]"
proof -
  have n: "\<not> bit_of [] i" for i by (simp add: bit_of_def)
  show ?thesis using bitop_combines_bits [of "[Some ''ab'', None, Some ''xyz'']" BITOP_XOR] by (simp add: source_def n list_all_iff)
qed

text \<open>C31: a bit that was set is read back, and no other bit changes: after \<open>SETBIT\<close> of any bit, \<open>GETBIT\<close> of any offset answers the
  new bit at that offset and the old one everywhere else, past the end of the string too; \<open>SETBIT\<close> answers the old bit.\<close>
theorem setbit_getbit:
  assumes "calm_conf e" "calm C s" "c \<in> C" "\<not> multi (clients s c)" "list_all arg_ok [k, a, v, b]"
    "bit_offset a = Some i" "bit_offset b = Some j" "string_ll v = Some on" "on = 0 \<or> on = 1"
    "is_string (live s (cdb (clients s c)) k)"
  shows "\<exists>s'. requests e [(c, [''SETBIT'', k, a, v]), (c, [''GETBIT'', k, b])] s = Some s'
    \<and> said (clients s c) (clients s' c)
        (let old = bit_of (entry_str (live s (cdb (clients s c)) k)); shown = (\<lambda>x. if x then '':1'' @ CRLF else '':0'' @ CRLF)
         in shown (old i) @ shown (if j = i then on = 1 else old j))"
proof -
  define q where "q = [[''SETBIT'', k, a, v], [''GETBIT'', k, b]]"
  have rows: "line_row (''SETBIT'' # x) = Some (cmd ''setbit'' ''setbitCommand'' 4 ''wm'' NoGetKeys 1 1 1)"
    "line_row (''GETBIT'' # x) = Some (cmd ''getbit'' ''getbitCommand'' 3 ''rF'' NoGetKeys 1 1 1)" for x
  proof -
    have "lookupCommand redisCommandTable ''SETBIT'' = Some (cmd ''setbit'' ''setbitCommand'' 4 ''wm'' NoGetKeys 1 1 1)"
      "lookupCommand redisCommandTable ''GETBIT'' = Some (cmd ''getbit'' ''getbitCommand'' 3 ''rF'' NoGetKeys 1 1 1)" by code_simp+
    then show "line_row (''SETBIT'' # x) = Some (cmd ''setbit'' ''setbitCommand'' 4 ''wm'' NoGetKeys 1 1 1)"
      "line_row (''GETBIT'' # x) = Some (cmd ''getbit'' ''getbitCommand'' 3 ''rF'' NoGetKeys 1 1 1)" by (simp_all add: line_row_def)
  qed
  let ?i = "cdb (clients s c)" and ?old = "bit_of (entry_str (live s (cdb (clients s c)) k))"
  have "list_all queueable q" using assms(5) by (simp add: q_def demo_simps rows)
  moreover have "queue_fits (timing_of s) ?i q (live s)"
    using assms(5) by (simp add: q_def effect_simps rows split: prod.split)
  moreover have eff: "setbit_effect (live s) ?i k a v = (ks_upd (live s) ?i k (Some (StrRaw (fst (put_bit
      (entry_str (live s ?i k)) i on)), entry_ttl (live s ?i k))), 1, if ?old i then shared_cone else shared_czero)"
    using assms(6,8,9,10) by (auto simp: setbit_effect_def Let_def)
  have "\<exists>K n T. queue_effect (timing_of s) ?i q (live s)
      = (K, n, (if ?old i then shared_cone else shared_czero) @ (if (if j = i then on = 1 else ?old j) then shared_cone else shared_czero), T)"
    by (simp add: q_def effect_simps rows eff getbit_reply_def assms(7) ks_upd_apply put_bit_bits(1) [OF assms(9)] entry_str_def [of "Some _"] is_string_def [of "Some _"])
  ultimately show ?thesis
    using pipeline_run [OF assms(1-4), of q] unfolding shared_cone_def [symmetric] shared_czero_def [symmetric] Let_def
    by (auto simp: q_def said_def runD)
qed

theorem setbit_getbit_witness:
  "\<exists>s'. requests demo_conf [(1, [''SETBIT'', ''n'', ''9'', ''1'']), (1, [''GETBIT'', ''n'', ''9''])] (blank_server :: unit server) = Some s'
    \<and> said createClient (clients s' 1) ('':0'' @ CRLF @ '':1'' @ CRLF)"
proof -
  have v: "string_ll ''9'' = Some 9" "string_ll ''1'' = Some 1" by code_simp+
  then have o: "bit_offset ''9'' = Some 9" by (simp add: bit_offset_def)
  have n: "\<not> bit_of [] i" for i by (simp add: bit_of_def)
  show ?thesis
    using setbit_getbit [OF calm_demo calm_blank, of 1 "''n''" "''9''" "''1''" "''9''" 9 9 1] v o
    by (simp add: arg_ok_def is_string_def entry_str_def n)
qed

end
