(* ===== verification/Spec2Isabelle.thy ===== *)
theory Spec2Isabelle
  imports Util_Numbers Util_Glob Sds_Text Intset_Correct Dict_Map Pubsub_Correct Table_Correct Store_Limits Stream_Properties Bit_Properties
begin

text \<open>
  A model of the Redis 2.8.19 server that this repository carries (\<^verbatim>\<open>redis-2.8.19/src/\<close>), with the theorems that
  make its core correct. The Rails application around it only talks to the server over a socket and is not modelled.

  \<^bold>\<open>The program.\<close> A server process keeps numbered databases, each a table of values and a table of times of expiry. Clients
  send command lines; \<open>processCommand\<close> finds the row of the command table, applies the guards, and queues the command or
  calls its handler; handlers read and write the keyspace through the primitives of \<^verbatim>\<open>db.c\<close>, append replies to the output of
  the client, tell watching clients (\<^verbatim>\<open>multi.c\<close>) and subscribers (\<^verbatim>\<open>notify.c\<close>, \<^verbatim>\<open>pubsub.c\<close>), and count changes;
  \<open>call\<close> propagates a changing command to the append only file and the slaves. Below that lie data structures of their own: dynamic
  strings, integer sets, hash tables.

  \<^bold>\<open>Theories and sources.\<close>
  \<^item> \<open>Prelude\<close>: ranges of the machine integers, bytes, decimal notation, list lemmas; \<open>Set_Interface\<close> and
    \<open>Map_Interface\<close>: the contracts of finite sets and maps as locales, with their clients' lemmas.
  \<^item> \<open>Util\<close> (\<^verbatim>\<open>util.c\<close>): \<open>Util_Numbers\<close> proves the printers and parsers of numbers against the decimal
    notation, \<open>Util_Glob\<close> the glob matcher against the denotation of patterns.
  \<^item> \<open>Sds\<close> (\<^verbatim>\<open>sds.c\<close>): strings with a header and a buffer of bytes; \<open>Sds_Correct\<close> and \<open>Sds_Text\<close> prove bounds,
    contents, formatting, quoting and splitting.
  \<^item> \<open>Intset\<close> (\<^verbatim>\<open>intset.c\<close>): the byte array with its three encodings; \<open>Intset_Correct\<close> interprets \<open>Set_Interface\<close>.
  \<^item> \<open>Dict\<close> (\<^verbatim>\<open>dict.c\<close>): tables, chains, incremental rehashing, the scan cursor; \<open>Dict_Correct\<close>, \<open>Dict_Map\<close>
    (interprets \<open>Map_Interface\<close>) and \<open>Dict_Scan\<close>.
  \<^item> \<open>Server\<close> (\<^verbatim>\<open>redis.h\<close>, \<^verbatim>\<open>object.c\<close>, \<^verbatim>\<open>networking.c\<close>): the state \<open>server\<close> with its databases and clients, string
    objects and their encodings, replies. \<open>Demo_Server\<close>: a blank server for the instances of theorems.
  \<^item> \<open>Pubsub\<close> (\<^verbatim>\<open>pubsub.c\<close>, \<^verbatim>\<open>notify.c\<close>) and \<open>Pubsub_Correct\<close>; \<open>Watch\<close> (second half of \<^verbatim>\<open>multi.c\<close>) and
    \<open>Watch_Correct\<close>.
  \<^item> \<open>Db\<close> (\<^verbatim>\<open>db.c\<close>), \<open>T_String\<close> (\<^verbatim>\<open>t_string.c\<close>): primitives and handlers. \<open>Db_Basics\<close> and \<open>Db_Steps\<close> give the
    abstract keyspace \<open>live\<close>, the invariant \<open>server_ok\<close> and the relation \<open>run\<close>, which says what a piece of a
    command did; \<open>String_Correct\<close>, \<open>String_Updates\<close>, \<open>Key_Correct\<close> and \<open>Keyspace_All\<close> give the
    effect of each handler on every branch.
  \<^item> \<open>Bitops\<close> (\<^verbatim>\<open>bitops.c\<close>): counting, searching and combining bits, with the fast paths over machine words, and the commands;
    \<open>Bitops_Correct\<close> proves them against single bits, \<open>Bit_Commands\<close> gives the effect of the commands, and
    \<open>Bit_Properties\<close> what is promised.
  \<^item> \<open>Command_Table\<close> (the table of \<^verbatim>\<open>redis.c\<close>, key positions of \<^verbatim>\<open>db.c\<close>) and \<open>Table_Correct\<close>; \<open>Multi\<close> (first half of
    \<^verbatim>\<open>multi.c\<close>, \<open>call\<close> and \<open>processCommand\<close> of \<^verbatim>\<open>redis.c\<close>).
  \<^item> \<open>Kv_Spec\<close>: the abstract store, a function from the keyspace to the keyspace, the count of changes, the reply and the modified
    keys for each of 32 handlers, and the refinement of all of them at once. \<open>Cas_Correct\<close>: a command changes only the keys it
    reports. \<open>Request_Correct\<close>, \<open>Multi_Correct\<close>, \<open>Exec_Correct\<close>: requests, queues, \<open>EXEC\<close> and
    histories of several clients, an inductive relation whose invariant is optimistic locking.
  \<^item> \<open>Networking\<close> (input side of \<^verbatim>\<open>networking.c\<close>): the query buffer, the inline and multi bulk protocols and the loop
    that runs complete requests; \<open>Networking_Correct\<close> proves that the parser keeps its place in the stream and stays
    well formed on any bytes; \<open>Stream_Properties\<close> puts a network that cuts the stream anywhere before it and the store behind it.
  \<^item> \<open>Store_Properties\<close>, \<open>Keyspace_Properties\<close>: what clients are promised. \<open>Store_Limits\<close>: where the code does not
    keep to its documentation.

  \<^bold>\<open>Conventions.\<close> A C function on the state returns the new state; \<open>None\<close> is a failed assertion, a read or write outside a
  buffer, or an allocation that cannot succeed. Integers of the code are \<open>int\<close> with the wrap-around written out
  (\<open>wrap_ll\<close>) where it can happen, and words where bits matter. Hash tables of the server are maps, with their order of
  iteration a field of the state (\<open>order\<close>); sorted sets are opaque (the type variable of the state). The draws of random
  keys are a parameter.

  \<^bold>\<open>Bounds and fuel.\<close> \<open>random_loop\<close> and \<open>key_positions\<close> take a number of rounds; \<open>randomkey_ends\<close> shows that one more than the
  number of keys is enough, \<open>key_positions_in_range\<close> that the fuel given by the caller is. The other loops are
  structural or have termination proofs.

  \<^bold>\<open>Not modelled.\<close> Sockets, the event loop, files (persistence, replication streams) and timers are input/output; the Lua
  interpreter, the allocator and the other code under \<^verbatim>\<open>deps/\<close> are third-party. Eviction, the service of blocked clients and
  handlers of the other data types are parameters of \<open>processCommand\<close>. The sentinel, the command line tools, lists, sets,
  hashes, sorted sets and their compact encodings are left for later extensions, as is \<open>SCAN\<close> on the keyspace.
\<close>

end
